(* ===== verification/Prelude.thy ===== *)
theory Prelude
  imports Main "HOL-Library.Char_ord" "HOL-Library.List_Lexorder"
begin

text \<open>
  Shared vocabulary of the development: the machine integers of the crate, the
  text type, the theorem collections the component proofs draw on, and the
  generic facts on lists and options that more than one component needs.

  \<^item> A Rust \<open>i64\<close> is an \<^typ>\<open>int\<close>; a value the program can hold satisfies
    \<open>in_i64\<close>. Plain \<open>+\<close>, \<open>-\<close> and \<open>*\<close> wrap in the release profile
    (the workspace sets no \<open>overflow-checks\<close>), so they are \<open>i64_add\<close>,
    \<open>i64_sub\<close>, \<open>i64_mul\<close>; \<open>checked_sub\<close>, \<open>try_into\<close> and
    \<open>saturating_add\<close> are the functions of the same name.
  \<^item> \<open>u64\<close> and \<open>usize\<close> values of the crate are counts of elements of
    vectors held in memory and are \<^typ>\<open>nat\<close>.
  \<^item> A \<open>String\<close> is its UTF-8 bytes, a \<^typ>\<open>string\<close>; the order on strings is
    the bytewise lexicographic one, which is Rust's.
\<close>

section \<open>Theorem collections\<close>

named_theorems i64_simps \<open>unfolding of the machine integer operations\<close>
named_theorems model_defs \<open>small definitions of the model that proofs unfold together\<close>
named_theorems window_simps \<open>facts on half-open windows\<close>

section \<open>Machine integers\<close>

type_synonym i64 = int
type_synonym u64 = nat
type_synonym str = string

definition i64_min :: int where
  "i64_min = - (2 ^ 63)"

definition i64_max :: int where
  "i64_max = 2 ^ 63 - 1"

definition in_i64 :: "int \<Rightarrow> bool" where
  "in_i64 x \<longleftrightarrow> i64_min \<le> x \<and> x \<le> i64_max"

definition wrap_i64 :: "int \<Rightarrow> i64" where
  "wrap_i64 x = (x + 2 ^ 63) mod 2 ^ 64 - 2 ^ 63"

definition i64_add :: "i64 \<Rightarrow> i64 \<Rightarrow> i64" where
  "i64_add a b = wrap_i64 (a + b)"

definition i64_sub :: "i64 \<Rightarrow> i64 \<Rightarrow> i64" where
  "i64_sub a b = wrap_i64 (a - b)"

definition i64_mul :: "i64 \<Rightarrow> i64 \<Rightarrow> i64" where
  "i64_mul a b = wrap_i64 (a * b)"

definition try_into_i64 :: "int \<Rightarrow> i64 option" where
  "try_into_i64 x = (if in_i64 x then Some x else None)"

definition checked_sub_i64 :: "i64 \<Rightarrow> i64 \<Rightarrow> i64 option" where
  "checked_sub_i64 a b = try_into_i64 (a - b)"

definition saturating_add_i64 :: "i64 \<Rightarrow> i64 \<Rightarrow> i64" where
  "saturating_add_i64 a b = max i64_min (min i64_max (a + b))"

lemmas i64_bounds = i64_min_def i64_max_def

lemma wrap_i64_id [simp]: "in_i64 x \<Longrightarrow> wrap_i64 x = x"
  by (simp add: wrap_i64_def in_i64_def i64_bounds)

lemma in_i64_wrap [simp]: "in_i64 (wrap_i64 x)"
proof -
  have "0 \<le> (x + 2 ^ 63) mod 2 ^ 64" and "(x + 2 ^ 63) mod 2 ^ 64 < 2 ^ 64"
    by simp_all
  then show ?thesis
    by (simp add: wrap_i64_def in_i64_def i64_bounds)
qed

lemma in_i64_ops [simp]:
  "in_i64 (i64_add a b)" "in_i64 (i64_sub a b)" "in_i64 (i64_mul a b)"
  by (simp_all add: i64_add_def i64_sub_def i64_mul_def)

lemma i64_add_exact [i64_simps]: "in_i64 (a + b) \<Longrightarrow> i64_add a b = a + b"
  by (simp add: i64_add_def)

lemma i64_sub_exact [i64_simps]: "in_i64 (a - b) \<Longrightarrow> i64_sub a b = a - b"
  by (simp add: i64_sub_def)

lemma i64_mul_exact [i64_simps]: "in_i64 (a * b) \<Longrightarrow> i64_mul a b = a * b"
  by (simp add: i64_mul_def)

lemma checked_sub_Some_iff:
  "checked_sub_i64 a b = Some c \<longleftrightarrow> c = a - b \<and> in_i64 c"
  by (auto simp: checked_sub_i64_def try_into_i64_def)

lemma try_into_i64_eq_Some [simp]: "try_into_i64 x = Some y \<longleftrightarrow> x = y \<and> in_i64 x"
  by (auto simp: try_into_i64_def)

lemma try_into_i64_eq_None [simp]: "try_into_i64 x = None \<longleftrightarrow> \<not> in_i64 x"
  by (simp add: try_into_i64_def)

lemma in_i64_saturating_add [simp]: "in_i64 (saturating_add_i64 a b)"
  by (simp add: saturating_add_i64_def in_i64_def i64_bounds)

lemma saturating_add_exact [i64_simps]:
  "in_i64 (a + b) \<Longrightarrow> saturating_add_i64 a b = a + b"
  by (simp add: saturating_add_i64_def in_i64_def)

lemma in_i64_between: "in_i64 a \<Longrightarrow> in_i64 b \<Longrightarrow> a \<le> x \<Longrightarrow> x \<le> b \<Longrightarrow> in_i64 x"
  by (auto simp: in_i64_def)

section \<open>Counting over lists\<close>

abbreviation count_where :: "('a \<Rightarrow> bool) \<Rightarrow> 'a list \<Rightarrow> nat" where
  "count_where P xs \<equiv> length (filter P xs)"

lemma count_where_split:
  "count_where P xs = count_where (\<lambda>x. P x \<and> Q x) xs + count_where (\<lambda>x. P x \<and> \<not> Q x) xs"
  by (induction xs) auto

lemma count_where_disj:
  assumes "\<And>x. x \<in> set xs \<Longrightarrow> \<not> (P x \<and> Q x)"
  shows "count_where (\<lambda>x. P x \<or> Q x) xs = count_where P xs + count_where Q xs"
  using assms by (induction xs) auto

lemma count_where_mono:
  assumes "\<And>x. x \<in> set xs \<Longrightarrow> P x \<Longrightarrow> Q x"
  shows "count_where P xs \<le> count_where Q xs"
  using assms by (induction xs) auto

lemma count_where_pos: "0 < count_where P xs \<longleftrightarrow> (\<exists>x \<in> set xs. P x)"
  by (induction xs) auto

lemma sum_list_filter_split:
  fixes f :: "'a \<Rightarrow> 'b::comm_monoid_add"
  shows "sum_list (map f (filter P xs)) =
    sum_list (map f (filter (\<lambda>x. P x \<and> Q x) xs)) +
    sum_list (map f (filter (\<lambda>x. P x \<and> \<not> Q x) xs))"
  by (induction xs) (auto simp: add.assoc add.left_commute)

lemma sum_list_map_const_one: "sum_list (map (\<lambda>_. 1) xs) = length xs"
  by (induction xs) auto

lemma filter_id_all: "(\<And>x. x \<in> set xs \<Longrightarrow> P x) \<Longrightarrow> filter P xs = xs"
  by simp

section \<open>Options\<close>

definition is_some_and :: "'a option \<Rightarrow> ('a \<Rightarrow> bool) \<Rightarrow> bool" where
  "is_some_and x P = (case x of None \<Rightarrow> False | Some a \<Rightarrow> P a)"

definition is_none_or :: "'a option \<Rightarrow> ('a \<Rightarrow> bool) \<Rightarrow> bool" where
  "is_none_or x P = (case x of None \<Rightarrow> True | Some a \<Rightarrow> P a)"

definition opt_filter :: "('a \<Rightarrow> bool) \<Rightarrow> 'a option \<Rightarrow> 'a option" where
  "opt_filter P x = (case x of None \<Rightarrow> None | Some a \<Rightarrow> if P a then Some a else None)"

definition map_or :: "'b \<Rightarrow> ('a \<Rightarrow> 'b) \<Rightarrow> 'a option \<Rightarrow> 'b" where
  "map_or d f x = (case x of None \<Rightarrow> d | Some a \<Rightarrow> f a)"

definition then_some :: "bool \<Rightarrow> 'a \<Rightarrow> 'a option" where
  "then_some b x = (if b then Some x else None)"

definition opt_zip :: "'a option \<Rightarrow> 'b option \<Rightarrow> ('a \<times> 'b) option" where
  "opt_zip x y = (case x of None \<Rightarrow> None | Some a \<Rightarrow> map_option (Pair a) y)"

lemma is_some_and_simps [simp]:
  "is_some_and None P = False" "is_some_and (Some a) P = P a"
  by (simp_all add: is_some_and_def)

lemma is_none_or_simps [simp]:
  "is_none_or None P = True" "is_none_or (Some a) P = P a"
  by (simp_all add: is_none_or_def)

lemma opt_filter_simps [simp]:
  "opt_filter P None = None" "opt_filter P (Some a) = (if P a then Some a else None)"
  by (simp_all add: opt_filter_def)

lemma opt_filter_eq_Some [simp]: "opt_filter P x = Some a \<longleftrightarrow> x = Some a \<and> P a"
  by (cases x) auto

lemma map_or_simps [simp]: "map_or d f None = d" "map_or d f (Some a) = f a"
  by (simp_all add: map_or_def)

lemma then_some_simps [simp]:
  "then_some True x = Some x" "then_some False x = None"
  by (simp_all add: then_some_def)

lemma then_some_eq_Some [simp]: "then_some b x = Some y \<longleftrightarrow> b \<and> x = y"
  by (simp add: then_some_def)

lemma then_some_eq_None [simp]: "then_some b x = None \<longleftrightarrow> \<not> b"
  by (simp add: then_some_def)

lemma opt_zip_simps [simp]:
  "opt_zip None y = None" "opt_zip x None = None" "opt_zip (Some a) (Some b) = Some (a, b)"
  by (cases x; simp add: opt_zip_def)+

lemma opt_zip_eq_Some [simp]: "opt_zip x y = Some (a, b) \<longleftrightarrow> x = Some a \<and> y = Some b"
  by (cases x; cases y) auto

text \<open>Rust's \<open>filter_map\<close> on an iterator.\<close>

fun filter_map :: "('a \<Rightarrow> 'b option) \<Rightarrow> 'a list \<Rightarrow> 'b list" where
  "filter_map f [] = []"
| "filter_map f (x # xs) =
     (case f x of None \<Rightarrow> filter_map f xs | Some y \<Rightarrow> y # filter_map f xs)"

lemma set_filter_map: "set (filter_map f xs) = {y. \<exists>x \<in> set xs. f x = Some y}"
  by (induction xs) (auto split: option.splits)

lemma filter_map_append [simp]: "filter_map f (xs @ ys) = filter_map f xs @ filter_map f ys"
  by (induction xs) (auto split: option.splits)

lemma length_filter_map: "length (filter_map f xs) = count_where (\<lambda>x. f x \<noteq> None) xs"
  by (induction xs) (auto split: option.splits)

text \<open>Rust's \<open>find\<close> is the library's \<^const>\<open>List.find\<close>.\<close>

lemma find_SomeD: "List.find P xs = Some x \<Longrightarrow> x \<in> set xs \<and> P x"
  by (induction xs) (auto split: if_splits)

lemma find_Some_iff_unique:
  assumes "\<And>x y. x \<in> set xs \<Longrightarrow> y \<in> set xs \<Longrightarrow> P x \<Longrightarrow> P y \<Longrightarrow> x = y"
  shows "List.find P xs = Some x \<longleftrightarrow> x \<in> set xs \<and> P x"
  using assms
proof (induction xs)
  case (Cons a xs)
  from Cons.prems have "\<And>x y. x \<in> set xs \<Longrightarrow> y \<in> set xs \<Longrightarrow> P x \<Longrightarrow> P y \<Longrightarrow> x = y"
    by simp
  then have IH: "List.find P xs = Some x \<longleftrightarrow> x \<in> set xs \<and> P x" by (rule Cons.IH)
  show ?case
  proof (cases "P a")
    case True
    with Cons.prems [of a x] show ?thesis by auto
  next
    case False
    with IH show ?thesis by auto
  qed
qed simp

end
