(* ===== verification/Texts.thy ===== *)
theory Texts
  imports Prelude "HOL-Library.Sublist"
begin

text \<open>
  The text operations of the standard library the crate uses: decimal
  rendering with and without zero padding, \<open>str::split\<close> and
  \<open>split_once\<close> on one character, \<open>join\<close>, the prefix and suffix tests, and the
  closed vocabularies (\<open>as_str\<close> with a \<open>parse\<close> that searches \<open>ALL\<close>).
  Splitting and joining are inverse, and so are fixed-width rendering and the
  parsing of fixed-width digits; the locale \<open>wire_enum\<close> proves once that a
  vocabulary with distinct names is parsed exactly.
\<close>

section \<open>Decimal numbers\<close>

definition digit_char :: "nat \<Rightarrow> char" where
  "digit_char d = char_of (48 + d)"

definition char_digit :: "char \<Rightarrow> nat" where
  "char_digit c = of_char c - 48"

definition is_ascii_digit :: "char \<Rightarrow> bool" where
  "is_ascii_digit c \<longleftrightarrow> CHR ''0'' \<le> c \<and> c \<le> CHR ''9''"

fun show_nat :: "nat \<Rightarrow> string" where
  "show_nat n = (if n < 10 then [digit_char n] else show_nat (n div 10) @ [digit_char (n mod 10)])"

declare show_nat.simps [simp del]

definition show_int :: "int \<Rightarrow> string" where
  "show_int i = (if i < 0 then ''-'' @ show_nat (nat (- i)) else show_nat (nat i))"

definition show_pad :: "nat \<Rightarrow> nat \<Rightarrow> string" where
  "show_pad w n = replicate (w - length (show_nat n)) (CHR ''0'') @ show_nat n"

definition parse_digits :: "string \<Rightarrow> nat" where
  "parse_digits s = foldl (\<lambda>acc c. 10 * acc + char_digit c) 0 s"

lemma of_char_digit_char [simp]: "d < 10 \<Longrightarrow> of_char (digit_char d) = (48 + d :: nat)"
  by (simp add: digit_char_def)

lemma char_digit_char [simp]: "d < 10 \<Longrightarrow> char_digit (digit_char d) = d"
  by (simp add: char_digit_def)

lemma is_ascii_digit_iff: "is_ascii_digit c \<longleftrightarrow> 48 \<le> (of_char c :: nat) \<and> (of_char c :: nat) \<le> 57"
  by (simp add: is_ascii_digit_def less_eq_char_def)

lemma is_ascii_digit_digit_char [simp]: "d < 10 \<Longrightarrow> is_ascii_digit (digit_char d)"
  by (simp add: is_ascii_digit_iff)

lemma digit_char_char_digit: "is_ascii_digit c \<Longrightarrow> digit_char (char_digit c) = c"
  by (simp add: is_ascii_digit_iff digit_char_def char_digit_def)

lemma char_digit_less: "is_ascii_digit c \<Longrightarrow> char_digit c < 10"
  by (auto simp: is_ascii_digit_iff char_digit_def)

lemma show_nat_digits: "\<forall>c \<in> set (show_nat n). is_ascii_digit c"
proof (induction n rule: show_nat.induct)
  case (1 n)
  then show ?case by (subst show_nat.simps) auto
qed

lemma parse_digits_append [simp]:
  "parse_digits (s @ [c]) = 10 * parse_digits s + char_digit c"
  by (simp add: parse_digits_def)

lemma parse_show_nat [simp]: "parse_digits (show_nat n) = n"
proof (induction n rule: show_nat.induct)
  case (1 n)
  then show ?case
    by (subst show_nat.simps) (auto simp: parse_digits_def)
qed

lemma parse_digits_zeros [simp]:
  "parse_digits (replicate k (CHR ''0'') @ s) = parse_digits s"
  by (induction k) (simp_all add: parse_digits_def char_digit_def)

lemma parse_show_pad [simp]: "parse_digits (show_pad w n) = n"
  by (simp add: show_pad_def)

lemma length_show_nat_le:
  assumes "n < 10 ^ w" and "0 < w"
  shows "length (show_nat n) \<le> w"
  using assms
proof (induction n arbitrary: w rule: show_nat.induct)
  case (1 n)
  show ?case
  proof (cases "n < 10")
    case True
    with 1 show ?thesis by (subst show_nat.simps) auto
  next
    case False
    then obtain v where w: "w = Suc v" and v: "0 < v"
      using 1 by (cases w; cases "w - 1") auto
    then have "n div 10 < 10 ^ v" using 1 by (simp add: less_mult_imp_div_less mult.commute)
    then have "length (show_nat (n div 10)) \<le> v" using 1 False v by blast
    then show ?thesis using False w by (subst show_nat.simps) simp
  qed
qed

lemma length_show_pad:
  "n < 10 ^ w \<Longrightarrow> 0 < w \<Longrightarrow> length (show_pad w n) = w"
  using length_show_nat_le [of n w] by (simp add: show_pad_def)

lemma show_pad_digits: "\<forall>c \<in> set (show_pad w n). is_ascii_digit c"
  using show_nat_digits [of n] by (auto simp: show_pad_def is_ascii_digit_def)

lemma parse_digits_inj:
  assumes "length s = length t" and "\<forall>c \<in> set s. is_ascii_digit c" and "\<forall>c \<in> set t. is_ascii_digit c"
    and "parse_digits s = parse_digits t"
  shows "s = t"
  using assms
proof (induction s arbitrary: t rule: rev_induct)
  case (snoc c s)
  then obtain t' d where t: "t = t' @ [d]" by (cases t rule: rev_cases) auto
  have c: "char_digit c < 10" and d: "char_digit d < 10"
    using snoc.prems t by (simp_all add: char_digit_less)
  have "10 * parse_digits s + char_digit c = 10 * parse_digits t' + char_digit d"
    using snoc.prems t by simp
  with c d have "parse_digits s = parse_digits t'" and cd: "char_digit c = char_digit d" by arith+
  with snoc t have "s = t'" by auto
  moreover have "is_ascii_digit c" "is_ascii_digit d" using snoc.prems t by simp_all
  then have "c = d" using cd digit_char_char_digit by metis
  ultimately show ?case using t by simp
qed simp

lemma parse_digits_less: "\<forall>c \<in> set s. is_ascii_digit c \<Longrightarrow> parse_digits s < 10 ^ length s"
proof (induction s rule: rev_induct)
  case (snoc c s)
  then have "parse_digits s < 10 ^ length s" and "char_digit c < 10"
    by (simp_all add: char_digit_less)
  then show ?case by simp
qed (simp add: parse_digits_def)

text \<open>The digits of a fixed width and the number they spell determine each other.\<close>

lemma show_pad_parse:
  assumes "\<forall>c \<in> set s. is_ascii_digit c" and "s \<noteq> []"
  shows "show_pad (length s) (parse_digits s) = s"
  by (rule parse_digits_inj)
    (use assms parse_digits_less [OF assms(1)] in \<open>simp_all add: length_show_pad show_pad_digits\<close>)

section \<open>Splitting and joining\<close>

fun split_on :: "char \<Rightarrow> string \<Rightarrow> string list" where
  "split_on c [] = [[]]"
| "split_on c (x # xs) =
     (if x = c then [] # split_on c xs
      else case split_on c xs of [] \<Rightarrow> [[x]] | y # ys \<Rightarrow> (x # y) # ys)"

fun join :: "string \<Rightarrow> string list \<Rightarrow> string" where
  "join sep [] = []"
| "join sep [x] = x"
| "join sep (x # y # ys) = x @ sep @ join sep (y # ys)"

fun split_once :: "char \<Rightarrow> string \<Rightarrow> (string \<times> string) option" where
  "split_once c [] = None"
| "split_once c (x # xs) =
     (if x = c then Some ([], xs)
      else case split_once c xs of None \<Rightarrow> None | Some (a, b) \<Rightarrow> Some (x # a, b))"

definition starts_with :: "string \<Rightarrow> string \<Rightarrow> bool" where
  "starts_with p s = prefix p s"

definition ends_with :: "string \<Rightarrow> string \<Rightarrow> bool" where
  "ends_with p s = suffix p s"

definition str_contains :: "string \<Rightarrow> string \<Rightarrow> bool" where
  "str_contains p s = list_ex (prefix p) (suffixes s)"

definition strip_prefix :: "string \<Rightarrow> string \<Rightarrow> string option" where
  "strip_prefix p s = (if prefix p s then Some (drop (length p) s) else None)"

lemma split_on_not_Nil [simp]: "split_on c s \<noteq> []"
  by (induction s) (auto split: list.splits)

lemma split_on_no_sep: "x \<in> set (split_on c s) \<Longrightarrow> c \<notin> set x"
  by (induction s arbitrary: x) (auto split: list.splits if_splits)

lemma join_Cons: "xs \<noteq> [] \<Longrightarrow> join sep (x # xs) = x @ sep @ join sep xs"
  by (cases xs) auto

lemma join_split_on: "join [c] (split_on c s) = s"
proof (induction s)
  case (Cons x s)
  obtain y ys where "split_on c s = y # ys" by (cases "split_on c s") auto
  with Cons show ?case by (cases ys) auto
qed simp

lemma split_on_plain: "c \<notin> set s \<Longrightarrow> split_on c s = [s]"
  by (induction s) auto

lemma split_on_append_sep: "c \<notin> set a \<Longrightarrow> split_on c (a @ c # b) = a # split_on c b"
  by (induction a) auto

lemma split_on_join:
  assumes "xs \<noteq> []" and "\<And>x. x \<in> set xs \<Longrightarrow> c \<notin> set x"
  shows "split_on c (join [c] xs) = xs"
  using assms
proof (induction xs)
  case (Cons x xs)
  then show ?case
    by (cases xs) (auto simp: split_on_plain split_on_append_sep join_Cons)
qed simp

lemma split_once_append: "c \<notin> set a \<Longrightarrow> split_once c (a @ c # b) = Some (a, b)"
  by (induction a) auto

lemma split_once_SomeD: "split_once c s = Some (a, b) \<Longrightarrow> s = a @ c # b \<and> c \<notin> set a"
  by (induction s arbitrary: a) (auto split: option.splits if_splits)

lemma split_once_Some: "split_once c s = Some (a, b) \<longleftrightarrow> s = a @ c # b \<and> c \<notin> set a"
  using split_once_append split_once_SomeD by metis

lemma split_once_None: "split_once c s = None \<longleftrightarrow> c \<notin> set s"
  by (induction s) (auto split: option.splits)

section \<open>Closed vocabularies\<close>

definition wire_parse :: "'a list \<Rightarrow> ('a \<Rightarrow> string) \<Rightarrow> string \<Rightarrow> 'a option" where
  "wire_parse all as_str t = List.find (\<lambda>x. as_str x = t) all"

locale wire_enum =
  fixes all :: "'a list" and as_str :: "'a \<Rightarrow> string"
  assumes complete: "x \<in> set all"
    and distinct_names: "as_str x = as_str y \<Longrightarrow> x = y"
begin

lemma parse_iff: "wire_parse all as_str t = Some x \<longleftrightarrow> as_str x = t"
proof -
  have "List.find (\<lambda>x. as_str x = t) all = Some x \<longleftrightarrow> x \<in> set all \<and> as_str x = t"
    by (rule find_Some_iff_unique) (auto dest: distinct_names)
  then show ?thesis by (simp add: wire_parse_def complete)
qed

lemma parse_as_str: "wire_parse all as_str (as_str x) = Some x"
  by (simp add: parse_iff)

lemma parse_None_iff: "wire_parse all as_str t = None \<longleftrightarrow> t \<notin> range as_str"
proof (cases "wire_parse all as_str t")
  case None
  then show ?thesis using parse_as_str by auto
next
  case (Some x)
  then have "as_str x = t" by (simp add: parse_iff)
  with Some show ?thesis by auto
qed

end

end
