(* ===== verification/Calendar.thy ===== *)
theory Calendar
  imports Texts
begin

text \<open>
  The part of \<open>chrono\<close> the program calls, as a parameter. An instant
  \<open>DateTime<Utc>\<close> is its whole seconds since the epoch, so \<open>timestamp()\<close> is the
  identity; a \<open>NaiveDate\<close> is its number of days since the epoch. The record
  \<open>chrono\<close> holds the functions the source calls, the locale \<open>chrono_laws\<close> what
  their documentation promises, and \<open>gregorian\<close> is a proleptic Gregorian calendar
  over the years \<open>chrono\<close> covers, on which the laws are proved.
\<close>

section \<open>The interface\<close>

type_synonym datetime = int
type_synonym naive_date = int

record chrono =
  dt_min :: datetime
  dt_max :: datetime
  from_timestamp :: "i64 \<Rightarrow> datetime option"
  dt_year :: "datetime \<Rightarrow> int"
  dt_month :: "datetime \<Rightarrow> nat"
  dt_hour :: "datetime \<Rightarrow> nat"
  dt_weekday :: "datetime \<Rightarrow> nat"
  date_naive :: "datetime \<Rightarrow> naive_date"
  date_sub_days :: "naive_date \<Rightarrow> nat \<Rightarrow> naive_date option"
  date_midnight :: "naive_date \<Rightarrow> datetime option"
  checked_add_days :: "datetime \<Rightarrow> nat \<Rightarrow> datetime option"
  checked_sub_days :: "datetime \<Rightarrow> nat \<Rightarrow> datetime option"
  checked_sub_months :: "datetime \<Rightarrow> nat \<Rightarrow> datetime option"
  with_ymd :: "int \<Rightarrow> nat \<Rightarrow> nat \<Rightarrow> datetime option"
  dt_format :: "str \<Rightarrow> datetime \<Rightarrow> str"
  dt_to_rfc3339 :: "datetime \<Rightarrow> str"
  parse_from_rfc3339 :: "str \<Rightarrow> datetime option"

abbreviation day_secs :: int where
  "day_secs \<equiv> 86400"

definition ym_le :: "int \<Rightarrow> nat \<Rightarrow> int \<Rightarrow> nat \<Rightarrow> bool" where
  "ym_le y m y' m' \<longleftrightarrow> y < y' \<or> y = y' \<and> m \<le> m'"

definition ym_next :: "int \<Rightarrow> nat \<Rightarrow> int \<times> nat" where
  "ym_next y m = (if m = 12 then (y + 1, 1) else (y, m + 1))"

definition ym_back :: "int \<Rightarrow> nat \<Rightarrow> nat \<Rightarrow> int \<times> nat" where
  "ym_back y m k =
     (let i = 12 * y + int m - 1 - int k in (i div 12, nat (i mod 12) + 1))"

definition dt_valid :: "chrono \<Rightarrow> int \<Rightarrow> bool" where
  "dt_valid ch t \<longleftrightarrow> dt_min ch \<le> t \<and> t \<le> dt_max ch"

locale chrono_laws =
  fixes ch :: chrono
  assumes range_wide: "dt_min ch \<le> -62167219200" "253433923199 \<le> dt_max ch"
    and range_i64: "- (2 ^ 60) \<le> dt_min ch" "dt_max ch \<le> 2 ^ 60"
    and range_days: "dt_min ch mod day_secs = 0" "dt_max ch mod day_secs = day_secs - 1"
    and timestamp: "from_timestamp ch t = (if dt_valid ch t then Some t else None)"
    and hour: "dt_valid ch d \<Longrightarrow> dt_hour ch d = nat (d mod day_secs div 3600)"
    and weekday: "dt_valid ch d \<Longrightarrow> dt_weekday ch d = nat ((d div day_secs + 3) mod 7)"
    and naive: "dt_valid ch d \<Longrightarrow> date_naive ch d = d div day_secs"
    and naive_sub: "dt_valid ch (day_secs * n) \<Longrightarrow> date_sub_days ch n k =
      (if dt_valid ch (day_secs * (n - int k)) then Some (n - int k) else None)"
    and midnight: "dt_valid ch (day_secs * n) \<Longrightarrow> date_midnight ch n = Some (day_secs * n)"
    and add_days: "dt_valid ch d \<Longrightarrow> checked_add_days ch d k =
      (if dt_valid ch (d + day_secs * int k) then Some (d + day_secs * int k) else None)"
    and sub_days: "dt_valid ch d \<Longrightarrow> checked_sub_days ch d k =
      (if dt_valid ch (d - day_secs * int k) then Some (d - day_secs * int k) else None)"
    and month_range: "dt_valid ch d \<Longrightarrow> 1 \<le> dt_month ch d \<and> dt_month ch d \<le> 12"
    and ymd_first: "with_ymd ch y m 1 = Some s \<Longrightarrow>
      dt_valid ch s \<and> s mod day_secs = 0 \<and> dt_year ch s = y \<and> dt_month ch s = m"
    and ymd_le: "with_ymd ch y m 1 = Some s \<Longrightarrow> dt_valid ch d \<Longrightarrow>
      s \<le> d \<longleftrightarrow> ym_le y m (dt_year ch d) (dt_month ch d)"
    and ymd_of: "dt_valid ch d \<Longrightarrow> \<exists>s. with_ymd ch (dt_year ch d) (dt_month ch d) 1 = Some s"
    and ymd_january: "dt_valid ch d \<Longrightarrow> \<exists>s. with_ymd ch (dt_year ch d) 1 1 = Some s"
    and ymd_exists: "0 \<le> y \<Longrightarrow> y \<le> 10000 \<Longrightarrow> 1 \<le> m \<Longrightarrow> m \<le> 12 \<Longrightarrow> \<exists>s. with_ymd ch y m 1 = Some s"
    and month_step: "dt_valid ch d \<Longrightarrow> dt_valid ch (d + 31 * day_secs) \<Longrightarrow>
      ym_next (dt_year ch d) (dt_month ch d) = (y, m) \<Longrightarrow>
      \<exists>s. with_ymd ch y m 1 = Some s \<and> s \<le> d + 31 * day_secs"
    and year_step: "dt_valid ch d \<Longrightarrow> dt_valid ch (d + 366 * day_secs) \<Longrightarrow>
      \<exists>s. with_ymd ch (dt_year ch d + 1) 1 1 = Some s \<and> s \<le> d + 366 * day_secs"
    and sub_months: "with_ymd ch y m 1 = Some s \<Longrightarrow> ym_back y m k = (y', m') \<Longrightarrow>
      checked_sub_months ch s k = with_ymd ch y' m' 1"
    and rfc3339: "dt_valid ch d \<Longrightarrow> 0 \<le> dt_year ch d \<Longrightarrow> dt_year ch d \<le> 9999 \<Longrightarrow>
      parse_from_rfc3339 ch (dt_to_rfc3339 ch d) = Some d"
begin

lemma valid_from_timestamp: "from_timestamp ch t = Some d \<longleftrightarrow> dt_valid ch t \<and> d = t"
  by (auto simp: timestamp)

lemma ymd_refl: "with_ymd ch (dt_year ch d) (dt_month ch d) 1 = Some s \<Longrightarrow> dt_valid ch d \<Longrightarrow> s \<le> d"
  by (simp add: ymd_le ym_le_def)

lemma january_le: "with_ymd ch (dt_year ch d) 1 1 = Some s \<Longrightarrow> dt_valid ch d \<Longrightarrow> s \<le> d"
  using month_range [of d] by (simp add: ymd_le ym_le_def)

lemma ymd_next_gt:
  assumes "dt_valid ch d" and "ym_next (dt_year ch d) (dt_month ch d) = (y, m)"
    and "with_ymd ch y m 1 = Some s"
  shows "d < s"
  using ymd_le [OF assms(3,1)] assms(2) month_range [OF assms(1)]
  by (auto simp: ym_next_def ym_le_def split: if_splits)

lemma year_next_gt:
  assumes "dt_valid ch d" and "with_ymd ch (dt_year ch d + 1) 1 1 = Some s"
  shows "d < s"
  using ymd_le [OF assms(2,1)] by (simp add: ym_le_def)

lemma year_month_mono:
  assumes "dt_valid ch d" and "dt_valid ch e" and "d \<le> e"
  shows "ym_le (dt_year ch d) (dt_month ch d) (dt_year ch e) (dt_month ch e)"
proof -
  obtain s where s: "with_ymd ch (dt_year ch d) (dt_month ch d) 1 = Some s"
    using ymd_of [OF assms(1)] by blast
  then have "s \<le> e" using ymd_refl [OF s assms(1)] assms(3) by simp
  with ymd_le [OF s assms(2)] show ?thesis by simp
qed

lemma ymd_mono:
  assumes "with_ymd ch y m 1 = Some s" and "with_ymd ch y' m' 1 = Some s'"
  shows "s \<le> s' \<longleftrightarrow> ym_le y m y' m'"
  using ymd_le [OF assms(1)] ymd_first [OF assms(2)] by simp

end

section \<open>A proleptic Gregorian calendar\<close>

definition leap_year :: "int \<Rightarrow> bool" where
  "leap_year y \<longleftrightarrow> y mod 4 = 0 \<and> y mod 100 \<noteq> 0 \<or> y mod 400 = 0"

definition year_start :: "int \<Rightarrow> int" where
  "year_start y = 365 * (y - 1) + (y - 1) div 4 - (y - 1) div 100 + (y - 1) div 400 - 719162"

definition days_before :: "nat \<Rightarrow> int" where
  "days_before m = [0, 31, 59, 90, 120, 151, 181, 212, 243, 273, 304, 334, 365] ! (m - 1)"

definition month_start :: "int \<Rightarrow> nat \<Rightarrow> int" where
  "month_start y m = year_start y + days_before m + (if leap_year y \<and> 2 < m then 1 else 0)"

definition month_length :: "int \<Rightarrow> nat \<Rightarrow> int" where
  "month_length y m = month_start y (m + 1) - month_start y m"

definition civil_year :: "int \<Rightarrow> int" where
  "civil_year n =
     (let e = 400 * (n + 719162) div 146097 in
      if year_start (e + 2) \<le> n then e + 2
      else if year_start (e + 1) \<le> n then e + 1
      else if year_start e \<le> n then e else e - 1)"

definition civil_month :: "int \<Rightarrow> nat" where
  "civil_month n = last (filter (\<lambda>m. month_start (civil_year n) m \<le> n) [1..<13])"

definition civil_day :: "int \<Rightarrow> nat" where
  "civil_day n = nat (n - month_start (civil_year n) (civil_month n)) + 1"

abbreviation greg_min_year :: int where "greg_min_year \<equiv> -262143"
abbreviation greg_max_year :: int where "greg_max_year \<equiv> 262142"

definition greg_ymd :: "int \<Rightarrow> nat \<Rightarrow> nat \<Rightarrow> int option" where
  "greg_ymd y m d =
     (if greg_min_year \<le> y \<and> y \<le> greg_max_year \<and> 1 \<le> m \<and> m \<le> 12 \<and> 1 \<le> d \<and> int d \<le> month_length y m
      then Some (day_secs * (month_start y m + int d - 1)) else None)"

lemma int_div_pred:
  fixes y k :: int
  assumes "0 < k"
  shows "y div k = (y - 1) div k + (if y mod k = 0 then 1 else 0)"
proof (cases "y mod k = 0")
  case True
  have "y - 1 = k * (y div k - 1) + (k - 1)"
    using True mult_div_mod_eq [of k y] by (simp add: right_diff_distrib)
  then have "(y - 1) div k = y div k - 1" by (rule int_div_pos_eq) (use assms in simp_all)
  with True show ?thesis by simp
next
  case False
  have "y - 1 = k * (y div k) + (y mod k - 1)" using mult_div_mod_eq [of k y] by simp
  moreover have "0 \<le> y mod k - 1" "y mod k - 1 < k"
    using False assms pos_mod_bound [of k y] pos_mod_sign [of k y] by linarith+
  ultimately have "(y - 1) div k = y div k" by (intro int_div_pos_eq)
  with False show ?thesis by simp
qed

lemma year_start_Suc: "year_start (y + 1) = year_start y + 365 + (if leap_year y then 1 else 0)"
proof -
  have m: "y mod 100 = 0 \<Longrightarrow> y mod 4 = 0" "y mod 400 = 0 \<Longrightarrow> y mod 100 = 0"
    by presburger+
  have "year_start (y + 1) = 365 * y + y div 4 - y div 100 + y div 400 - 719162"
    by (simp add: year_start_def)
  also have "\<dots> = year_start y + 365 + (if leap_year y then 1 else 0)"
    using m unfolding int_div_pred [of 4 y, simplified] int_div_pred [of 100 y, simplified]
      int_div_pred [of 400 y, simplified]
    by (auto simp: year_start_def leap_year_def)
  finally show ?thesis .
qed

lemma year_start_strict_mono: "y < y' \<Longrightarrow> year_start y < year_start y'"
proof (induction y' rule: int_gr_induct [where k = y])
  case base
  show ?case by (simp add: year_start_Suc)
next
  case (step i)
  then show ?case by (simp add: year_start_Suc)
qed

lemma year_start_mono_iff: "year_start y \<le> year_start y' \<longleftrightarrow> y \<le> y'"
  using year_start_strict_mono [of y y'] year_start_strict_mono [of y' y] by (cases y y' rule: linorder_cases) auto

lemma div_bounds: "0 < k \<Longrightarrow> k * (x div k) \<le> x \<and> x < k * (x div k) + k" for x k :: int
  using mult_div_mod_eq [of k x] pos_mod_bound [of k x] pos_mod_sign [of k x] by linarith

lemma year_start_bounds:
  "400 * year_start y \<le> 146097 * y - 287810097"
  "146097 * y - 287811697 \<le> 400 * year_start y"
proof -
  define a b c where "a = (y - 1) div 4" and "b = (y - 1) div 100" and "c = (y - 1) div 400"
  have "4 * a \<le> y - 1 \<and> y - 1 < 4 * a + 4" "100 * b \<le> y - 1 \<and> y - 1 < 100 * b + 100"
    "400 * c \<le> y - 1 \<and> y - 1 < 400 * c + 400"
    unfolding a_def b_def c_def by (simp_all add: div_bounds)
  moreover have "year_start y = 365 * y - 365 + a - b + c - 719162"
    by (simp add: year_start_def a_def b_def c_def)
  ultimately show "400 * year_start y \<le> 146097 * y - 287810097"
    "146097 * y - 287811697 \<le> 400 * year_start y" by linarith+
qed

lemma civil_year_bounds: "year_start (civil_year n) \<le> n" "n < year_start (civil_year n + 1)"
proof -
  define e where "e = 400 * (n + 719162) div 146097"
  have e: "146097 * e \<le> 400 * n + 287664800" "400 * n + 287664800 < 146097 * e + 146097"
    using div_bounds [of 146097 "400 * (n + 719162)"] by (simp_all add: e_def)
  have lo: "year_start (e - 1) \<le> n" using year_start_bounds(1) [of "e - 1"] e(1) by simp
  have hi: "n < year_start (e + 3)" using year_start_bounds(2) [of "e + 3"] e(2) by simp
  have "civil_year n = (if year_start (e + 2) \<le> n then e + 2 else if year_start (e + 1) \<le> n then e + 1
      else if year_start e \<le> n then e else e - 1)"
    by (simp only: civil_year_def Let_def e_def)
  with lo hi show "year_start (civil_year n) \<le> n" "n < year_start (civil_year n + 1)"
    by (auto simp: not_le add.commute [of e])
qed

lemma civil_year_le_iff: "year_start y \<le> n \<longleftrightarrow> y \<le> civil_year n"
proof
  assume "year_start y \<le> n"
  then have "year_start y < year_start (civil_year n + 1)" using civil_year_bounds(2) [of n] by simp
  then show "y \<le> civil_year n" using year_start_mono_iff [of "civil_year n + 1" y] by simp
next
  assume "y \<le> civil_year n"
  then show "year_start y \<le> n"
    using civil_year_bounds(1) [of n] year_start_mono_iff [of y "civil_year n"] by simp
qed

lemma sorted_last_ge: "sorted xs \<Longrightarrow> (x::nat) \<in> set xs \<Longrightarrow> x \<le> last xs"
  by (induction xs) auto

lemma months_set: "{1..12::nat} = {1,2,3,4,5,6,7,8,9,10,11,12}"
proof -
  have "{1..12::nat} = set [1..<13]" by auto
  also have "[1..<13] = [1,2,3,4,5,6,7,8,9,10,11,12::nat]" by (simp add: upt_rec)
  finally show ?thesis by simp
qed

lemma month_length_pos:
  assumes "1 \<le> m" "m \<le> 12"
  shows "28 \<le> month_length y m" "month_length y m \<le> 31"
proof -
  have "m \<in> {1..12}" using assms by simp
  then have "28 \<le> month_length y m \<and> month_length y m \<le> 31"
    unfolding months_set by (auto simp: month_length_def month_start_def days_before_def)
  then show "28 \<le> month_length y m" "month_length y m \<le> 31" by simp_all
qed

lemma month_start_1: "month_start y 1 = year_start y"
  by (simp add: month_start_def days_before_def)

lemma month_start_13: "month_start y 13 = year_start (y + 1)"
  by (simp add: month_start_def days_before_def year_start_Suc)

lemma month_start_mono:
  assumes "1 \<le> m" "m \<le> m'" "m' \<le> 13"
  shows "month_start y m \<le> month_start y m'"
  using assms(2,1,3)
proof (induction m' rule: dec_induct)
  case (step k)
  then have "month_start y (k + 1) = month_start y k + month_length y k" by (simp add: month_length_def)
  with step month_length_pos [of k y] show ?case by simp
qed simp

lemma month_start_Suc: "month_start y (m + 1) = month_start y m + month_length y m"
  by (simp add: month_length_def)

lemma civil_month_filter: "1 \<in> set (filter (\<lambda>m. month_start (civil_year n) m \<le> n) [1..<13])"
  using civil_year_bounds(1) [of n] by (simp add: month_start_1 [simplified])

lemma civil_month_range: "1 \<le> civil_month n" "civil_month n \<le> 12"
  and civil_month_start: "month_start (civil_year n) (civil_month n) \<le> n"
proof -
  let ?f = "filter (\<lambda>m. month_start (civil_year n) m \<le> n) [1..<13]"
  have "?f \<noteq> []" using civil_month_filter [of n] by (metis empty_iff set_empty2)
  then have "civil_month n \<in> set ?f" unfolding civil_month_def by (rule last_in_set)
  then show "1 \<le> civil_month n" "civil_month n \<le> 12"
    "month_start (civil_year n) (civil_month n) \<le> n" by auto
qed

lemma civil_month_le_iff:
  assumes "1 \<le> m" "m \<le> 12"
  shows "month_start (civil_year n) m \<le> n \<longleftrightarrow> m \<le> civil_month n"
proof
  assume "m \<le> civil_month n"
  then have "month_start (civil_year n) m \<le> month_start (civil_year n) (civil_month n)"
    using assms civil_month_range [of n] by (intro month_start_mono) auto
  then show "month_start (civil_year n) m \<le> n" using civil_month_start [of n] by simp
next
  let ?f = "filter (\<lambda>m. month_start (civil_year n) m \<le> n) [1..<13]"
  assume "month_start (civil_year n) m \<le> n"
  then have "m \<in> set ?f" using assms by simp
  moreover have "sorted ?f" by (rule sorted_wrt_filter) simp
  ultimately show "m \<le> civil_month n"
    unfolding civil_month_def by (auto simp: sorted_last_ge)
qed

lemma civil_month_end: "n < month_start (civil_year n) (civil_month n + 1)"
proof (cases "civil_month n = 12")
  case True
  then show ?thesis using civil_year_bounds(2) [of n] month_start_13 by simp
next
  case False
  then show ?thesis
    using civil_month_le_iff [of "civil_month n + 1" n] civil_month_range [of n] by simp
qed

lemma civil_unique:
  assumes m: "1 \<le> m" "m \<le> 12" and n: "month_start y m \<le> n" "n < month_start y (m + 1)"
  shows "civil_year n = y" "civil_month n = m"
proof -
  have "year_start y \<le> n" using m n month_start_mono [of 1 m y] by (simp add: month_start_1 [simplified])
  then have "y \<le> civil_year n" by (simp add: civil_year_le_iff)
  moreover have "n < year_start (y + 1)"
    using m n month_start_mono [of "m + 1" 13 y] month_start_13 [of y] by simp
  then have "\<not> y + 1 \<le> civil_year n" by (simp add: civil_year_le_iff [symmetric])
  ultimately show y: "civil_year n = y" by simp
  have "m \<le> civil_month n" using civil_month_le_iff [OF m, of n] n y by simp
  moreover have "\<not> m + 1 \<le> civil_month n"
  proof
    assume a: "m + 1 \<le> civil_month n"
    then have "1 \<le> m + 1" "m + 1 \<le> 12" using civil_month_range [of n] by auto
    with a civil_month_le_iff [of "m + 1" n] y n show False by simp
  qed
  ultimately show "civil_month n = m" by simp
qed

lemma month_start_le_iff:
  assumes "1 \<le> m" "m \<le> 12"
  shows "month_start y m \<le> n \<longleftrightarrow> ym_le y m (civil_year n) (civil_month n)"
proof (cases y "civil_year n" rule: linorder_cases)
  case less
  then have "year_start (y + 1) \<le> n" by (simp add: civil_year_le_iff)
  moreover have "month_start y m \<le> month_start y 13" using assms by (intro month_start_mono) auto
  ultimately show ?thesis using less by (simp add: ym_le_def month_start_13)
next
  case equal
  with assms show ?thesis by (simp add: ym_le_def civil_month_le_iff)
next
  case greater
  then have "\<not> year_start y \<le> n" by (simp add: civil_year_le_iff)
  moreover have "year_start y \<le> month_start y m"
    using assms month_start_mono [of 1 m y] by (simp add: month_start_1 [simplified])
  ultimately show ?thesis using greater by (simp add: ym_le_def)
qed

lemma civil_ymd:
  assumes "greg_min_year \<le> civil_year n" "civil_year n \<le> greg_max_year"
  shows "greg_ymd (civil_year n) (civil_month n) (civil_day n) = Some (day_secs * n)"
  using assms civil_month_range [of n] civil_month_start [of n] civil_month_end [of n]
  by (simp add: greg_ymd_def civil_day_def month_length_def)

definition show_year :: "int \<Rightarrow> str" where
  "show_year y =
     (if 0 \<le> y \<and> y \<le> 9999 then show_pad 4 (nat y)
      else (if y < 0 then ''-'' else ''+'') @ show_pad 4 (nat \<bar>y\<bar>))"

definition greg_rfc3339 :: "datetime \<Rightarrow> str" where
  "greg_rfc3339 t =
     (let n = t div day_secs; s = nat (t mod day_secs) in
      show_year (civil_year n) @ ''-'' @ show_pad 2 (civil_month n) @ ''-'' @ show_pad 2 (civil_day n)
      @ ''T'' @ show_pad 2 (s div 3600) @ '':'' @ show_pad 2 (s div 60 mod 60) @ '':''
      @ show_pad 2 (s mod 60) @ ''+00:00'')"

definition greg_parse_rfc3339 :: "str \<Rightarrow> datetime option" where
  "greg_parse_rfc3339 x =
     (let field = (\<lambda>i k. parse_digits (take k (drop i x))) in
      Option.bind (greg_ymd (int (field 0 4)) (field 5 2) (field 8 2)) (\<lambda>d.
        let t = d + int (3600 * field 11 2 + 60 * field 14 2 + field 17 2) in
        if greg_rfc3339 t = x then Some t else None))"

definition iso_week_start :: "int \<Rightarrow> int" where
  "iso_week_start n = n - (n + 3) mod 7"

definition greg_format :: "str \<Rightarrow> datetime \<Rightarrow> str" where
  "greg_format f t =
     (let n = t div day_secs; th = iso_week_start n + 3 in
      if f = ''%Y-%m-%d'' then show_year (civil_year n) @ ''-'' @ show_pad 2 (civil_month n) @ ''-''
        @ show_pad 2 (civil_day n)
      else if f = ''%G-W%V'' then show_year (civil_year th) @ ''-W''
        @ show_pad 2 (nat ((th - year_start (civil_year th)) div 7) + 1)
      else if f = ''%Y-%m'' then show_year (civil_year n) @ ''-'' @ show_pad 2 (civil_month n)
      else if f = ''%Y'' then show_year (civil_year n) else [])"

definition greg_min :: datetime where
  "greg_min = day_secs * year_start greg_min_year"

definition greg_max :: datetime where
  "greg_max = day_secs * year_start (greg_max_year + 1) - 1"

definition greg_sub_months :: "datetime \<Rightarrow> nat \<Rightarrow> datetime option" where
  "greg_sub_months t k =
     (let n = t div day_secs; (y, m) = ym_back (civil_year n) (civil_month n) k in
      map_option (\<lambda>d. d + t mod day_secs)
        (greg_ymd y m (min (civil_day n) (nat (month_length y m)))))"

definition greg_clip :: "int \<Rightarrow> datetime option" where
  "greg_clip t = (if greg_min \<le> t \<and> t \<le> greg_max then Some t else None)"

definition gregorian :: chrono where
  "gregorian = \<lparr>
     dt_min = greg_min,
     dt_max = greg_max,
     from_timestamp = greg_clip,
     dt_year = (\<lambda>t. civil_year (t div day_secs)),
     dt_month = (\<lambda>t. civil_month (t div day_secs)),
     dt_hour = (\<lambda>t. nat (t mod day_secs div 3600)),
     dt_weekday = (\<lambda>t. nat ((t div day_secs + 3) mod 7)),
     date_naive = (\<lambda>t. t div day_secs),
     date_sub_days = (\<lambda>n k. map_option (\<lambda>_. n - int k) (greg_clip (day_secs * (n - int k)))),
     date_midnight = (\<lambda>n. greg_clip (day_secs * n)),
     checked_add_days = (\<lambda>t k. greg_clip (t + day_secs * int k)),
     checked_sub_days = (\<lambda>t k. greg_clip (t - day_secs * int k)),
     checked_sub_months = greg_sub_months,
     with_ymd = greg_ymd,
     dt_format = greg_format,
     dt_to_rfc3339 = greg_rfc3339,
     parse_from_rfc3339 = greg_parse_rfc3339\<rparr>"

lemma greg_values: "greg_min = -8334601228800" "greg_max = 8210266876799"
  by (simp_all add: greg_min_def greg_max_def year_start_def)

section \<open>The laws hold of the Gregorian calendar\<close>

lemma greg_valid_iff: "dt_valid gregorian t \<longleftrightarrow> greg_min \<le> t \<and> t \<le> greg_max"
  by (simp add: dt_valid_def gregorian_def)

lemma greg_clip_Some: "greg_clip t = Some d \<longleftrightarrow> dt_valid gregorian t \<and> d = t"
  by (auto simp: greg_clip_def greg_valid_iff)

lemma greg_valid_year:
  "dt_valid gregorian t \<longleftrightarrow>
     greg_min_year \<le> civil_year (t div day_secs) \<and> civil_year (t div day_secs) \<le> greg_max_year"
proof -
  have "greg_min \<le> t \<longleftrightarrow> year_start greg_min_year \<le> t div day_secs"
    using div_bounds [of day_secs t] unfolding greg_min_def by linarith
  moreover have "t \<le> greg_max \<longleftrightarrow> \<not> year_start (greg_max_year + 1) \<le> t div day_secs"
    using div_bounds [of day_secs t] unfolding greg_max_def by linarith
  ultimately show ?thesis unfolding greg_valid_iff civil_year_le_iff by linarith
qed

lemma greg_first:
  "greg_ymd y m 1 = Some s \<longleftrightarrow>
     greg_min_year \<le> y \<and> y \<le> greg_max_year \<and> 1 \<le> m \<and> m \<le> 12 \<and> s = day_secs * month_start y m"
  using month_length_pos(1) [of m y] by (auto simp: greg_ymd_def)

lemmas greg_firsts = greg_first greg_first [simplified]

lemma greg_first_civil:
  assumes "greg_ymd y m 1 = Some s"
  shows "civil_year (s div day_secs) = y" "civil_month (s div day_secs) = m"
  using assms month_length_pos [of m y] month_start_Suc [of y m] civil_unique [of m y "s div day_secs"]
  by (auto simp: greg_firsts)

lemma greg_first_le:
  assumes "greg_ymd y m 1 = Some s"
  shows "s \<le> d \<longleftrightarrow> ym_le y m (civil_year (d div day_secs)) (civil_month (d div day_secs))"
proof -
  have "s \<le> d \<longleftrightarrow> month_start y m \<le> d div day_secs"
    using assms div_bounds [of day_secs d] unfolding greg_first by linarith
  with assms show ?thesis by (simp add: greg_firsts month_start_le_iff)
qed

lemma greg_next_month:
  assumes "ym_next (civil_year n) (civil_month n) = (y, m)"
  shows "month_start y m = month_start (civil_year n) (civil_month n + 1)" "1 \<le> m" "m \<le> 12"
  using assms civil_month_range [of n] month_start_13 [of "civil_year n"] month_start_1 [of "civil_year n + 1"]
  by (auto simp: ym_next_def split: if_splits)

lemma greg_next_month_le:
  "month_start (civil_year n) (civil_month n + 1) \<le> n + 31"
  using month_length_pos(2) [of "civil_month n" "civil_year n"] civil_month_range [of n]
    civil_month_start [of n] month_start_Suc [of "civil_year n" "civil_month n"] by linarith

lemma greg_next_year_le: "year_start (civil_year n + 1) \<le> n + 366"
  using civil_year_bounds(1) [of n] year_start_Suc [of "civil_year n"] by simp

lemma greg_month_step:
  assumes "ym_next (civil_year (d div day_secs)) (civil_month (d div day_secs)) = (y, m)"
    and "dt_valid gregorian d" and "dt_valid gregorian (d + 31 * day_secs)"
  shows "\<exists>s. greg_ymd y m 1 = Some s \<and> s \<le> d + 31 * day_secs"
proof -
  let ?n = "d div day_secs"
  note nx = greg_next_month [OF assms(1)]
  have div: "(d + 31 * day_secs) div day_secs = ?n + 31" by simp
  have le: "month_start y m \<le> ?n + 31" using nx(1) greg_next_month_le [of ?n] by simp
  then have "ym_le y m (civil_year (?n + 31)) (civil_month (?n + 31))"
    using month_start_le_iff [OF nx(2,3)] by blast
  then have "y \<le> greg_max_year" using assms(3) unfolding greg_valid_year div by (auto simp: ym_le_def)
  moreover have "greg_min_year \<le> y"
    using assms(1,2) unfolding greg_valid_year by (auto simp: ym_next_def split: if_splits)
  ultimately have "greg_ymd y m 1 = Some (day_secs * month_start y m)" using nx unfolding greg_first by blast
  moreover have "day_secs * month_start y m \<le> d + 31 * day_secs"
    using le div_bounds [of day_secs d] by linarith
  ultimately show ?thesis by blast
qed

lemma greg_year_step:
  assumes "dt_valid gregorian d" and "dt_valid gregorian (d + 366 * day_secs)"
  shows "\<exists>s. greg_ymd (civil_year (d div day_secs) + 1) 1 1 = Some s \<and> s \<le> d + 366 * day_secs"
proof -
  let ?n = "d div day_secs" let ?y = "civil_year (d div day_secs) + 1"
  have div: "(d + 366 * day_secs) div day_secs = ?n + 366" by simp
  have le: "year_start ?y \<le> ?n + 366" by (rule greg_next_year_le)
  then have "?y \<le> greg_max_year"
    using assms(2) unfolding greg_valid_year div civil_year_le_iff by linarith
  moreover have "greg_min_year \<le> ?y" using assms(1) unfolding greg_valid_year by linarith
  ultimately have "greg_ymd ?y 1 1 = Some (day_secs * month_start ?y 1)"
    by (simp add: greg_firsts)
  moreover have "day_secs * month_start ?y 1 \<le> d + 366 * day_secs"
    using le div_bounds [of day_secs d] unfolding month_start_1 by linarith
  ultimately show ?thesis by blast
qed

lemma greg_sub_months_first:
  assumes "greg_ymd y m 1 = Some s" and "ym_back y m k = (y', m')"
  shows "greg_sub_months s k = greg_ymd y' m' 1"
proof -
  have s: "s = day_secs * month_start y m" using assms(1) unfolding greg_first by simp
  have n: "civil_year (month_start y m) = y" "civil_month (month_start y m) = m"
    using greg_first_civil [OF assms(1)] s by simp_all
  have m': "1 \<le> m'" "m' \<le> 12"
    using assms(2) pos_mod_bound [of 12 "12 * y + int m - 1 - int k"]
    by (auto simp: ym_back_def Let_def nat_less_iff)
  have "civil_day (month_start y m) = 1" by (simp add: civil_day_def n)
  moreover have "min 1 (nat (month_length y' m')) = 1" using month_length_pos(1) [OF m', of y'] by simp
  ultimately show ?thesis
    using assms(2) by (simp add: greg_sub_months_def s n option.map_ident)
qed

lemma length_show_pad2: "n < 100 \<Longrightarrow> length (show_pad 2 n) = 2"
  by (rule length_show_pad) simp_all

lemma hms_split: "3600 * (s div 3600) + 60 * (s div 60 mod 60) + s mod 60 = s" for s :: nat
proof -
  define a b c where "a = s div 60 div 60" and "b = s div 60 mod 60" and "c = s mod 60"
  have "s div 60 = 60 * a + b" and "s = 60 * (s div 60) + c" by (simp_all add: a_def b_def c_def)
  moreover have "s div 3600 = a" by (simp add: a_def div_mult2_eq [symmetric])
  ultimately show ?thesis unfolding b_def [symmetric] c_def [symmetric] by simp
qed

lemma greg_rfc3339_round_trip:
  assumes "dt_valid gregorian d" and y: "0 \<le> civil_year (d div day_secs)" "civil_year (d div day_secs) \<le> 9999"
  shows "greg_parse_rfc3339 (greg_rfc3339 d) = Some d"
proof -
  let ?n = "d div day_secs" let ?s = "nat (d mod day_secs)"
  define Y M D h i s where "Y = show_pad 4 (nat (civil_year ?n))" and "M = show_pad 2 (civil_month ?n)"
    and "D = show_pad 2 (civil_day ?n)" and "h = show_pad 2 (?s div 3600)"
    and "i = show_pad 2 (?s div 60 mod 60)" and "s = show_pad 2 (?s mod 60)"
  note parts = Y_def M_def D_def h_def i_def s_def
  have day: "civil_day ?n \<le> 31"
    using civil_month_end [of ?n] month_length_pos(2) [OF civil_month_range, of "civil_year ?n" ?n]
    by (simp add: civil_day_def month_length_def nat_le_iff)
  have sec: "?s < 86400" using pos_mod_bound [of day_secs d] by linarith
  then have hms: "?s div 3600 < 100" "?s div 60 mod 60 < 100" "?s mod 60 < 100"
    by (simp add: div_less_iff_less_mult) (rule less_trans [OF mod_less_divisor]; simp)+
  have small: "nat (civil_year ?n) < 10 ^ 4" "civil_month ?n < 100" "civil_day ?n < 100"
    using y civil_month_range(2) [of ?n] day by (simp_all only: nat_less_iff) simp_all
  have len: "length Y = 4" "length M = 2" "length D = 2" "length h = 2" "length i = 2" "length s = 2"
    unfolding parts by (rule length_show_pad [OF small(1)], simp)
      (rule length_show_pad2, rule small hms)+
  have shape: "greg_rfc3339 d =
      Y @ ''-'' @ M @ ''-'' @ D @ ''T'' @ h @ '':'' @ i @ '':'' @ s @ ''+00:00''"
    using y by (simp add: greg_rfc3339_def Let_def show_year_def parts)
  have ymd: "greg_ymd (civil_year ?n) (civil_month ?n) (civil_day ?n) = Some (day_secs * ?n)"
    using assms(1) unfolding greg_valid_year by (intro civil_ymd) auto
  have t: "day_secs * ?n + int (3600 * (?s div 3600) + 60 * (?s div 60 mod 60) + ?s mod 60) = d"
    unfolding hms_split using mult_div_mod_eq [of day_secs d] by simp
  have val: "parse_digits Y = nat (civil_year ?n)" "parse_digits M = civil_month ?n"
    "parse_digits D = civil_day ?n" "parse_digits h = ?s div 3600"
    "parse_digits i = ?s div 60 mod 60" "parse_digits s = ?s mod 60"
    unfolding parts by simp_all
  show ?thesis
    unfolding greg_parse_rfc3339_def Let_def
    using t by (simp add: shape len val y ymd)
qed

lemma greg_date_midnight_valid: "greg_min mod day_secs = 0" "greg_max mod day_secs = day_secs - 1"
  by (simp_all add: greg_values)

interpretation greg: chrono_laws gregorian
proof
  fix t d n y s :: int and k m m' :: nat and y' :: int
  let ?g = gregorian
  show "dt_min ?g \<le> -62167219200" "253433923199 \<le> dt_max ?g" "- (2 ^ 60) \<le> dt_min ?g" "dt_max ?g \<le> 2 ^ 60"
    "dt_min ?g mod day_secs = 0" "dt_max ?g mod day_secs = day_secs - 1"
    by (simp_all add: gregorian_def greg_values)
  show "from_timestamp ?g t = (if dt_valid ?g t then Some t else None)"
    by (simp add: gregorian_def greg_clip_def dt_valid_def)
  show "dt_hour ?g d = nat (d mod day_secs div 3600)" "date_naive ?g d = d div day_secs"
    "dt_weekday ?g d = nat ((d div day_secs + 3) mod 7)"
    by (simp_all add: gregorian_def)
  show "date_sub_days ?g n k = (if dt_valid ?g (day_secs * (n - int k)) then Some (n - int k) else None)"
    by (simp add: gregorian_def greg_clip_def dt_valid_def)
  show "dt_valid ?g (day_secs * n) \<Longrightarrow> date_midnight ?g n = Some (day_secs * n)"
    by (simp add: gregorian_def greg_clip_def dt_valid_def)
  show "checked_add_days ?g d k =
      (if dt_valid ?g (d + day_secs * int k) then Some (d + day_secs * int k) else None)"
    "checked_sub_days ?g d k =
      (if dt_valid ?g (d - day_secs * int k) then Some (d - day_secs * int k) else None)"
    by (simp_all add: gregorian_def greg_clip_def dt_valid_def)
  show "1 \<le> dt_month ?g d \<and> dt_month ?g d \<le> 12"
    using civil_month_range [of "d div day_secs"] by (simp add: gregorian_def)
  have sel: "with_ymd ?g = greg_ymd" "dt_year ?g = (\<lambda>t. civil_year (t div day_secs))"
    "dt_month ?g = (\<lambda>t. civil_month (t div day_secs))" "checked_sub_months ?g = greg_sub_months"
    "parse_from_rfc3339 ?g = greg_parse_rfc3339" "dt_to_rfc3339 ?g = greg_rfc3339"
    by (simp_all add: gregorian_def)
  show "with_ymd ?g y m 1 = Some s \<Longrightarrow>
      dt_valid ?g s \<and> s mod day_secs = 0 \<and> dt_year ?g s = y \<and> dt_month ?g s = m"
    using greg_first_civil [of y m s] by (auto simp: sel greg_firsts greg_valid_year)
  show "with_ymd ?g y m 1 = Some s \<Longrightarrow> s \<le> d \<longleftrightarrow> ym_le y m (dt_year ?g d) (dt_month ?g d)"
    unfolding sel by (rule greg_first_le)
  show "dt_valid ?g d \<Longrightarrow> \<exists>s. with_ymd ?g (dt_year ?g d) (dt_month ?g d) 1 = Some s"
    using civil_month_range [of "d div day_secs"] unfolding sel greg_first greg_valid_year by blast
  show "dt_valid ?g d \<Longrightarrow> \<exists>s. with_ymd ?g (dt_year ?g d) 1 1 = Some s"
    unfolding sel greg_first greg_valid_year by simp
  show "0 \<le> y \<Longrightarrow> y \<le> 10000 \<Longrightarrow> 1 \<le> m \<Longrightarrow> m \<le> 12 \<Longrightarrow> \<exists>s. with_ymd ?g y m 1 = Some s"
    unfolding sel greg_first by simp
  show "dt_valid ?g d \<Longrightarrow> dt_valid ?g (d + 31 * day_secs) \<Longrightarrow>
      ym_next (dt_year ?g d) (dt_month ?g d) = (y, m) \<Longrightarrow>
      \<exists>s. with_ymd ?g y m 1 = Some s \<and> s \<le> d + 31 * day_secs"
    unfolding sel by (rule greg_month_step)
  show "dt_valid ?g d \<Longrightarrow> dt_valid ?g (d + 366 * day_secs) \<Longrightarrow>
      \<exists>s. with_ymd ?g (dt_year ?g d + 1) 1 1 = Some s \<and> s \<le> d + 366 * day_secs"
    unfolding sel by (rule greg_year_step)
  show "with_ymd ?g y m 1 = Some s \<Longrightarrow> ym_back y m k = (y', m') \<Longrightarrow>
      checked_sub_months ?g s k = with_ymd ?g y' m' 1"
    unfolding sel by (rule greg_sub_months_first)
  show "dt_valid ?g d \<Longrightarrow> 0 \<le> dt_year ?g d \<Longrightarrow> dt_year ?g d \<le> 9999 \<Longrightarrow>
      parse_from_rfc3339 ?g (dt_to_rfc3339 ?g d) = Some d"
    unfolding sel by (rule greg_rfc3339_round_trip)
qed

end
