(* ===== verification/Windows.thy ===== *)
theory Windows
  imports Calendar
begin

text \<open>
  Half-open reporting windows (\<open>crates/stats/src/window.rs\<close>): containment, the
  windows they are compared with, and the walk that cuts a window into calendar
  buckets. The walk is a \<open>partial_function\<close> because its loop steps with a function
  of \<open>chrono\<close>; the locale \<open>stepping\<close> states what a step has to promise and carries
  the facts about the walk, and the calendar laws give it for the four periods.
\<close>

section \<open>Windows\<close>

datatype window = Window (w_from: i64) (w_until: i64)

definition window_contains :: "window \<Rightarrow> i64 \<Rightarrow> bool" where
  "window_contains w t \<longleftrightarrow> w_from w \<le> t \<and> t < w_until w"

definition window_previous :: "window \<Rightarrow> window" where
  "window_previous w =
     (let len = i64_sub (w_until w) (w_from w) in Window (i64_sub (w_from w) len) (w_from w))"

datatype period = Day | Week | Month_Period | Year_Period

definition opt_window :: "i64 option \<Rightarrow> i64 option \<Rightarrow> window option" where
  "opt_window a b = Option.bind a (\<lambda>x. map_option (Window x) b)"

definition window_previous_month :: "chrono \<Rightarrow> window \<Rightarrow> window option" where
  "window_previous_month ch w =
     (let back = (\<lambda>t. Option.bind (from_timestamp ch t) (\<lambda>d. checked_sub_months ch d 1))
      in opt_window (back (w_from w)) (back (w_until w)))"

definition window_shifted :: "chrono \<Rightarrow> window \<Rightarrow> nat \<Rightarrow> window option" where
  "window_shifted ch w days =
     (let back = (\<lambda>t. Option.bind (from_timestamp ch t) (\<lambda>d. checked_sub_days ch d days))
      in opt_window (back (w_from w)) (back (w_until w)))"

definition window_shifted_months :: "chrono \<Rightarrow> window \<Rightarrow> nat \<Rightarrow> window option" where
  "window_shifted_months ch w months =
     (let back = (\<lambda>t. Option.bind (from_timestamp ch t) (\<lambda>d. checked_sub_months ch d months))
      in opt_window (back (w_from w)) (back (w_until w)))"

fun window_preceding :: "chrono \<Rightarrow> window \<Rightarrow> period \<Rightarrow> window option" where
  "window_preceding ch w Day = window_shifted ch w 1"
| "window_preceding ch w Week = window_shifted ch w 7"
| "window_preceding ch w Month_Period = window_previous_month ch w"
| "window_preceding ch w Year_Period = window_shifted_months ch w 12"

section \<open>The walk\<close>

definition next_month :: "chrono \<Rightarrow> datetime \<Rightarrow> datetime option" where
  "next_month ch at =
     (let (year, month) = (if dt_month ch at = 12 then (dt_year ch at + 1, 1)
                           else (dt_year ch at, dt_month ch at + 1))
      in with_ymd ch year month 1)"

definition window_opening :: "chrono \<Rightarrow> window \<Rightarrow> period \<Rightarrow> datetime option" where
  "window_opening ch w p =
     Option.bind (from_timestamp ch (w_from w)) (\<lambda>start.
     case p of
       Day \<Rightarrow> date_midnight ch (date_naive ch start)
     | Week \<Rightarrow> Option.bind (date_sub_days ch (date_naive ch start) (dt_weekday ch start)) (date_midnight ch)
     | Month_Period \<Rightarrow> with_ymd ch (dt_year ch start) (dt_month ch start) 1
     | Year_Period \<Rightarrow> with_ymd ch (dt_year ch start) 1 1)"

type_synonym keyed = "str \<times> window"

definition clip :: "window \<Rightarrow> datetime \<Rightarrow> datetime \<Rightarrow> window" where
  "clip w cursor following = Window (max cursor (w_from w)) (min following (w_until w))"

partial_function (option) walk_loop ::
  "(datetime \<Rightarrow> datetime option) \<Rightarrow> (datetime \<Rightarrow> str) \<Rightarrow> window \<Rightarrow> nat \<Rightarrow> datetime \<Rightarrow> keyed list
    \<Rightarrow> keyed list option option" where
  "walk_loop nxt key w limit cursor buckets =
     (if cursor < w_until w then
        (case nxt cursor of
           None \<Rightarrow> Some (Some buckets)
         | Some following \<Rightarrow>
             if w_from (clip w cursor following) < w_until (clip w cursor following) then
               (if length buckets = limit then Some None
                else walk_loop nxt key w limit following (buckets @ [(key cursor, clip w cursor following)]))
             else walk_loop nxt key w limit following buckets)
      else Some (Some buckets))"

declare walk_loop.simps [code]

definition window_walk ::
  "chrono \<Rightarrow> window \<Rightarrow> period \<Rightarrow> str \<Rightarrow> nat \<Rightarrow> (datetime \<Rightarrow> datetime option) \<Rightarrow> keyed list option option" where
  "window_walk ch w p fmt limit nxt =
     (case window_opening ch w p of
        None \<Rightarrow> Some (Some [])
      | Some cursor \<Rightarrow> walk_loop nxt (dt_format ch fmt) w limit cursor [])"

definition buckets_upto :: "chrono \<Rightarrow> window \<Rightarrow> period \<Rightarrow> nat \<Rightarrow> keyed list option option" where
  "buckets_upto ch w p limit =
     (case p of
        Day \<Rightarrow> window_walk ch w p ''%Y-%m-%d'' limit (\<lambda>at. checked_add_days ch at 1)
      | Week \<Rightarrow> window_walk ch w p ''%G-W%V'' limit (\<lambda>at. checked_add_days ch at 7)
      | Month_Period \<Rightarrow> window_walk ch w p ''%Y-%m'' limit (next_month ch)
      | Year_Period \<Rightarrow> window_walk ch w p ''%Y'' limit (\<lambda>at. with_ymd ch (dt_year ch at + 1) 1 1))"

abbreviation usize_max :: nat where
  "usize_max \<equiv> 2 ^ 64 - 1"

text \<open>\<open>Window::buckets\<close> unwraps; \<open>None\<close> stands for not returning, by a panic or by looping.\<close>

definition window_buckets :: "chrono \<Rightarrow> window \<Rightarrow> period \<Rightarrow> keyed list option" where
  "window_buckets ch w p = Option.bind (buckets_upto ch w p usize_max) (\<lambda>r. r)"

definition window_days :: "chrono \<Rightarrow> window \<Rightarrow> keyed list option" where
  "window_days ch w = window_buckets ch w Day"

definition window_weeks :: "chrono \<Rightarrow> window \<Rightarrow> keyed list option" where
  "window_weeks ch w = window_buckets ch w Week"

definition window_months :: "chrono \<Rightarrow> window \<Rightarrow> keyed list option" where
  "window_months ch w = window_buckets ch w Month_Period"

definition window_years :: "chrono \<Rightarrow> window \<Rightarrow> keyed list option" where
  "window_years ch w = window_buckets ch w Year_Period"

section \<open>Tilings\<close>

fun tiles :: "i64 \<Rightarrow> i64 \<Rightarrow> window list \<Rightarrow> bool" where
  "tiles a b [] = (a = b)"
| "tiles a b (w # ws) = (w_from w = a \<and> a < w_until w \<and> tiles (w_until w) b ws)"

lemma tiles_le: "tiles a b ws \<Longrightarrow> a \<le> b"
  by (induction ws arbitrary: a) fastforce+

lemma tiles_length: "tiles a b ws \<Longrightarrow> int (length ws) \<le> b - a"
proof (induction ws arbitrary: a)
  case (Cons w ws)
  then have "int (length ws) \<le> b - w_until w" by simp
  with Cons.prems show ?case by simp
qed simp

lemma tiles_member: "tiles a b ws \<Longrightarrow> w \<in> set ws \<Longrightarrow> a \<le> w_from w \<and> w_until w \<le> b"
proof (induction ws arbitrary: a)
  case (Cons v ws)
  then show ?case using tiles_le [of "w_until v" b ws] by fastforce
qed simp

lemma tiles_nonempty: "tiles a b ws \<Longrightarrow> w \<in> set ws \<Longrightarrow> w_from w < w_until w"
  by (induction ws arbitrary: a) auto

text \<open>Every instant of a tiled span lies in exactly one tile.\<close>

lemma tiles_count:
  "tiles a b ws \<Longrightarrow> length (filter (\<lambda>w. window_contains w t) ws) = (if a \<le> t \<and> t < b then 1 else 0)"
proof (induction ws arbitrary: a)
  case (Cons w ws)
  then have "length (filter (\<lambda>w. window_contains w t) ws) = (if w_until w \<le> t \<and> t < b then 1 else 0)"
    by simp
  with Cons.prems tiles_le [of "w_until w" b ws] show ?case
    by (auto simp: window_contains_def)
qed simp

lemma tiles_append: "tiles a b (us @ ws) \<longleftrightarrow> (\<exists>c. tiles a c us \<and> tiles c b ws)"
  by (induction us arbitrary: a) auto

section \<open>What a step promises\<close>

locale stepping =
  fixes valid aligned :: "datetime \<Rightarrow> bool" and nxt :: "datetime \<Rightarrow> datetime option" and width :: int
  assumes step_gt: "valid c \<Longrightarrow> nxt c = Some f \<Longrightarrow> c < f \<and> valid f"
    and step_aligned: "valid c \<Longrightarrow> aligned c \<Longrightarrow> nxt c = Some f \<Longrightarrow> aligned f"
    and step_defined: "valid c \<Longrightarrow> valid (c + width) \<Longrightarrow> nxt c \<noteq> None"
    and width_pos: "0 \<le> width"
    and convex: "valid a \<Longrightarrow> valid b \<Longrightarrow> a \<le> c \<Longrightarrow> c \<le> b \<Longrightarrow> valid c"
begin

definition whole :: "(datetime \<Rightarrow> str) \<Rightarrow> window \<Rightarrow> keyed \<Rightarrow> bool" where
  "whole key w b \<longleftrightarrow> (\<exists>c f. valid c \<and> aligned c \<and> nxt c = Some f \<and> b = (key c, clip w c f))"

lemma walk_loop_ex:
  assumes "valid c" and "aligned c"
  shows "\<exists>all. (\<forall>limit bs. length bs \<le> limit \<longrightarrow> walk_loop nxt key w limit c bs =
             Some (if length bs + length all \<le> limit then Some (bs @ all) else None))
         \<and> list_all (whole key w) all
         \<and> (\<exists>e \<le> max (w_from w) (w_until w). tiles (min (max c (w_from w)) (max (w_from w) (w_until w))) e (map snd all))
         \<and> (valid (w_until w + width) \<longrightarrow>
             tiles (min (max c (w_from w)) (max (w_from w) (w_until w))) (max (w_from w) (w_until w)) (map snd all))"
    (is "\<exists>all. ?P c all")
  using assms
proof (induction "nat (w_until w - c)" arbitrary: c rule: less_induct)
  case less
  show ?case
  proof (cases "c < w_until w")
    case False
    then have "?P c []" by (auto simp: walk_loop.simps)
    then show ?thesis by blast
  next
    case lt: True
    show ?thesis
    proof (cases "nxt c")
      case None
      then have "\<not> valid (w_until w + width)"
        using step_defined [OF less.prems(1)] convex [OF less.prems(1), of "w_until w + width" "c + width"] lt width_pos by auto
      with None lt have "?P c []" by (auto simp: walk_loop.simps)
      then show ?thesis by blast
    next
      case (Some f)
      then have f: "c < f" "valid f" "aligned f"
        using step_gt [OF less.prems(1)] step_aligned [OF less.prems] by auto
      then obtain all where all: "?P f all" using less.hyps [of f] lt by auto
      then have loop: "length bs \<le> limit \<Longrightarrow> walk_loop nxt key w limit f bs =
          Some (if length bs + length all \<le> limit then Some (bs @ all) else None)" for limit bs by blast
      show ?thesis
      proof (cases "w_from (clip w c f) < w_until (clip w c f)")
        case True
        have "walk_loop nxt key w limit c bs =
            Some (if length bs + length ((key c, clip w c f) # all) \<le> limit
                  then Some (bs @ (key c, clip w c f) # all) else None)"
          if "length bs \<le> limit" for limit bs
          using that True Some lt loop [of "bs @ [(key c, clip w c f)]" limit]
          by (subst walk_loop.simps) simp
        moreover have "whole key w (key c, clip w c f)" using less.prems Some by (auto simp: whole_def)
        ultimately have "?P c ((key c, clip w c f) # all)"
          using all True f lt by (auto simp: clip_def max_def min_def split: if_splits)
        then show ?thesis by blast
      next
        case False
        then have "min (max c (w_from w)) (max (w_from w) (w_until w)) = min (max f (w_from w)) (max (w_from w) (w_until w))"
          using f lt by (auto simp: clip_def max_def min_def split: if_splits)
        moreover have "walk_loop nxt key w limit c bs = walk_loop nxt key w limit f bs" for limit bs
          using False Some lt by (subst walk_loop.simps) simp
        ultimately have "?P c all" using all by simp
        then show ?thesis by blast
      qed
    qed
  qed
qed

lemma walk_loop_returns:
  assumes "valid c" and "aligned c"
  obtains all where
    "\<And>limit. walk_loop nxt key w limit c [] = Some (if length all \<le> limit then Some all else None)"
    "list_all (whole key w) all"
    "\<exists>e \<le> max (w_from w) (w_until w). tiles (min (max c (w_from w)) (max (w_from w) (w_until w))) e (map snd all)"
    "valid (w_until w + width) \<Longrightarrow>
      tiles (min (max c (w_from w)) (max (w_from w) (w_until w))) (max (w_from w) (w_until w)) (map snd all)"
proof -
  obtain all where a: "\<forall>limit bs. length bs \<le> limit \<longrightarrow> walk_loop nxt key w limit c bs =
        Some (if length bs + length all \<le> limit then Some (bs @ all) else None)"
    and b: "list_all (whole key w) all"
      "\<exists>e \<le> max (w_from w) (w_until w). tiles (min (max c (w_from w)) (max (w_from w) (w_until w))) e (map snd all)"
      "valid (w_until w + width) \<Longrightarrow>
      tiles (min (max c (w_from w)) (max (w_from w) (w_until w))) (max (w_from w) (w_until w)) (map snd all)"
    using walk_loop_ex [OF assms, of key w] by blast
  have "walk_loop nxt key w limit c [] = Some (if length all \<le> limit then Some all else None)" for limit
    using a [rule_format, of "[]" limit] by simp
  then show ?thesis using that b by blast
qed

end

section \<open>The four periods step\<close>

fun period_next :: "chrono \<Rightarrow> period \<Rightarrow> datetime \<Rightarrow> datetime option" where
  "period_next ch Day at = checked_add_days ch at 1"
| "period_next ch Week at = checked_add_days ch at 7"
| "period_next ch Month_Period at = next_month ch at"
| "period_next ch Year_Period at = with_ymd ch (dt_year ch at + 1) 1 1"

fun period_format :: "period \<Rightarrow> str" where
  "period_format Day = ''%Y-%m-%d''"
| "period_format Week = ''%G-W%V''"
| "period_format Month_Period = ''%Y-%m''"
| "period_format Year_Period = ''%Y''"

fun period_aligned :: "chrono \<Rightarrow> period \<Rightarrow> datetime \<Rightarrow> bool" where
  "period_aligned ch Day c = (c mod day_secs = 0)"
| "period_aligned ch Week c = (c mod day_secs = 0 \<and> dt_weekday ch c = 0)"
| "period_aligned ch Month_Period c = (with_ymd ch (dt_year ch c) (dt_month ch c) 1 = Some c)"
| "period_aligned ch Year_Period c = (with_ymd ch (dt_year ch c) 1 1 = Some c)"

lemma buckets_upto_walk:
  "buckets_upto ch w p limit = window_walk ch w p (period_format p) limit (period_next ch p)"
proof -
  have "period_next ch Month_Period = next_month ch" by (rule ext) simp
  moreover have "period_next ch Day = (\<lambda>at. checked_add_days ch at 1)"
    "period_next ch Week = (\<lambda>at. checked_add_days ch at 7)"
    "period_next ch Year_Period = (\<lambda>at. with_ymd ch (dt_year ch at + 1) 1 1)" by (rule ext, simp)+
  ultimately show ?thesis by (cases p) (simp_all add: buckets_upto_def)
qed

lemma next_month_alt:
  "next_month ch at = (case ym_next (dt_year ch at) (dt_month ch at) of (y, m) \<Rightarrow> with_ymd ch y m 1)"
  by (simp add: next_month_def ym_next_def)

context chrono_laws
begin

lemma valid_convex: "dt_valid ch a \<Longrightarrow> dt_valid ch b \<Longrightarrow> a \<le> c \<Longrightarrow> c \<le> b \<Longrightarrow> dt_valid ch c"
  by (simp add: dt_valid_def)

lemma next_month_gt: "dt_valid ch c \<Longrightarrow> next_month ch c = Some f \<Longrightarrow> c < f \<and> dt_valid ch f"
  using ymd_next_gt [of c _ _ f] ymd_first [of _ _ f]
  by (auto simp: next_month_alt split: prod.splits)

lemma next_year_gt:
  "dt_valid ch c \<Longrightarrow> with_ymd ch (dt_year ch c + 1) 1 1 = Some f \<Longrightarrow> c < f \<and> dt_valid ch f"
  using year_next_gt [of c f] ymd_first [of _ _ f] by blast

lemma period_next_gt: "dt_valid ch c \<Longrightarrow> period_next ch p c = Some f \<Longrightarrow> c < f \<and> dt_valid ch f"
  using next_month_gt [of c f] next_year_gt [of c f] add_days [of c]
  by (cases p) (auto split: if_splits)

lemma period_next_aligned:
  assumes "dt_valid ch c" "period_aligned ch p c" "period_next ch p c = Some f"
  shows "period_aligned ch p f"
proof (cases p)
  case Day
  with assms add_days [of c 1] show ?thesis by (auto split: if_splits)
next
  case Week
  have f: "f = c + 7 * day_secs" "dt_valid ch f" using Week assms add_days [of c 7] by (auto split: if_splits)
  have "f div day_secs + 3 = c div day_secs + 3 + 7" using f by simp
  then have "(f div day_secs + 3) mod 7 = (c div day_secs + 3) mod 7" by (simp only: mod_add_self2)
  moreover have "f mod day_secs = c mod day_secs" unfolding f(1) by (rule mod_mult_self1)
  ultimately show ?thesis using f(2) Week assms by (simp add: weekday)
next
  case Month_Period
  with assms ymd_first [of _ _ f] show ?thesis by (auto simp: next_month_alt split: prod.splits)
next
  case Year_Period
  with assms ymd_first [of _ _ f] show ?thesis by auto
qed

lemma period_next_defined:
  assumes "dt_valid ch c" "dt_valid ch (c + 366 * day_secs)"
  shows "period_next ch p c \<noteq> None"
proof (cases p)
  case Month_Period
  have "dt_valid ch (c + 31 * day_secs)" using valid_convex [OF assms, of "c + 31 * day_secs"] by simp
  then show ?thesis
    using Month_Period month_step [OF assms(1)] by (auto simp: next_month_alt split: prod.splits)
next
  case Year_Period
  then show ?thesis using year_step [OF assms] by auto
qed (use add_days [OF assms(1)] valid_convex [OF assms] in auto)

end

sublocale chrono_laws \<subseteq> steps: stepping "dt_valid ch" "period_aligned ch p" "period_next ch p" "366 * day_secs" for p
  by unfold_locales (fact period_next_gt, fact period_next_aligned, fact period_next_defined, simp, fact valid_convex)

context chrono_laws
begin

lemma opening_le:
  assumes "window_opening ch w p = Some c"
  shows "dt_valid ch c \<and> c \<le> w_from w \<and> period_aligned ch p c"
proof -
  let ?s = "w_from w"
  from assms have v: "dt_valid ch ?s" by (auto simp: window_opening_def bind_eq_Some_conv timestamp split: if_splits)
  then have start: "from_timestamp ch ?s = Some ?s" by (simp add: timestamp)
  have day: "day_secs * (?s div day_secs) \<le> ?s" using div_bounds [of day_secs ?s] by simp
  have dayv: "dt_valid ch (day_secs * (?s div day_secs))"
    using v range_days(1) div_bounds [of day_secs "dt_min ch"] zdiv_mono1 [of "dt_min ch" ?s day_secs] day
    by (auto simp: dt_valid_def)
  show ?thesis
  proof (cases p)
    case Day
    then have "c = day_secs * (?s div day_secs)"
      using assms v dayv by (simp add: window_opening_def start naive midnight)
    with day dayv Day show ?thesis by simp
  next
    case Week
    define k where "k = dt_weekday ch ?s"
    have c: "c = day_secs * (?s div day_secs - int k)" "dt_valid ch c"
      using assms v dayv Week naive_sub [OF dayv, of k]
      by (auto simp: window_opening_def start naive bind_eq_Some_conv k_def [symmetric] midnight split: if_splits)
    then have "c div day_secs = ?s div day_secs - int k" by simp
    moreover have "int k = (?s div day_secs + 3) mod 7" using v unfolding k_def by (simp add: weekday)
    ultimately have "c div day_secs + 3 = 7 * ((?s div day_secs + 3) div 7)"
      using minus_mod_eq_mult_div [of "?s div day_secs + 3" 7] by linarith
    then have "(c div day_secs + 3) mod 7 = 0" by (simp only: mod_mult_self1_is_0)
    then have "dt_weekday ch c = 0" using c(2) by (simp add: weekday)
    with c day Week show ?thesis by simp
  next
    case Month_Period
    then have "with_ymd ch (dt_year ch ?s) (dt_month ch ?s) 1 = Some c"
      using assms by (simp add: window_opening_def start)
    then show ?thesis using Month_Period ymd_refl [OF _ v] ymd_first [of _ _ c] by auto
  next
    case Year_Period
    then have "with_ymd ch (dt_year ch ?s) 1 1 = Some c" using assms by (simp add: window_opening_def start)
    then show ?thesis using Year_Period january_le [OF _ v] ymd_first [of _ _ c] by auto
  qed
qed

lemma opening_defined:
  assumes v: "dt_valid ch (w_from w)" and v6: "dt_valid ch (w_from w - 6 * day_secs)"
  shows "window_opening ch w p \<noteq> None"
proof -
  let ?s = "w_from w"
  have start: "from_timestamp ch ?s = Some ?s" using v by (simp add: timestamp)
  have aligned: "dt_valid ch (day_secs * (t div day_secs))" if "dt_valid ch t" for t
    using that range_days(1) div_bounds [of day_secs "dt_min ch"] div_bounds [of day_secs t]
      zdiv_mono1 [of "dt_min ch" t day_secs] by (auto simp: dt_valid_def)
  show ?thesis
  proof (cases p)
    case Day
    then show ?thesis using v aligned [OF v] by (simp add: window_opening_def start naive midnight)
  next
    case Week
    let ?k = "(?s div day_secs + 3) mod 7"
    have "(?s - 6 * day_secs) div day_secs = ?s div day_secs - 6" by simp
    then have "dt_valid ch (day_secs * (?s div day_secs - 6))" using aligned [OF v6] by simp
    moreover have "0 \<le> ?k" "?k \<le> 6" using pos_mod_bound [of 7 "?s div day_secs + 3"] by auto
    ultimately have monday: "dt_valid ch (day_secs * (?s div day_secs - ?k))"
      using valid_convex [OF _ aligned [OF v], of "day_secs * (?s div day_secs - 6)"] by simp
    have k: "int (dt_weekday ch ?s) = ?k" using \<open>0 \<le> ?k\<close> v by (simp only: weekday int_nat_eq if_True)
    have "date_sub_days ch (?s div day_secs) (dt_weekday ch ?s) = Some (?s div day_secs - ?k)"
      unfolding naive_sub [OF aligned [OF v]] k using monday by (simp only: if_True)
    then show ?thesis using Week v monday midnight [OF monday] by (simp add: window_opening_def start naive [OF v])
  next
    case Month_Period
    then show ?thesis using ymd_of [OF v] by (auto simp: window_opening_def start)
  next
    case Year_Period
    then show ?thesis using ymd_january [OF v] by (auto simp: window_opening_def start)
  qed
qed

text \<open>The walk as a whole: the list it would build without a limit, and what the limit does.\<close>

lemma buckets_upto_returns:
  obtains all where
    "\<And>limit. buckets_upto ch w p limit = Some (if length all \<le> limit then Some all else None)"
    "list_all (steps.whole p (dt_format ch (period_format p)) w) all"
    "\<exists>e. e \<le> max (w_from w) (w_until w) \<and> (all = [] \<or> tiles (w_from w) e (map snd all))"
    "dt_valid ch (w_from w) \<Longrightarrow> dt_valid ch (w_from w - 6 * day_secs) \<Longrightarrow>
      dt_valid ch (w_until w + 366 * day_secs) \<Longrightarrow>
      tiles (w_from w) (max (w_from w) (w_until w)) (map snd all)"
proof (cases "window_opening ch w p")
  case None
  then show ?thesis
    using opening_defined [of w p]
    by (intro that [of "[]"]) (auto simp: buckets_upto_walk window_walk_def)
next
  case (Some c)
  note c = opening_le [OF Some]
  have start: "min (max c (w_from w)) (max (w_from w) (w_until w)) = w_from w" using c by simp
  obtain all where
    "\<And>limit. walk_loop (period_next ch p) (dt_format ch (period_format p)) w limit c [] =
       Some (if length all \<le> limit then Some all else None)"
    "list_all (steps.whole p (dt_format ch (period_format p)) w) all"
    "\<exists>e \<le> max (w_from w) (w_until w). tiles (w_from w) e (map snd all)"
    "dt_valid ch (w_until w + 366 * day_secs) \<Longrightarrow>
      tiles (w_from w) (max (w_from w) (w_until w)) (map snd all)"
    using steps.walk_loop_returns [of c p "dt_format ch (period_format p)" w] c
    unfolding start by blast
  then show ?thesis using Some by (intro that [of all]) (auto simp: buckets_upto_walk window_walk_def)
qed

lemma whole_explicit:
  "list_all (steps.whole p (dt_format ch (period_format p)) w) all \<Longrightarrow> (k, b) \<in> set all \<Longrightarrow>
    \<exists>c f. period_aligned ch p c \<and> period_next ch p c = Some f
      \<and> k = dt_format ch (period_format p) c \<and> b = clip w c f"
  by (fastforce simp: list_all_iff steps.whole_def)

lemma window_buckets_returns:
  assumes "- (2 ^ 63) \<le> w_from w" "w_until w < 2 ^ 63"
  obtains all where "window_buckets ch w p = Some all"
    "\<And>limit. buckets_upto ch w p limit = Some (if length all \<le> limit then Some all else None)"
    "\<And>k b. (k, b) \<in> set all \<Longrightarrow> \<exists>c f. period_aligned ch p c \<and> period_next ch p c = Some f
      \<and> k = dt_format ch (period_format p) c \<and> b = clip w c f"
    "dt_valid ch (w_from w) \<Longrightarrow> dt_valid ch (w_from w - 6 * day_secs) \<Longrightarrow>
      dt_valid ch (w_until w + 366 * day_secs) \<Longrightarrow>
      tiles (w_from w) (max (w_from w) (w_until w)) (map snd all)"
proof -
  obtain all e where all: "\<And>limit. buckets_upto ch w p limit = Some (if length all \<le> limit then Some all else None)"
    and wh: "list_all (steps.whole p (dt_format ch (period_format p)) w) all"
    and e: "e \<le> max (w_from w) (w_until w)" "all = [] \<or> tiles (w_from w) e (map snd all)"
    and t: "dt_valid ch (w_from w) \<Longrightarrow> dt_valid ch (w_from w - 6 * day_secs) \<Longrightarrow>
      dt_valid ch (w_until w + 366 * day_secs) \<Longrightarrow>
      tiles (w_from w) (max (w_from w) (w_until w)) (map snd all)"
    by (rule buckets_upto_returns [of w p]) metis
  have "int (length all) \<le> 2 ^ 64 - 1"
    using e assms tiles_length [of "w_from w" e "map snd all"] by (auto simp: max_def split: if_splits)
  then have "length all \<le> usize_max" by simp
  then have "window_buckets ch w p = Some all" by (simp add: window_buckets_def all)
  then show ?thesis using that all whole_explicit [OF wh] t by blast
qed

end

context chrono_laws
begin

lemma window_buckets_nonempty:
  assumes "- (2 ^ 63) \<le> w_from w" "w_until w < 2 ^ 63"
  obtains bs where "window_buckets ch w p = Some bs" "\<And>k b. (k, b) \<in> set bs \<Longrightarrow> w_from b < w_until b"
proof -
  obtain all e where all: "\<And>limit. buckets_upto ch w p limit = Some (if length all \<le> limit then Some all else None)"
    and e: "e \<le> max (w_from w) (w_until w)" "all = [] \<or> tiles (w_from w) e (map snd all)"
    by (rule buckets_upto_returns [of w p]) metis
  obtain bs where bs: "window_buckets ch w p = Some bs"
    "\<And>limit. buckets_upto ch w p limit = Some (if length bs \<le> limit then Some bs else None)"
    using window_buckets_returns [OF assms, of p] by metis
  have "bs = all" using all [of "max (length all) (length bs)"] bs(2) [of "max (length all) (length bs)"] by simp
  with bs e tiles_nonempty show ?thesis by (intro that [of bs]) (auto simp: rev_image_eqI)
qed

end

lemma buckets_tile_window:
  assumes "chrono_laws ch" and "w_from w \<le> w_until w"
    and "dt_valid ch (w_from w - 6 * day_secs)" and "dt_valid ch (w_until w + 366 * day_secs)"
  obtains bs where "window_buckets ch w p = Some bs" "tiles (w_from w) (w_until w) (map snd bs)"
    "\<And>k b. (k, b) \<in> set bs \<Longrightarrow> \<exists>c f. period_aligned ch p c \<and> period_next ch p c = Some f
      \<and> k = dt_format ch (period_format p) c \<and> b = clip w c f"
proof -
  have v: "dt_valid ch (w_from w)" and i: "- (2 ^ 63) \<le> w_from w" "w_until w < 2 ^ 63"
    using assms(2-) chrono_laws.range_i64 [OF assms(1)] by (auto simp: dt_valid_def)
  have m: "max (w_from w) (w_until w) = w_until w" using assms(2) by simp
  show ?thesis
    by (rule chrono_laws.window_buckets_returns [OF assms(1) i, of p]) (use v assms(3,4) m that in auto)
qed

section \<open>Properties\<close>

text \<open>
  C23. Cutting a window into days, weeks, months or years returns, and the
  buckets tile the window: the first opens with it, each opens where the one
  before ended, none is empty, the last closes with it, so that an instant is in
  exactly one bucket when the window holds it and in none otherwise. Each bucket
  is one whole calendar period, clipped to the window and keyed by its start.
\<close>

theorem window_buckets_tile:
  assumes "chrono_laws ch" and "w_from w \<le> w_until w"
    and "dt_valid ch (w_from w - 6 * day_secs)" and "dt_valid ch (w_until w + 366 * day_secs)"
  shows "\<exists>bs. window_buckets ch w p = Some bs \<and> tiles (w_from w) (w_until w) (map snd bs)
    \<and> (\<forall>t. count_where (\<lambda>b. window_contains (snd b) t) bs = (if window_contains w t then 1 else 0))
    \<and> (\<forall>(k, b) \<in> set bs. \<exists>c f. period_aligned ch p c \<and> period_next ch p c = Some f
          \<and> k = dt_format ch (period_format p) c \<and> b = clip w c f)"
proof -
  obtain bs where bs: "window_buckets ch w p = Some bs" and t: "tiles (w_from w) (w_until w) (map snd bs)"
    and wh: "\<And>k b. (k, b) \<in> set bs \<Longrightarrow> \<exists>c f. period_aligned ch p c \<and> period_next ch p c = Some f
      \<and> k = dt_format ch (period_format p) c \<and> b = clip w c f"
    by (rule buckets_tile_window [OF assms, of p]) blast
  have "count_where (\<lambda>b. window_contains (snd b) t) bs = (if window_contains w t then 1 else 0)" for t
    using tiles_count [OF t, of t] by (simp add: filter_map o_def window_contains_def)
  then show ?thesis using bs t wh by blast
qed

theorem window_buckets_tile_witness:
  "chrono_laws gregorian \<and> (\<exists>bs. window_buckets gregorian (Window 1767225600 1772323200) Month_Period = Some bs
    \<and> tiles 1767225600 1772323200 (map snd bs)
    \<and> count_where (\<lambda>b. window_contains (snd b) 1769904000) bs = 1)"
proof -
  let ?w = "Window 1767225600 1772323200"
  have "dt_valid gregorian (w_from ?w - 6 * day_secs)" "dt_valid gregorian (w_until ?w + 366 * day_secs)"
    by (simp_all add: dt_valid_def gregorian_def greg_values)
  from window_buckets_tile [OF greg.chrono_laws_axioms _ this, of Month_Period]
  show ?thesis using greg.chrono_laws_axioms by (fastforce simp: window_contains_def)
qed

text \<open>
  C24. A limit on the number of buckets refuses exactly when there are more of
  them: the walk always returns, it gives every bucket when there are at most
  \<open>limit\<close> of them, and nothing otherwise.
\<close>

theorem buckets_upto_exact:
  assumes "chrono_laws ch" and "in_i64 (w_from w)" and "in_i64 (w_until w)"
  shows "\<exists>bs. window_buckets ch w p = Some bs \<and>
    (\<forall>limit. buckets_upto ch w p limit = Some (if length bs \<le> limit then Some bs else None))"
proof -
  have "- (2 ^ 63) \<le> w_from w" "w_until w < 2 ^ 63" using assms(2,3) by (auto simp: in_i64_def i64_min_def i64_max_def)
  from chrono_laws.window_buckets_returns [OF assms(1) this, of p] show ?thesis by metis
qed

theorem buckets_upto_exact_witness:
  "\<exists>bs. window_buckets gregorian (Window 0 200000) Day = Some bs
    \<and> buckets_upto gregorian (Window 0 200000) Day (length bs) = Some (Some bs)
    \<and> buckets_upto gregorian (Window 0 200000) Day 0 = Some (if bs = [] then Some bs else None)"
proof -
  have "in_i64 (w_from (Window 0 200000))" "in_i64 (w_until (Window 0 200000))"
    by (simp_all add: in_i64_def i64_min_def i64_max_def)
  from buckets_upto_exact [OF greg.chrono_laws_axioms this, of Day] show ?thesis by fastforce
qed

lemma ym_back_next: "1 \<le> m \<Longrightarrow> m \<le> 12 \<Longrightarrow> ym_next y m = (y', m') \<Longrightarrow> ym_back y' m' 1 = (y, m)"
proof -
  assume m: "1 \<le> m" "m \<le> 12" and n: "ym_next y m = (y', m')"
  have i: "12 * y' + int m' - 1 - int 1 = 12 * y + (int m - 1)"
    using n m by (auto simp: ym_next_def split: if_splits)
  have "(12 * y + (int m - 1)) div 12 = y" by (rule int_div_pos_eq [of _ _ _ "int m - 1"]) (use m in auto)
  moreover have "(12 * y + (int m - 1)) mod 12 = int m - 1" by (rule int_mod_pos_eq [of _ _ y]) (use m in auto)
  ultimately show "ym_back y' m' 1 = (y, m)" unfolding ym_back_def Let_def i using m by simp
qed

lemma ym_back_year: "ym_back (y + 1) 1 12 = (y, 1)"
  by (simp add: ym_back_def)

context chrono_laws
begin

lemma preceding_whole:
  assumes v: "dt_valid ch z" and al: "period_aligned ch p z"
    and a: "period_next ch p z = Some a" and b: "period_next ch p a = Some b"
  shows "window_preceding ch (Window a b) p = Some (Window z a)"
proof -
  have va: "dt_valid ch a" and vb: "dt_valid ch b" using period_next_gt v a b by blast+
  have days: "window_shifted ch (Window a b) k = Some (Window z a)"
    if "a = z + day_secs * int k" "b = a + day_secs * int k" for k
    using that(1) [symmetric] that(2) [symmetric] v va vb sub_days [OF va, of k] sub_days [OF vb, of k]
    by (simp add: window_shifted_def opt_window_def timestamp eq_diff_eq [symmetric])
  have months: "Option.bind (from_timestamp ch t) (\<lambda>d. checked_sub_months ch d k) = Some s"
    if "with_ymd ch y m 1 = Some t" "ym_back y m k = (y', m')" "with_ymd ch y' m' 1 = Some s" for t y m k y' m' s
    using that sub_months [OF that(1,2)] ymd_first [OF that(1)] by (simp add: timestamp)
  show ?thesis
  proof (cases p)
    case Day
    with days [of 1] a b add_days [OF v] add_days [OF va] show ?thesis by (auto split: if_splits)
  next
    case Week
    with days [of 7] a b add_days [OF v] add_days [OF va] show ?thesis by (auto split: if_splits)
  next
    case Month_Period
    obtain y m where n: "ym_next (dt_year ch z) (dt_month ch z) = (y, m)" by fastforce
    obtain y' m' where n': "ym_next y m = (y', m')" by fastforce
    have wa: "with_ymd ch y m 1 = Some a" using a Month_Period n by (simp add: next_month_alt)
    then have "dt_year ch a = y" "dt_month ch a = m" "1 \<le> m" "m \<le> 12"
      using ymd_first month_range [OF va] by blast+
    moreover from this have wb: "with_ymd ch y' m' 1 = Some b" using b Month_Period n' by (simp add: next_month_alt)
    ultimately show ?thesis
      using months [OF wa ym_back_next [OF _ _ n]] months [OF wb ym_back_next [OF _ _ n'] wa]
        month_range [OF v] al Month_Period
      by (simp add: window_previous_month_def opt_window_def)
  next
    case Year_Period
    have wa: "with_ymd ch (dt_year ch z + 1) 1 1 = Some a" using a Year_Period by simp
    have wb: "with_ymd ch (dt_year ch z + 1 + 1) 1 1 = Some b" using b Year_Period ymd_first [OF wa] by simp
    show ?thesis
      using months [OF wa ym_back_year] months [OF wb ym_back_year wa] al Year_Period
      by (simp add: window_shifted_months_def opt_window_def)
  qed
qed

end

text \<open>
  The period a whole bucket is compared against is the whole bucket before
  it, whatever their lengths: with \<open>z\<close>, \<open>a\<close>, \<open>b\<close> three consecutive starts of a
  day, week, month or year, the window before \<open>[a, b)\<close> is \<open>[z, a)\<close>.
\<close>

theorem preceding_whole_period:
  assumes "chrono_laws ch" and "dt_valid ch z" and "period_aligned ch p z"
    and "period_next ch p z = Some a" and "period_next ch p a = Some b"
  shows "window_preceding ch (Window a b) p = Some (Window z a)"
  using assms by (rule chrono_laws.preceding_whole)

theorem preceding_whole_period_witness:
  "window_preceding gregorian (Window 1772323200 1775001600) Month_Period
     = Some (Window 1769904000 1772323200)"
  by (rule preceding_whole_period [OF greg.chrono_laws_axioms]; code_simp)

end
