(* ===== verification/Address.thy ===== *)
theory Address
  imports Texts
begin

text \<open>
  The \<open>d\<close> grammar (\<open>crates/stats/src/publish/address.rs\<close>): the reports, spans,
  resolutions, buckets and scopes a document is named by, \<open>Address::parse\<close> with
  every error it can give, and \<open>Display\<close>. The constructors that are private in
  the source (\<open>Year::new\<close>, \<open>Month::new\<close>, \<open>Partition::new\<close>,
  \<open>Scope::instance\<close>, \<open>Scope::network\<close>) are the well-formedness predicate
  \<open>address_ok\<close>; over it parsing and rendering are inverse.
\<close>

section \<open>Vocabulary\<close>

datatype report =
  Report_Summary | Report_Orders | Report_Volume | Report_Market
  | Report_Disputes | Report_DevFees | Report_Instances | Report_Compare

definition report_all :: "report list" where
  "report_all = [Report_Summary, Report_Orders, Report_Volume, Report_Market,
     Report_Disputes, Report_DevFees, Report_Instances, Report_Compare]"

fun report_as_str :: "report \<Rightarrow> str" where
  "report_as_str Report_Summary = ''summary''"
| "report_as_str Report_Orders = ''orders''"
| "report_as_str Report_Volume = ''volume''"
| "report_as_str Report_Market = ''market''"
| "report_as_str Report_Disputes = ''disputes''"
| "report_as_str Report_DevFees = ''dev-fees''"
| "report_as_str Report_Instances = ''instances''"
| "report_as_str Report_Compare = ''compare''"

definition report_parse :: "str \<Rightarrow> report option" where
  "report_parse t = wire_parse report_all report_as_str t"

datatype span = Hours24 | Days7 | Days30 | Days90 | Span_All

definition span_all :: "span list" where
  "span_all = [Hours24, Days7, Days30, Days90, Span_All]"

fun span_as_str :: "span \<Rightarrow> str" where
  "span_as_str Hours24 = ''24h''"
| "span_as_str Days7 = ''7d''"
| "span_as_str Days30 = ''30d''"
| "span_as_str Days90 = ''90d''"
| "span_as_str Span_All = ''all''"

definition span_parse :: "str \<Rightarrow> span option" where
  "span_parse t = wire_parse span_all span_as_str t"

datatype resolution = Daily | Weekly | Monthly

definition resolution_all :: "resolution list" where
  "resolution_all = [Daily, Weekly, Monthly]"

fun resolution_as_str :: "resolution \<Rightarrow> str" where
  "resolution_as_str Daily = ''daily''"
| "resolution_as_str Weekly = ''weekly''"
| "resolution_as_str Monthly = ''monthly''"

definition resolution_parse :: "str \<Rightarrow> resolution option" where
  "resolution_parse t = wire_parse resolution_all resolution_as_str t"

interpretation report_wire: wire_enum report_all report_as_str
proof
  fix x y :: report
  show "x \<in> set report_all" by (cases x) (simp_all add: report_all_def)
  show "report_as_str x = report_as_str y \<Longrightarrow> x = y" by (cases x; cases y) simp_all
qed

interpretation span_wire: wire_enum span_all span_as_str
proof
  fix x y :: span
  show "x \<in> set span_all" by (cases x) (simp_all add: span_all_def)
  show "span_as_str x = span_as_str y \<Longrightarrow> x = y" by (cases x; cases y) simp_all
qed

interpretation resolution_wire: wire_enum resolution_all resolution_as_str
proof
  fix x y :: resolution
  show "x \<in> set resolution_all" by (cases x) (simp_all add: resolution_all_def)
  show "resolution_as_str x = resolution_as_str y \<Longrightarrow> x = y" by (cases x; cases y) simp_all
qed

section \<open>Years, months, buckets and partitions\<close>

datatype year = Year (year_get: int)

definition year_new :: "int \<Rightarrow> year option" where
  "year_new y = then_some (0 \<le> y \<and> y \<le> 9999) (Year y)"

definition year_display :: "year \<Rightarrow> str" where
  "year_display y = show_pad 4 (nat (year_get y))"

datatype month = Month (month_get: nat)

definition month_new :: "nat \<Rightarrow> month option" where
  "month_new m = then_some (1 \<le> m \<and> m \<le> 12) (Month m)"

definition month_display :: "month \<Rightarrow> str" where
  "month_display m = show_pad 2 (month_get m)"

datatype bucket = Bucket_Month year month | Bucket_Year year

definition fixed_digits :: "str \<Rightarrow> nat \<Rightarrow> nat option" where
  "fixed_digits t n =
     then_some (length t = n \<and> list_all is_ascii_digit t) (parse_digits t)"

definition month_parse :: "str \<Rightarrow> month option" where
  "month_parse t = Option.bind (fixed_digits t 2) month_new"

definition year_parse :: "str \<Rightarrow> year option" where
  "year_parse t = Option.bind (fixed_digits t 4) (\<lambda>n. year_new (int n))"

fun bucket_fits :: "bucket \<Rightarrow> resolution \<Rightarrow> bool" where
  "bucket_fits (Bucket_Month y m) r = (r = Daily \<or> r = Weekly)"
| "bucket_fits (Bucket_Year y) r = (r = Monthly)"

definition bucket_parse :: "str \<Rightarrow> bucket option" where
  "bucket_parse t =
     (case split_once (CHR ''-'') t of
        None \<Rightarrow> map_option Bucket_Year (year_parse t)
      | Some (yt, mt) \<Rightarrow>
          Option.bind (year_parse yt) (\<lambda>y.
          Option.bind (month_parse mt) (\<lambda>m.
          Some (Bucket_Month y m))))"

fun bucket_display :: "bucket \<Rightarrow> str" where
  "bucket_display (Bucket_Month y m) = year_display y @ ''-'' @ month_display m"
| "bucket_display (Bucket_Year y) = year_display y"

datatype partition = Partition (part_resolution: resolution) (part_bucket: bucket)

definition partition_new :: "resolution \<Rightarrow> bucket \<Rightarrow> partition option" where
  "partition_new r b = then_some (bucket_fits b r) (Partition r b)"

section \<open>Scopes\<close>

datatype scope = Scope_Instance str | Scope_Network str

definition networks :: "str list" where
  "networks = [''mainnet'', ''testnet'', ''signet'', ''regtest'']"

definition is_lower_hex :: "char \<Rightarrow> bool" where
  "is_lower_hex c \<longleftrightarrow> is_ascii_digit c \<or> (CHR ''a'' \<le> c \<and> c \<le> CHR ''f'')"

definition scope_instance :: "str \<Rightarrow> scope option" where
  "scope_instance p = then_some (length p = 64 \<and> list_all is_lower_hex p) (Scope_Instance p)"

definition scope_network :: "str \<Rightarrow> scope option" where
  "scope_network n = then_some (n \<in> set networks) (Scope_Network n)"

definition scope_parse :: "str \<Rightarrow> str \<Rightarrow> scope option" where
  "scope_parse k v =
     (if k = ''i'' then scope_instance v else if k = ''n'' then scope_network v else None)"

fun scope_display :: "scope \<Rightarrow> str" where
  "scope_display (Scope_Instance p) = '':i:'' @ p"
| "scope_display (Scope_Network n) = '':n:'' @ n"

section \<open>Addresses\<close>

datatype address =
  Addr_Index "year option"
  | Addr_Window report span "scope option"
  | Addr_Series report partition "scope option"

datatype parse_error =
  PE_Empty
  | PE_Report str str
  | PE_Window str str
  | PE_Resolution str str
  | PE_Bucket str str str
  | PE_Year str str
  | PE_Scope str str
  | PE_Shape str nat str

fun ok_or :: "'e \<Rightarrow> 'a option \<Rightarrow> 'e + 'a" where
  "ok_or e None = Inl e"
| "ok_or e (Some x) = Inr x"

fun and_then :: "'e + 'a \<Rightarrow> ('a \<Rightarrow> 'e + 'b) \<Rightarrow> 'e + 'b" where
  "and_then (Inl e) f = Inl e"
| "and_then (Inr x) f = f x"

definition address_scope :: "str \<Rightarrow> str list \<Rightarrow> str \<Rightarrow> parse_error + scope option" where
  "address_scope input rest expected =
     (case rest of
        [] \<Rightarrow> Inr None
      | [k, v] \<Rightarrow> ok_or (PE_Scope input (k @ '':'' @ v)) (map_option Some (scope_parse k v))
      | _ \<Rightarrow> Inl (PE_Shape input (length (split_on (CHR '':'') input)) expected))"

definition parse_series ::
  "str \<Rightarrow> str \<Rightarrow> str \<Rightarrow> str \<Rightarrow> str list \<Rightarrow> parse_error + address" where
  "parse_series input report resolution bucket rest =
     and_then (ok_or (PE_Report input report) (report_parse report)) (\<lambda>rep.
     and_then (ok_or (PE_Resolution input resolution) (resolution_parse resolution)) (\<lambda>res.
     and_then (ok_or (PE_Bucket input bucket (resolution_as_str res))
        (Option.bind (bucket_parse bucket) (partition_new res))) (\<lambda>part.
     and_then (address_scope input rest ''4 or 6'') (\<lambda>sc.
     Inr (Addr_Series rep part sc)))))"

definition parse_window :: "str \<Rightarrow> str \<Rightarrow> str \<Rightarrow> str list \<Rightarrow> parse_error + address" where
  "parse_window input report window rest =
     and_then (ok_or (PE_Report input report) (report_parse report)) (\<lambda>rep.
     and_then (ok_or (PE_Window input window) (span_parse window)) (\<lambda>win.
     and_then (address_scope input rest ''2 or 4'') (\<lambda>sc.
     Inr (Addr_Window rep win sc))))"

definition address_parse :: "str \<Rightarrow> parse_error + address" where
  "address_parse input =
     (if input = [] then Inl PE_Empty
      else case split_on (CHR '':'') input of
        [a] \<Rightarrow> if a = ''index'' then Inr (Addr_Index None) else Inl (PE_Report input input)
      | a # b # rest \<Rightarrow>
          if a = ''index'' \<and> rest = []
          then ok_or (PE_Year input b) (map_option (\<lambda>y. Addr_Index (Some y)) (year_parse b))
          else (case rest of
              c # d # rest' \<Rightarrow> if a = ''series'' then parse_series input b c d rest'
                              else parse_window input a b rest
            | _ \<Rightarrow> parse_window input a b rest)
      | _ \<Rightarrow> Inl (PE_Report input input))"

definition rendered_scope :: "scope option \<Rightarrow> str" where
  "rendered_scope s = (case s of None \<Rightarrow> [] | Some sc \<Rightarrow> scope_display sc)"

fun address_display :: "address \<Rightarrow> str" where
  "address_display (Addr_Index None) = ''index''"
| "address_display (Addr_Index (Some y)) = ''index:'' @ year_display y"
| "address_display (Addr_Window rep win sc) =
     report_as_str rep @ '':'' @ span_as_str win @ rendered_scope sc"
| "address_display (Addr_Series rep part sc) =
     ''series:'' @ report_as_str rep @ '':'' @ resolution_as_str (part_resolution part) @ '':'' @
     bucket_display (part_bucket part) @ rendered_scope sc"

section \<open>Well-formedness: what the constructors of the source admit\<close>

definition year_ok :: "year \<Rightarrow> bool" where
  "year_ok y \<longleftrightarrow> year_new (year_get y) = Some y"

definition month_ok :: "month \<Rightarrow> bool" where
  "month_ok m \<longleftrightarrow> month_new (month_get m) = Some m"

fun bucket_ok :: "bucket \<Rightarrow> bool" where
  "bucket_ok (Bucket_Month y m) = (year_ok y \<and> month_ok m)"
| "bucket_ok (Bucket_Year y) = year_ok y"

definition partition_ok :: "partition \<Rightarrow> bool" where
  "partition_ok p \<longleftrightarrow> bucket_ok (part_bucket p) \<and>
     partition_new (part_resolution p) (part_bucket p) = Some p"

fun scope_ok :: "scope \<Rightarrow> bool" where
  "scope_ok (Scope_Instance p) = (scope_instance p = Some (Scope_Instance p))"
| "scope_ok (Scope_Network n) = (scope_network n = Some (Scope_Network n))"

fun address_ok :: "address \<Rightarrow> bool" where
  "address_ok (Addr_Index y) = is_none_or y year_ok"
| "address_ok (Addr_Window rep win sc) = is_none_or sc scope_ok"
| "address_ok (Addr_Series rep part sc) = (partition_ok part \<and> is_none_or sc scope_ok)"

section \<open>Parsing and rendering of the parts\<close>

lemmas wire_parses = report_parse_def span_parse_def resolution_parse_def

lemma year_parse_iff: "year_parse t = Some y \<longleftrightarrow> year_ok y \<and> t = year_display y"
proof
  assume p: "year_parse t = Some y"
  then have t: "length t = 4" "\<forall>c \<in> set t. is_ascii_digit c" and y: "y = Year (int (parse_digits t))"
    and "year_new (int (parse_digits t)) = Some y"
    by (auto simp: year_parse_def fixed_digits_def year_new_def list_all_iff bind_eq_Some_conv)
  moreover have "show_pad (length t) (parse_digits t) = t" using t by (intro show_pad_parse) auto
  ultimately show "year_ok y \<and> t = year_display y"
    by (simp add: year_ok_def year_display_def)
next
  assume p: "year_ok y \<and> t = year_display y"
  then obtain n where y: "y = Year (int n)" and n: "n \<le> 9999"
    by (cases y) (auto simp: year_ok_def year_new_def, metis nat_le_iff of_nat_numeral zero_le_imp_eq_int nonneg_int_cases of_nat_le_iff)
  then have "length t = 4" and "list_all is_ascii_digit t" and "parse_digits t = n"
    using p show_pad_digits [of 4 n] by (auto simp: year_display_def length_show_pad list_all_iff)
  with p y show "year_parse t = Some y"
    by (simp add: year_parse_def fixed_digits_def year_ok_def)
qed

lemma month_parse_iff:
  "month_parse t = Some m \<longleftrightarrow> month_ok m \<and> t = month_display m"
proof
  assume "month_parse t = Some m"
  then have t: "length t = 2" "\<forall>c \<in> set t. is_ascii_digit c" and "m = Month (parse_digits t)"
    and "month_new (parse_digits t) = Some m"
    by (auto simp: month_parse_def fixed_digits_def month_new_def list_all_iff bind_eq_Some_conv)
  moreover have "show_pad (length t) (parse_digits t) = t" using t by (intro show_pad_parse) auto
  ultimately show "month_ok m \<and> t = month_display m"
    by (simp add: month_ok_def month_display_def)
next
  assume p: "month_ok m \<and> t = month_display m"
  then obtain n where m: "m = Month n" and "n \<le> 12"
    by (cases m) (auto simp: month_ok_def month_new_def)
  then have "length t = 2" and "list_all is_ascii_digit t" and "parse_digits t = n"
    using p show_pad_digits [of 2 n] by (auto simp: month_display_def length_show_pad list_all_iff)
  with p m show "month_parse t = Some m"
    by (simp add: month_parse_def fixed_digits_def month_ok_def)
qed

lemma digit_not_sep: "is_ascii_digit c \<Longrightarrow> c \<noteq> CHR ''-'' \<and> c \<noteq> CHR '':''"
  by (auto simp: is_ascii_digit_iff)

lemma year_display_sep: "CHR ''-'' \<notin> set (year_display y)" "CHR '':'' \<notin> set (year_display y)"
  using show_pad_digits [of 4 "nat (year_get y)"] digit_not_sep by (auto simp: year_display_def)

lemma month_display_sep: "CHR '':'' \<notin> set (month_display m)"
  using show_pad_digits [of 2 "month_get m"] digit_not_sep by (auto simp: month_display_def)

lemma bucket_parse_display: "bucket_ok b \<Longrightarrow> bucket_parse (bucket_display b) = Some b"
proof (cases b)
  case (Bucket_Month y m)
  assume "bucket_ok b"
  moreover have "split_once (CHR ''-'') (bucket_display b) = Some (year_display y, month_display m)"
    using Bucket_Month year_display_sep by (simp add: split_once_append)
  moreover have "year_parse (year_display y) = Some y \<longleftrightarrow> year_ok y" by (simp add: year_parse_iff)
  moreover have "month_parse (month_display m) = Some m \<longleftrightarrow> month_ok m"
    by (simp add: month_parse_iff)
  ultimately show ?thesis using Bucket_Month by (simp add: bucket_parse_def)
next
  case (Bucket_Year y)
  assume "bucket_ok b"
  moreover have "split_once (CHR ''-'') (bucket_display b) = None"
    using Bucket_Year year_display_sep by (simp add: split_once_None)
  moreover have "year_parse (year_display y) = Some y \<longleftrightarrow> year_ok y" by (simp add: year_parse_iff)
  ultimately show ?thesis using Bucket_Year by (simp add: bucket_parse_def)
qed

lemma bucket_parse_SomeD:
  assumes "bucket_parse t = Some b"
  shows "bucket_ok b \<and> t = bucket_display b"
proof (cases "split_once (CHR ''-'') t")
  case None
  with assms obtain y where "b = Bucket_Year y" "year_parse t = Some y"
    by (auto simp: bucket_parse_def)
  then show ?thesis by (simp add: year_parse_iff)
next
  case (Some p)
  obtain yt mt where p: "p = (yt, mt)" by (cases p)
  have t: "t = yt @ CHR ''-'' # mt" using Some p split_once_Some by blast
  from assms Some p obtain y m where "b = Bucket_Month y m" "year_parse yt = Some y"
    "month_parse mt = Some m"
    by (auto simp: bucket_parse_def bind_eq_Some_conv)
  then show ?thesis by (simp add: year_parse_iff month_parse_iff t)
qed

lemma bucket_display_sep: "CHR '':'' \<notin> set (bucket_display b)"
  using year_display_sep(2) month_display_sep by (cases b) auto

lemma lower_hex_not_colon: "is_lower_hex c \<Longrightarrow> c \<noteq> CHR '':''"
  by (auto simp: is_lower_hex_def is_ascii_digit_iff less_eq_char_def)

lemma wire_names_sep:
  "CHR '':'' \<notin> set (report_as_str r)" "CHR '':'' \<notin> set (span_as_str w)"
  "CHR '':'' \<notin> set (resolution_as_str q)"
    apply (cases r; simp)
   apply (cases w; simp)
  apply (cases q; simp)
  done

text \<open>The segments of an address: what \<open>Display\<close> joins with colons.\<close>

fun scope_segments :: "scope option \<Rightarrow> str list" where
  "scope_segments None = []"
| "scope_segments (Some (Scope_Instance p)) = [''i'', p]"
| "scope_segments (Some (Scope_Network n)) = [''n'', n]"

fun address_segments :: "address \<Rightarrow> str list" where
  "address_segments (Addr_Index None) = [''index'']"
| "address_segments (Addr_Index (Some y)) = [''index'', year_display y]"
| "address_segments (Addr_Window rep win sc) =
     report_as_str rep # span_as_str win # scope_segments sc"
| "address_segments (Addr_Series rep part sc) =
     ''series'' # report_as_str rep # resolution_as_str (part_resolution part) #
     bucket_display (part_bucket part) # scope_segments sc"

lemma address_display_join: "address_display a = join '':'' (address_segments a)"
proof (cases a)
  case (Addr_Index y)
  then show ?thesis by (cases y) simp_all
next
  case (Addr_Window rep win sc)
  then show ?thesis
    by (cases sc rule: scope_segments.cases) (simp_all add: rendered_scope_def)
next
  case (Addr_Series rep part sc)
  then show ?thesis
    by (cases sc rule: scope_segments.cases) (simp_all add: rendered_scope_def)
qed

lemma scope_ok_iff:
  "scope_ok (Scope_Instance p) \<longleftrightarrow> length p = 64 \<and> list_all is_lower_hex p"
  "scope_ok (Scope_Network n) \<longleftrightarrow> n \<in> set networks"
  by (simp_all add: scope_instance_def scope_network_def)

lemma networks_sep: "n \<in> set networks \<Longrightarrow> CHR '':'' \<notin> set n"
  by (auto simp: networks_def)

lemma lower_hex_sep: "list_all is_lower_hex p \<Longrightarrow> CHR '':'' \<notin> set p"
  using lower_hex_not_colon by (auto simp: list_all_iff)

lemma scope_segments_sep:
  "is_none_or sc scope_ok \<Longrightarrow> x \<in> set (scope_segments sc) \<Longrightarrow> CHR '':'' \<notin> set x"
  by (cases sc rule: scope_segments.cases)
    (auto simp: scope_ok_iff networks_sep lower_hex_sep simp del: scope_ok.simps)

lemma address_segments_sep:
  assumes "address_ok a" and "x \<in> set (address_segments a)"
  shows "CHR '':'' \<notin> set x"
proof (cases a)
  case (Addr_Index y)
  with assms show ?thesis using year_display_sep(2) by (cases y) auto
next
  case (Addr_Window rep win sc)
  with assms show ?thesis using wire_names_sep scope_segments_sep [of sc x] by auto
next
  case (Addr_Series rep part sc)
  with assms show ?thesis
    using wire_names_sep bucket_display_sep scope_segments_sep [of sc x] by auto
qed

lemma split_address_display:
  assumes "address_ok a"
  shows "split_on (CHR '':'') (address_display a) = address_segments a"
proof -
  have "address_segments a \<noteq> []" by (cases a rule: address_segments.cases) simp_all
  with assms show ?thesis
    by (simp add: address_display_join split_on_join address_segments_sep)
qed

lemma scope_parse_Some:
  "scope_parse k v = Some sc \<longleftrightarrow> scope_ok sc \<and> [k, v] = scope_segments (Some sc)"
  by (cases sc) (auto simp: scope_parse_def scope_instance_def scope_network_def)

lemma address_scope_Inr:
  "address_scope input rest e = Inr sc \<longleftrightarrow> is_none_or sc scope_ok \<and> rest = scope_segments sc"
proof (cases sc)
  case None
  then show ?thesis by (auto simp: address_scope_def split: list.splits option.splits elim: ok_or.elims)
next
  case (Some s)
  show ?thesis
  proof (cases "\<exists>k v. rest = [k, v]")
    case True
    then obtain k v where "rest = [k, v]" by blast
    with Some show ?thesis
      by (cases "scope_parse k v") (auto simp: address_scope_def scope_parse_Some [of k v, symmetric]
        simp del: scope_segments.simps scope_ok.simps)
  next
    case False
    then have "address_scope input rest e \<noteq> Inr (Some s)"
      by (auto simp: address_scope_def split: list.splits)
    moreover have "rest \<noteq> scope_segments (Some s)" using False by (cases s) auto
    ultimately show ?thesis using Some by simp
  qed
qed

section \<open>The grammar is exact\<close>

lemma and_then_Inr: "and_then x f = Inr b \<longleftrightarrow> (\<exists>a. x = Inr a \<and> f a = Inr b)"
  by (cases x) auto

lemma map_sum_Inr: "map_sum f g x = Inr y \<longleftrightarrow> (\<exists>z. x = Inr z \<and> y = g z)"
  by (cases x) auto

lemma map_sum_Inl: "map_sum f g x = Inl e \<longleftrightarrow> (\<exists>d. x = Inl d \<and> e = f d)"
  by (cases x) auto

lemma ok_or_Inr: "ok_or e x = Inr a \<longleftrightarrow> x = Some a"
  by (cases x) auto

lemma and_then_Inl:
  "and_then x f = Inl e \<longleftrightarrow> x = Inl e \<or> (\<exists>a. x = Inr a \<and> f a = Inl e)"
  by (cases x) auto

lemma ok_or_Inl: "ok_or e x = Inl e' \<longleftrightarrow> x = None \<and> e' = e"
  by (cases x) auto

lemmas result_iffs = and_then_Inr ok_or_Inr and_then_Inl ok_or_Inl

lemma report_parse_iff: "report_parse t = Some r \<longleftrightarrow> t = report_as_str r"
  using report_wire.parse_iff by (auto simp: report_parse_def)

lemma span_parse_iff: "span_parse t = Some w \<longleftrightarrow> t = span_as_str w"
  using span_wire.parse_iff by (auto simp: span_parse_def)

lemma resolution_parse_iff: "resolution_parse t = Some q \<longleftrightarrow> t = resolution_as_str q"
  using resolution_wire.parse_iff by (auto simp: resolution_parse_def)

lemma partition_parse_iff:
  "Option.bind (bucket_parse t) (partition_new q) = Some p \<longleftrightarrow>
     partition_ok p \<and> part_resolution p = q \<and> t = bucket_display (part_bucket p)"
  by (cases p)
    (auto simp: bind_eq_Some_conv partition_ok_def partition_new_def bucket_parse_display
      dest: bucket_parse_SomeD)

lemma parse_series_Inr:
  "parse_series i b c d rest = Inr a \<longleftrightarrow>
     (\<exists>rep part sc. a = Addr_Series rep part sc \<and> address_ok a \<and>
        ''series'' # b # c # d # rest = address_segments a)"
  by (auto simp: parse_series_def result_iffs report_parse_iff resolution_parse_iff
      partition_parse_iff address_scope_Inr)

lemma parse_window_Inr:
  "parse_window i a b rest = Inr x \<longleftrightarrow>
     (\<exists>rep win sc. x = Addr_Window rep win sc \<and> address_ok x \<and>
        a # b # rest = address_segments x)"
  by (auto simp: parse_window_def result_iffs report_parse_iff span_parse_iff address_scope_Inr)

lemma report_not_keyword [simp]:
  "report_as_str r \<noteq> ''index''" "report_as_str r \<noteq> ''series''"
  "''index'' \<noteq> report_as_str r" "''series'' \<noteq> report_as_str r"
  by (cases r; simp)+

lemma parse_segments_Inr:
  assumes "input \<noteq> []" and "split_on (CHR '':'') input = segs"
  shows "address_parse input = Inr a \<longleftrightarrow> address_ok a \<and> segs = address_segments a"
proof (cases segs rule: list.exhaust)
  case Nil
  with assms show ?thesis by simp
next
  case (Cons x xs)
  show ?thesis
  proof (cases xs)
    case Nil
    with Cons assms show ?thesis
      by (cases a rule: address_segments.cases) (auto simp: address_parse_def)
  next
    case (Cons y ys)
    note segs = \<open>segs = x # xs\<close> Cons
    show ?thesis
    proof (cases "x = ''index'' \<and> ys = []")
      case True
      with segs assms show ?thesis
        by (cases a rule: address_segments.cases)
          (auto simp: address_parse_def result_iffs year_parse_iff)
    next
      case False
      have idx: "segs = address_segments a \<Longrightarrow> \<nexists>y. a = Addr_Index y"
        using False segs by (cases a rule: address_segments.cases) auto
      show ?thesis
      proof (cases "x = ''series'' \<and> (\<exists>c d rest. ys = c # d # rest)")
        case True
        then obtain c d rest where ys: "ys = c # d # rest" and x: "x = ''series''" by blast
        have "address_parse input = parse_series input y c d rest"
          using segs assms ys x by (simp add: address_parse_def)
        moreover have "segs = address_segments a \<Longrightarrow> \<exists>rep part sc. a = Addr_Series rep part sc"
          using idx segs x by (cases a) auto
        ultimately show ?thesis using segs ys x by (auto simp: parse_series_Inr)
      next
        case no_series: False
        have "address_parse input = parse_window input x y ys"
          using segs assms False no_series by (auto simp: address_parse_def split: list.splits)
        moreover have "segs = address_segments a \<Longrightarrow> \<exists>rep win sc. a = Addr_Window rep win sc"
          using idx segs no_series by (cases a) auto
        ultimately show ?thesis using segs by (auto simp: parse_window_Inr)
      qed
    qed
  qed
qed

lemma address_display_not_Nil [simp]: "address_display a \<noteq> []"
  by (cases a rule: address_display.cases)
    (auto intro!: Nil_is_append_conv [THEN iffD1, THEN conjunct1])

lemma address_parse_display:
  assumes "address_ok a"
  shows "address_parse (address_display a) = Inr a"
  using iffD2 [OF parse_segments_Inr [OF address_display_not_Nil split_address_display [OF assms]]] assms
  by blast

lemma address_display_inj:
  "address_ok a \<Longrightarrow> address_ok b \<Longrightarrow> address_display a = address_display b \<Longrightarrow> a = b"
  by (metis address_parse_display sum.inject(2))

text \<open>
  C28. The \<open>d\<close> grammar is exact: a string parses to an address if and only if
  it is what that address renders to, and the address is one the constructors of
  the source can build. Every value that parses renders to the string it came
  from, and every address that can be built parses back to itself.
\<close>

theorem address_parse_exact:
  "address_parse t = Inr a \<longleftrightarrow> address_ok a \<and> t = address_display a"
proof (cases "t = []")
  case True
  then show ?thesis using address_display_not_Nil [of a, symmetric] by (simp add: address_parse_def)
next
  case False
  then have *: "address_parse t = Inr a \<longleftrightarrow> address_ok a \<and> split_on (CHR '':'') t = address_segments a"
    by (rule parse_segments_Inr) simp
  show ?thesis
    using * split_address_display [of a] join_split_on [of "CHR '':''" t]
    by (auto simp: address_display_join)
qed

section \<open>Errors are justified\<close>







text \<open>
  A report on its own is refused with the report error, whose message says that
  the segment is not a report, although it is one: what is missing is the window.
\<close>

lemma bare_report_refused_as_unknown:
  "address_parse (report_as_str r) = Inl (PE_Report (report_as_str r) (report_as_str r))
   \<and> report_parse (report_as_str r) = Some r"
  by (cases r) (simp_all add: address_parse_def report_parse_iff)


end
