(* ===== verification/F64.thy ===== *)
theory F64
  imports Complex_Main "HOL-Library.Log_Nat" Prelude
begin

text \<open>
  The binary64 numbers of Rust (\<open>f64\<close>) as an executable model: a sign and a
  rational magnitude, the two infinities and NaN. Every arithmetic operation is
  the exact rational operation followed by one rounding to nearest, ties to
  even, with gradual underflow at exponent \<open>-1074\<close> and overflow to infinity at
  \<open>2 ^ 1024\<close>, which is IEEE 754's definition of it. The casts are Rust's
  saturating \<open>as\<close>. The second half proves what the statistics rely on: rounding
  is monotone and exact on small integers, so a share of a whole stays between
  zero and one and a nearest rank is the rank that real arithmetic would give.
\<close>

section \<open>Definitions\<close>

datatype f64 = F64_NaN | F64_Inf bool | F64_Fin bool rat

definition rat_log2 :: "rat \<Rightarrow> int" where
  "rat_log2 q =
     (case quotient_of q of (n, d) \<Rightarrow>
        let k = int (floorlog 2 (nat n)) - int (floorlog 2 (nat d))
        in if 2 powi k \<le> q then k else k - 1)"

definition ulp_exp :: "rat \<Rightarrow> int" where
  "ulp_exp q = max (rat_log2 q - 52) (- 1074)"

definition round_half_even :: "rat \<Rightarrow> int" where
  "round_half_even x =
     (let f = \<lfloor>x\<rfloor>; r = x - of_int f
      in if r < 1 / 2 then f else if 1 / 2 < r then f + 1
         else if even f then f else f + 1)"

definition round_mag :: "rat \<Rightarrow> rat" where
  "round_mag q =
     (if q \<le> 0 then 0
      else of_int (round_half_even (q / 2 powi ulp_exp q)) * 2 powi ulp_exp q)"

definition f64_round :: "bool \<Rightarrow> rat \<Rightarrow> f64" where
  "f64_round zero_sign q =
     (let m = round_mag \<bar>q\<bar>; s = (if q = 0 then zero_sign else q < 0)
      in if 2 ^ 1024 \<le> m then F64_Inf s else F64_Fin s m)"

definition f64_of_int :: "int \<Rightarrow> f64" where
  "f64_of_int i = f64_round False (of_int i)"

abbreviation f64_of_nat :: "nat \<Rightarrow> f64" where
  "f64_of_nat n \<equiv> f64_of_int (int n)"

fun f64_val :: "f64 \<Rightarrow> rat" where
  "f64_val (F64_Fin s m) = (if s then - m else m)"
| "f64_val _ = 0"

fun f64_neg_bit :: "f64 \<Rightarrow> bool" where
  "f64_neg_bit F64_NaN = False"
| "f64_neg_bit (F64_Inf s) = s"
| "f64_neg_bit (F64_Fin s m) = s"

fun f64_is_finite :: "f64 \<Rightarrow> bool" where
  "f64_is_finite (F64_Fin s m) = True"
| "f64_is_finite _ = False"

fun f64_is_nan :: "f64 \<Rightarrow> bool" where
  "f64_is_nan F64_NaN = True"
| "f64_is_nan _ = False"

fun f64_neg :: "f64 \<Rightarrow> f64" where
  "f64_neg F64_NaN = F64_NaN"
| "f64_neg (F64_Inf s) = F64_Inf (\<not> s)"
| "f64_neg (F64_Fin s m) = F64_Fin (\<not> s) m"

fun f64_abs :: "f64 \<Rightarrow> f64" where
  "f64_abs F64_NaN = F64_NaN"
| "f64_abs (F64_Inf s) = F64_Inf False"
| "f64_abs (F64_Fin s m) = F64_Fin False m"

fun f64_add :: "f64 \<Rightarrow> f64 \<Rightarrow> f64" where
  "f64_add F64_NaN b = F64_NaN"
| "f64_add a F64_NaN = F64_NaN"
| "f64_add (F64_Inf s) (F64_Inf t) = (if s = t then F64_Inf s else F64_NaN)"
| "f64_add (F64_Inf s) (F64_Fin t n) = F64_Inf s"
| "f64_add (F64_Fin s m) (F64_Inf t) = F64_Inf t"
| "f64_add (F64_Fin s m) (F64_Fin t n) =
     f64_round (s \<and> t) (f64_val (F64_Fin s m) + f64_val (F64_Fin t n))"

definition f64_sub :: "f64 \<Rightarrow> f64 \<Rightarrow> f64" where
  "f64_sub a b = f64_add a (f64_neg b)"

fun f64_mul :: "f64 \<Rightarrow> f64 \<Rightarrow> f64" where
  "f64_mul F64_NaN b = F64_NaN"
| "f64_mul a F64_NaN = F64_NaN"
| "f64_mul (F64_Inf s) (F64_Inf t) = F64_Inf (s \<noteq> t)"
| "f64_mul (F64_Inf s) (F64_Fin t n) = (if n = 0 then F64_NaN else F64_Inf (s \<noteq> t))"
| "f64_mul (F64_Fin s m) (F64_Inf t) = (if m = 0 then F64_NaN else F64_Inf (s \<noteq> t))"
| "f64_mul (F64_Fin s m) (F64_Fin t n) =
     f64_round (s \<noteq> t) (f64_val (F64_Fin s m) * f64_val (F64_Fin t n))"

fun f64_div :: "f64 \<Rightarrow> f64 \<Rightarrow> f64" where
  "f64_div F64_NaN b = F64_NaN"
| "f64_div a F64_NaN = F64_NaN"
| "f64_div (F64_Inf s) (F64_Inf t) = F64_NaN"
| "f64_div (F64_Inf s) (F64_Fin t n) = F64_Inf (s \<noteq> t)"
| "f64_div (F64_Fin s m) (F64_Inf t) = F64_Fin (s \<noteq> t) 0"
| "f64_div (F64_Fin s m) (F64_Fin t n) =
     (if n = 0 then (if m = 0 then F64_NaN else F64_Inf (s \<noteq> t))
      else f64_round (s \<noteq> t) (f64_val (F64_Fin s m) / f64_val (F64_Fin t n)))"

text \<open>Comparisons: false whenever an operand is NaN, and the two zeros are equal.\<close>

fun f64_lt :: "f64 \<Rightarrow> f64 \<Rightarrow> bool" where
  "f64_lt F64_NaN b = False"
| "f64_lt a F64_NaN = False"
| "f64_lt (F64_Inf s) (F64_Inf t) = (s \<and> \<not> t)"
| "f64_lt (F64_Inf s) (F64_Fin t n) = s"
| "f64_lt (F64_Fin s m) (F64_Inf t) = (\<not> t)"
| "f64_lt (F64_Fin s m) (F64_Fin t n) = (f64_val (F64_Fin s m) < f64_val (F64_Fin t n))"

definition f64_eq :: "f64 \<Rightarrow> f64 \<Rightarrow> bool" where
  "f64_eq a b =
     (case (a, b) of
        (F64_Inf s, F64_Inf t) \<Rightarrow> s = t
      | (F64_Fin s m, F64_Fin t n) \<Rightarrow> f64_val a = f64_val b
      | _ \<Rightarrow> False)"

definition f64_le :: "f64 \<Rightarrow> f64 \<Rightarrow> bool" where
  "f64_le a b \<longleftrightarrow> f64_lt a b \<or> f64_eq a b"

text \<open>\<open>f64::min\<close> and \<open>f64::max\<close>: a NaN operand is ignored.\<close>

definition f64_min :: "f64 \<Rightarrow> f64 \<Rightarrow> f64" where
  "f64_min a b = (if f64_is_nan a then b else if f64_is_nan b then a
                  else if f64_lt b a then b else a)"

definition f64_max :: "f64 \<Rightarrow> f64 \<Rightarrow> f64" where
  "f64_max a b = (if f64_is_nan a then b else if f64_is_nan b then a
                  else if f64_lt a b then b else a)"

text \<open>\<open>ceil\<close> and \<open>round\<close> (halves away from zero), and the saturating casts.\<close>

fun f64_ceil :: "f64 \<Rightarrow> f64" where
  "f64_ceil (F64_Fin s m) = f64_round s (of_int \<lceil>f64_val (F64_Fin s m)\<rceil>)"
| "f64_ceil x = x"

fun f64_round_away :: "f64 \<Rightarrow> f64" where
  "f64_round_away (F64_Fin s m) =
     f64_round s (if s then - of_int \<lfloor>m + 1 / 2\<rfloor> else of_int \<lfloor>m + 1 / 2\<rfloor>)"
| "f64_round_away x = x"

definition rat_trunc :: "rat \<Rightarrow> int" where
  "rat_trunc q = (if q < 0 then \<lceil>q\<rceil> else \<lfloor>q\<rfloor>)"

fun f64_as_i64 :: "f64 \<Rightarrow> i64" where
  "f64_as_i64 F64_NaN = 0"
| "f64_as_i64 (F64_Inf s) = (if s then i64_min else i64_max)"
| "f64_as_i64 (F64_Fin s m) = max i64_min (min i64_max (rat_trunc (f64_val (F64_Fin s m))))"

fun f64_as_usize :: "f64 \<Rightarrow> nat" where
  "f64_as_usize F64_NaN = 0"
| "f64_as_usize (F64_Inf s) = (if s then 0 else 2 ^ 64 - 1)"
| "f64_as_usize (F64_Fin s m) = min (2 ^ 64 - 1) (nat (rat_trunc (f64_val (F64_Fin s m))))"

definition f64_sum :: "f64 list \<Rightarrow> f64" where
  "f64_sum xs = foldl f64_add (F64_Fin True 0) xs"

section \<open>Binades\<close>

lemma powi2_pos [simp]: "(0::rat) < 2 powi e"
  by simp

lemma floorlog_bounds:
  assumes "0 < n"
  shows "2 ^ (floorlog 2 n - 1) \<le> n" and "n < 2 ^ floorlog 2 n" and "0 < floorlog 2 n"
  using floorlog_bounds [of n 2] assms by (auto simp: floorlog_def)

lemma rat_log2_bounds:
  assumes "0 < q"
  shows "2 powi rat_log2 q \<le> q" and "q < 2 powi (rat_log2 q + 1)"
proof -
  obtain n d where nd: "quotient_of q = (n, d)" by (cases "quotient_of q")
  have d: "0 < d" using quotient_of_denom_pos [OF nd] .
  have q: "q = of_int n / of_int d" using quotient_of_div [OF nd] .
  have n: "0 < n" using assms d q by (simp add: zero_less_divide_iff)
  define a where "a = floorlog 2 (nat n)"
  define b where "b = floorlog 2 (nat d)"
  have a: "2 ^ (a - 1) \<le> nat n" "nat n < 2 ^ a" "0 < a"
    using n floorlog_bounds [of "nat n"] by (simp_all add: a_def)
  have b: "2 ^ (b - 1) \<le> nat d" "nat d < 2 ^ b" "0 < b"
    using d floorlog_bounds [of "nat d"] by (simp_all add: b_def)
  have a1: "2 ^ (a - 1) \<le> n" and a2: "n < 2 ^ a"
    using a n by (auto simp: nat_less_iff le_nat_iff)
  have b1: "2 ^ (b - 1) \<le> d" and b2: "d < 2 ^ b"
    using b d by (auto simp: nat_less_iff le_nat_iff)
  have ra1: "(2::rat) ^ (a - 1) \<le> of_int n" and ra2: "(of_int n::rat) < 2 ^ a"
    using a1 a2 by (metis of_int_le_iff of_int_numeral of_int_power,
      metis of_int_less_iff of_int_numeral of_int_power)
  have rb1: "(2::rat) ^ (b - 1) \<le> of_int d" and rb2: "(of_int d::rat) < 2 ^ b"
    using b1 b2 by (metis of_int_le_iff of_int_numeral of_int_power,
      metis of_int_less_iff of_int_numeral of_int_power)
  have rd: "(0::rat) < of_int d" using d by simp
  let ?k = "int a - int b"
  have lo: "(2::rat) powi (?k - 1) \<le> q"
  proof -
    have "(2::rat) powi (?k - 1) = 2 ^ (a - 1) / 2 ^ b"
      using \<open>0 < a\<close> by (cases a) (simp_all add: power_int_diff)
    also have "\<dots> \<le> of_int n / of_int d"
      using ra1 rb2 rd n by (intro frac_le) auto
    finally show ?thesis by (simp add: q)
  qed
  have hi: "q < (2::rat) powi (?k + 1)"
  proof -
    have "(of_int n::rat) / of_int d < 2 ^ a / 2 ^ (b - 1)"
      using ra2 rb1 rd n by (intro frac_less) auto
    also have "\<dots> = 2 powi (?k + 1)"
      using \<open>0 < b\<close> by (cases b) (simp_all add: power_int_diff power_int_add)
    finally show ?thesis by (simp add: q)
  qed
  show "2 powi rat_log2 q \<le> q" and "q < 2 powi (rat_log2 q + 1)"
    using lo hi by (auto simp: rat_log2_def nd a_def [symmetric] b_def [symmetric] Let_def)
qed

lemma powi2_less_iff: "(2::rat) powi a < 2 powi b \<longleftrightarrow> a < b"
  by (metis less_irrefl less_linear less_trans numeral_less_iff one_less_numeral_iff
      power_int_strict_increasing semiring_norm(76))

lemma powi2_le_iff: "(2::rat) powi a \<le> 2 powi b \<longleftrightarrow> a \<le> b"
  by (simp add: not_less [symmetric] powi2_less_iff)

lemma rat_log2_eqI:
  assumes "2 powi k \<le> q" and "q < 2 powi (k + 1)"
  shows "rat_log2 q = k"
proof -
  have "0 < q" using assms(1) powi2_pos [of k] by (rule less_le_trans [rotated])
  then have "2 powi rat_log2 q \<le> q" "q < 2 powi (rat_log2 q + 1)"
    by (rule rat_log2_bounds)+
  with assms have "(2::rat) powi k < 2 powi (rat_log2 q + 1)" "(2::rat) powi rat_log2 q < 2 powi (k + 1)"
    by (auto intro: le_less_trans)
  then show ?thesis by (simp add: powi2_less_iff)
qed

lemma rat_log2_mono:
  assumes "0 < p" and "p \<le> q"
  shows "rat_log2 p \<le> rat_log2 q"
proof -
  have "2 powi rat_log2 p \<le> p" using assms by (simp add: rat_log2_bounds)
  also have "p \<le> q" by fact
  also have "q < 2 powi (rat_log2 q + 1)" using assms by (simp add: rat_log2_bounds)
  finally show ?thesis by (simp add: powi2_less_iff)
qed

section \<open>Rounding\<close>

lemma round_half_even_bounds: "\<lfloor>x\<rfloor> \<le> round_half_even x" "round_half_even x \<le> \<lfloor>x\<rfloor> + 1"
  by (simp_all add: round_half_even_def Let_def)

lemma round_half_even_of_int [simp]: "round_half_even (of_int i) = i"
  by (simp add: round_half_even_def)

lemma round_half_even_mono:
  assumes "x \<le> y"
  shows "round_half_even x \<le> round_half_even y"
proof (cases "\<lfloor>x\<rfloor> = \<lfloor>y\<rfloor>")
  case True
  with assms show ?thesis by (auto simp: round_half_even_def Let_def)
next
  case False
  with floor_mono [OF assms] have "\<lfloor>x\<rfloor> + 1 \<le> \<lfloor>y\<rfloor>" by simp
  then show ?thesis
    using round_half_even_bounds(2) [of x] round_half_even_bounds(1) [of y] by linarith
qed

lemma round_half_even_near: "\<bar>of_int (round_half_even x) - x\<bar> \<le> 1 / 2"
proof -
  have "of_int \<lfloor>x\<rfloor> \<le> x" "x < of_int \<lfloor>x\<rfloor> + 1" by linarith+
  then show ?thesis by (auto simp: round_half_even_def Let_def abs_le_iff)
qed

lemma round_half_even_le_int: "x \<le> of_int i \<Longrightarrow> round_half_even x \<le> i"
  using round_half_even_mono [of x "of_int i"] by simp

lemma round_half_even_ge_int: "of_int i \<le> x \<Longrightarrow> i \<le> round_half_even x"
  using round_half_even_mono [of "of_int i" x] by simp

lemma round_mag_nonneg [simp]: "0 \<le> round_mag q"
proof (cases "q \<le> 0")
  case False
  then have "0 \<le> q / 2 powi ulp_exp q" by simp
  then have "0 \<le> round_half_even (q / 2 powi ulp_exp q)"
    by (intro round_half_even_ge_int) simp
  with False show ?thesis by (simp add: round_mag_def)
qed (simp add: round_mag_def)

lemma round_mag_0 [simp]: "round_mag 0 = 0"
  by (simp add: round_mag_def)

lemma powi2_grid:
  assumes "u \<le> e"
  shows "(2::rat) powi e = of_int (2 ^ nat (e - u)) * 2 powi u"
proof -
  have "(2::rat) powi e = 2 powi (e - u) * 2 powi u"
    by (simp flip: power_int_add)
  also have "(2::rat) powi (e - u) = of_int (2 ^ nat (e - u))"
    using assms by (simp add: power_int_def)
  finally show ?thesis .
qed

lemma round_mag_le_grid:
  assumes "0 < q" and "q \<le> of_int i * 2 powi e" and "ulp_exp q \<le> e"
  shows "round_mag q \<le> of_int i * 2 powi e"
proof -
  let ?u = "ulp_exp q"
  let ?j = "i * 2 ^ nat (e - ?u)"
  have z: "of_int i * 2 powi e = (of_int ?j :: rat) * 2 powi ?u"
    using powi2_grid [OF assms(3)] by (simp add: mult.assoc)
  have "q / 2 powi ?u \<le> of_int ?j"
    using assms(2) unfolding z by (simp add: divide_le_eq)
  then have "(of_int (round_half_even (q / 2 powi ?u)) :: rat) \<le> of_int ?j"
    by (simp only: of_int_le_iff round_half_even_le_int)
  then have "of_int (round_half_even (q / 2 powi ?u)) * 2 powi ?u \<le> (of_int ?j :: rat) * 2 powi ?u"
    by (rule mult_right_mono) simp
  then show ?thesis using assms(1) unfolding z by (simp add: round_mag_def)
qed

lemma round_mag_ge_grid:
  assumes "0 < q" and "of_int i * 2 powi e \<le> q" and "ulp_exp q \<le> e"
  shows "of_int i * 2 powi e \<le> round_mag q"
proof -
  let ?u = "ulp_exp q"
  let ?j = "i * 2 ^ nat (e - ?u)"
  have z: "of_int i * 2 powi e = (of_int ?j :: rat) * 2 powi ?u"
    using powi2_grid [OF assms(3)] by (simp add: mult.assoc)
  have "of_int ?j \<le> q / 2 powi ?u"
    using assms(2) unfolding z by (simp add: le_divide_eq)
  then have "(of_int ?j :: rat) \<le> of_int (round_half_even (q / 2 powi ?u))"
    by (simp only: of_int_le_iff round_half_even_ge_int)
  then have "(of_int ?j :: rat) * 2 powi ?u \<le> of_int (round_half_even (q / 2 powi ?u)) * 2 powi ?u"
    by (rule mult_right_mono) simp
  then show ?thesis using assms(1) unfolding z by (simp add: round_mag_def)
qed

lemma ulp_exp_mono: "0 < p \<Longrightarrow> p \<le> q \<Longrightarrow> ulp_exp p \<le> ulp_exp q"
  using rat_log2_mono [of p q] by (auto simp: ulp_exp_def)

lemma round_mag_mono:
  assumes "p \<le> q"
  shows "round_mag p \<le> round_mag q"
proof (cases "p \<le> 0")
  case True
  then show ?thesis by (simp add: round_mag_def [of p])
next
  case False
  then have p: "0 < p" and q: "0 < q" using assms by simp_all
  show ?thesis
  proof (cases "ulp_exp p = ulp_exp q")
    case True
    have "p / 2 powi ulp_exp q \<le> q / 2 powi ulp_exp q"
      using assms by (simp add: divide_right_mono)
    then show ?thesis
      using p q True by (simp add: round_mag_def round_half_even_mono mult_right_mono)
  next
    case False
    let ?L = "rat_log2 q"
    have lt: "ulp_exp p < ulp_exp q" using False ulp_exp_mono [OF p assms] by simp
    then have ul: "ulp_exp q = ?L - 52" and pl: "rat_log2 p < ?L" and ue: "ulp_exp p \<le> ?L"
      by (auto simp: ulp_exp_def)
    have "p < 2 powi (rat_log2 p + 1)" using p by (rule rat_log2_bounds)
    also have "(2::rat) powi (rat_log2 p + 1) \<le> 2 powi ?L" using pl by (simp add: powi2_le_iff)
    finally have "round_mag p \<le> of_int 1 * 2 powi ?L"
      using p ue by (intro round_mag_le_grid) auto
    also have "of_int 1 * 2 powi ?L \<le> round_mag q"
      using q ul rat_log2_bounds(1) [OF q] by (intro round_mag_ge_grid) auto
    finally show ?thesis .
  qed
qed

lemma rat_log2_grid:
  assumes "0 < i" and "i < 2 ^ 53"
  shows "rat_log2 (of_int i * 2 powi e) \<le> e + 52"
proof -
  let ?q = "of_int i * 2 powi e :: rat"
  have "(of_int i :: rat) < of_int (2 ^ 53)" using assms(2) by (simp only: of_int_less_iff)
  then have "(of_int i :: rat) < 2 powi 53" by simp
  then have "?q < 2 powi 53 * 2 powi e" by simp
  also have "(2::rat) powi 53 * 2 powi e = 2 powi (e + 53)"
    using power_int_add [of "2::rat" e 53] by (simp add: mult.commute)
  finally have "?q < 2 powi (e + 53)" .
  moreover have "2 powi rat_log2 ?q \<le> ?q" using assms(1) by (intro rat_log2_bounds) simp
  ultimately have "(2::rat) powi rat_log2 ?q < 2 powi (e + 53)" by (rule le_less_trans [rotated])
  then show ?thesis by (simp add: powi2_less_iff)
qed

text \<open>A number with at most 53 significant bits is a binary64 number and rounds to itself.\<close>

lemma round_mag_exact:
  assumes "0 \<le> i" and "i < 2 ^ 53" and "- 1074 \<le> e"
  shows "round_mag (of_int i * 2 powi e) = of_int i * 2 powi e"
proof (cases "i = 0")
  case False
  let ?q = "of_int i * 2 powi e :: rat"
  have pos: "0 < ?q" using assms(1) False by simp
  have "ulp_exp ?q \<le> e"
    using rat_log2_grid [of i e] assms False by (auto simp: ulp_exp_def)
  then show ?thesis
    using pos by (intro antisym round_mag_le_grid round_mag_ge_grid) auto
qed simp

lemma round_mag_of_int: "0 \<le> i \<Longrightarrow> i < 2 ^ 53 \<Longrightarrow> round_mag (of_int i) = of_int i"
  using round_mag_exact [of i 0] by simp

lemma round_mag_1 [simp]: "round_mag 1 = 1"
  using round_mag_of_int [of 1] by simp

lemma round_mag_le_1: "q \<le> 1 \<Longrightarrow> round_mag q \<le> 1"
  using round_mag_mono [of q 1] by simp

lemma round_mag_pow2: "- 1074 \<le> e \<Longrightarrow> round_mag (2 powi e) = 2 powi e"
  using round_mag_exact [of 1 e] by simp

text \<open>The error of one rounding is at most half a unit in the last place.\<close>

lemma round_mag_error:
  assumes "0 < q"
  shows "\<bar>round_mag q - q\<bar> \<le> 2 powi (ulp_exp q - 1)"
proof -
  let ?p = "2 powi ulp_exp q :: rat"
  have "round_mag q - q = (of_int (round_half_even (q / ?p)) - q / ?p) * ?p"
    using assms by (simp add: round_mag_def left_diff_distrib)
  then have "\<bar>round_mag q - q\<bar> = \<bar>of_int (round_half_even (q / ?p)) - q / ?p\<bar> * ?p"
    by (simp add: abs_mult)
  also have "\<dots> \<le> 1 / 2 * ?p"
    by (intro mult_right_mono round_half_even_near) simp
  also have "\<dots> = 2 powi (ulp_exp q - 1)"
    by (simp add: power_int_diff)
  finally show ?thesis .
qed

section \<open>Quotients of counts\<close>

text \<open>\<open>n as f64 / d as f64\<close>, the shape of every share the crate reports.\<close>

definition f64_ratio :: "int \<Rightarrow> int \<Rightarrow> f64" where
  "f64_ratio n d = f64_div (f64_of_int n) (f64_of_int d)"

lemma f64_of_int_fin:
  assumes "0 \<le> i" and "i < 2 ^ 1023"
  shows "f64_of_int i = F64_Fin False (round_mag (of_int i))"
proof -
  have "(of_int i :: rat) \<le> of_int (2 ^ 1023)" using assms(2) by (simp only: of_int_le_iff)
  then have "(of_int i :: rat) \<le> 2 powi 1023" by (simp add: power_int_def)
  then have "round_mag (of_int i) \<le> 2 powi 1023"
    using round_mag_mono [of "of_int i" "2 powi 1023"] round_mag_pow2 [of 1023] by simp
  also have "(2::rat) powi 1023 < 2 powi 1024" by (simp only: powi2_less_iff)
  finally have "round_mag (of_int i) < 2 ^ 1024" by (simp add: power_int_def)
  then show ?thesis
    using assms(1) by (simp add: f64_of_int_def f64_round_def Let_def not_le)
qed

lemma f64_of_int_small:
  assumes "0 \<le> i" and "i < 2 ^ 53"
  shows "f64_of_int i = F64_Fin False (of_int i)"
proof -
  have "i < 2 ^ 1023" using assms(2) by (rule less_trans) simp
  then show ?thesis using assms by (simp add: f64_of_int_fin round_mag_of_int)
qed

lemma round_mag_ge_1: "1 \<le> q \<Longrightarrow> 1 \<le> round_mag q"
  using round_mag_mono [of 1 q] by simp

lemma f64_round_fin:
  assumes "0 \<le> q" and "q \<le> 1"
  shows "f64_round False q = F64_Fin False (round_mag q)"
proof -
  have "round_mag q \<le> 1" using assms(2) by (rule round_mag_le_1)
  then have "\<not> 2 ^ 1024 \<le> round_mag q"
    using one_less_power [of "2::rat" 1024] by linarith
  with assms(1) show ?thesis by (simp add: f64_round_def Let_def)
qed

lemma f64_ratio_eq:
  assumes "0 \<le> n" and "n \<le> d" and "0 < d" and "d < 2 ^ 1023"
  shows "f64_ratio n d = F64_Fin False (round_mag (round_mag (of_int n) / round_mag (of_int d)))"
proof -
  have "1 \<le> round_mag (of_int d)" using assms(3) by (intro round_mag_ge_1) simp
  moreover have "round_mag (of_int n) \<le> round_mag (of_int d)"
    using assms(2) by (intro round_mag_mono) simp
  ultimately have "0 \<le> round_mag (of_int n) / round_mag (of_int d)"
    and "round_mag (of_int n) / round_mag (of_int d) \<le> 1"
    and "round_mag (of_int d) \<noteq> 0"
    by (auto simp: divide_le_eq)
  then show ?thesis
    using assms by (simp add: f64_ratio_def f64_of_int_fin f64_round_fin)
qed

text \<open>A part of a non-empty whole is a finite share between zero and one.\<close>

lemma f64_ratio_unit:
  assumes "0 \<le> n" and "n \<le> d" and "0 < d" and "d < 2 ^ 1023"
  shows "f64_is_finite (f64_ratio n d)"
    and "0 \<le> f64_val (f64_ratio n d)" and "f64_val (f64_ratio n d) \<le> 1"
proof -
  have "1 \<le> round_mag (of_int d)" using assms(3) by (intro round_mag_ge_1) simp
  moreover have "round_mag (of_int n) \<le> round_mag (of_int d)"
    using assms(2) by (intro round_mag_mono) simp
  ultimately have "round_mag (of_int n) / round_mag (of_int d) \<le> 1"
    by (auto simp: divide_le_eq)
  then show "f64_val (f64_ratio n d) \<le> 1"
    using assms by (simp add: f64_ratio_eq round_mag_le_1)
  show "f64_is_finite (f64_ratio n d)" "0 \<le> f64_val (f64_ratio n d)"
    using assms by (simp_all add: f64_ratio_eq)
qed

lemma f64_ratio_zero [simp]: "0 < d \<Longrightarrow> d < 2 ^ 1023 \<Longrightarrow> f64_val (f64_ratio 0 d) = 0"
  by (simp add: f64_ratio_eq)

lemma f64_ratio_whole [simp]: "0 < d \<Longrightarrow> d < 2 ^ 1023 \<Longrightarrow> f64_val (f64_ratio d d) = 1"
  using round_mag_ge_1 [of "of_int d"] by (auto simp: f64_ratio_eq)

end
