(* ===== verification/Metrics.thy ===== *)
theory Metrics
  imports F64 Texts
begin

text \<open>
  The unit of a report (\<open>crates/stats/src/metric.rs\<close>): values, their wire form,
  and metrics, whose kind and error move together because only two constructors
  build them. And percentiles by nearest rank
  (\<open>crates/stats/src/percentile.rs\<close>), whose floating-point rank is shown to be
  the rank of exact arithmetic for the two percentiles the reports use.
\<close>

section \<open>Values\<close>

datatype metric_kind = Observed | Inferred

datatype val =
  V_Count i64 | V_Sats i64 | V_Ratio f64 | V_Seconds i64 | V_Fiat f64 str | V_Text str | V_Missing

definition value_ratio :: "f64 \<Rightarrow> val" where
  "value_ratio r = (if f64_is_finite r then V_Ratio r else V_Missing)"

definition value_fiat :: "f64 \<Rightarrow> str \<Rightarrow> val" where
  "value_fiat a c = (if f64_is_finite a then V_Fiat a c else V_Missing)"

definition normalised :: "val \<Rightarrow> val" where
  "normalised v =
     (case v of
        V_Ratio r \<Rightarrow> if \<not> f64_is_finite r then V_Missing else v
      | V_Fiat a c \<Rightarrow> if \<not> f64_is_finite a then V_Missing else v
      | _ \<Rightarrow> v)"

datatype wire =
  W_Count i64 | W_Sats i64 | W_Ratio f64 | W_Seconds i64 | W_Fiat f64 str | W_Text str | W_Missing

definition value_serialize :: "val \<Rightarrow> wire" where
  "value_serialize v =
     (case normalised v of
        V_Count c \<Rightarrow> W_Count c
      | V_Sats s \<Rightarrow> W_Sats s
      | V_Ratio r \<Rightarrow> W_Ratio r
      | V_Seconds s \<Rightarrow> W_Seconds s
      | V_Fiat a c \<Rightarrow> W_Fiat a c
      | V_Text t \<Rightarrow> W_Text t
      | V_Missing \<Rightarrow> W_Missing)"

record metric =
  m_name :: str
  m_kind :: metric_kind
  m_value :: val
  m_error :: "str option"

definition observed :: "str \<Rightarrow> val \<Rightarrow> metric" where
  "observed n v = \<lparr>m_name = n, m_kind = Observed, m_value = v, m_error = None\<rparr>"

definition inferred :: "str \<Rightarrow> val \<Rightarrow> str \<Rightarrow> metric" where
  "inferred n v e = \<lparr>m_name = n, m_kind = Inferred, m_value = v, m_error = Some e\<rparr>"

definition metric_missing :: "metric \<Rightarrow> metric" where
  "metric_missing m = m\<lparr>m_value := V_Missing\<rparr>"

definition is_inferred :: "metric \<Rightarrow> bool" where
  "is_inferred m \<longleftrightarrow> m_kind m = Inferred"

text \<open>The invariant the private fields keep.\<close>

definition metric_ok :: "metric \<Rightarrow> bool" where
  "metric_ok m \<longleftrightarrow> (m_kind m = Observed \<longleftrightarrow> m_error m = None)"

lemma metric_ok_intros [simp]:
  "metric_ok (observed n v)" "metric_ok (inferred n v e)"
  "metric_ok (metric_missing m) = metric_ok m"
  by (simp_all add: metric_ok_def observed_def inferred_def metric_missing_def)

lemma metric_sels [simp]:
  "m_name (observed n v) = n" "m_value (observed n v) = v" "m_kind (observed n v) = Observed"
  "m_name (inferred n v e) = n" "m_value (inferred n v e) = v" "m_kind (inferred n v e) = Inferred"
  "m_value (metric_missing m) = V_Missing" "m_name (metric_missing m) = m_name m"
  "m_kind (metric_missing m) = m_kind m" "m_error (metric_missing m) = m_error m"
  "m_error (observed n v) = None" "m_error (inferred n v e) = Some e"
  by (simp_all add: observed_def inferred_def metric_missing_def)

fun value_finite :: "val \<Rightarrow> bool" where
  "value_finite (V_Ratio r) = f64_is_finite r"
| "value_finite (V_Fiat a c) = f64_is_finite a"
| "value_finite _ = True"

lemma value_finite_constructors [simp]:
  "value_finite (value_ratio r)" "value_finite (value_fiat a c)" "value_finite (normalised v)"
  by (simp_all add: value_ratio_def value_fiat_def) (cases v; simp add: normalised_def)

lemma normalised_id_iff: "normalised v = v \<longleftrightarrow> value_finite v"
  by (cases v) (auto simp: normalised_def)

lemma value_serialize_finite:
  "value_serialize v \<noteq> W_Ratio F64_NaN \<and> value_serialize v \<noteq> W_Ratio (F64_Inf s)"
  by (cases v) (auto simp: value_serialize_def normalised_def)

section \<open>Percentiles\<close>

fun insort_by :: "('a \<Rightarrow> 'a \<Rightarrow> bool) \<Rightarrow> 'a \<Rightarrow> 'a list \<Rightarrow> 'a list" where
  "insort_by le x [] = [x]"
| "insort_by le x (y # ys) = (if le x y then x # y # ys else y # insort_by le x ys)"

text \<open>The stable sort of the standard library (\<open>sort_by\<close>).\<close>

definition stable_sort :: "('a \<Rightarrow> 'a \<Rightarrow> bool) \<Rightarrow> 'a list \<Rightarrow> 'a list" where
  "stable_sort le xs = foldr (insort_by le) xs []"

definition f64_clamp01 :: "f64 \<Rightarrow> f64" where
  "f64_clamp01 p =
     (if f64_lt p (F64_Fin False 0) then F64_Fin False 0
      else if f64_lt (F64_Fin False 1) p then F64_Fin False 1 else p)"

definition nearest_rank :: "nat \<Rightarrow> f64 \<Rightarrow> nat" where
  "nearest_rank n p = f64_as_usize (f64_ceil (f64_mul (f64_clamp01 p) (f64_of_nat n)))"

text \<open>\<open>le\<close> is \<open>partial_cmp\<close> read as \<open>\<le>\<close>; a sample that does not compare to itself has no rank.\<close>

definition percentile_by :: "('a \<Rightarrow> 'a \<Rightarrow> bool) \<Rightarrow> 'a list \<Rightarrow> f64 \<Rightarrow> 'a option" where
  "percentile_by le samples p =
     (if samples = [] then None
      else if list_ex (\<lambda>s. \<not> le s s) samples then None
      else let sorted = stable_sort le samples; rank = nearest_rank (length sorted) p
           in Some (sorted ! (max rank 1 - 1)))"

definition percentile_i64 :: "i64 list \<Rightarrow> f64 \<Rightarrow> i64 option" where
  "percentile_i64 = percentile_by (\<le>)"

definition percentile_f64 :: "f64 list \<Rightarrow> f64 \<Rightarrow> f64 option" where
  "percentile_f64 = percentile_by f64_le"

text \<open>The two literals the reports use.\<close>

definition p50 :: f64 where
  "p50 = F64_Fin False (1 / 2)"

definition p90 :: f64 where
  "p90 = F64_Fin False (8106479329266893 / 2 ^ 53)"

lemma p90_nearest: "F64_Fin False (round_mag (9 / 10)) = p90"
proof -
  have "rat_log2 (9 / 10) = -1" by (rule rat_log2_eqI) simp_all
  then have "ulp_exp (9 / 10) = -53" by (simp add: ulp_exp_def)
  then have "round_mag (9 / 10) = of_int (round_half_even ((9 / 10) / 2 powi -53)) * 2 powi -53"
    by (simp add: round_mag_def)
  also have "(9 / 10 :: rat) / 2 powi -53 = 40532396646334464 / 5"
    by (simp add: power_int_def power_one_over)
  also have "round_half_even (40532396646334464 / 5) = 8106479329266893"
  proof -
    have "\<lfloor>40532396646334464 / 5 :: rat\<rfloor> = 8106479329266892" by (rule floor_unique) simp_all
    then show ?thesis by (simp add: round_half_even_def)
  qed
  finally show ?thesis by (simp add: p90_def power_int_def power_one_over)
qed

section \<open>Sorting\<close>

locale sample_order =
  fixes le :: "'a \<Rightarrow> 'a \<Rightarrow> bool" and ok :: "'a \<Rightarrow> bool"
  assumes le_refl_iff: "le x x \<longleftrightarrow> ok x"
    and le_total: "ok x \<Longrightarrow> ok y \<Longrightarrow> le x y \<or> le y x"
    and le_trans: "le x y \<Longrightarrow> le y z \<Longrightarrow> le x z"
begin

lemma set_insort_by: "set (insort_by le x xs) = insert x (set xs)"
  by (induction xs) auto

lemma mset_insort_by: "length (insort_by le x xs) = Suc (length xs)"
  "count_where P (insort_by le x xs) = count_where P (x # xs)"
  by (induction xs) auto

lemma stable_sort_perm:
  "length (stable_sort le xs) = length xs" "count_where P (stable_sort le xs) = count_where P xs"
  "set (stable_sort le xs) = set xs"
  by (induction xs) (simp_all add: stable_sort_def mset_insort_by set_insort_by)

lemma insort_by_sorted:
  assumes "list_all ok (x # xs)" and "sorted_wrt le xs"
  shows "sorted_wrt le (insort_by le x xs)"
  using assms
proof (induction xs)
  case (Cons y ys)
  show ?case
  proof (cases "le x y")
    case True
    with Cons.prems show ?thesis by (auto intro: le_trans)
  next
    case False
    then have "le y x" using Cons.prems le_total [of x y] by auto
    with False Cons show ?thesis by (auto simp: set_insort_by)
  qed
qed simp

lemma stable_sort_sorted: "list_all ok xs \<Longrightarrow> sorted_wrt le (stable_sort le xs)"
proof (induction xs)
  case (Cons x xs)
  have "set (foldr (insort_by le) xs []) = set xs" using stable_sort_perm(3) by (simp add: stable_sort_def)
  with Cons show ?case by (auto simp: stable_sort_def list_all_iff intro!: insort_by_sorted)
qed (simp add: stable_sort_def)

text \<open>Nearest rank: rank \<open>k\<close> (one-based) has at least \<open>k\<close> samples at or below it, fewer than \<open>k\<close> not above.\<close>

lemma sorted_nth_rank:
  assumes s: "sorted_wrt le ys" and ok: "list_all ok ys" and k: "1 \<le> k" "k \<le> length ys"
  shows "k \<le> count_where (\<lambda>y. le y (ys ! (k - 1))) ys"
    and "count_where (\<lambda>y. \<not> le (ys ! (k - 1)) y) ys < k"
proof -
  let ?v = "ys ! (k - 1)"
  have split: "ys = take k ys @ drop k ys" by simp
  have le: "le (ys ! i) (ys ! j)" if "i \<le> j" "j < length ys" for i j
    using that s ok le_refl_iff [of "ys ! i"]
    by (cases "i = j") (auto simp: sorted_wrt_iff_nth_less list_all_length)
  have "\<forall>y \<in> set (take k ys). le y ?v" using k le by (auto simp: in_set_conv_nth)
  then have "filter (\<lambda>y. le y ?v) (take k ys) = take k ys" by simp
  then have "count_where (\<lambda>y. le y ?v) ys = k + count_where (\<lambda>y. le y ?v) (drop k ys)"
    using k by (subst split, subst filter_append) simp
  then show "k \<le> count_where (\<lambda>y. le y ?v) ys" by simp
  have "\<forall>y \<in> set (drop (k - 1) ys). le ?v y" using k le by (auto simp: in_set_conv_nth)
  then have "filter (\<lambda>y. \<not> le ?v y) (drop (k - 1) ys) = []" by (simp add: filter_empty_conv)
  moreover have "count_where (\<lambda>y. \<not> le ?v y) ys =
      count_where (\<lambda>y. \<not> le ?v y) (take (k - 1) ys) + count_where (\<lambda>y. \<not> le ?v y) (drop (k - 1) ys)"
    by (metis append_take_drop_id filter_append length_append)
  ultimately have "count_where (\<lambda>y. \<not> le ?v y) ys \<le> k - 1"
    using length_filter_le [of "\<lambda>y. \<not> le ?v y" "take (k - 1) ys"] k by simp
  then show "count_where (\<lambda>y. \<not> le ?v y) ys < k" using k by simp
qed

lemma percentile_rank:
  assumes "percentile_by le xs p = Some v" and "nearest_rank (length xs) p = k" and "1 \<le> k" "k \<le> length xs"
  shows "v \<in> set xs" "k \<le> count_where (\<lambda>y. le y v) xs" "count_where (\<lambda>y. \<not> le v y) xs < k"
proof -
  let ?ys = "stable_sort le xs"
  have ok: "list_all ok xs" and v: "v = ?ys ! (k - 1)"
    using assms by (auto simp: percentile_by_def stable_sort_perm list_ex_iff list_all_iff le_refl_iff split: if_splits)
  have ok': "list_all ok ?ys" using ok by (simp add: list_all_iff stable_sort_perm)
  have "k - 1 < length ?ys" using assms by (simp add: stable_sort_perm)
  then show "v \<in> set xs" using v stable_sort_perm(3) [of xs] nth_mem by blast
  show "k \<le> count_where (\<lambda>y. le y v) xs" "count_where (\<lambda>y. \<not> le v y) xs < k"
    using sorted_nth_rank [OF stable_sort_sorted [OF ok] ok', of k] assms
    by (simp_all add: v stable_sort_perm)
qed

lemma percentile_Some_iff: "percentile_by le xs p \<noteq> None \<longleftrightarrow> xs \<noteq> [] \<and> list_all ok xs"
  by (auto simp: percentile_by_def Let_def list_ex_iff list_all_iff le_refl_iff)

end

interpretation i64_order: sample_order "(\<le>) :: i64 \<Rightarrow> i64 \<Rightarrow> bool" "\<lambda>_. True"
  by unfold_locales auto

lemma f64_le_alt: "f64_le a b \<longleftrightarrow>
  (case (a, b) of
     (F64_NaN, _) \<Rightarrow> False | (_, F64_NaN) \<Rightarrow> False
   | (F64_Inf s, F64_Inf t) \<Rightarrow> s \<or> \<not> t
   | (F64_Inf s, F64_Fin t n) \<Rightarrow> s
   | (F64_Fin s m, F64_Inf t) \<Rightarrow> \<not> t
   | (F64_Fin s m, F64_Fin t n) \<Rightarrow> f64_val a \<le> f64_val b)"
  by (cases a; cases b) (auto simp: f64_le_def f64_eq_def)

interpretation f64_order: sample_order f64_le "\<lambda>x. \<not> f64_is_nan x"
proof
  fix x y z :: f64
  show "f64_le x x \<longleftrightarrow> \<not> f64_is_nan x" by (cases x) (auto simp: f64_le_alt)
  show "\<not> f64_is_nan x \<Longrightarrow> \<not> f64_is_nan y \<Longrightarrow> f64_le x y \<or> f64_le y x"
    by (cases x; cases y) (auto simp: f64_le_alt)
  show "f64_le x y \<Longrightarrow> f64_le y z \<Longrightarrow> f64_le x z"
    by (cases x; cases y; cases z) (auto simp: f64_le_alt split: if_splits)
qed

section \<open>The rank in binary64\<close>

lemma f64_ceil_nonneg:
  assumes "0 \<le> m" and "\<lceil>m\<rceil> < 2 ^ 53"
  shows "f64_as_usize (f64_ceil (F64_Fin False m)) = nat \<lceil>m\<rceil>"
proof -
  let ?c = "\<lceil>m\<rceil>"
  have c0: "0 \<le> ?c" using assms(1) by (simp add: le_ceiling_iff)
  have "round_mag (of_int ?c) = of_int ?c" using c0 assms(2) by (rule round_mag_of_int)
  moreover have "(of_int ?c :: rat) < of_int (2 ^ 53)" using assms(2) by (simp only: of_int_less_iff)
  then have "\<not> (2::rat) ^ 1024 \<le> of_int ?c"
    using power_strict_increasing [of 53 1024 "2::rat"] by simp
  ultimately have fin: "f64_ceil (F64_Fin False m) = F64_Fin False (of_int ?c)"
    using c0 by (simp add: f64_round_def Let_def)
  have "nat ?c \<le> 2 ^ 64 - 1" using assms(2) c0 by (simp add: nat_le_iff)
  then show ?thesis unfolding fin using c0 by (simp add: rat_trunc_def min_absorb2)
qed

lemma nearest_rank_ceil:
  assumes "0 \<le> m" "m \<le> 1" and n: "int n < 2 ^ 53"
  shows "nearest_rank n (F64_Fin False m) = nat \<lceil>round_mag (m * of_nat n)\<rceil>"
proof -
  let ?q = "m * of_nat n :: rat"
  have q0: "0 \<le> ?q" using assms(1) by simp
  have "?q \<le> of_int (int n)" using assms(2) by (simp add: mult_left_le_one_le assms(1))
  then have le: "round_mag ?q \<le> of_int (int n)"
    using round_mag_mono [of ?q "of_int (int n)"] round_mag_of_int [of "int n"] n by simp
  moreover have "(of_int (int n) :: rat) < of_int (2 ^ 53)" using n by (simp only: of_int_less_iff)
  ultimately have "\<not> (2::rat) ^ 1024 \<le> round_mag ?q"
    using power_strict_increasing [of 53 1024 "2::rat"] by simp
  then have prod: "f64_mul (F64_Fin False m) (f64_of_nat n) = F64_Fin False (round_mag ?q)"
    using n q0 by (simp add: f64_of_int_small f64_round_def Let_def)
  have clamp: "f64_clamp01 (F64_Fin False m) = F64_Fin False m" using assms by (simp add: f64_clamp01_def)
  have "\<lceil>round_mag ?q\<rceil> \<le> int n" using le by (simp only: ceiling_le_iff)
  then have "\<lceil>round_mag ?q\<rceil> < 2 ^ 53" using n by (rule le_less_trans)
  then show ?thesis unfolding nearest_rank_def clamp prod by (intro f64_ceil_nonneg) simp_all
qed

lemma nearest_rank_p50:
  assumes "int n < 2 ^ 52"
  shows "nearest_rank n p50 = (n + 1) div 2"
proof -
  have r: "round_mag (1 / 2 * of_nat n) = of_int (int n) * 2 powi -1"
    using round_mag_exact [of "int n" "-1"] assms by (simp add: power_int_def)
  have c: "\<lceil>of_int (int n) * 2 powi -1 :: rat\<rceil> = (int n + 1) div 2"
  proof (cases "even (int n)")
    case True
    then obtain k where "int n = 2 * k" by (elim evenE)
    then show ?thesis by (simp add: power_int_def)
  next
    case False
    then obtain k where k: "int n = 2 * k + 1" by (elim oddE)
    then have "(int n + 1) div 2 = k + 1" by simp
    moreover have "\<lceil>of_int (2 * k + 1) * 2 powi -1 :: rat\<rceil> = k + 1"
      by (rule ceiling_unique) (simp_all add: power_int_def)
    ultimately show ?thesis using k by simp
  qed
  have "nearest_rank n p50 = nat \<lceil>round_mag (1 / 2 * of_nat n)\<rceil>"
    unfolding p50_def using assms by (intro nearest_rank_ceil) simp_all
  also have "\<dots> = nat ((int n + 1) div 2)" unfolding r c ..
  finally show ?thesis by (simp add: nat_div_distrib nat_add_distrib)
qed

text \<open>A product a sliver above an integer rounds down to it.\<close>

lemma round_half_even_snap: "0 \<le> d \<Longrightarrow> d < 1 / 2 \<Longrightarrow> round_half_even (of_int k + d) = k"
  using floor_unique [of k "of_int k + d"] by (simp add: round_half_even_def Let_def)

lemma round_mag_snap:
  assumes "0 < i" "i < 2 ^ 52" and "of_int i \<le> q" and "(q - of_int i) * 2 ^ 54 < of_int i"
  shows "round_mag q = of_int i"
proof (rule antisym)
  have "(1::rat) \<le> of_int i" using assms(1) by simp
  then have one: "1 \<le> q" using assms(3) by (rule order_trans)
  then have q: "0 < q" by simp
  let ?u = "ulp_exp q"
  have "q < of_int i + 1"
  proof -
    have "(of_int i :: rat) < of_int (2 ^ 52)" using assms(2) by (simp only: of_int_less_iff)
    then show ?thesis using assms(4) by simp
  qed
  also have "(of_int i :: rat) + 1 \<le> of_int (2 ^ 52)"
    using assms(2) by (metis of_int_1 of_int_add of_int_le_iff zless_imp_add1_zle)
  finally have "q < 2 powi 52" by simp
  then have "(2::rat) powi rat_log2 q < 2 powi 52" using rat_log2_bounds(1) [OF q] by (rule le_less_trans [rotated])
  then have "rat_log2 q < 52" by (simp only: powi2_less_iff)
  moreover have "0 \<le> rat_log2 q"
  proof -
    have "(2::rat) powi 0 < 2 powi (rat_log2 q + 1)"
      using rat_log2_bounds(2) [OF q] one by (simp add: le_less_trans)
    then show ?thesis by (simp only: powi2_less_iff)
  qed
  ultimately have u: "?u = rat_log2 q - 52" "?u < 0" by (simp_all add: ulp_exp_def)
  define k where "k = i * 2 ^ nat (- ?u)"
  have k: "(of_int i :: rat) / 2 powi ?u = of_int k"
  proof -
    have "(1::rat) = of_int (2 ^ nat (- ?u)) * 2 powi ?u" using powi2_grid [of ?u 0] u(2) by simp
    then have "(of_int i :: rat) = of_int k * 2 powi ?u" unfolding k_def
      by (metis mult.assoc mult.right_neutral of_int_mult)
    then show ?thesis by (simp add: divide_eq_eq)
  qed
  have "q < 2 powi (?u + 53)" using rat_log2_bounds(2) [OF q] u(1) by (simp add: add.commute)
  then have "(q - of_int i) * 2 ^ 54 < 2 powi (?u + 53)" using assms(3,4) by linarith
  then have "(q - of_int i) * 2 ^ 54 < 2 powi ?u * 2 ^ 53" by (simp add: power_int_add)
  then have small: "(q - of_int i) / 2 powi ?u < 1 / 2" by (simp add: divide_less_eq)
  have "q / 2 powi ?u = of_int k + (q - of_int i) / 2 powi ?u" using k by (simp add: diff_divide_distrib)
  moreover have "0 \<le> (q - of_int i) / 2 powi ?u" using assms(3) by simp
  ultimately have "round_half_even (q / 2 powi ?u) = k"
    using small by (simp only: round_half_even_snap)
  then show "round_mag q \<le> of_int i" using q k by (simp add: round_mag_def field_simps)
  show "of_int i \<le> round_mag q"
    using round_mag_mono [OF assms(3)] round_mag_of_int [of i] assms(1,2) by simp
qed

lemma nearest_rank_p90:
  assumes "int n < 2 ^ 48"
  shows "nearest_rank n p90 = (9 * n + 9) div 10"
proof (cases "n = 0")
  case True
  have "nearest_rank 0 (F64_Fin False (8106479329266893 / 2 ^ 53)) =
      nat \<lceil>round_mag (8106479329266893 / 2 ^ 53 * of_nat 0)\<rceil>"
    by (rule nearest_rank_ceil) simp_all
  then show ?thesis using True by (simp add: p90_def)
next
  case False
  define q :: rat where "q = 8106479329266893 / 2 ^ 53 * of_nat n"
  define c where "c = (9 * int n + 9) div 10"
  have q: "q = 9 / 10 * of_nat n + of_nat n / (5 * 2 ^ 53)" by (simp add: q_def field_simps)
  have nr: "(of_nat n :: rat) < 2 ^ 48" using assms by (metis of_int_less_iff of_int_numeral of_int_of_nat_eq of_int_power)
  have n1: "(1::rat) \<le> of_nat n" using False by simp
  have c: "\<lceil>round_mag q\<rceil> = c"
  proof (cases "10 dvd n")
    case True
    then obtain k where k: "n = 10 * k" by (elim dvdE)
    then have k1: "0 < k" using False by simp
    have i: "c = 9 * int k" using k by (simp add: c_def)
    have "round_mag q = of_int (9 * int k)"
      using k k1 assms by (intro round_mag_snap) (simp_all add: q field_simps)
    then show ?thesis using i by (simp only: ceiling_of_int)
  next
    case False
    define r where "r = 10 * c - 9 * int n"
    have r: "1 \<le> r" "r \<le> 9" unfolding r_def c_def using False by presburger+
    have rc: "of_int c = 9 / 10 * of_nat n + of_int r / (10 :: rat)" by (simp add: r_def field_simps)
    have r': "(1::rat) \<le> of_int r" "of_int r \<le> (9::rat)" using r by simp_all
    have cpos: "1 \<le> c" "c < 2 ^ 49" using r \<open>n \<noteq> 0\<close> assms by (simp_all add: r_def)
    have "q \<le> of_int c" unfolding q rc using nr r' by simp
    then have "round_mag q \<le> of_int c"
      using round_mag_mono [of q "of_int c"] round_mag_of_int [of c] cpos by simp
    moreover have "of_int c - 1 < round_mag q"
    proof -
      have "of_int (16 * c - 15) * 2 powi -4 = of_int c - (15 / 16 :: rat)"
        by (simp add: power_int_def power_one_over)
      moreover have "of_int c - 15 / 16 \<le> q" unfolding q rc using r' n1 by simp
      ultimately have ge: "of_int (16 * c - 15) * 2 powi -4 \<le> q" by simp
      have "round_mag (of_int (16 * c - 15) * 2 powi -4) = of_int (16 * c - 15) * 2 powi -4"
        using cpos by (intro round_mag_exact) simp_all
      with round_mag_mono [OF ge] have "of_int (16 * c - 15) * 2 powi -4 \<le> round_mag q" by simp
      then show ?thesis by (simp add: power_int_def power_one_over)
    qed
    ultimately show ?thesis by (intro ceiling_unique) simp_all
  qed
  have "nearest_rank n p90 = nat \<lceil>round_mag q\<rceil>"
    unfolding p90_def q_def using assms by (intro nearest_rank_ceil) simp_all
  also have "\<dots> = (9 * n + 9) div 10"
    unfolding c c_def by (simp add: nat_div_distrib nat_add_distrib nat_mult_distrib)
  finally show ?thesis .
qed

section \<open>Properties\<close>

text \<open>
  C36. The p50 and p90 of the reports are the nearest-rank percentiles of exact
  arithmetic, whatever rounding the floating-point rank goes through: over a
  non-empty sample the figure is a sample, at least half (nine tenths) of the
  samples are at or below it, and strictly fewer are below it than the rank.
\<close>

theorem percentile_nearest_rank:
  assumes "xs \<noteq> []" and "int (length xs) < 2 ^ 48"
    and "(p, k) = (p50, (length xs + 1) div 2) \<or> (p, k) = (p90, (9 * length xs + 9) div 10)"
  shows "\<exists>v. percentile_i64 xs p = Some v \<and> v \<in> set xs
    \<and> k \<le> count_where (\<lambda>y. y \<le> v) xs \<and> count_where (\<lambda>y. y < v) xs < k"
proof -
  obtain v where v: "percentile_by (\<le>) xs p = Some v"
    using i64_order.percentile_Some_iff [of xs p] assms(1) by (auto simp: list_all_iff)
  have "nearest_rank (length xs) p = k"
    using assms(2,3) nearest_rank_p50 [of "length xs"] nearest_rank_p90 [of "length xs"] by auto
  moreover have "1 \<le> length xs" using assms(1) by (simp add: Suc_le_eq)
  then have "1 \<le> k" "k \<le> length xs" using assms(3) by auto
  ultimately show ?thesis
    using i64_order.percentile_rank [OF v] v by (auto simp: percentile_i64_def not_le)
qed

theorem percentile_nearest_rank_witness:
  "\<exists>v. percentile_i64 [30, 10, 20, 40] p90 = Some v \<and> v \<in> set [30, 10, 20, 40]
    \<and> 4 \<le> count_where (\<lambda>y. y \<le> v) [30, 10, 20, 40] \<and> count_where (\<lambda>y. y < v) [30, 10, 20, 40] < 4"
  by (rule percentile_nearest_rank) simp_all

end
