(* ===== verification/Coverage.thy ===== *)
theory Coverage
  imports Windows Address Metrics
begin

text \<open>
  What the archive can speak for (\<open>crates/stats/src/bucket.rs\<close>, with
  \<open>Bucket::window\<close> and \<open>Bucket::for_week_starting\<close> of \<open>publish/address.rs\<close>): the
  extent of the stored events, the walk that withholds the figures of a bucket
  outside it, and the partitions a publication run has to compute.
\<close>

section \<open>The extent\<close>

record coverage =
  cov_earliest :: "i64 option"
  cov_latest :: "i64 option"

definition coverage_since :: "i64 \<Rightarrow> coverage" where
  "coverage_since e = \<lparr>cov_earliest = Some e, cov_latest = None\<rparr>"

definition coverage_between :: "i64 \<Rightarrow> i64 \<Rightarrow> coverage" where
  "coverage_between e l = \<lparr>cov_earliest = Some e, cov_latest = Some l\<rparr>"

definition coverage_from_earliest :: "i64 option \<Rightarrow> coverage" where
  "coverage_from_earliest e = \<lparr>cov_earliest = e, cov_latest = None\<rparr>"

definition coverage_from_extent :: "i64 option \<Rightarrow> i64 option \<Rightarrow> coverage" where
  "coverage_from_extent e l = \<lparr>cov_earliest = e, cov_latest = l\<rparr>"

definition covers :: "coverage \<Rightarrow> window \<Rightarrow> bool" where
  "covers c w \<longleftrightarrow> is_some_and (cov_earliest c) (\<lambda>e. e < w_until w)
     \<and> is_none_or (cov_latest c) (\<lambda>l. w_from w \<le> l)"

section \<open>The span of a partition\<close>

definition for_week_starting :: "chrono \<Rightarrow> datetime \<Rightarrow> bucket option" where
  "for_week_starting ch monday =
     Option.bind (year_new (dt_year ch monday)) (\<lambda>y.
     Option.bind (month_new (dt_month ch monday)) (\<lambda>m.
     Some (Bucket_Month y m)))"

definition first_instant :: "chrono \<Rightarrow> int \<Rightarrow> nat \<Rightarrow> i64" where
  "first_instant ch year month = map_or i64_max (\<lambda>t. t) (with_ymd ch year month 1)"

fun bucket_window :: "chrono \<Rightarrow> bucket \<Rightarrow> window" where
  "bucket_window ch (Bucket_Month y m) =
     (if month_get m = 12
      then Window (first_instant ch (year_get y) 12) (first_instant ch (year_get y + 1) 1)
      else Window (first_instant ch (year_get y) (month_get m)) (first_instant ch (year_get y) (month_get m + 1)))"
| "bucket_window ch (Bucket_Year y) =
     Window (first_instant ch (year_get y) 1) (first_instant ch (year_get y + 1) 1)"

definition partition_window :: "chrono \<Rightarrow> partition \<Rightarrow> window" where
  "partition_window ch p = bucket_window ch (part_bucket p)"

section \<open>Partitions of the extent\<close>

partial_function (option) partition_months ::
  "int \<Rightarrow> nat \<Rightarrow> int \<Rightarrow> nat \<Rightarrow> bucket list \<Rightarrow> bucket list option" where
  "partition_months year month last_year last_month buckets =
     (if ym_le year month last_year last_month then
        (case ym_next year month of (year', month') \<Rightarrow>
           partition_months year' month' last_year last_month
             (buckets @ (case (year_new year, month_new month) of
                           (Some y, Some m) \<Rightarrow> [Bucket_Month y m] | _ \<Rightarrow> [])))
      else Some buckets)"

declare partition_months.simps [code]

definition coverage_partitions :: "chrono \<Rightarrow> coverage \<Rightarrow> resolution \<Rightarrow> i64 \<Rightarrow> bucket list option" where
  "coverage_partitions ch c r now =
     (case opt_filter (\<lambda>e. e \<le> now) (cov_earliest c) of
        None \<Rightarrow> Some []
      | Some earliest \<Rightarrow>
          let until = map_or now (\<lambda>l. min l now) (cov_latest c) in
          case (from_timestamp ch earliest, from_timestamp ch until) of
            (Some d, Some d') \<Rightarrow>
              (case r of
                 Monthly \<Rightarrow> Some (map Bucket_Year (filter_map year_new (upto (dt_year ch d) (dt_year ch d'))))
               | _ \<Rightarrow> partition_months (dt_year ch d) (dt_month ch d) (dt_year ch d') (dt_month ch d') [])
          | _ \<Rightarrow> Some [])"

section \<open>The walk\<close>

definition walk_block ::
  "chrono \<Rightarrow> period \<Rightarrow> coverage \<Rightarrow> (str \<Rightarrow> window \<Rightarrow> window option \<Rightarrow> metric list) \<Rightarrow> keyed \<Rightarrow> metric list" where
  "walk_block ch p c block kb =
     (case kb of (key, b) \<Rightarrow>
        let previous = opt_filter (covers c) (window_preceding ch b p) in
        if covers c b then block key b previous
        else map metric_missing (block key (Window (w_from b) (w_from b)) None))"

definition coverage_walk ::
  "chrono \<Rightarrow> window \<Rightarrow> period \<Rightarrow> coverage \<Rightarrow> (str \<Rightarrow> window \<Rightarrow> window option \<Rightarrow> metric list)
    \<Rightarrow> metric list option" where
  "coverage_walk ch w p c block =
     map_option (\<lambda>bs. concat (map (walk_block ch p c block) bs)) (window_buckets ch w p)"

section \<open>Overlap\<close>

definition in_extent :: "coverage \<Rightarrow> i64 \<Rightarrow> bool" where
  "in_extent c t \<longleftrightarrow> is_some_and (cov_earliest c) (\<lambda>e. e \<le> t) \<and> is_none_or (cov_latest c) (\<lambda>l. t \<le> l)"

lemma covers_iff_overlap:
  assumes "w_from w < w_until w"
    and "\<And>e l. cov_earliest c = Some e \<Longrightarrow> cov_latest c = Some l \<Longrightarrow> e \<le> l"
  shows "covers c w \<longleftrightarrow> (\<exists>t. window_contains w t \<and> in_extent c t)"
proof
  assume a: "covers c w"
  then obtain e where e: "cov_earliest c = Some e" "e < w_until w"
    by (auto simp: covers_def is_some_and_def split: option.splits)
  have "window_contains w (max e (w_from w)) \<and> in_extent c (max e (w_from w))"
    using a e assms by (auto simp: covers_def window_contains_def in_extent_def is_none_or_def split: option.splits)
  then show "\<exists>t. window_contains w t \<and> in_extent c t" by blast
next
  assume "\<exists>t. window_contains w t \<and> in_extent c t"
  then show "covers c w"
    by (auto simp: covers_def window_contains_def in_extent_def is_none_or_def is_some_and_def split: option.splits)
qed

section \<open>Months and years by instant\<close>

lemma ym_le_antisym: "ym_le y m y' m' \<Longrightarrow> ym_le y' m' y m \<Longrightarrow> y = y' \<and> m = m'"
  by (auto simp: ym_le_def)

lemma ym_le_next: "ym_next y m = (y', m') \<Longrightarrow> 1 \<le> b \<Longrightarrow> b \<le> 12 \<Longrightarrow> m \<le> 12 \<Longrightarrow>
  ym_le y' m' a b \<longleftrightarrow> ym_le y m a b \<and> (y, m) \<noteq> (a, b)"
  by (auto simp: ym_next_def ym_le_def split: if_splits)

context chrono_laws
begin

lemma first_instant_ymd:
  "0 \<le> y \<Longrightarrow> y \<le> 10000 \<Longrightarrow> 1 \<le> m \<Longrightarrow> m \<le> 12 \<Longrightarrow> with_ymd ch y m 1 = Some (first_instant ch y m)"
  using ymd_exists [of y m] by (auto simp: first_instant_def)

lemma first_instant_le:
  assumes "0 \<le> y" "y \<le> 10000" "1 \<le> m" "m \<le> 12" "dt_valid ch t"
  shows "first_instant ch y m \<le> t \<longleftrightarrow> ym_le y m (dt_year ch t) (dt_month ch t)"
  using ymd_le [OF first_instant_ymd] assms by blast

lemma month_bucket_window:
  assumes "bucket_ok (Bucket_Month y m)" "ym_next (year_get y) (month_get m) = (y', m')"
  shows "bucket_window ch (Bucket_Month y m) =
     Window (first_instant ch (year_get y) (month_get m)) (first_instant ch y' m')"
  using assms by (auto simp: ym_next_def split: if_splits)

lemma month_bucket_contains:
  assumes ok: "bucket_ok (Bucket_Month y m)" and t: "dt_valid ch t"
  shows "window_contains (bucket_window ch (Bucket_Month y m)) t \<longleftrightarrow>
    year_get y = dt_year ch t \<and> month_get m = dt_month ch t"
proof -
  obtain y' m' where n: "ym_next (year_get y) (month_get m) = (y', m')" by fastforce
  have r: "0 \<le> year_get y" "year_get y \<le> 9999" "1 \<le> month_get m" "month_get m \<le> 12"
    using ok by (auto simp: year_ok_def year_new_def month_ok_def month_new_def)
  then have r': "0 \<le> y'" "y' \<le> 10000" "1 \<le> m'" "m' \<le> 12" using n by (auto simp: ym_next_def split: if_splits)
  have "window_contains (bucket_window ch (Bucket_Month y m)) t \<longleftrightarrow>
      ym_le (year_get y) (month_get m) (dt_year ch t) (dt_month ch t)
      \<and> \<not> ym_le y' m' (dt_year ch t) (dt_month ch t)"
    unfolding month_bucket_window [OF ok n] using r r' t by (simp add: window_contains_def first_instant_le not_le [symmetric])
  then show ?thesis using ym_le_next [OF n] month_range [OF t] r by (auto simp: ym_le_def)
qed

lemma year_bucket_contains:
  assumes ok: "bucket_ok (Bucket_Year y)" and t: "dt_valid ch t"
  shows "window_contains (bucket_window ch (Bucket_Year y)) t \<longleftrightarrow> year_get y = dt_year ch t"
proof -
  have r: "0 \<le> year_get y" "year_get y \<le> 9999" using ok by (auto simp: year_ok_def year_new_def)
  then have "window_contains (bucket_window ch (Bucket_Year y)) t \<longleftrightarrow>
      ym_le (year_get y) 1 (dt_year ch t) (dt_month ch t) \<and> \<not> ym_le (year_get y + 1) 1 (dt_year ch t) (dt_month ch t)"
    using t first_instant_le [of "year_get y" 1 t] first_instant_le [of "year_get y + 1" 1 t]
    by (simp add: window_contains_def not_le [symmetric])
  then show ?thesis using month_range [OF t] by (auto simp: ym_le_def)
qed

lemma bucket_window_valid:
  assumes "bucket_ok b"
  shows "dt_valid ch (w_from (bucket_window ch b))" "dt_valid ch (w_until (bucket_window ch b))"
    "w_from (bucket_window ch b) < w_until (bucket_window ch b)"
proof -
  have v: "dt_valid ch (first_instant ch y m)" if "0 \<le> y" "y \<le> 10000" "1 \<le> m" "m \<le> 12" for y m
    using ymd_first [OF first_instant_ymd [OF that]] by blast
  have lt: "first_instant ch y m < first_instant ch y' m'"
    if "0 \<le> y" "y \<le> 10000" "1 \<le> m" "m \<le> 12" "0 \<le> y'" "y' \<le> 10000" "1 \<le> m'" "m' \<le> 12" "\<not> ym_le y' m' y m" for y m y' m'
    using ymd_mono [OF first_instant_ymd [of y' m'] first_instant_ymd [of y m]] that by simp
  show "dt_valid ch (w_from (bucket_window ch b))" "dt_valid ch (w_until (bucket_window ch b))"
    "w_from (bucket_window ch b) < w_until (bucket_window ch b)"
    using assms
    by (cases b; auto simp: year_ok_def year_new_def month_ok_def month_new_def ym_le_def intro!: v lt)+
qed

end

section \<open>The partitions are the ones the extent reaches\<close>

definition months_between :: "int \<Rightarrow> nat \<Rightarrow> int \<Rightarrow> nat \<Rightarrow> bucket set" where
  "months_between y m ly lm =
     {Bucket_Month (Year a) (Month b) | a b. ym_le y m a b \<and> ym_le a b ly lm \<and> 0 \<le> a \<and> a \<le> 9999 \<and> 1 \<le> b \<and> b \<le> 12}"

lemma months_between_iff:
  "Bucket_Month (Year a) (Month b) \<in> months_between y m ly lm \<longleftrightarrow>
     ym_le y m a b \<and> ym_le a b ly lm \<and> 0 \<le> a \<and> a \<le> 9999 \<and> 1 \<le> b \<and> b \<le> 12"
  by (auto simp: months_between_def)

lemma months_between_step:
  assumes "ym_le y m ly lm" "ym_next y m = (y', m')" "1 \<le> m" "m \<le> 12"
  shows "months_between y m ly lm =
    set (case (year_new y, month_new m) of (Some a, Some b) \<Rightarrow> [Bucket_Month a b] | _ \<Rightarrow> [])
    \<union> months_between y' m' ly lm"
    and "set (case (year_new y, month_new m) of (Some a, Some b) \<Rightarrow> [Bucket_Month a b] | _ \<Rightarrow> [])
    \<inter> months_between y' m' ly lm = {}"
proof -
  let ?h = "set (case (year_new y, month_new m) of (Some a, Some b) \<Rightarrow> [Bucket_Month a b] | _ \<Rightarrow> [])"
  have r: "?h = (if 0 \<le> y \<and> y \<le> 9999 then {Bucket_Month (Year y) (Month m)} else {})"
    using assms(3,4) by (auto simp: year_new_def month_new_def then_some_def)
  have n: "1 \<le> b \<and> b \<le> 12 \<Longrightarrow> ym_le y' m' a b \<longleftrightarrow> ym_le y m a b \<and> (y, m) \<noteq> (a, b)" for a b
    using assms ym_le_next by blast
  have refl: "ym_le y m y m" by (simp add: ym_le_def)
  have "x \<in> months_between y m ly lm \<longleftrightarrow> x \<in> ?h \<or> x \<in> months_between y' m' ly lm" for x
  proof (cases x)
    case (Bucket_Month a b)
    obtain a' b' where ab: "a = Year a'" "b = Month b'" by (cases a, cases b)
    show ?thesis unfolding r Bucket_Month ab months_between_iff using n [of b' a'] refl assms by auto
  qed (simp add: r months_between_def)
  then show "months_between y m ly lm = ?h \<union> months_between y' m' ly lm" by blast
  show "?h \<inter> months_between y' m' ly lm = {}"
    unfolding r using n [of m y] assms(3,4) by (auto simp: months_between_iff)
qed

lemma partition_months_ex:
  assumes "1 \<le> m" "m \<le> 12" "1 \<le> lm" "lm \<le> 12"
  shows "\<exists>all. (\<forall>bs. partition_months y m ly lm bs = Some (bs @ all)) \<and> distinct all
    \<and> set all = months_between y m ly lm"
  using assms(1,2)
proof (induction "nat (12 * (ly - y) + int lm - int m + 1)" arbitrary: y m rule: less_induct)
  case less
  show ?case
  proof (cases "ym_le y m ly lm")
    case False
    then have "months_between y m ly lm = {}" by (auto simp: months_between_def ym_le_def)
    with False show ?thesis by (auto simp: partition_months.simps intro!: exI [of _ "[]"])
  next
    case True
    obtain y' m' where n: "ym_next y m = (y', m')" by fastforce
    let ?h = "case (year_new y, month_new m) of (Some a, Some b) \<Rightarrow> [Bucket_Month a b] | _ \<Rightarrow> []"
    have m': "1 \<le> m'" "m' \<le> 12" using n less.prems by (auto simp: ym_next_def split: if_splits)
    have "12 * (ly - y') + int lm - int m' + 1 < 12 * (ly - y) + int lm - int m + 1"
      using n less.prems by (auto simp: ym_next_def split: if_splits)
    moreover have "0 < 12 * (ly - y) + int lm - int m + 1"
      using True less.prems assms(3,4) by (auto simp: ym_le_def)
    ultimately have "nat (12 * (ly - y') + int lm - int m' + 1) < nat (12 * (ly - y) + int lm - int m + 1)"
      by simp
    from less.hyps [OF this m'] obtain all where
      all: "\<And>bs. partition_months y' m' ly lm bs = Some (bs @ all)" "distinct all"
        "set all = months_between y' m' ly lm" by blast
    have "partition_months y m ly lm bs = Some (bs @ ?h @ all)" for bs
      using True n by (subst partition_months.simps) (simp add: all(1))
    moreover have "distinct ?h" by (simp split: option.splits)
    then have "distinct (?h @ all)"
      using all(2,3) months_between_step(2) [OF True n less.prems] by simp
    moreover have "set (?h @ all) = months_between y m ly lm"
      using all(3) months_between_step(1) [OF True n less.prems] by simp
    ultimately show ?thesis by blast
  qed
qed

text \<open>The last instant a run can speak for.\<close>

definition extent_until :: "coverage \<Rightarrow> i64 \<Rightarrow> i64" where
  "extent_until c now = map_or now (\<lambda>l. min l now) (cov_latest c)"

context chrono_laws
begin

lemma month_bucket_reached:
  assumes v: "dt_valid ch e" "dt_valid ch u" "e \<le> u" and ok: "bucket_ok (Bucket_Month y m)"
  shows "(\<exists>t. e \<le> t \<and> t \<le> u \<and> window_contains (bucket_window ch (Bucket_Month y m)) t) \<longleftrightarrow>
    ym_le (dt_year ch e) (dt_month ch e) (year_get y) (month_get m)
    \<and> ym_le (year_get y) (month_get m) (dt_year ch u) (dt_month ch u)"
proof
  assume "\<exists>t. e \<le> t \<and> t \<le> u \<and> window_contains (bucket_window ch (Bucket_Month y m)) t"
  then obtain t where t: "e \<le> t" "t \<le> u" "window_contains (bucket_window ch (Bucket_Month y m)) t" by blast
  then have tv: "dt_valid ch t" using valid_convex v by blast
  then show "ym_le (dt_year ch e) (dt_month ch e) (year_get y) (month_get m)
    \<and> ym_le (year_get y) (month_get m) (dt_year ch u) (dt_month ch u)"
    using month_bucket_contains [OF ok tv] t year_month_mono [OF v(1) tv] year_month_mono [OF tv v(2)] by simp
next
  assume b: "ym_le (dt_year ch e) (dt_month ch e) (year_get y) (month_get m)
    \<and> ym_le (year_get y) (month_get m) (dt_year ch u) (dt_month ch u)"
  let ?w = "bucket_window ch (Bucket_Month y m)"
  let ?t = "max e (w_from ?w)"
  have r: "0 \<le> year_get y" "year_get y \<le> 10000" "1 \<le> month_get m" "month_get m \<le> 12"
    using ok by (auto simp: year_ok_def year_new_def month_ok_def month_new_def)
  have opens: "w_from ?w = first_instant ch (year_get y) (month_get m)" by simp
  note f = ymd_first [OF first_instant_ymd [OF r]]
  have le: "w_from ?w \<le> u" unfolding opens using first_instant_le [OF r v(2)] b by simp
  then have tv: "dt_valid ch ?t" using v f opens by (auto simp: max_def)
  have "ym_le (dt_year ch ?t) (dt_month ch ?t) (year_get y) (month_get m)"
    using b f opens by (auto simp: max_def ym_le_def)
  moreover have "ym_le (year_get y) (month_get m) (dt_year ch ?t) (dt_month ch ?t)"
    using first_instant_le [OF r tv] opens by simp
  ultimately have "window_contains ?w ?t" using month_bucket_contains [OF ok tv] ym_le_antisym by blast
  then show "\<exists>t. e \<le> t \<and> t \<le> u \<and> window_contains ?w t" using le v(3) by (intro exI [of _ ?t]) auto
qed

lemma year_bucket_reached:
  assumes v: "dt_valid ch e" "dt_valid ch u" "e \<le> u" and ok: "bucket_ok (Bucket_Year y)"
  shows "(\<exists>t. e \<le> t \<and> t \<le> u \<and> window_contains (bucket_window ch (Bucket_Year y)) t) \<longleftrightarrow>
    dt_year ch e \<le> year_get y \<and> year_get y \<le> dt_year ch u"
proof
  assume "\<exists>t. e \<le> t \<and> t \<le> u \<and> window_contains (bucket_window ch (Bucket_Year y)) t"
  then obtain t where t: "e \<le> t" "t \<le> u" "window_contains (bucket_window ch (Bucket_Year y)) t" by blast
  then have tv: "dt_valid ch t" using valid_convex v by blast
  then show "dt_year ch e \<le> year_get y \<and> year_get y \<le> dt_year ch u"
    using year_bucket_contains [OF ok tv] t year_month_mono [OF v(1) tv] year_month_mono [OF tv v(2)]
    by (auto simp: ym_le_def)
next
  assume b: "dt_year ch e \<le> year_get y \<and> year_get y \<le> dt_year ch u"
  let ?w = "bucket_window ch (Bucket_Year y)"
  let ?t = "max e (w_from ?w)"
  have r: "0 \<le> year_get y" "year_get y \<le> 10000" "1 \<le> (1::nat)" "(1::nat) \<le> 12"
    using ok by (auto simp: year_ok_def year_new_def)
  have opens: "w_from ?w = first_instant ch (year_get y) 1" by simp
  note f = ymd_first [OF first_instant_ymd [OF r]]
  have le: "w_from ?w \<le> u"
    unfolding opens using first_instant_le [OF r v(2)] b month_range [OF v(2)] by (auto simp: ym_le_def)
  then have tv: "dt_valid ch ?t" using v f opens by (auto simp: max_def)
  have "dt_year ch ?t \<le> year_get y" using b f opens by (auto simp: max_def)
  moreover have "year_get y \<le> dt_year ch ?t" using first_instant_le [OF r tv] opens by (auto simp: ym_le_def)
  ultimately have "window_contains ?w ?t" using year_bucket_contains [OF ok tv] by simp
  then show "\<exists>t. e \<le> t \<and> t \<le> u \<and> window_contains ?w t" using le v(3) by (intro exI [of _ ?t]) auto
qed

lemma partitions_exact:
  assumes c: "cov_earliest c = Some e" "e \<le> now" and v: "dt_valid ch e" "dt_valid ch (extent_until c now)"
    "e \<le> extent_until c now"
  shows "\<exists>ps. coverage_partitions ch c r now = Some ps \<and> distinct ps
    \<and> (\<forall>b. b \<in> set ps \<longleftrightarrow> bucket_ok b \<and> bucket_fits b r
         \<and> (\<exists>t. e \<le> t \<and> t \<le> extent_until c now \<and> window_contains (bucket_window ch b) t))"
proof -
  let ?u = "extent_until c now"
  have ts: "from_timestamp ch e = Some e" "from_timestamp ch ?u = Some ?u" using v by (simp_all add: timestamp)
  note unf = coverage_partitions_def c extent_until_def [symmetric] ts Let_def
  show ?thesis
  proof (cases "r = Monthly")
    case True
    define ps where "ps = map Bucket_Year (filter_map year_new (upto (dt_year ch e) (dt_year ch ?u)))"
    have "coverage_partitions ch c r now = Some ps" using True by (simp add: unf ps_def)
    moreover have "filter_map year_new ys = map Year (filter (\<lambda>y. 0 \<le> y \<and> y \<le> 9999) ys)" for ys
      by (induction ys) (auto simp: year_new_def then_some_def)
    then have ps: "ps = map (Bucket_Year \<circ> Year) (filter (\<lambda>y. 0 \<le> y \<and> y \<le> 9999) (upto (dt_year ch e) (dt_year ch ?u)))"
      by (simp add: ps_def)
    then have "distinct ps" by (auto simp: distinct_map inj_on_def)
    moreover have "b \<in> set ps \<longleftrightarrow> bucket_ok b \<and> bucket_fits b r
        \<and> (\<exists>t. e \<le> t \<and> t \<le> ?u \<and> window_contains (bucket_window ch b) t)" for b
    proof (cases b)
      case (Bucket_Year y)
      have "bucket_ok b \<longleftrightarrow> 0 \<le> year_get y \<and> year_get y \<le> 9999"
        using Bucket_Year by (cases y) (auto simp: year_ok_def year_new_def)
      moreover have "b \<in> set ps \<longleftrightarrow> 0 \<le> year_get y \<and> year_get y \<le> 9999 \<and> dt_year ch e \<le> year_get y \<and> year_get y \<le> dt_year ch ?u"
        using Bucket_Year by (cases y) (auto simp: ps)
      ultimately show ?thesis
        using year_bucket_reached [OF v, of y] Bucket_Year True by auto
    qed (auto simp: ps True)
    ultimately show ?thesis by blast
  next
    case False
    then obtain all where all: "coverage_partitions ch c r now = Some all" "distinct all"
      "set all = months_between (dt_year ch e) (dt_month ch e) (dt_year ch ?u) (dt_month ch ?u)"
      using partition_months_ex [of "dt_month ch e" "dt_month ch ?u" "dt_year ch e" "dt_year ch ?u"]
        month_range v by (cases r) (auto simp: unf)
    have "b \<in> set all \<longleftrightarrow> bucket_ok b \<and> bucket_fits b r
        \<and> (\<exists>t. e \<le> t \<and> t \<le> ?u \<and> window_contains (bucket_window ch b) t)" for b
    proof (cases b)
      case (Bucket_Month y m)
      have ok: "bucket_ok b \<longleftrightarrow> 0 \<le> year_get y \<and> year_get y \<le> 9999 \<and> 1 \<le> month_get m \<and> month_get m \<le> 12"
        using Bucket_Month by (cases y; cases m) (auto simp: year_ok_def year_new_def month_ok_def month_new_def)
      have "b \<in> set all \<longleftrightarrow> ym_le (dt_year ch e) (dt_month ch e) (year_get y) (month_get m)
          \<and> ym_le (year_get y) (month_get m) (dt_year ch ?u) (dt_month ch ?u) \<and> bucket_ok b"
        unfolding ok all(3) using Bucket_Month months_between_iff [of "year_get y" "month_get m"] by simp
      moreover have "bucket_fits b r" using Bucket_Month False by (cases r) auto
      ultimately show ?thesis using month_bucket_reached [OF v, of y m] Bucket_Month by auto
    next
      case (Bucket_Year y)
      then show ?thesis using all(3) False by (auto simp: months_between_def)
    qed
    with all show ?thesis by blast
  qed
qed

end

section \<open>Properties\<close>

text \<open>
  C25. The partitions a publication run computes are exactly the ones the archive
  can speak for: the loop over months ends, no partition is listed twice, and a
  partition of the right shape is listed if and only if its span holds an instant
  between the first stored event and the earlier of the last one and now.
\<close>

theorem coverage_partitions_exact:
  assumes "chrono_laws ch" and "cov_earliest c = Some e" and "e \<le> now"
    and "dt_valid ch e" and "dt_valid ch (extent_until c now)" and "e \<le> extent_until c now"
  shows "\<exists>ps. coverage_partitions ch c r now = Some ps \<and> distinct ps
    \<and> (\<forall>b. b \<in> set ps \<longleftrightarrow> bucket_ok b \<and> bucket_fits b r
         \<and> (\<exists>t. e \<le> t \<and> t \<le> extent_until c now \<and> window_contains (bucket_window ch b) t))"
  using assms by (rule chrono_laws.partitions_exact)

theorem coverage_partitions_exact_witness:
  "\<exists>ps. coverage_partitions gregorian (coverage_between 1754006400 1756684800) Daily 1760000000 = Some ps
    \<and> distinct ps \<and> (\<forall>b. b \<in> set ps \<longleftrightarrow> bucket_ok b \<and> bucket_fits b Daily
         \<and> (\<exists>t. 1754006400 \<le> t \<and> t \<le> 1756684800 \<and> window_contains (bucket_window gregorian b) t))"
  using coverage_partitions_exact [OF greg.chrono_laws_axioms,
      of "coverage_between 1754006400 1756684800" 1754006400 1760000000 Daily]
  by (simp add: coverage_between_def extent_until_def dt_valid_def gregorian_def greg_values)

text \<open>
  A series says nothing about a bucket the archive does not reach, and says
  it row by row: the walk over a window returns one block per bucket, in order;
  a bucket that holds an instant of the extent carries the figures computed for
  it, and any other carries the same rows with every value withheld, so that a
  hole is never reported as zero.
\<close>

theorem coverage_walk_withholds:
  assumes "chrono_laws ch" and "in_i64 (w_from w)" and "in_i64 (w_until w)"
    and "\<And>e l. cov_earliest c = Some e \<Longrightarrow> cov_latest c = Some l \<Longrightarrow> e \<le> l"
    and "\<And>k v q. map m_name (block k v q) = rows k"
  shows "\<exists>bs blocks. window_buckets ch w p = Some bs \<and> coverage_walk ch w p c block = Some (concat blocks)
    \<and> map (map m_name) blocks = map (\<lambda>(k, b). rows k) bs
    \<and> list_all2 (\<lambda>(k, b) ms.
        if \<exists>t. window_contains b t \<and> in_extent c t
        then ms = block k b (opt_filter (covers c) (window_preceding ch b p))
        else \<forall>m \<in> set ms. m_value m = V_Missing) bs blocks"
proof -
  have "- (2 ^ 63) \<le> w_from w" "w_until w < 2 ^ 63" using assms(2,3) by (auto simp: in_i64_def i64_bounds)
  then obtain bs where bs: "window_buckets ch w p = Some bs"
    and ne: "\<And>k b. (k, b) \<in> set bs \<Longrightarrow> w_from b < w_until b"
    by (rule chrono_laws.window_buckets_nonempty [OF assms(1), where p = p]) blast
  let ?blocks = "map (walk_block ch p c block) bs"
  have names: "map m_name (map metric_missing ms) = map m_name ms" for ms by simp
  have "map (map m_name) ?blocks = map (\<lambda>(k, b). rows k) bs"
    unfolding map_map by (rule map_cong) (auto simp: walk_block_def Let_def o_def assms(5) names [unfolded map_map o_def])
  moreover have "list_all2 (\<lambda>(k, b) ms.
        if \<exists>t. window_contains b t \<and> in_extent c t
        then ms = block k b (opt_filter (covers c) (window_preceding ch b p))
        else \<forall>m \<in> set ms. m_value m = V_Missing) bs ?blocks"
    using ne covers_iff_overlap [OF _ assms(4)]
    by (fastforce simp: list_all2_conv_all_nth walk_block_def Let_def split: prod.splits dest: nth_mem)
  moreover have "coverage_walk ch w p c block = Some (concat ?blocks)" using bs by (simp add: coverage_walk_def)
  ultimately show ?thesis using bs by blast
qed

theorem coverage_walk_withholds_witness:
  "\<exists>bs blocks. window_buckets gregorian (Window 0 200000) Day = Some bs
    \<and> coverage_walk gregorian (Window 0 200000) Day (coverage_since 90000) (\<lambda>k v q. [observed k (V_Count 0)])
        = Some (concat blocks)
    \<and> map (map m_name) blocks = map (\<lambda>(k, b). [k]) bs
    \<and> list_all2 (\<lambda>(k, b) ms.
        if \<exists>t. window_contains b t \<and> in_extent (coverage_since 90000) t
        then ms = [observed k (V_Count 0)]
        else \<forall>m \<in> set ms. m_value m = V_Missing) bs blocks"
proof -
  have "in_i64 (w_from (Window 0 200000))" "in_i64 (w_until (Window 0 200000))"
    by (simp_all add: in_i64_def i64_bounds)
  from coverage_walk_withholds [OF greg.chrono_laws_axioms this,
      of "coverage_since 90000" "\<lambda>k v q. [observed k (V_Count 0)]" "\<lambda>k. [k]" Day]
  show ?thesis by (simp add: coverage_since_def)
qed

end
