(* ===== verification/BTree.thy ===== *)
theory BTree
  imports Prelude
begin

text \<open>
  \<open>BTreeMap\<close> and \<open>BTreeSet\<close> of the standard library, as the crate uses them:
  an association list in strictly ascending key order. \<open>bt_upd\<close> is the entry
  API (\<open>entry(k).or_default()\<close>, \<open>and_modify\<close>, \<open>insert\<close>): the new value is a
  function of the old one, if there is one. The locale \<open>entry_map\<close> states what
  a client may rely on and proves once what a fold of entry updates holds at a
  key; it is interpreted on \<open>bt_upd\<close>. Grouping, the shape of every
  \<open>--by\<close> slice, is the fold that pushes each element under its keys.
\<close>

section \<open>Ordered maps\<close>

type_synonym ('k, 'v) btree = "('k \<times> 'v) list"

fun bt_upd :: "'k::linorder \<Rightarrow> ('v option \<Rightarrow> 'v) \<Rightarrow> ('k, 'v) btree \<Rightarrow> ('k, 'v) btree" where
  "bt_upd k f [] = [(k, f None)]"
| "bt_upd k f ((a, b) # m) =
     (if k < a then (k, f None) # (a, b) # m
      else if k = a then (k, f (Some b)) # m
      else (a, b) # bt_upd k f m)"

definition bt_insert :: "'k::linorder \<Rightarrow> 'v \<Rightarrow> ('k, 'v) btree \<Rightarrow> ('k, 'v) btree" where
  "bt_insert k v = bt_upd k (\<lambda>_. v)"

definition bt_get :: "('k, 'v) btree \<Rightarrow> 'k \<Rightarrow> 'v option" where
  "bt_get = map_of"

definition bt_keys :: "('k, 'v) btree \<Rightarrow> 'k list" where
  "bt_keys = map fst"

definition bt_ok :: "('k::linorder, 'v) btree \<Rightarrow> bool" where
  "bt_ok m = sorted_wrt (<) (map fst m)"

text \<open>\<open>collect::<BTreeSet<_>>()\<close>.\<close>

definition bt_set_of :: "'k::linorder list \<Rightarrow> 'k list" where
  "bt_set_of xs = sort (remdups xs)"

definition group_push :: "'k::linorder \<Rightarrow> 'a \<Rightarrow> ('k, 'a list) btree \<Rightarrow> ('k, 'a list) btree" where
  "group_push k x = bt_upd k (\<lambda>old. (case old of None \<Rightarrow> [] | Some g \<Rightarrow> g) @ [x])"

definition group_by :: "('a \<Rightarrow> 'k::linorder list) \<Rightarrow> 'a list \<Rightarrow> ('k, 'a list) btree" where
  "group_by keys xs = foldl (\<lambda>m x. foldl (\<lambda>m k. group_push k x m) m (keys x)) [] xs"

section \<open>The interface\<close>

locale entry_map =
  fixes empty :: 'm
    and upd :: "'k::linorder \<Rightarrow> ('v option \<Rightarrow> 'v) \<Rightarrow> 'm \<Rightarrow> 'm"
    and get :: "'m \<Rightarrow> 'k \<Rightarrow> 'v option"
    and keys :: "'m \<Rightarrow> 'k list"
    and invar :: "'m \<Rightarrow> bool"
  assumes get_empty: "get empty k = None"
    and get_upd: "invar m \<Longrightarrow> get (upd k f m) j = (if j = k then Some (f (get m k)) else get m j)"
    and keys_get: "invar m \<Longrightarrow> k \<in> set (keys m) \<longleftrightarrow> get m k \<noteq> None"
    and keys_ascending: "invar m \<Longrightarrow> sorted_wrt (<) (keys m)"
    and invar_empty: "invar empty"
    and invar_upd: "invar m \<Longrightarrow> invar (upd k f m)"
begin

lemma invar_fold:
  assumes "invar m"
  shows "invar (foldl (\<lambda>m p. upd (fst p) (snd p) m) m ps)"
  using assms by (induction ps arbitrary: m) (simp_all add: invar_upd)

lemma get_fold:
  assumes "invar m"
  shows "get (foldl (\<lambda>m p. upd (fst p) (snd p) m) m ps) j =
    foldl (\<lambda>old p. if fst p = j then Some (snd p old) else old) (get m j) ps"
  using assms
proof (induction ps arbitrary: m)
  case (Cons p ps)
  then show ?case by (simp add: invar_upd get_upd)
qed simp

lemma keys_distinct: "invar m \<Longrightarrow> distinct (keys m)"
  using keys_ascending strict_sorted_iff by blast

lemma keys_fold:
  "set (keys (foldl (\<lambda>m p. upd (fst p) (snd p) m) empty ps)) = fst ` set ps"
proof -
  have "get (foldl (\<lambda>m p. upd (fst p) (snd p) m) empty ps) k \<noteq> None \<longleftrightarrow> k \<in> fst ` set ps" for k
  proof (induction ps rule: rev_induct)
    case Nil
    then show ?case by (simp add: get_empty)
  next
    case (snoc p ps)
    then show ?case by (auto simp: get_upd invar_fold invar_empty)
  qed
  then show ?thesis by (simp add: set_eq_iff keys_get invar_fold invar_empty)
qed

end

section \<open>The implementation\<close>

lemma set_fst_bt_upd: "fst ` set (bt_upd k f m) = insert k (fst ` set m)"
  by (induction m rule: bt_upd.induct) auto

lemma bt_ok_upd:
  assumes "bt_ok m"
  shows "bt_ok (bt_upd k f m)"
  using assms
proof (induction k f m rule: bt_upd.induct)
  case (2 k f a b m)
  consider "k < a" | "k = a" | "a < k" by (rule linorder_cases)
  then show ?case
  proof cases
    case 3
    moreover have "\<forall>x \<in> fst ` set (bt_upd k f m). a < x"
      unfolding set_fst_bt_upd using 2 3 by (auto simp: bt_ok_def)
    ultimately show ?thesis using 2 by (auto simp: bt_ok_def)
  qed (use 2 in \<open>auto simp: bt_ok_def\<close>)
qed (simp add: bt_ok_def)

lemma bt_get_upd:
  assumes "bt_ok m"
  shows "bt_get (bt_upd k f m) j = (if j = k then Some (f (bt_get m k)) else bt_get m j)"
  using assms
proof (induction k f m rule: bt_upd.induct)
  case (2 k f a b m)
  have "k < a \<Longrightarrow> map_of m k = None"
    using 2 by (auto simp: bt_ok_def map_of_eq_None_iff)
  with 2 show ?case by (auto simp: bt_get_def bt_ok_def)
qed (simp add: bt_get_def)

lemma bt_keys_get: "k \<in> set (bt_keys m) \<longleftrightarrow> bt_get m k \<noteq> None"
  by (simp add: bt_keys_def bt_get_def map_of_eq_None_iff)

lemma bt_ok_Nil [simp]: "bt_ok []"
  by (simp add: bt_ok_def)

interpretation bt: entry_map "[]" bt_upd bt_get bt_keys bt_ok
  by unfold_locales
    (simp_all add: bt_get_upd bt_ok_upd bt_keys_get, simp_all add: bt_get_def bt_ok_def bt_keys_def)

lemma bt_get_empty [simp]: "bt_get [] k = None"
  by (simp add: bt_get_def)

lemma bt_get_Some_in: "bt_get m k = Some v \<Longrightarrow> (k, v) \<in> set m"
  by (simp add: bt_get_def map_of_SomeD)

lemma bt_get_iff: "bt_ok m \<Longrightarrow> bt_get m k = Some v \<longleftrightarrow> (k, v) \<in> set m"
  unfolding bt_get_def bt_ok_def by (intro map_of_eq_Some_iff) (simp add: strict_sorted_iff)

lemma bt_get_insert:
  "bt_ok m \<Longrightarrow> bt_get (bt_insert k v m) j = (if j = k then Some v else bt_get m j)"
  by (simp add: bt_insert_def bt_get_upd)

lemma bt_ok_insert [simp]: "bt_ok m \<Longrightarrow> bt_ok (bt_insert k v m)"
  by (simp add: bt_insert_def bt_ok_upd)

lemma set_bt_set_of [simp]: "set (bt_set_of xs) = set xs"
  by (simp add: bt_set_of_def)

lemma bt_set_of_ascending: "sorted_wrt (<) (bt_set_of xs)"
  by (simp add: bt_set_of_def strict_sorted_iff)

section \<open>Grouping\<close>

text \<open>Grouping as one fold of entry updates, the form the interface lemmas speak of.\<close>

definition group_updates ::
  "('a \<Rightarrow> 'k list) \<Rightarrow> 'a list \<Rightarrow> ('k \<times> ('a list option \<Rightarrow> 'a list)) list" where
  "group_updates keys xs = concat (map (\<lambda>x. map (\<lambda>k. (k, \<lambda>old.
     (case old of None \<Rightarrow> [] | Some g \<Rightarrow> g) @ [x])) (keys x)) xs)"

lemma group_by_fold:
  "group_by keys xs = foldl (\<lambda>m p. bt_upd (fst p) (snd p) m) [] (group_updates keys xs)"
proof -
  have inner: "foldl (\<lambda>m k. group_push k x m) m ks =
      foldl (\<lambda>m p. bt_upd (fst p) (snd p) m) m
        (map (\<lambda>k. (k, \<lambda>old. (case old of None \<Rightarrow> [] | Some g \<Rightarrow> g) @ [x])) ks)" for m x ks
    by (induction ks arbitrary: m) (simp_all add: group_push_def)
  have "foldl (\<lambda>m x. foldl (\<lambda>m k. group_push k x m) m (keys x)) m xs =
      foldl (\<lambda>m p. bt_upd (fst p) (snd p) m) m (group_updates keys xs)" for m
    by (induction xs arbitrary: m) (simp_all add: inner group_updates_def)
  then show ?thesis by (simp add: group_by_def)
qed

lemma bt_ok_group_by [simp]: "bt_ok (group_by keys xs)"
  by (simp add: group_by_fold bt.invar_fold)

lemma keys_group_by: "set (bt_keys (group_by keys xs)) = (\<Union>x \<in> set xs. set (keys x))"
  unfolding group_by_fold bt.keys_fold by (simp add: group_updates_def image_UN image_image)

text \<open>With one key per element the group of a key is the elements that name it.\<close>

lemma group_by_get:
  assumes "\<And>x. x \<in> set xs \<Longrightarrow> keys x = [key x]"
  shows "bt_get (group_by keys xs) k =
    (case filter (\<lambda>x. key x = k) xs of [] \<Rightarrow> None | g \<Rightarrow> Some g)"
proof -
  let ?step = "\<lambda>old p. if fst p = k then Some (snd p old) else old"
  have "foldl ?step None (group_updates keys ys) =
      (case filter (\<lambda>x. key x = k) ys of [] \<Rightarrow> None | g \<Rightarrow> Some g)"
    if "set ys \<subseteq> set xs" for ys
    using that
  proof (induction ys rule: rev_induct)
    case (snoc y ys)
    then have "keys y = [key y]" using assms by simp
    with snoc show ?case by (auto simp: group_updates_def split: list.splits)
  qed (simp add: group_updates_def)
  then show ?thesis
    by (simp add: group_by_fold bt.get_fold)
qed

lemma group_by_mem:
  assumes "\<And>x. x \<in> set xs \<Longrightarrow> keys x = [key x]" and "(k, g) \<in> set (group_by keys xs)"
  shows "g = filter (\<lambda>x. key x = k) xs" and "g \<noteq> []"
proof -
  have "bt_get (group_by keys xs) k = Some g"
    using assms(2) by (simp add: bt_get_iff)
  then have "(case filter (\<lambda>x. key x = k) xs of [] \<Rightarrow> None | g \<Rightarrow> Some g) = Some g"
    by (simp add: group_by_get [OF assms(1)])
  then show "g = filter (\<lambda>x. key x = k) xs" and "g \<noteq> []"
    by (auto split: list.splits)
qed

text \<open>
  Whatever is summed over the groups: each element counts once per key it
  names, so with one key per element the groups partition the list.
\<close>

lemma sum_group_push:
  fixes w :: "'a \<Rightarrow> 'b::comm_monoid_add"
  shows "sum_list (map (\<lambda>(k, g). sum_list (map w g)) (group_push k x m)) =
    sum_list (map (\<lambda>(k, g). sum_list (map w g)) m) + w x"
proof -
  have "sum_list (map (\<lambda>(k, g). sum_list (map w g))
      (bt_upd k (\<lambda>old. (case old of None \<Rightarrow> [] | Some g \<Rightarrow> g) @ [x]) m)) =
    sum_list (map (\<lambda>(k, g). sum_list (map w g)) m) + w x"
    by (induction m) (auto simp: ac_simps)
  then show ?thesis by (simp add: group_push_def)
qed

lemma sum_group_by:
  fixes w :: "'a \<Rightarrow> 'b::comm_monoid_add"
  assumes "\<And>x. x \<in> set xs \<Longrightarrow> keys x = [key x]"
  shows "sum_list (map (\<lambda>(k, g). sum_list (map w g)) (group_by keys xs)) = sum_list (map w xs)"
  using assms
proof (induction xs rule: rev_induct)
  case (snoc x xs)
  have "keys x = [key x]" using snoc.prems by simp
  with snoc show ?case by (simp add: group_by_def sum_group_push)
qed (simp add: group_by_def)

text \<open>The same for any fold of entry updates, one per element, and any weight the update adds to.\<close>

lemma bt_ok_foldl_upd: "bt_ok m \<Longrightarrow> bt_ok (foldl (\<lambda>m x. bt_upd (key x) (f x) m) m xs)"
  by (induction xs arbitrary: m) (simp_all add: bt_ok_upd)

lemma bt_get_foldl_upd:
  assumes "bt_ok m"
  shows "bt_get (foldl (\<lambda>m x. bt_upd (key x) (f x) m) m xs) k =
    foldl (\<lambda>old x. if key x = k then Some (f x old) else old) (bt_get m k) xs"
  using assms
proof (induction xs arbitrary: m)
  case (Cons x xs)
  then show ?case by (simp add: bt_get_upd bt_ok_upd)
qed simp

lemma sum_bt_upd:
  fixes W :: "'v \<Rightarrow> 'b::comm_monoid_add"
  assumes "W (f None) = c" and "\<And>v. W (f (Some v)) = W v + c"
  shows "sum_list (map (\<lambda>(k, v). W v) (bt_upd k f m)) = sum_list (map (\<lambda>(k, v). W v) m) + c"
  using assms by (induction m) (auto simp: ac_simps)

lemma sum_foldl_upd:
  fixes W :: "'v \<Rightarrow> 'b::comm_monoid_add"
  assumes "\<And>x. W (f x None) = w x" and "\<And>x v. W (f x (Some v)) = W v + w x"
  shows "sum_list (map (\<lambda>(k, v). W v) (foldl (\<lambda>m x. bt_upd (key x) (f x) m) m xs)) =
    sum_list (map (\<lambda>(k, v). W v) m) + sum_list (map w xs)"
proof (induction xs arbitrary: m)
  case (Cons x xs)
  then show ?case by (simp add: sum_bt_upd [of W "f x" "w x", OF assms] ac_simps)
qed simp

end
