(* ===== verification/Activity.thy ===== *)
theory Activity
  imports Coverage BTree
begin

text \<open>
  Activity (\<open>crates/stats/src/activity.rs\<close>): the order as the statistics see it,
  the figures of one window, the slices, the two histograms and the report. The
  locale \<open>windowed\<close> says what it means for a figure to be dated by an event: it
  adds up over adjacent windows, hence over any tiling of a window; the counts of
  created, completed and canceled orders are interpreted in it.
\<close>

section \<open>Orders\<close>

datatype status = Pending | InProgress | Success | Canceled

fun status_as_str :: "status \<Rightarrow> str" where
  "status_as_str Pending = ''pending''"
| "status_as_str InProgress = ''in-progress''"
| "status_as_str Success = ''success''"
| "status_as_str Canceled = ''canceled''"

datatype direction = Buy | Sell

fun direction_as_str :: "direction \<Rightarrow> str" where
  "direction_as_str Buy = ''buy''"
| "direction_as_str Sell = ''sell''"

record origin =
  og_fiat_code :: str
  og_payment_methods :: "str list"
  og_direction :: direction

record order =
  o_order_id :: str
  o_pubkey :: str
  o_instance :: str
  o_created_at :: i64
  o_status :: status
  o_direction :: direction
  o_fiat_code :: str
  o_payment_methods :: "str list"
  o_amount_sats :: i64
  o_fiat_amount :: "f64 option"
  o_premium :: f64
  o_is_market_price :: bool
  o_fiat_range :: "(f64 \<times> f64) option"
  o_pending_at :: "i64 option"
  o_origin :: origin
  o_taken_at :: "i64 option"
  o_success_at :: "i64 option"
  o_canceled_at :: "i64 option"
  o_expires_at :: "i64 option"

datatype dimension =
  Dim_Status | Dim_Kind | Dim_Fiat | Dim_Method | Dim_Instance | Dim_Month | Dim_Day | Dim_Hour | Dim_Weekday

record activity =
  a_created :: u64
  a_completed :: u64
  a_canceled :: u64
  a_completion_rate :: "f64 option"
  a_abandonment_rate :: "f64 option"
  a_open_now :: u64
  a_in_progress_now :: u64
  a_created_delta :: "f64 option"
  a_completed_delta :: "f64 option"

record histogram =
  h_labels :: "str list"
  h_created :: "u64 list"
  h_completed :: "u64 list"

section \<open>Counts of a window\<close>

record counts =
  c_created :: u64
  c_completed :: u64
  c_canceled :: u64

definition counts_none :: counts where
  "counts_none = \<lparr>c_created = 0, c_completed = 0, c_canceled = 0\<rparr>"

definition dated :: "order list \<Rightarrow> window \<Rightarrow> (order \<Rightarrow> i64 option) \<Rightarrow> u64" where
  "dated orders w pick = count_where (\<lambda>ord. is_some_and (pick ord) (window_contains w)) orders"

definition created_on :: "order \<Rightarrow> i64 option" where
  "created_on ord = Some (o_created_at ord)"

definition completed_on :: "order \<Rightarrow> i64 option" where
  "completed_on ord = (if o_status ord = Success then o_success_at ord else None)"

definition canceled_on :: "order \<Rightarrow> i64 option" where
  "canceled_on ord = (if o_status ord = Canceled then o_canceled_at ord else None)"

definition counts_over :: "order list \<Rightarrow> window \<Rightarrow> counts" where
  "counts_over orders w =
     \<lparr>c_created = dated orders w created_on,
      c_completed = dated orders w completed_on,
      c_canceled = dated orders w canceled_on\<rparr>"

definition ratio :: "u64 \<Rightarrow> u64 \<Rightarrow> f64 option" where
  "ratio n d = (if 0 < d then Some (f64_div (f64_of_nat n) (f64_of_nat d)) else None)"

definition growth :: "u64 \<Rightarrow> u64 \<Rightarrow> f64 option" where
  "growth current previous =
     (if 0 < previous
      then Some (f64_div (f64_sub (f64_of_nat current) (f64_of_nat previous)) (f64_of_nat previous))
      else None)"

definition activity_summarise_against :: "order list \<Rightarrow> window \<Rightarrow> window option \<Rightarrow> i64 \<Rightarrow> activity" where
  "activity_summarise_against orders w previous now =
     (let cur = counts_over orders w;
          prev = map_or counts_none (counts_over orders) previous;
          abandoned = count_where (\<lambda>ord. o_status ord = Canceled \<and> o_taken_at ord = None)
            (filter (\<lambda>ord. window_contains w (o_created_at ord)) orders)
      in \<lparr>a_created = c_created cur,
          a_completed = c_completed cur,
          a_canceled = c_canceled cur,
          a_completion_rate = ratio (c_completed cur) (c_completed cur + c_canceled cur),
          a_abandonment_rate = ratio abandoned (c_created cur),
          a_open_now = count_where (\<lambda>ord. is_some_and (o_expires_at ord) (\<lambda>e. now < e))
            (filter (\<lambda>ord. o_status ord = Pending) orders),
          a_in_progress_now = count_where (\<lambda>ord. o_status ord = InProgress) orders,
          a_created_delta = growth (c_created cur) (c_created prev),
          a_completed_delta = growth (c_completed cur) (c_completed prev)\<rparr>)"

definition activity_summarise :: "order list \<Rightarrow> window \<Rightarrow> i64 \<Rightarrow> activity" where
  "activity_summarise orders w now =
     activity_summarise_against orders w (Some (window_previous w)) now"

section \<open>Slices and histograms\<close>

fun dimension_keys :: "dimension \<Rightarrow> order \<Rightarrow> str list" where
  "dimension_keys Dim_Status ord = [status_as_str (o_status ord)]"
| "dimension_keys Dim_Kind ord = [direction_as_str (o_direction ord)]"
| "dimension_keys Dim_Fiat ord = [o_fiat_code ord]"
| "dimension_keys Dim_Method ord = o_payment_methods ord"
| "dimension_keys Dim_Instance ord = [o_instance ord]"
| "dimension_keys _ ord = []"

definition activity_slice :: "order list \<Rightarrow> dimension \<Rightarrow> (str, order list) btree" where
  "activity_slice orders d = group_by (dimension_keys d) orders"

text \<open>\<open>counts[bucket] += 1\<close>: an index out of range panics, which is \<open>None\<close>.\<close>

definition bump :: "nat \<Rightarrow> u64 list \<Rightarrow> u64 list option" where
  "bump i xs = (if i < length xs then Some (xs[i := xs ! i + 1]) else None)"

definition bump_opt :: "nat option \<Rightarrow> u64 list \<Rightarrow> u64 list option" where
  "bump_opt b xs = (case b of None \<Rightarrow> Some xs | Some i \<Rightarrow> bump i xs)"

fun histogram_loop ::
  "(i64 \<Rightarrow> nat option) \<Rightarrow> window \<Rightarrow> order list \<Rightarrow> u64 list \<Rightarrow> u64 list \<Rightarrow> (u64 list \<times> u64 list) option" where
  "histogram_loop bucket w [] created completed = Some (created, completed)"
| "histogram_loop bucket w (ord # orders) created completed =
     Option.bind (bump_opt (if window_contains w (o_created_at ord) then bucket (o_created_at ord) else None)
       created) (\<lambda>created'.
     Option.bind (bump_opt (if o_status ord = Success
         then Option.bind (opt_filter (window_contains w) (o_success_at ord)) bucket else None)
       completed) (\<lambda>completed'.
     histogram_loop bucket w orders created' completed'))"

definition activity_histogram ::
  "chrono \<Rightarrow> order list \<Rightarrow> window \<Rightarrow> nat \<Rightarrow> (datetime \<Rightarrow> nat) \<Rightarrow> (nat \<Rightarrow> str) \<Rightarrow> histogram option" where
  "activity_histogram ch orders w buckets bucket_of label_of =
     (let bucket = (\<lambda>t. map_option bucket_of (from_timestamp ch t)) in
      map_option (\<lambda>(created, completed).
        \<lparr>h_labels = map label_of [0..<buckets], h_created = created, h_completed = completed\<rparr>)
        (histogram_loop bucket w orders (replicate buckets 0) (replicate buckets 0)))"

definition by_hour :: "chrono \<Rightarrow> order list \<Rightarrow> window \<Rightarrow> histogram option" where
  "by_hour ch orders w = activity_histogram ch orders w 24 (dt_hour ch) (show_pad 2)"

definition weekday_names :: "str list" where
  "weekday_names = [''mon'', ''tue'', ''wed'', ''thu'', ''fri'', ''sat'', ''sun'']"

definition by_weekday :: "chrono \<Rightarrow> order list \<Rightarrow> window \<Rightarrow> histogram option" where
  "by_weekday ch orders w = activity_histogram ch orders w 7 (dt_weekday ch) (\<lambda>d. weekday_names ! d)"

section \<open>The report\<close>

definition u64_as_i64 :: "u64 \<Rightarrow> i64" where
  "u64_as_i64 n = wrap_i64 (int n)"

definition count_metric :: "str \<Rightarrow> str \<Rightarrow> u64 \<Rightarrow> metric" where
  "count_metric pfx name n = observed (pfx @ ''.'' @ name) (V_Count (u64_as_i64 n))"

definition ratio_metric :: "str \<Rightarrow> str \<Rightarrow> f64 option \<Rightarrow> metric" where
  "ratio_metric pfx name r = observed (pfx @ ''.'' @ name) (map_or V_Missing value_ratio r)"

definition activity_dated_metrics :: "str \<Rightarrow> activity \<Rightarrow> metric list" where
  "activity_dated_metrics pfx a =
     [count_metric pfx ''created'' (a_created a),
      count_metric pfx ''completed'' (a_completed a),
      count_metric pfx ''canceled'' (a_canceled a),
      ratio_metric pfx ''completion_rate'' (a_completion_rate a),
      ratio_metric pfx ''abandonment_rate'' (a_abandonment_rate a),
      ratio_metric pfx ''created_delta'' (a_created_delta a),
      ratio_metric pfx ''completed_delta'' (a_completed_delta a)]"

definition activity_metrics :: "str \<Rightarrow> activity \<Rightarrow> metric list" where
  "activity_metrics pfx a =
     activity_dated_metrics pfx a @
     [count_metric pfx ''open_now'' (a_open_now a),
      count_metric pfx ''in_progress_now'' (a_in_progress_now a)]"

definition histogram_metrics :: "str \<Rightarrow> histogram \<Rightarrow> metric list" where
  "histogram_metrics pfx h =
     concat (map (\<lambda>(label, created, completed).
       [observed (pfx @ ''.'' @ label @ ''.created'') (V_Count (u64_as_i64 created)),
        observed (pfx @ ''.'' @ label @ ''.completed'') (V_Count (u64_as_i64 completed))])
       (zip (h_labels h) (zip (h_created h) (h_completed h))))"

definition activity_report ::
  "chrono \<Rightarrow> order list \<Rightarrow> window \<Rightarrow> i64 \<Rightarrow> dimension option \<Rightarrow> coverage \<Rightarrow> metric list option" where
  "activity_report ch orders w now d cov =
     (let periodic = (\<lambda>p. coverage_walk ch w p cov (\<lambda>key b previous.
            activity_dated_metrics (''orders.'' @ key) (activity_summarise_against orders b previous now)))
      in case d of
           None \<Rightarrow> Some (activity_metrics ''orders'' (activity_summarise orders w now))
         | Some Dim_Month \<Rightarrow> periodic Month_Period
         | Some Dim_Day \<Rightarrow> periodic Day
         | Some Dim_Hour \<Rightarrow> map_option (histogram_metrics ''orders.hour'') (by_hour ch orders w)
         | Some Dim_Weekday \<Rightarrow> map_option (histogram_metrics ''orders.weekday'') (by_weekday ch orders w)
         | Some grouping \<Rightarrow> Some (concat (map (\<lambda>(key, group).
             activity_metrics (''orders.'' @ key) (activity_summarise group w now)) (activity_slice orders grouping))))"

section \<open>Figures dated by an event\<close>

locale windowed =
  fixes fig :: "window \<Rightarrow> 'm::comm_monoid_add"
  assumes fig_empty: "fig (Window a a) = 0"
    and fig_adjacent: "a \<le> b \<Longrightarrow> b \<le> c \<Longrightarrow> fig (Window a c) = fig (Window a b) + fig (Window b c)"
begin

lemma fig_tiles: "tiles a b ws \<Longrightarrow> fig (Window a b) = sum_list (map fig ws)"
proof (induction ws arbitrary: a)
  case (Cons w ws)
  then have "fig (Window (w_until w) b) = sum_list (map fig ws)" by simp
  moreover have "w_until w \<le> b" using Cons.prems tiles_le by auto
  moreover have "w = Window a (w_until w)" using Cons.prems by (cases w) simp
  ultimately show ?case using Cons.prems fig_adjacent [of a "w_until w" b] by simp
qed (simp add: fig_empty)

end

lemma window_contains_adjacent:
  "a \<le> b \<Longrightarrow> b \<le> c \<Longrightarrow> window_contains (Window a c) t \<longleftrightarrow>
     window_contains (Window a b) t \<or> window_contains (Window b c) t"
  "window_contains (Window a b) t \<Longrightarrow> \<not> window_contains (Window b c) t"
  "\<not> window_contains (Window a a) t"
  by (auto simp: window_contains_def)

text \<open>A sum of weights over the elements whose date the window holds.\<close>

definition dated_sum :: "('a \<Rightarrow> 'm::comm_monoid_add) \<Rightarrow> ('a \<Rightarrow> i64 option) \<Rightarrow> 'a list \<Rightarrow> window \<Rightarrow> 'm" where
  "dated_sum weight pick xs w =
     sum_list (map weight (filter (\<lambda>x. is_some_and (pick x) (window_contains w)) xs))"

lemma sum_list_filter_disj:
  fixes f :: "'a \<Rightarrow> 'm::comm_monoid_add"
  assumes "\<And>x. \<not> (P x \<and> Q x)"
  shows "sum_list (map f (filter (\<lambda>x. P x \<or> Q x) xs)) = sum_list (map f (filter P xs)) + sum_list (map f (filter Q xs))"
  using assms by (induction xs) (auto simp: ac_simps)

lemma dated_sum_adjacent:
  assumes "a \<le> b" "b \<le> c"
  shows "dated_sum weight pick xs (Window a c) =
    dated_sum weight pick xs (Window a b) + dated_sum weight pick xs (Window b c)"
proof -
  have "is_some_and (pick x) (window_contains (Window a c)) \<longleftrightarrow>
      is_some_and (pick x) (window_contains (Window a b)) \<or> is_some_and (pick x) (window_contains (Window b c))" for x
    using window_contains_adjacent(1) [OF assms] by (cases "pick x") simp_all
  moreover have "\<not> (is_some_and (pick x) (window_contains (Window a b)) \<and> is_some_and (pick x) (window_contains (Window b c)))" for x
    using window_contains_adjacent(2) [of a b _ c] by (cases "pick x") auto
  ultimately show ?thesis unfolding dated_sum_def by (simp add: sum_list_filter_disj)
qed

lemma dated_sum_empty: "dated_sum weight pick xs (Window a a) = 0"
  by (simp add: dated_sum_def window_contains_def is_some_and_def split: option.splits)

interpretation dated_sum: windowed "dated_sum weight pick xs" for weight pick xs
  by unfold_locales (rule dated_sum_empty, rule dated_sum_adjacent)

lemma dated_sum_count: "dated orders w pick = dated_sum (\<lambda>_. 1) pick orders w"
  by (induction orders) (auto simp: dated_def dated_sum_def)

interpretation dated_count: windowed "\<lambda>w. dated orders w pick" for orders pick
  unfolding dated_sum_count by unfold_locales (rule dated_sum_empty, rule dated_sum_adjacent)

section \<open>Shares and slices\<close>

lemma ratio_None_iff: "ratio n d = None \<longleftrightarrow> d = 0"
  by (simp add: ratio_def)

lemma ratio_unit:
  assumes "ratio n d = Some r" and "n \<le> d" and "d < 2 ^ 64"
  shows "f64_is_finite r \<and> 0 \<le> f64_val r \<and> f64_val r \<le> 1"
proof -
  have "(2::int) ^ 64 < 2 ^ 1023" by (rule power_strict_increasing) simp_all
  then have "int d < 2 ^ 1023" using assms(3) by (meson of_nat_less_numeral_power_cancel_iff order_less_trans)
  moreover have "r = f64_ratio (int n) (int d)" "0 < d"
    using assms(1) by (auto simp: ratio_def f64_ratio_def split: if_splits)
  ultimately show ?thesis using f64_ratio_unit [of "int n" "int d"] assms(2) by simp
qed

lemma ratio_zero_val: "ratio 0 d = Some r \<Longrightarrow> d < 2 ^ 64 \<Longrightarrow> f64_val r = 0"
proof -
  assume a: "ratio 0 d = Some r" "d < 2 ^ 64"
  have "(2::int) ^ 64 < 2 ^ 1023" by (rule power_strict_increasing) simp_all
  then have "int d < 2 ^ 1023" using a(2) by (meson of_nat_less_numeral_power_cancel_iff order_less_trans)
  with a show "f64_val r = 0" by (auto simp: ratio_def f64_ratio_def [symmetric] split: if_splits)
qed

lemma activity_sels [simp]:
  "a_created (activity_summarise_against os w q now) = dated os w created_on"
  "a_completed (activity_summarise_against os w q now) = dated os w completed_on"
  "a_canceled (activity_summarise_against os w q now) = dated os w canceled_on"
  "a_completion_rate (activity_summarise_against os w q now) =
     ratio (dated os w completed_on) (dated os w completed_on + dated os w canceled_on)"
  by (simp_all add: activity_summarise_against_def Let_def counts_over_def)

lemma completed_canceled_le: "dated os w completed_on + dated os w canceled_on \<le> length os"
proof -
  have "dated os w completed_on + dated os w canceled_on =
      count_where (\<lambda>x. is_some_and (completed_on x) (window_contains w) \<or> is_some_and (canceled_on x) (window_contains w)) os"
    unfolding dated_def by (rule count_where_disj [symmetric]) (auto simp: completed_on_def canceled_on_def split: if_splits)
  then show ?thesis by simp
qed

definition single_key :: "dimension \<Rightarrow> bool" where
  "single_key d \<longleftrightarrow> d \<in> {Dim_Status, Dim_Kind, Dim_Fiat, Dim_Instance}"

lemma single_key_keys: "single_key d \<Longrightarrow> dimension_keys d ord = [hd (dimension_keys d ord)]"
  by (auto simp: single_key_def)

lemma dated_slice:
  assumes "single_key d"
  shows "dated orders w pick = sum_list (map (\<lambda>(k, g). dated g w pick) (activity_slice orders d))"
proof -
  let ?w = "\<lambda>ord. if is_some_and (pick ord) (window_contains w) then 1 else 0 :: nat"
  have c: "dated os w pick = sum_list (map ?w os)" for os
    by (induction os) (auto simp: dated_def)
  show ?thesis unfolding c activity_slice_def
    by (rule sum_group_by [where key = "\<lambda>x. hd (dimension_keys d x)", symmetric])
      (rule single_key_keys [OF assms])
qed

section \<open>The histograms\<close>

definition completed_in :: "window \<Rightarrow> order \<Rightarrow> i64 option" where
  "completed_in w ord = opt_filter (window_contains w) (completed_on ord)"

lemma histogram_loop_counts:
  assumes "\<And>t i. bucket t = Some i \<Longrightarrow> i < n" and "length created = n" and "length completed = n"
  shows "\<exists>cr co. histogram_loop bucket w orders created completed = Some (cr, co)
    \<and> length cr = n \<and> length co = n
    \<and> (\<forall>i < n. cr ! i = created ! i + count_where (\<lambda>x. window_contains w (o_created_at x) \<and> bucket (o_created_at x) = Some i) orders)
    \<and> (\<forall>i < n. co ! i = completed ! i + count_where (\<lambda>x. Option.bind (completed_in w x) bucket = Some i) orders)"
  using assms(2,3)
proof (induction orders arbitrary: created completed)
  case (Cons x xs)
  let ?b = "if window_contains w (o_created_at x) then bucket (o_created_at x) else None"
  let ?c = "if o_status x = Success then Option.bind (opt_filter (window_contains w) (o_success_at x)) bucket else None"
  have c: "?c = Option.bind (completed_in w x) bucket"
    by (simp add: completed_in_def completed_on_def)
  have bump: "\<exists>ys. bump_opt b xs = Some ys \<and> length ys = n \<and> (\<forall>i<n. ys ! i = xs ! i + (if b = Some i then 1 else 0))"
    if "length xs = n" "\<And>i. b = Some i \<Longrightarrow> i < n" for b xs
    using that by (cases b) (auto simp: bump_opt_def bump_def nth_list_update)
  have bs: "\<And>i. ?b = Some i \<Longrightarrow> i < n" "\<And>i. ?c = Some i \<Longrightarrow> i < n"
    using assms(1) unfolding c by (auto simp: bind_eq_Some_conv split: if_splits)
  obtain cr where cr: "bump_opt ?b created = Some cr" "length cr = n"
    "\<forall>i<n. cr ! i = created ! i + (if ?b = Some i then 1 else 0)"
    using bump [OF Cons.prems(1), of ?b] bs(1) by blast
  obtain co where co: "bump_opt ?c completed = Some co" "length co = n"
    "\<forall>i<n. co ! i = completed ! i + (if ?c = Some i then 1 else 0)"
    using bump [OF Cons.prems(2), of ?c] bs(2) by blast
  from Cons.IH [OF cr(2) co(2)] obtain cr' co' where
    ih: "histogram_loop bucket w xs cr co = Some (cr', co')" "length cr' = n" "length co' = n"
    "\<forall>i < n. cr' ! i = cr ! i + count_where (\<lambda>x. window_contains w (o_created_at x) \<and> bucket (o_created_at x) = Some i) xs"
    "\<forall>i < n. co' ! i = co ! i + count_where (\<lambda>x. Option.bind (completed_in w x) bucket = Some i) xs"
    by blast
  have "histogram_loop bucket w (x # xs) created completed = Some (cr', co')"
    unfolding histogram_loop.simps cr(1) bind.bind_lunit co(1) by (rule ih)
  then show ?case using ih cr co c by (intro exI [of _ cr'] exI [of _ co']) auto
qed simp

lemma activity_histogram_counts:
  assumes "\<And>t d. from_timestamp ch t = Some d \<Longrightarrow> f d < n"
  shows "\<exists>h. activity_histogram ch orders w n f label = Some h \<and> length (h_created h) = n \<and> length (h_completed h) = n
    \<and> h_labels h = map label [0..<n]
    \<and> (\<forall>i < n. h_created h ! i = count_where (\<lambda>x. window_contains w (o_created_at x) \<and>
          map_option f (from_timestamp ch (o_created_at x)) = Some i) orders)
    \<and> (\<forall>i < n. h_completed h ! i = count_where (\<lambda>x.
          Option.bind (completed_in w x) (\<lambda>t. map_option f (from_timestamp ch t)) = Some i) orders)"
proof -
  obtain cr co where "histogram_loop (\<lambda>t. map_option f (from_timestamp ch t)) w orders (replicate n 0) (replicate n 0) = Some (cr, co)"
    "length cr = n" "length co = n"
    "\<forall>i < n. cr ! i = replicate n 0 ! i + count_where (\<lambda>x. window_contains w (o_created_at x) \<and>
          map_option f (from_timestamp ch (o_created_at x)) = Some i) orders"
    "\<forall>i < n. co ! i = replicate n 0 ! i + count_where (\<lambda>x.
          Option.bind (completed_in w x) (\<lambda>t. map_option f (from_timestamp ch t)) = Some i) orders"
    using histogram_loop_counts [of "\<lambda>t. map_option f (from_timestamp ch t)" n "replicate n 0" "replicate n 0" w orders] assms
    by auto
  then show ?thesis by (simp add: activity_histogram_def)
qed

text \<open>Counting by bucket over all buckets counts everything once.\<close>

lemma count_by_bucket:
  assumes "\<And>x i. x \<in> set xs \<Longrightarrow> g x = Some i \<Longrightarrow> i < n"
  shows "sum_list (map (\<lambda>i. count_where (\<lambda>x. g x = Some i) xs) [0..<n]) = count_where (\<lambda>x. g x \<noteq> None) xs"
  using assms
proof (induction xs)
  case (Cons x xs)
  have "sum_list (map (\<lambda>i. if g x = Some i then 1 else 0) [0..<n]) = (if g x = None then 0 else 1 :: nat)"
  proof (cases "g x")
    case (Some j)
    then have "j < n" using Cons.prems [of x j] by simp
    have "sum_list (map (\<lambda>i. if j = i then 1 else 0 :: nat) [0..<m]) = (if j < m then 1 else 0)" for m
      by (induction m) auto
    with Some \<open>j < n\<close> show ?thesis by simp
  qed simp
  moreover have "count_where (\<lambda>y. g y = Some i) (x # xs) = (if g x = Some i then 1 else 0) + count_where (\<lambda>y. g y = Some i) xs" for i
    by simp
  ultimately show ?case using Cons by (simp add: sum_list_addf del: filter.simps) auto
qed simp

lemma sum_list_nth: "length xs = n \<Longrightarrow> (\<And>i. i < n \<Longrightarrow> xs ! i = g i) \<Longrightarrow> sum_list xs = sum_list (map g [0..<n])"
  using map_nth [of xs] by (metis (no_types, lifting) atLeastLessThan_iff map_cong set_upt)

lemma histogram_spec:
  assumes fb: "\<And>d. dt_valid ch d \<Longrightarrow> f d < n" and laws: "chrono_laws ch"
    and valid: "\<And>t. window_contains w t \<Longrightarrow> dt_valid ch t"
  shows "\<exists>h. activity_histogram ch orders w n f label = Some h \<and> h_labels h = map label [0..<n]
    \<and> length (h_created h) = n \<and> length (h_completed h) = n
    \<and> (\<forall>i < n. h_created h ! i = count_where (\<lambda>x. window_contains w (o_created_at x) \<and> f (o_created_at x) = i) orders)
    \<and> sum_list (h_created h) = dated orders w created_on
    \<and> sum_list (h_completed h) = dated orders w completed_on"
proof -
  note ts = chrono_laws.valid_from_timestamp [OF laws]
  let ?m = "\<lambda>t. map_option f (from_timestamp ch t)"
  have m: "?m t = Some i \<longleftrightarrow> dt_valid ch t \<and> f t = i" for t i by (auto simp: ts)
  have fb': "f d < n" if "from_timestamp ch t = Some d" for t d using that fb by (simp add: ts)
  let ?g = "\<lambda>x. if window_contains w (o_created_at x) then ?m (o_created_at x) else None"
  obtain h where h: "activity_histogram ch orders w n f label = Some h" "length (h_created h) = n"
    "length (h_completed h) = n" "h_labels h = map label [0..<n]"
    and cr': "\<forall>i < n. h_created h ! i = count_where (\<lambda>x. window_contains w (o_created_at x) \<and> ?m (o_created_at x) = Some i) orders"
    and co': "\<forall>i < n. h_completed h ! i = count_where (\<lambda>x. Option.bind (completed_in w x) ?m = Some i) orders"
    by (rule exE [OF activity_histogram_counts [of ch f n orders w label]], rule fb', assumption) blast
  note cr = cr' [rule_format] and co = co' [rule_format]
  have "h_created h ! i = count_where (\<lambda>x. ?g x = Some i) orders" if "i < n" for i
    unfolding cr [OF that] by (intro arg_cong [of _ _ length] filter_cong) auto
  then have "sum_list (h_created h) = sum_list (map (\<lambda>i. count_where (\<lambda>x. ?g x = Some i) orders) [0..<n])"
    by (rule sum_list_nth [OF h(2)])
  also have "\<dots> = count_where (\<lambda>x. ?g x \<noteq> None) orders"
    by (rule count_by_bucket) (auto simp: ts fb split: if_splits)
  also have "\<dots> = dated orders w created_on"
    unfolding dated_def created_on_def using valid
    by (intro arg_cong [of _ _ length] filter_cong) (auto simp: chrono_laws.timestamp [OF laws])
  finally have 1: "sum_list (h_created h) = dated orders w created_on" .
  have "sum_list (h_completed h) = sum_list (map (\<lambda>i. count_where (\<lambda>x. Option.bind (completed_in w x) ?m = Some i) orders) [0..<n])"
    using co by (rule sum_list_nth [OF h(3)])
  also have "\<dots> = count_where (\<lambda>x. Option.bind (completed_in w x) ?m \<noteq> None) orders"
    by (rule count_by_bucket) (auto simp: ts fb bind_eq_Some_conv)
  also have "\<dots> = dated orders w completed_on"
    unfolding dated_def completed_in_def using valid
    by (intro arg_cong [of _ _ length] filter_cong)
      (auto simp: chrono_laws.timestamp [OF laws] is_some_and_def split: option.splits)
  finally have 2: "sum_list (h_completed h) = dated orders w completed_on" .
  have "h_created h ! i = count_where (\<lambda>x. window_contains w (o_created_at x) \<and> f (o_created_at x) = i) orders" if "i < n" for i
    unfolding cr [OF that] m using valid by (intro arg_cong [of _ _ length] filter_cong) auto
  with h 1 2 show ?thesis by blast
qed

definition example_order :: order where
  "example_order = \<lparr>o_order_id = ''o1'', o_pubkey = ''p1'', o_instance = ''p1'', o_created_at = 1767225700,
     o_status = Success, o_direction = Buy, o_fiat_code = ''ARS'', o_payment_methods = [''cash''],
     o_amount_sats = 1000, o_fiat_amount = Some (F64_Fin False 10), o_premium = F64_Fin False 0,
     o_is_market_price = False, o_fiat_range = None, o_pending_at = Some 1767225700,
     o_origin = \<lparr>og_fiat_code = ''ARS'', og_payment_methods = [''cash''], og_direction = Buy\<rparr>,
     o_taken_at = Some 1767229200, o_success_at = Some 1767232800, o_canceled_at = None,
     o_expires_at = Some 1767312100\<rparr>"

section \<open>Properties\<close>

text \<open>
  C37. The dated counts of a window are the sums of those of its buckets, by day,
  week, month or year: every order created, completed or canceled in the window
  is counted in exactly one bucket, whatever previous window each bucket is
  compared against.
\<close>

theorem activity_adds_up:
  assumes "chrono_laws ch" and "w_from w \<le> w_until w"
    and "dt_valid ch (w_from w - 6 * day_secs)" and "dt_valid ch (w_until w + 366 * day_secs)"
  shows "\<exists>bs. window_buckets ch w p = Some bs \<and>
    a_created (activity_summarise orders w now) =
      sum_list (map (\<lambda>(k, b). a_created (activity_summarise_against orders b (prev b) now)) bs) \<and>
    a_completed (activity_summarise orders w now) =
      sum_list (map (\<lambda>(k, b). a_completed (activity_summarise_against orders b (prev b) now)) bs) \<and>
    a_canceled (activity_summarise orders w now) =
      sum_list (map (\<lambda>(k, b). a_canceled (activity_summarise_against orders b (prev b) now)) bs)"
proof -
  obtain bs where bs: "window_buckets ch w p = Some bs" "tiles (w_from w) (w_until w) (map snd bs)"
    by (rule buckets_tile_window [OF assms, of p]) blast
  have "dated orders w pick = sum_list (map (\<lambda>(k, b). dated orders b pick) bs)" for pick
    using dated_count.fig_tiles [OF bs(2), of orders pick] by (simp add: o_def case_prod_unfold)
  then show ?thesis using bs(1) by (simp add: activity_summarise_def)
qed

theorem activity_adds_up_witness:
  "\<exists>bs. window_buckets gregorian (Window 1767225600 1772323200) Week = Some bs \<and>
    a_created (activity_summarise [example_order] (Window 1767225600 1772323200) 0) =
      sum_list (map (\<lambda>(k, b). a_created (activity_summarise_against [example_order] b None 0)) bs)"
proof -
  let ?w = "Window 1767225600 1772323200"
  have "dt_valid gregorian (w_from ?w - 6 * day_secs)" "dt_valid gregorian (w_until ?w + 366 * day_secs)"
    by (simp_all add: dt_valid_def gregorian_def greg_values)
  from activity_adds_up [OF greg.chrono_laws_axioms _ this, of Week "[example_order]" 0 "\<lambda>_. None"]
  show ?thesis by auto
qed

text \<open>
  A rate is reported exactly when there is something to divide by, and it
  is then a finite number between zero and one: the completion rate of a window
  is missing if and only if nothing was completed or canceled in it, and the
  abandonment rate if and only if nothing was created.
\<close>

theorem activity_rates_unit:
  assumes "length orders < 2 ^ 64"
  shows "(a_completion_rate (activity_summarise_against orders w q now) = None \<longleftrightarrow>
       a_completed (activity_summarise_against orders w q now) = 0
       \<and> a_canceled (activity_summarise_against orders w q now) = 0)
    \<and> (a_abandonment_rate (activity_summarise_against orders w q now) = None \<longleftrightarrow>
       a_created (activity_summarise_against orders w q now) = 0)
    \<and> (\<forall>r. a_completion_rate (activity_summarise_against orders w q now) = Some r
        \<or> a_abandonment_rate (activity_summarise_against orders w q now) = Some r \<longrightarrow>
        f64_is_finite r \<and> 0 \<le> f64_val r \<and> f64_val r \<le> 1)"
proof -
  let ?A = "activity_summarise_against orders w q now"
  let ?ab = "count_where (\<lambda>x. o_status x = Canceled \<and> o_taken_at x = None)
      (filter (\<lambda>x. window_contains w (o_created_at x)) orders)"
  have cr: "dated orders w created_on = length (filter (\<lambda>x. window_contains w (o_created_at x)) orders)"
    by (simp add: dated_def created_on_def)
  have ab: "a_abandonment_rate ?A = ratio ?ab (dated orders w created_on)"
    by (simp add: activity_summarise_against_def Let_def counts_over_def)
  have le: "?ab \<le> dated orders w created_on" unfolding cr by (rule length_filter_le)
  have small: "dated orders w created_on < 2 ^ 64" "dated orders w completed_on + dated orders w canceled_on < 2 ^ 64"
    using assms completed_canceled_le [of orders w] length_filter_le [of "\<lambda>x. window_contains w (o_created_at x)" orders]
    unfolding cr by linarith+
  show ?thesis
    unfolding activity_sels ab
    using ratio_unit [OF _ le small(1)]
      ratio_unit [OF _ le_add1 [of "dated orders w completed_on" "dated orders w canceled_on"] small(2)]
    by (auto simp: ratio_None_iff)
qed

theorem activity_rates_unit_witness:
  "a_completion_rate (activity_summarise_against [] (Window 0 10) None 5) = None"
  using activity_rates_unit [of "[]" "Window 0 10" None 5] by (simp add: dated_def)

text \<open>
  Slicing by status, kind, fiat or instance partitions the orders: the keys
  are distinct and ascending, each group is the orders that name its key, none is
  empty, and the dated counts of the groups add up to those of the whole.
\<close>

theorem activity_slice_partitions:
  assumes "d \<in> {Dim_Status, Dim_Kind, Dim_Fiat, Dim_Instance}"
  shows "sorted_wrt (<) (map fst (activity_slice orders d))
    \<and> (\<forall>(k, g) \<in> set (activity_slice orders d). g \<noteq> [] \<and> g = filter (\<lambda>x. dimension_keys d x = [k]) orders)
    \<and> a_created (activity_summarise orders w now) =
        sum_list (map (\<lambda>(k, g). a_created (activity_summarise g w now)) (activity_slice orders d))
    \<and> a_completed (activity_summarise orders w now) =
        sum_list (map (\<lambda>(k, g). a_completed (activity_summarise g w now)) (activity_slice orders d))
    \<and> a_canceled (activity_summarise orders w now) =
        sum_list (map (\<lambda>(k, g). a_canceled (activity_summarise g w now)) (activity_slice orders d))"
proof -
  have sk: "single_key d" using assms by (simp add: single_key_def)
  note keys = single_key_keys [OF sk]
  have "sorted_wrt (<) (map fst (activity_slice orders d))"
    unfolding activity_slice_def using bt_ok_group_by bt_ok_def by blast
  moreover have "g \<noteq> [] \<and> g = filter (\<lambda>x. dimension_keys d x = [k]) orders"
    if "(k, g) \<in> set (activity_slice orders d)" for k g
  proof -
    have g: "g = filter (\<lambda>x. hd (dimension_keys d x) = k) orders" "g \<noteq> []"
      using group_by_mem [of orders "dimension_keys d" "\<lambda>x. hd (dimension_keys d x)" k g] keys that
      by (simp_all add: activity_slice_def)
    have "(hd (dimension_keys d x) = k) = (dimension_keys d x = [k])" for x
      using keys [of x] by (metis list.sel(1))
    with g show ?thesis by simp
  qed
  ultimately show ?thesis
    using dated_slice [OF sk, of orders w created_on] dated_slice [OF sk, of orders w completed_on]
      dated_slice [OF sk, of orders w canceled_on]
    by (auto simp: activity_summarise_def)
qed

theorem activity_slice_partitions_witness:
  "sorted_wrt (<) (map fst (activity_slice [example_order] Dim_Fiat))
    \<and> a_created (activity_summarise [example_order] (Window 0 10) 0) =
        sum_list (map (\<lambda>(k, g). a_created (activity_summarise g (Window 0 10) 0))
          (activity_slice [example_order] Dim_Fiat))"
  using activity_slice_partitions [of Dim_Fiat "[example_order]" "Window 0 10" 0] by blast

text \<open>
  The hour and weekday histograms always return, and what they count adds
  up: bar \<open>i\<close> of the created bars is the number of orders created in the window
  whose hour (weekday) is \<open>i\<close>, likewise for completed, and the bars sum to the
  created and completed figures of the window when every date is one \<open>chrono\<close>
  can represent.
\<close>

theorem histogram_counts:
  assumes "chrono_laws ch" and "\<forall>t. window_contains w t \<longrightarrow> dt_valid ch t"
    and "(f, h) = (dt_hour ch, by_hour ch orders w) \<and> n = (24::nat)
       \<or> (f, h) = (dt_weekday ch, by_weekday ch orders w) \<and> n = 7"
  shows "\<exists>b. h = Some b \<and> length (h_labels b) = n \<and> length (h_created b) = n \<and> length (h_completed b) = n
    \<and> (\<forall>i < n. h_created b ! i = count_where (\<lambda>x. window_contains w (o_created_at x) \<and> f (o_created_at x) = i) orders)
    \<and> sum_list (h_created b) = a_created (activity_summarise orders w now)
    \<and> sum_list (h_completed b) = a_completed (activity_summarise orders w now)"
proof -
  have hour: "dt_hour ch d < 24" "dt_weekday ch d < 7" if "dt_valid ch d" for d
    using chrono_laws.hour [OF assms(1) that] chrono_laws.weekday [OF assms(1) that]
      pos_mod_bound [of day_secs d] pos_mod_sign [of day_secs d] pos_mod_bound [of 7 "d div day_secs + 3"]
    by (auto simp: nat_less_iff div_less_iff_less_mult)
  have *: "a_created (activity_summarise orders w now) = dated orders w created_on"
    "a_completed (activity_summarise orders w now) = dated orders w completed_on"
    by (simp_all add: activity_summarise_def)
  have valid: "dt_valid ch t" if "window_contains w t" for t using that assms(2) by simp
  note hours = histogram_spec [of ch "dt_hour ch" 24 w orders "show_pad 2", OF hour(1) assms(1) valid]
  note days = histogram_spec [of ch "dt_weekday ch" 7 w orders "\<lambda>d. weekday_names ! d", OF hour(2) assms(1) valid]
  show ?thesis
    using assms(3) hours days unfolding * by (elim disjE) (auto simp: by_hour_def by_weekday_def)
qed

theorem histogram_counts_witness:
  "\<exists>b. by_hour gregorian [example_order] (Window 1767225600 1772323200) = Some b
    \<and> sum_list (h_created b) = 1"
proof -
  have "\<forall>t. window_contains (Window 1767225600 1772323200) t \<longrightarrow> dt_valid gregorian t"
    by (simp add: window_contains_def dt_valid_def gregorian_def greg_values)
  from histogram_counts [OF greg.chrono_laws_axioms this, of "dt_hour gregorian" _ "[example_order]" 24 0]
  obtain b where "by_hour gregorian [example_order] (Window 1767225600 1772323200) = Some b"
    "sum_list (h_created b) = a_created (activity_summarise [example_order] (Window 1767225600 1772323200) 0)"
    by blast
  then show ?thesis
    by (simp add: activity_summarise_def dated_def created_on_def example_order_def window_contains_def)
qed

end
