(* ===== verification/Volume.thy ===== *)
theory Volume
  imports Activity
begin

text \<open>
  Observed volume (\<open>crates/stats/src/volume.rs\<close>): the completed orders of a window,
  their sats, their sizes and their fiat amounts per currency. An \<open>i128\<close> sum of
  \<open>i64\<close> values cannot overflow, so it is an \<open>int\<close>; what can leave \<open>i64\<close> is the
  conversion back, which is \<open>try_into_i64\<close>. \<open>expect\<close> is \<open>the\<close>, and the lemmas below
  show that it is never reached on \<open>None\<close>. The report, which also prices the
  orders, is in the theory of conversions.
\<close>

section \<open>Sizes\<close>

definition size_buckets :: "(str \<times> i64 option) list" where
  "size_buckets =
     [(''lt_10k'', Some 9999), (''10k_50k'', Some 50000), (''50k_200k'', Some 200000),
      (''200k_1m'', Some 1000000), (''gt_1m'', None)]"

fun list_position :: "('a \<Rightarrow> bool) \<Rightarrow> 'a list \<Rightarrow> nat option" where
  "list_position P [] = None"
| "list_position P (x # xs) = (if P x then Some 0 else map_option Suc (list_position P xs))"

definition size_bucket :: "i64 \<Rightarrow> nat" where
  "size_bucket sz = the (list_position (\<lambda>(label, upper). is_none_or upper (\<lambda>u. sz \<le> u)) size_buckets)"

definition sum_sats :: "i64 list \<Rightarrow> i64 option" where
  "sum_sats sats = try_into_i64 (sum_list sats)"

datatype volume_dimension = VD_Kind | VD_Fiat | VD_Instance | VD_Month | VD_Day

fun volume_grouping :: "volume_dimension \<Rightarrow> dimension option" where
  "volume_grouping VD_Kind = Some Dim_Kind"
| "volume_grouping VD_Fiat = Some Dim_Fiat"
| "volume_grouping VD_Instance = Some Dim_Instance"
| "volume_grouping VD_Month = None"
| "volume_grouping VD_Day = None"

fun volume_period :: "volume_dimension \<Rightarrow> period" where
  "volume_period VD_Day = Day"
| "volume_period _ = Month_Period"

record fiat_figures =
  ff_total :: f64
  ff_ticket_avg :: f64
  ff_ticket_p50 :: f64
  ff_ticket_p90 :: f64

record fiat_volume =
  fv_orders :: u64
  fv_completed :: u64
  fv_sats :: "i64 option"
  fv_figures :: "fiat_figures option"

record volume =
  v_completed :: u64
  v_sats :: "i64 option"
  v_ticket_avg :: "i64 option"
  v_ticket_p50 :: "i64 option"
  v_ticket_p90 :: "i64 option"
  v_largest :: "i64 option"
  v_buckets :: "u64 list"
  v_buy_sats :: "i64 option"
  v_sell_sats :: "i64 option"
  v_fiat :: "(str, fiat_volume) btree"

section \<open>The figures\<close>

definition completed_orders :: "order list \<Rightarrow> window \<Rightarrow> order list" where
  "completed_orders orders w =
     filter (\<lambda>ord. is_some_and (o_success_at ord) (window_contains w))
       (filter (\<lambda>ord. o_status ord = Success) orders)"

definition observed_sats :: "order list \<Rightarrow> window \<Rightarrow> i64 option" where
  "observed_sats orders w = sum_sats (map o_amount_sats (completed_orders orders w))"

definition mean_sats :: "i64 list \<Rightarrow> i64 option" where
  "mean_sats sizes =
     (if sizes = [] then None
      else let n = int (length sizes); total = sum_list sizes
           in try_into_i64 ((2 * total + n) div (2 * n)))"

definition fiat_volume_of :: "f64 list \<Rightarrow> i64 list \<Rightarrow> fiat_volume" where
  "fiat_volume_of amounts sats =
     (let total = f64_sum amounts in
      \<lparr>fv_orders = length amounts,
       fv_completed = length sats,
       fv_sats = sum_sats sats,
       fv_figures =
         (if f64_is_finite total \<and> amounts \<noteq> []
          then Some \<lparr>ff_total = total,
                     ff_ticket_avg = f64_div total (f64_of_nat (length amounts)),
                     ff_ticket_p50 = the (percentile_f64 amounts p50),
                     ff_ticket_p90 = the (percentile_f64 amounts p90)\<rparr>
          else None)\<rparr>)"

definition fiat_push :: "order \<Rightarrow> (f64 list \<times> i64 list) option \<Rightarrow> f64 list \<times> i64 list" where
  "fiat_push ord old =
     (let (amounts, sats) = (case old of None \<Rightarrow> ([], []) | Some e \<Rightarrow> e) in
      (case o_fiat_amount ord of Some a \<Rightarrow> amounts @ [a] | None \<Rightarrow> amounts, sats @ [o_amount_sats ord]))"

definition by_fiat :: "order list \<Rightarrow> (str, f64 list \<times> i64 list) btree" where
  "by_fiat fin = foldl (\<lambda>m ord. bt_upd (o_fiat_code ord) (fiat_push ord) m) [] fin"

definition max_opt :: "i64 list \<Rightarrow> i64 option" where
  "max_opt xs = (case xs of [] \<Rightarrow> None | y # ys \<Rightarrow> Some (foldl max y ys))"

definition size_counts :: "i64 list \<Rightarrow> u64 list" where
  "size_counts sizes =
     foldl (\<lambda>buckets sz. buckets[size_bucket sz := buckets ! size_bucket sz + 1]) (replicate 5 0) sizes"

definition volume_summarise :: "order list \<Rightarrow> window \<Rightarrow> volume" where
  "volume_summarise orders w =
     (let fin = completed_orders orders w;
          sizes = map o_amount_sats fin;
          side = (\<lambda>dir. sum_sats (map o_amount_sats (filter (\<lambda>ord. o_direction ord = dir) fin)))
      in \<lparr>v_completed = length fin,
          v_sats = sum_sats sizes,
          v_ticket_avg = mean_sats sizes,
          v_ticket_p50 = percentile_i64 sizes p50,
          v_ticket_p90 = percentile_i64 sizes p90,
          v_largest = max_opt sizes,
          v_buckets = size_counts sizes,
          v_buy_sats = side Buy,
          v_sell_sats = side Sell,
          v_fiat = map (\<lambda>(code, amounts, sats). (code, fiat_volume_of amounts sats)) (by_fiat fin)\<rparr>)"

definition sats_value :: "i64 option \<Rightarrow> val" where
  "sats_value s = map_or V_Missing V_Sats s"

definition fiat_metrics :: "str \<Rightarrow> str \<Rightarrow> fiat_volume \<Rightarrow> metric list" where
  "fiat_metrics pfx code fiat =
     (let name = (\<lambda>n. pfx @ ''.fiat.'' @ code @ n);
          figure = (\<lambda>pick. map_or V_Missing (\<lambda>f. value_fiat (pick f) code) (fv_figures fiat))
      in [observed (name ''.total'') (figure ff_total),
          observed (name ''.orders'') (V_Count (u64_as_i64 (fv_orders fiat))),
          observed (name ''.sats'') (sats_value (fv_sats fiat)),
          observed (name ''.completed'') (V_Count (u64_as_i64 (fv_completed fiat))),
          observed (name ''.ticket_avg'') (figure ff_ticket_avg),
          observed (name ''.ticket_p50'') (figure ff_ticket_p50),
          observed (name ''.ticket_p90'') (figure ff_ticket_p90)])"

definition volume_metrics :: "str \<Rightarrow> volume \<Rightarrow> metric list" where
  "volume_metrics pfx v =
     (let obs = (\<lambda>n. observed (pfx @ ''.'' @ n)) in
      [obs ''sats'' (sats_value (v_sats v)),
       obs ''completed'' (V_Count (u64_as_i64 (v_completed v))),
       obs ''ticket_avg'' (sats_value (v_ticket_avg v)),
       obs ''ticket_p50'' (sats_value (v_ticket_p50 v)),
       obs ''ticket_p90'' (sats_value (v_ticket_p90 v)),
       obs ''largest'' (sats_value (v_largest v))]
      @ map (\<lambda>((label, upper), n). obs (''size.'' @ label) (V_Count (u64_as_i64 n))) (zip size_buckets (v_buckets v))
      @ [obs ''buy_sats'' (sats_value (v_buy_sats v)), obs ''sell_sats'' (sats_value (v_sell_sats v))]
      @ concat (map (\<lambda>(code, fiat). fiat_metrics pfx code fiat) (v_fiat v)))"

section \<open>Sums\<close>

lemma sum_sats_Some: "sum_sats xs = Some s \<longleftrightarrow> s = sum_list xs \<and> in_i64 s"
  by (auto simp: sum_sats_def)

lemma sum_sats_part:
  assumes "sum_sats xs = Some s" and "\<And>x. x \<in> set xs \<Longrightarrow> 0 \<le> x" and "0 \<le> t" and "t \<le> sum_list xs"
  shows "try_into_i64 t = Some t"
  using assms by (auto simp: sum_sats_Some in_i64_def i64_bounds)

lemma sum_list_filter_le:
  fixes f :: "'a \<Rightarrow> int"
  shows "(\<And>x. x \<in> set xs \<Longrightarrow> 0 \<le> f x) \<Longrightarrow> sum_list (map f (filter P xs)) \<le> sum_list (map f xs)"
  by (induction xs) (auto simp: add_increasing)

lemma sum_list_map_filter_nonneg:
  fixes f :: "'a \<Rightarrow> int"
  shows "(\<And>x. x \<in> set xs \<Longrightarrow> 0 \<le> f x) \<Longrightarrow> 0 \<le> sum_list (map f (filter P xs))"
  by (induction xs) auto

lemma completed_orders_alt:
  "completed_orders orders w = filter (\<lambda>x. is_some_and (completed_on x) (window_contains w)) orders"
  unfolding completed_orders_def filter_filter
  by (rule filter_cong) (auto simp: completed_on_def)

section \<open>Sizes fall in exactly one bucket\<close>

lemma size_bucket_less: "size_bucket sz < 5"
  by (simp add: size_bucket_def size_buckets_def)

lemma size_counts_sum:
  "length (size_counts sizes) = 5 \<and> sum_list (size_counts sizes) = length sizes
    \<and> (\<forall>i < 5. size_counts sizes ! i = count_where (\<lambda>s. size_bucket s = i) sizes)"
proof (induction sizes rule: rev_induct)
  case (snoc s sizes)
  let ?b = "size_counts sizes" and ?i = "size_bucket s"
  have step: "size_counts (sizes @ [s]) = ?b[?i := ?b ! ?i + 1]" by (simp add: size_counts_def)
  have "?i < length ?b" using snoc size_bucket_less by simp
  then have "sum_list (?b[?i := ?b ! ?i + 1]) = sum_list ?b + 1"
    by (simp add: sum_list_update)
  with snoc show ?case unfolding step using size_bucket_less [of s] by (auto simp: nth_list_update)
qed (simp add: size_counts_def)

section \<open>The fiat groups\<close>

lemma by_fiat_fold:
  "by_fiat fin = foldl (\<lambda>m p. bt_upd (fst p) (snd p) m) [] (map (\<lambda>x. (o_fiat_code x, fiat_push x)) fin)"
  by (simp add: by_fiat_def foldl_map)

lemma bt_ok_by_fiat: "bt_ok (by_fiat fin)"
  by (simp add: by_fiat_fold bt.invar_fold)

lemma by_fiat_get:
  "bt_get (by_fiat fin) code =
     (let g = filter (\<lambda>x. o_fiat_code x = code) fin in
      if g = [] then None else Some (filter_map o_fiat_amount g, map o_amount_sats g))"
proof -
  have "foldl (\<lambda>old p. if fst p = code then Some (snd p old) else old) None
      (map (\<lambda>x. (o_fiat_code x, fiat_push x)) fin) =
     (let g = filter (\<lambda>x. o_fiat_code x = code) fin in
      if g = [] then None else Some (filter_map o_fiat_amount g, map o_amount_sats g))"
    by (induction fin rule: rev_induct)
      (auto simp: Let_def fiat_push_def split: option.splits if_splits)
  then show ?thesis by (simp add: by_fiat_fold bt.get_fold)
qed

lemma sum_fiat_push:
  "sum_list (map (\<lambda>(c, a, s). F s) (bt_upd (o_fiat_code x) (fiat_push x) m)) =
     sum_list (map (\<lambda>(c, a, s). F s) m) + G (o_amount_sats x)"
  if "\<And>s y. F (s @ [y]) = F s + (G y :: 'b::comm_monoid_add)" "F [] = 0"
  using that(1) [of "[]"] that
  by (induction m) (auto simp: fiat_push_def ac_simps split: option.splits)

lemma sum_by_fiat:
  assumes "\<And>s y. F (s @ [y]) = F s + (G y :: 'b::comm_monoid_add)" "F [] = 0"
  shows "sum_list (map (\<lambda>(c, a, s). F s) (by_fiat fin)) = F (map o_amount_sats fin)"
proof (induction fin rule: rev_induct)
  case (snoc x xs)
  have "by_fiat (xs @ [x]) = bt_upd (o_fiat_code x) (fiat_push x) (by_fiat xs)" by (simp add: by_fiat_def)
  with snoc show ?case by (simp add: sum_fiat_push [where F = F and G = G, OF assms] assms)
qed (simp add: by_fiat_def assms)

section \<open>Finite sums have finite terms\<close>

lemma f64_add_finite: "f64_is_finite (f64_add a b) \<Longrightarrow> f64_is_finite a \<and> f64_is_finite b"
  by (cases a; cases b) (auto split: if_splits)

lemma f64_foldl_finite: "f64_is_finite (foldl f64_add z xs) \<Longrightarrow> f64_is_finite z \<and> list_all f64_is_finite xs"
  by (induction xs arbitrary: z) (auto dest: f64_add_finite)

lemma f64_sum_finite: "f64_is_finite (f64_sum xs) \<Longrightarrow> list_all f64_is_finite xs"
  unfolding f64_sum_def by (drule f64_foldl_finite) simp

lemma f64_finite_not_nan: "f64_is_finite x \<Longrightarrow> \<not> f64_is_nan x"
  by (cases x) auto

text \<open>Where \<open>fiat_volume\<close> unwraps a percentile there is one to unwrap.\<close>

lemma fiat_volume_expect:
  assumes "f64_is_finite (f64_sum amounts)" and "amounts \<noteq> []"
  shows "percentile_f64 amounts p \<noteq> None"
  using f64_order.percentile_Some_iff [of amounts p] f64_sum_finite [OF assms(1)] assms(2) f64_finite_not_nan
  by (auto simp: percentile_f64_def list_all_iff)

lemma sum_list_mono_bounds:
  fixes xs :: "int list"
  assumes "\<And>x. x \<in> set xs \<Longrightarrow> a \<le> x" "\<And>x. x \<in> set xs \<Longrightarrow> x \<le> b"
  shows "int (length xs) * a \<le> sum_list xs \<and> sum_list xs \<le> int (length xs) * b"
  using assms by (induction xs) (fastforce simp: algebra_simps)+

section \<open>Properties\<close>

lemma fiat_sats_sum:
  assumes nn: "\<And>x. x \<in> set fin \<Longrightarrow> 0 \<le> o_amount_sats x" and s: "sum_sats (map o_amount_sats fin) = Some s"
  shows "\<forall>(c, a, xs) \<in> set (by_fiat fin). sum_sats xs = Some (sum_list xs)"
    and "sum_list (map (\<lambda>(c, a, xs). sum_list xs) (by_fiat fin)) = s"
proof -
  show "sum_list (map (\<lambda>(c, a, xs). sum_list xs) (by_fiat fin)) = s"
    using sum_by_fiat [of sum_list "\<lambda>y. y" fin] s by (simp add: sum_sats_Some)
  have "sum_sats xs = Some (sum_list xs)" if "(c, a, xs) \<in> set (by_fiat fin)" for c a xs
  proof -
    let ?g = "filter (\<lambda>x. o_fiat_code x = c) fin"
    have "bt_get (by_fiat fin) c = Some (a, xs)" using that by (simp add: bt_get_iff bt_ok_by_fiat)
    then have xs: "xs = map o_amount_sats ?g" by (auto simp: by_fiat_get Let_def split: if_splits)
    have "0 \<le> sum_list xs" "sum_list xs \<le> sum_list (map o_amount_sats fin)"
      unfolding xs using nn by (auto intro: sum_list_map_filter_nonneg sum_list_filter_le)
    then show ?thesis unfolding sum_sats_def using nn by (intro sum_sats_part [OF s]) auto
  qed
  then show "\<forall>(c, a, xs) \<in> set (by_fiat fin). sum_sats xs = Some (sum_list xs)" by blast
qed

lemma volume_sels:
  "v_completed (volume_summarise orders w) = length (completed_orders orders w)"
  "v_sats (volume_summarise orders w) = sum_sats (map o_amount_sats (completed_orders orders w))"
  "v_buckets (volume_summarise orders w) = size_counts (map o_amount_sats (completed_orders orders w))"
  "v_buy_sats (volume_summarise orders w) =
     sum_sats (map o_amount_sats (filter (\<lambda>x. o_direction x = Buy) (completed_orders orders w)))"
  "v_sell_sats (volume_summarise orders w) =
     sum_sats (map o_amount_sats (filter (\<lambda>x. o_direction x = Sell) (completed_orders orders w)))"
  "v_fiat (volume_summarise orders w) =
     map (\<lambda>(code, amounts, sats). (code, fiat_volume_of amounts sats)) (by_fiat (completed_orders orders w))"
  by (simp_all add: volume_summarise_def Let_def)

text \<open>
  C38. The volume of a window is partitioned three ways. Every completed order
  falls in exactly one size bucket. When no amount is negative and the total is
  representable, the buy side and the sell side are too and add up to it, and so
  do the currencies, range orders included; and the completed orders of the
  currencies add up to all of them.
\<close>

theorem volume_partitions:
  assumes "\<forall>x \<in> set orders. 0 \<le> o_amount_sats x" and "v_sats (volume_summarise orders w) = Some s"
  shows "sum_list (v_buckets (volume_summarise orders w)) = v_completed (volume_summarise orders w)
    \<and> (\<exists>b c. v_buy_sats (volume_summarise orders w) = Some b \<and> v_sell_sats (volume_summarise orders w) = Some c
         \<and> b + c = s)
    \<and> (\<forall>(code, f) \<in> set (v_fiat (volume_summarise orders w)). fv_sats f \<noteq> None)
    \<and> sum_list (map (\<lambda>(code, f). the (fv_sats f)) (v_fiat (volume_summarise orders w))) = s
    \<and> sum_list (map (\<lambda>(code, f). fv_completed f) (v_fiat (volume_summarise orders w)))
        = v_completed (volume_summarise orders w)"
proof -
  let ?fin = "completed_orders orders w"
  have nn: "0 \<le> o_amount_sats x" if "x \<in> set ?fin" for x using that assms(1) by (simp add: completed_orders_def)
  have s: "sum_sats (map o_amount_sats ?fin) = Some s"
    using assms(2) by (simp add: volume_summarise_def Let_def)
  let ?side = "\<lambda>dir. map o_amount_sats (filter (\<lambda>x. o_direction x = dir) ?fin)"
  have side: "sum_sats (?side dir) = Some (sum_list (?side dir))" for dir
    unfolding sum_sats_def using nn
    by (intro sum_sats_part [OF s]) (auto intro: sum_list_map_filter_nonneg sum_list_filter_le)
  have neg: "(\<lambda>x. o_direction x \<noteq> Buy) = (\<lambda>x. o_direction x = Sell)" by (rule ext) (metis direction.exhaust direction.distinct(1))
  let ?fv = "map (\<lambda>(code, amounts, sats). (code, fiat_volume_of amounts sats)) (by_fiat ?fin)"
  have sides: "sum_list (?side Buy) + sum_list (?side Sell) = s"
    using sum_list_filter_split [of o_amount_sats "\<lambda>_. True" ?fin "\<lambda>x. o_direction x = Buy"] s
    by (simp add: neg sum_sats_Some)
  have vals: "map (\<lambda>(code, f). the (fv_sats f)) ?fv = map (\<lambda>(c, a, xs). sum_list xs) (by_fiat ?fin)"
    using fiat_sats_sum(1) [OF nn s] unfolding map_map
    by (intro map_cong) (auto simp: fiat_volume_of_def Let_def)
  show ?thesis unfolding volume_sels
  proof (intro conjI)
    show "sum_list (size_counts (map o_amount_sats ?fin)) = length ?fin"
      using size_counts_sum [of "map o_amount_sats ?fin"] by simp
    show "\<exists>b c. sum_sats (?side Buy) = Some b \<and> sum_sats (?side Sell) = Some c \<and> b + c = s"
      using side sides by blast
    show "\<forall>(code, f) \<in> set ?fv. fv_sats f \<noteq> None"
      using fiat_sats_sum(1) [OF nn s] by (auto simp: fiat_volume_of_def Let_def)
    show "sum_list (map (\<lambda>(code, f). the (fv_sats f)) ?fv) = s"
      unfolding vals by (rule fiat_sats_sum(2) [OF nn s])
    show "sum_list (map (\<lambda>(code, f). fv_completed f) ?fv) = length ?fin"
      using sum_by_fiat [of length "\<lambda>_. 1" ?fin] by (simp add: o_def case_prod_unfold fiat_volume_of_def Let_def)
  qed
qed

theorem volume_partitions_witness:
  "sum_list (v_buckets (volume_summarise [example_order] (Window 0 1772323200))) = 1
   \<and> v_sats (volume_summarise [example_order] (Window 0 1772323200)) = Some 1000"
proof -
  have s: "v_sats (volume_summarise [example_order] (Window 0 1772323200)) = Some 1000"
    and c: "v_completed (volume_summarise [example_order] (Window 0 1772323200)) = 1"
    by (simp_all add: volume_summarise_def completed_orders_def example_order_def window_contains_def sum_sats_def
        try_into_i64_def in_i64_def i64_bounds Let_def)
  have "\<forall>x \<in> set [example_order]. 0 \<le> o_amount_sats x" by (simp add: example_order_def)
  from volume_partitions [OF this s] show ?thesis using s c by simp
qed

text \<open>
  The average ticket is exact to the nearest sat, halves up, and always
  there: over a non-empty list of \<open>i64\<close> sizes the conversion back from \<open>i128\<close>
  cannot fail, the mean lies within half a sat of the exact one (and not half a
  sat above it), and between the smallest and the largest size.
\<close>

theorem mean_sats_nearest:
  assumes "sizes \<noteq> []" and "\<forall>x \<in> set sizes. in_i64 x"
  shows "\<exists>m. mean_sats sizes = Some m
    \<and> 2 * sum_list sizes - int (length sizes) < 2 * int (length sizes) * m
    \<and> 2 * int (length sizes) * m \<le> 2 * sum_list sizes + int (length sizes)
    \<and> Min (set sizes) \<le> m \<and> m \<le> Max (set sizes)"
proof -
  define n where "n = int (length sizes)"
  define t where "t = sum_list sizes"
  define m where "m = (2 * t + n) div (2 * n)"
  have n: "0 < n" using assms(1) by (simp add: n_def)
  have d: "2 * n * m \<le> 2 * t + n" "2 * t + n < 2 * n * m + 2 * n"
    using div_bounds [of "2 * n" "2 * t + n"] n by (simp_all add: m_def)
  have lo: "n * Min (set sizes) \<le> t" and hi: "t \<le> n * Max (set sizes)"
    unfolding n_def t_def using sum_list_mono_bounds [of sizes "Min (set sizes)" "Max (set sizes)"] by simp_all
  have "2 * n * Min (set sizes) < 2 * n * (m + 1)"
    using lo d n by (simp add: algebra_simps)
  then have mn: "Min (set sizes) \<le> m" using n by simp
  have "2 * n * m < 2 * n * (Max (set sizes) + 1)"
    using hi d n by (simp add: algebra_simps)
  then have mx: "m \<le> Max (set sizes)" using n by simp
  have "in_i64 (Min (set sizes))" "in_i64 (Max (set sizes))" using assms by simp_all
  then have "in_i64 m" using mn mx in_i64_between by blast
  then have "mean_sats sizes = Some m"
    using assms(1) by (simp add: mean_sats_def Let_def m_def n_def t_def)
  with d mn mx show ?thesis unfolding n_def t_def by (intro exI [of _ m]) auto
qed

theorem mean_sats_nearest_witness:
  "\<exists>m. mean_sats [10, 11] = Some m \<and> 40 < 4 * m \<and> 4 * m \<le> 44 \<and> 10 \<le> m \<and> m \<le> 11"
proof -
  have "\<forall>x \<in> set [10, 11]. in_i64 x" by (simp add: in_i64_def i64_bounds)
  from mean_sats_nearest [OF _ this] show ?thesis by auto
qed

end
