(* ===== verification/Rates.thy ===== *)
theory Rates
  imports Activity
begin

text \<open>
  The rate lookup (\<open>crates/stats/src/rates.rs\<close>): snapshots indexed by time and by
  publisher, and the newest usable quote at an instant. \<open>partition_point\<close> is the
  length of the prefix that satisfies the predicate, which is what the binary
  search returns on a partitioned slice; the slices here are shown to be sorted.
  The indexed search is proved to give what a scan of the whole history would.
\<close>

section \<open>Definitions\<close>

definition max_age_secs :: i64 where
  "max_age_secs = 300"

record snapshot =
  sn_pubkey :: str
  sn_published_at :: i64
  sn_rates :: "(str, f64) btree"

datatype rate_source = RS_Instance | RS_Fallback str

record rate_quote =
  q_rate :: f64
  q_age_secs :: i64
  q_source :: rate_source

definition convert_sats :: "rate_quote \<Rightarrow> i64 \<Rightarrow> f64" where
  "convert_sats q sats = f64_mul (f64_div (f64_of_int sats) (f64_of_int 100000000)) (q_rate q)"

record rate_book =
  rb_snapshots :: "snapshot list"
  rb_by_pubkey :: "(str, nat list) btree"
  rb_everyone :: "nat list"

definition snapshot_le :: "snapshot \<Rightarrow> snapshot \<Rightarrow> bool" where
  "snapshot_le a b \<longleftrightarrow> sn_published_at a < sn_published_at b
     \<or> sn_published_at a = sn_published_at b \<and> sn_pubkey a \<le> sn_pubkey b"

definition rate_book_new :: "snapshot list \<Rightarrow> rate_book" where
  "rate_book_new snaps =
     (let sorted = stable_sort snapshot_le snaps in
      \<lparr>rb_snapshots = sorted,
       rb_by_pubkey = foldl (\<lambda>m i. group_push (sn_pubkey (sorted ! i)) i m) [] [0..<length sorted],
       rb_everyone = [0..<length sorted]\<rparr>)"

definition rate_book_is_empty :: "rate_book \<Rightarrow> bool" where
  "rate_book_is_empty b \<longleftrightarrow> rb_snapshots b = []"

definition partition_point :: "('a \<Rightarrow> bool) \<Rightarrow> 'a list \<Rightarrow> nat" where
  "partition_point P xs = length (takeWhile P xs)"

fun find_map :: "('a \<Rightarrow> 'b option) \<Rightarrow> 'a list \<Rightarrow> 'b option" where
  "find_map f [] = None"
| "find_map f (x # xs) = (case f x of None \<Rightarrow> find_map f xs | Some y \<Rightarrow> Some y)"

definition newest :: "rate_book \<Rightarrow> nat list \<Rightarrow> str \<Rightarrow> i64 \<Rightarrow> (snapshot \<times> f64) option" where
  "newest b positions fiat at_ts =
     (let until = partition_point (\<lambda>i. sn_published_at (rb_snapshots b ! i) \<le> at_ts) positions in
      find_map (\<lambda>s. map_option (\<lambda>r. (s, r)) (bt_get (sn_rates s) fiat))
        (takeWhile (\<lambda>s. i64_sub at_ts (sn_published_at s) \<le> max_age_secs)
          (map (\<lambda>i. rb_snapshots b ! i) (rev (take until positions)))))"

definition rate_at :: "rate_book \<Rightarrow> str \<Rightarrow> str \<Rightarrow> i64 \<Rightarrow> rate_quote option" where
  "rate_at b pubkey fiat at_ts =
     (case Option.bind (bt_get (rb_by_pubkey b) pubkey) (\<lambda>ps. newest b ps fiat at_ts) of
        Some (s, rate) \<Rightarrow> Some \<lparr>q_rate = rate, q_age_secs = i64_sub at_ts (sn_published_at s), q_source = RS_Instance\<rparr>
      | None \<Rightarrow>
          map_option (\<lambda>(s, rate). \<lparr>q_rate = rate, q_age_secs = i64_sub at_ts (sn_published_at s),
              q_source = RS_Fallback (sn_pubkey s)\<rparr>)
            (newest b (rb_everyone b) fiat at_ts))"

section \<open>The order of the book\<close>

interpretation snapshot_order: sample_order snapshot_le "\<lambda>_. True"
  by unfold_locales (auto simp: snapshot_le_def)

lemma snapshot_sorted: "sorted_wrt snapshot_le (stable_sort snapshot_le snaps)"
  by (rule snapshot_order.stable_sort_sorted) (simp add: list_all_iff)

lemma snapshot_set: "set (stable_sort snapshot_le snaps) = set snaps"
  by (rule snapshot_order.stable_sort_perm)

lemma snapshot_le_time: "snapshot_le a b \<Longrightarrow> sn_published_at a \<le> sn_published_at b"
  by (auto simp: snapshot_le_def)

section \<open>Searching a sorted history\<close>

lemma filter_all_True: "filter (\<lambda>_. True) xs = xs"
  by simp

lemma find_map_None: "find_map f xs = None \<longleftrightarrow> (\<forall>x \<in> set xs. f x = None)"
  by (induction xs) (auto split: option.splits)

lemma find_map_Some:
  "find_map f xs = Some y \<Longrightarrow> \<exists>us x vs. xs = us @ x # vs \<and> f x = Some y \<and> (\<forall>u \<in> set us. f u = None)"
proof (induction xs)
  case (Cons a xs)
  show ?case
  proof (cases "f a")
    case None
    then obtain us x vs where "xs = us @ x # vs" "f x = Some y" "\<forall>u \<in> set us. f u = None"
      using Cons by auto
    then show ?thesis using None by (intro exI [of _ "a # us"]) auto
  next
    case (Some b)
    then show ?thesis using Cons.prems by (intro exI [of _ "[]"]) auto
  qed
qed simp

lemma takeWhile_sorted_le:
  "sorted_wrt R xs \<Longrightarrow> (\<And>x y. R x y \<Longrightarrow> P y \<Longrightarrow> P x) \<Longrightarrow> takeWhile P xs = filter P xs"
proof (induction xs)
  case (Cons x xs)
  show ?case
  proof (cases "P x")
    case False
    then have "\<forall>y \<in> set xs. \<not> P y" using Cons.prems by auto
    with False show ?thesis by (simp add: filter_empty_conv)
  qed (use Cons in auto)
qed simp

lemma filter_positions:
  "map (\<lambda>i. xs ! i) (filter (\<lambda>i. P (xs ! i)) [0..<length xs]) = filter P xs"
proof -
  have "filter P xs = filter P (map (\<lambda>i. xs ! i) [0..<length xs])" by (simp add: map_nth)
  also have "\<dots> = map (\<lambda>i. xs ! i) (filter (\<lambda>i. P (xs ! i)) [0..<length xs])"
    by (simp add: List.filter_map o_def)
  finally show ?thesis ..
qed

definition quotes :: "str \<Rightarrow> snapshot \<Rightarrow> (snapshot \<times> f64) option" where
  "quotes fiat s = map_option (\<lambda>r. (s, r)) (bt_get (sn_rates s) fiat)"

definition in_reach :: "i64 \<Rightarrow> snapshot \<Rightarrow> bool" where
  "in_reach at_ts s \<longleftrightarrow> sn_published_at s \<le> at_ts \<and> at_ts - sn_published_at s \<le> 300"

lemma newest_filter:
  assumes pos: "map (\<lambda>i. rb_snapshots b ! i) positions = L" and sorted: "sorted_wrt snapshot_le L"
    and i64: "\<And>s. s \<in> set L \<Longrightarrow> in_i64 (at_ts - sn_published_at s)"
  shows "newest b positions fiat at_ts = find_map (quotes fiat) (rev (filter (in_reach at_ts) L))"
proof -
  let ?P = "\<lambda>s. sn_published_at s \<le> at_ts"
  let ?A = "\<lambda>s. i64_sub at_ts (sn_published_at s) \<le> max_age_secs"
  have len: "partition_point (\<lambda>i. ?P (rb_snapshots b ! i)) positions = length (takeWhile ?P L)"
    unfolding partition_point_def pos [symmetric] takeWhile_map by (simp add: o_def)
  have tw: "takeWhile ?P L = filter ?P L"
    using sorted by (rule takeWhile_sorted_le) (auto dest: snapshot_le_time)
  have "map (\<lambda>i. rb_snapshots b ! i) (rev (take (length (takeWhile ?P L)) positions)) = rev (takeWhile ?P L)"
    unfolding rev_map [symmetric] take_map [symmetric] pos by (simp only: takeWhile_eq_take [symmetric])
  then have 1: "newest b positions fiat at_ts = find_map (quotes fiat) (takeWhile ?A (rev (filter ?P L)))"
    unfolding newest_def Let_def len quotes_def [abs_def] by (simp only: tw)
  have A: "?A s \<longleftrightarrow> at_ts - sn_published_at s \<le> 300" if "s \<in> set L" for s
    using i64 [OF that] by (simp add: i64_sub_exact max_age_secs_def)
  have s': "sorted_wrt (\<lambda>a b. sn_published_at b \<le> sn_published_at a) (rev (filter ?P L))"
    unfolding sorted_wrt_rev by (rule sorted_wrt_filter, rule sorted_wrt_mono_rel [OF _ sorted]) (auto dest: snapshot_le_time)
  have "takeWhile ?A (rev (filter ?P L)) = takeWhile (\<lambda>s. at_ts - sn_published_at s \<le> 300) (rev (filter ?P L))"
    by (rule takeWhile_cong) (auto simp: A)
  also have "\<dots> = filter (\<lambda>s. at_ts - sn_published_at s \<le> 300) (rev (filter ?P L))"
    using s' by (rule takeWhile_sorted_le) auto
  also have "\<dots> = rev (filter (in_reach at_ts) L)"
    by (simp add: rev_filter [symmetric] in_reach_def [abs_def] conj_commute)
  finally show ?thesis using 1 by simp
qed

lemma book_positions:
  "rb_snapshots (rate_book_new snaps) = stable_sort snapshot_le snaps"
  "map (\<lambda>i. rb_snapshots (rate_book_new snaps) ! i) (rb_everyone (rate_book_new snaps)) = stable_sort snapshot_le snaps"
  by (simp_all add: rate_book_new_def Let_def map_nth)

lemma book_by_pubkey:
  "bt_get (rb_by_pubkey (rate_book_new snaps)) pk =
     (let L = stable_sort snapshot_le snaps; ps = filter (\<lambda>i. sn_pubkey (L ! i) = pk) [0..<length L] in
      if ps = [] then None else Some ps)"
proof -
  let ?L = "stable_sort snapshot_le snaps"
  have "rb_by_pubkey (rate_book_new snaps) = group_by (\<lambda>i. [sn_pubkey (?L ! i)]) [0..<length ?L]"
    by (simp add: rate_book_new_def Let_def group_by_def)
  then show ?thesis
    using group_by_get [of "[0..<length ?L]" "\<lambda>i. [sn_pubkey (?L ! i)]" "\<lambda>i. sn_pubkey (?L ! i)" pk]
    by (simp add: Let_def split: list.splits)
qed

text \<open>The lookup as a scan of the sorted history.\<close>

lemma rate_at_scan:
  assumes "\<And>s. s \<in> set snaps \<Longrightarrow> in_i64 (at_ts - sn_published_at s)"
  shows "rate_at (rate_book_new snaps) pk fiat at_ts =
    (let L = filter (in_reach at_ts) (stable_sort snapshot_le snaps) in
     case find_map (quotes fiat) (rev (filter (\<lambda>s. sn_pubkey s = pk) L)) of
       Some (s, r) \<Rightarrow> Some \<lparr>q_rate = r, q_age_secs = at_ts - sn_published_at s, q_source = RS_Instance\<rparr>
     | None \<Rightarrow> map_option (\<lambda>(s, r). \<lparr>q_rate = r, q_age_secs = at_ts - sn_published_at s,
           q_source = RS_Fallback (sn_pubkey s)\<rparr>) (find_map (quotes fiat) (rev L)))"
proof -
  let ?b = "rate_book_new snaps" and ?L = "stable_sort snapshot_le snaps"
  let ?own = "filter (\<lambda>s. sn_pubkey s = pk) ?L"
  have i64: "in_i64 (at_ts - sn_published_at s)" if "s \<in> set ?L" for s using that assms by (simp add: snapshot_set)
  have everyone: "newest ?b (rb_everyone ?b) fiat at_ts = find_map (quotes fiat) (rev (filter (in_reach at_ts) ?L))"
    by (rule newest_filter [OF book_positions(2) snapshot_sorted i64])
  have "newest ?b (filter (\<lambda>i. sn_pubkey (?L ! i) = pk) [0..<length ?L]) fiat at_ts =
      find_map (quotes fiat) (rev (filter (in_reach at_ts) ?own))"
  proof (rule newest_filter)
    show "map (\<lambda>i. rb_snapshots ?b ! i) (filter (\<lambda>i. sn_pubkey (?L ! i) = pk) [0..<length ?L]) = ?own"
      unfolding book_positions(1) by (rule filter_positions)
  qed (use i64 sorted_wrt_filter [OF snapshot_sorted] in auto)
  then have own: "Option.bind (bt_get (rb_by_pubkey ?b) pk) (\<lambda>ps. newest ?b ps fiat at_ts) =
      find_map (quotes fiat) (rev (filter (in_reach at_ts) ?own))"
    using filter_positions [of ?L "\<lambda>s. sn_pubkey s = pk"]
    by (cases "filter (\<lambda>i. sn_pubkey (?L ! i) = pk) [0..<length ?L] = []") (simp_all add: book_by_pubkey Let_def)
  have exact: "i64_sub at_ts (sn_published_at s) = at_ts - sn_published_at s" if "s \<in> set ?L" for s
    using i64 [OF that] by (rule i64_sub_exact)
  have swap: "filter (in_reach at_ts) ?own = filter (\<lambda>s. sn_pubkey s = pk) (filter (in_reach at_ts) ?L)"
    by (simp add: conj_commute)
  have mem: "s \<in> set ?L" if "find_map (quotes fiat) (rev (filter P (filter (in_reach at_ts) ?L))) = Some (s, r)" for P s r
  proof -
    from find_map_Some [OF that] obtain us x vs where
      "rev (filter P (filter (in_reach at_ts) ?L)) = us @ x # vs" "quotes fiat x = Some (s, r)" by blast
    then have "s \<in> set (rev (filter P (filter (in_reach at_ts) ?L)))" by (auto simp: quotes_def)
    then show ?thesis by simp
  qed
  show ?thesis
  proof (cases "find_map (quotes fiat) (rev (filter (\<lambda>s. sn_pubkey s = pk) (filter (in_reach at_ts) ?L)))")
    case None
    note none = this
    show ?thesis
    proof (cases "find_map (quotes fiat) (rev (filter (in_reach at_ts) ?L))")
      case None
      show ?thesis unfolding rate_at_def own everyone Let_def swap none None by simp
    next
      case (Some sr)
      obtain s r where sr: "sr = (s, r)" by fastforce
      have "s \<in> set ?L" using mem [of "\<lambda>_. True" s r] Some sr by (simp only: filter_all_True)
      from exact [OF this] show ?thesis
        unfolding rate_at_def own everyone Let_def swap none Some sr by simp
    qed
  next
    case (Some sr)
    obtain s r where sr: "sr = (s, r)" by fastforce
    show ?thesis
      unfolding rate_at_def own everyone Let_def swap Some sr using exact [OF mem [OF Some [unfolded sr]]] by simp
  qed
qed

section \<open>Properties\<close>

text \<open>What a scan of the whole history would look for: a snapshot that prices \<open>fiat\<close> at the instant.\<close>

definition usable :: "str \<Rightarrow> i64 \<Rightarrow> snapshot \<Rightarrow> bool" where
  "usable fiat at_ts s \<longleftrightarrow> in_reach at_ts s \<and> bt_get (sn_rates s) fiat \<noteq> None"

lemma newest_usable:
  assumes "find_map (quotes fiat) (rev (filter P (filter (in_reach at_ts) L))) = Some (s, r)" and "sorted_wrt snapshot_le L"
  shows "s \<in> set L" "P s" "usable fiat at_ts s" "bt_get (sn_rates s) fiat = Some r"
    "\<And>t. t \<in> set L \<Longrightarrow> P t \<Longrightarrow> usable fiat at_ts t \<Longrightarrow> sn_published_at t \<le> sn_published_at s"
proof -
  let ?M = "filter P (filter (in_reach at_ts) L)"
  obtain us vs where M: "rev ?M = us @ s # vs" and q: "quotes fiat s = Some (s, r)" and none: "\<forall>u \<in> set us. quotes fiat u = None"
    using find_map_Some [OF assms(1)] by (auto simp: quotes_def)
  have "s \<in> set (rev ?M)" unfolding M by simp
  then show "s \<in> set L" "P s" and reach: "usable fiat at_ts s" using q by (auto simp: usable_def quotes_def)
  show "bt_get (sn_rates s) fiat = Some r" using q by (auto simp: quotes_def)
  fix t assume t: "t \<in> set L" "P t" "usable fiat at_ts t"
  have sorted: "sorted_wrt snapshot_le ?M" using assms(2) by (intro sorted_wrt_filter)
  have "sorted_wrt (\<lambda>a b. snapshot_le b a) (us @ s # vs)"
    using sorted unfolding M [symmetric] sorted_wrt_rev .
  moreover have "t \<in> set (us @ s # vs)" using t unfolding M [symmetric] by (simp add: usable_def)
  moreover have "t \<notin> set us" using none t by (auto simp: usable_def quotes_def)
  ultimately show "sn_published_at t \<le> sn_published_at s"
    by (auto simp: sorted_wrt_append dest: snapshot_le_time)
qed

lemma none_usable:
  "find_map (quotes fiat) (rev (filter P (filter (in_reach at_ts) L))) = None \<longleftrightarrow>
     (\<forall>s \<in> set L. P s \<longrightarrow> \<not> usable fiat at_ts s)"
  by (auto simp: find_map_None usable_def quotes_def)

text \<open>
  C26. The indexed lookup answers the question a scan of the history would: it
  finds a rate if and only if some instance published one for the currency at or
  before the instant and at most five minutes before it; the quote is then that
  of the newest such snapshot of the instance asked about, if it has one, and
  otherwise that of the newest of any instance, which is named and is another
  one; and its age is the true age, between zero and three hundred seconds.
\<close>

theorem rate_at_newest:
  assumes "\<forall>s \<in> set snaps. in_i64 (at_ts - sn_published_at s)"
  shows "case rate_at (rate_book_new snaps) pk fiat at_ts of
      None \<Rightarrow> \<forall>s \<in> set snaps. \<not> usable fiat at_ts s
    | Some q \<Rightarrow> \<exists>s \<in> set snaps. usable fiat at_ts s \<and> bt_get (sn_rates s) fiat = Some (q_rate q)
        \<and> q_age_secs q = at_ts - sn_published_at s \<and> 0 \<le> q_age_secs q \<and> q_age_secs q \<le> max_age_secs
        \<and> (case q_source q of
             RS_Instance \<Rightarrow> sn_pubkey s = pk
               \<and> (\<forall>t \<in> set snaps. sn_pubkey t = pk \<and> usable fiat at_ts t \<longrightarrow> sn_published_at t \<le> sn_published_at s)
           | RS_Fallback other \<Rightarrow> sn_pubkey s = other \<and> other \<noteq> pk
               \<and> (\<forall>t \<in> set snaps. usable fiat at_ts t \<longrightarrow> sn_pubkey t \<noteq> pk \<and> sn_published_at t \<le> sn_published_at s))"
proof -
  let ?L = "stable_sort snapshot_le snaps"
  let ?own = "find_map (quotes fiat) (rev (filter (\<lambda>s. sn_pubkey s = pk) (filter (in_reach at_ts) ?L)))"
  let ?any = "find_map (quotes fiat) (rev (filter (\<lambda>_. True) (filter (in_reach at_ts) ?L)))"
  have age: "0 \<le> at_ts - sn_published_at s" "at_ts - sn_published_at s \<le> max_age_secs" if "usable fiat at_ts s" for s
    using that by (auto simp: usable_def in_reach_def max_age_secs_def)
  have scan: "rate_at (rate_book_new snaps) pk fiat at_ts =
    (case ?own of
       Some (s, r) \<Rightarrow> Some \<lparr>q_rate = r, q_age_secs = at_ts - sn_published_at s, q_source = RS_Instance\<rparr>
     | None \<Rightarrow> map_option (\<lambda>(s, r). \<lparr>q_rate = r, q_age_secs = at_ts - sn_published_at s,
           q_source = RS_Fallback (sn_pubkey s)\<rparr>) ?any)"
    using rate_at_scan [of snaps at_ts pk fiat] assms unfolding filter_all_True Let_def by blast
  show ?thesis
  proof (cases ?own)
    case (Some sr)
    obtain s r where sr: "sr = (s, r)" by fastforce
    note new = newest_usable [OF Some [unfolded sr] snapshot_sorted]
    show ?thesis unfolding scan Some sr
      using new age [OF new(3)] by (auto simp: snapshot_set intro!: bexI [of _ s])
  next
    case None
    note own = None [unfolded none_usable]
    show ?thesis
    proof (cases ?any)
      case (Some sr)
      obtain s r where sr: "sr = (s, r)" by fastforce
      note new = newest_usable [OF Some [unfolded sr] snapshot_sorted]
      show ?thesis unfolding scan None Some sr
        using new age [OF new(3)] own by (auto simp: snapshot_set intro!: bexI [of _ s])
    next
      case none: None
      show ?thesis unfolding scan None none using none [unfolded none_usable] by (simp add: snapshot_set)
    qed
  qed
qed

theorem rate_at_newest_witness:
  "rate_at (rate_book_new [\<lparr>sn_pubkey = ''a'', sn_published_at = 1000, sn_rates = [(''USD'', F64_Fin False 100000)]\<rparr>])
     ''b'' ''USD'' 1301 = None
   \<and> \<not> usable ''USD'' 1301 \<lparr>sn_pubkey = ''a'', sn_published_at = 1000, sn_rates = [(''USD'', F64_Fin False 100000)]\<rparr>"
proof -
  let ?s = "\<lparr>sn_pubkey = ''a'', sn_published_at = 1000, sn_rates = [(''USD'', F64_Fin False 100000)]\<rparr>"
  have "\<forall>s \<in> set [?s]. in_i64 (1301 - sn_published_at s)" by (simp add: in_i64_def i64_bounds)
  from rate_at_newest [OF this, of "''USD''" "''b''"] show ?thesis
    by (auto simp: usable_def in_reach_def split: option.splits)
qed

end
