(* ===== verification/Converted.thy ===== *)
theory Converted
  imports Volume Rates
begin

text \<open>
  Volume in a reference currency (\<open>crates/stats/src/volume/converted.rs\<close>) and the
  volume report (\<open>volume.rs\<close>, \<open>report\<close>), which appends it to every block. The loop
  over the completed orders is a fold over its accumulator record.
\<close>

section \<open>The conversion\<close>

record borrowed =
  bw_orders :: u64
  bw_sats :: "i64 option"

definition borrowed_default :: borrowed where
  "borrowed_default = \<lparr>bw_orders = 0, bw_sats = Some 0\<rparr>"

record converted =
  cv_code :: str
  cv_total :: "f64 option"
  cv_priced :: u64
  cv_unpriced :: u64
  cv_unpriced_sats :: "i64 option"
  cv_unusable :: u64
  cv_unusable_sats :: "i64 option"
  cv_borrowed :: "(str, borrowed) btree"
  cv_rate_age_max_secs :: "i64 option"

definition converted_fallbacks :: "converted \<Rightarrow> u64" where
  "converted_fallbacks c = sum_list (map (\<lambda>(pk, b). bw_orders b) (cv_borrowed c))"

definition fallback_sources :: "converted \<Rightarrow> (str \<times> u64 \<times> i64) list" where
  "fallback_sources c = map (\<lambda>(pk, b). (pk, bw_orders b, map_or 0 (\<lambda>s. s) (bw_sats b))) (cv_borrowed c)"

definition add_sats :: "i64 option \<Rightarrow> i64 \<Rightarrow> i64 option" where
  "add_sats tot sats = Option.bind tot (\<lambda>t. try_into_i64 (t + sats))"

definition is_utf8_continuation :: "char \<Rightarrow> bool" where
  "is_utf8_continuation c \<longleftrightarrow> 128 \<le> (of_char c :: nat) \<and> (of_char c :: nat) < 192"

text \<open>\<open>chars().take(n)\<close> on UTF-8 bytes.\<close>

fun chars_take :: "nat \<Rightarrow> str \<Rightarrow> str" where
  "chars_take n [] = []"
| "chars_take n (c # cs) =
     (if is_utf8_continuation c then c # chars_take n cs
      else case n of 0 \<Rightarrow> [] | Suc m \<Rightarrow> c # chars_take m cs)"

definition short_pubkey :: "str \<Rightarrow> str" where
  "short_pubkey pk = chars_take 8 pk"

definition convert_start :: "str \<Rightarrow> converted" where
  "convert_start code =
     \<lparr>cv_code = code, cv_total = Some (F64_Fin False 0), cv_priced = 0, cv_unpriced = 0,
      cv_unpriced_sats = Some 0, cv_unusable = 0, cv_unusable_sats = Some 0, cv_borrowed = [],
      cv_rate_age_max_secs = None\<rparr>"

definition borrow :: "str \<Rightarrow> i64 \<Rightarrow> (str, borrowed) btree \<Rightarrow> (str, borrowed) btree" where
  "borrow pk sats = bt_upd pk (\<lambda>old.
     let b = (case old of None \<Rightarrow> borrowed_default | Some b \<Rightarrow> b) in
     \<lparr>bw_orders = bw_orders b + 1, bw_sats = add_sats (bw_sats b) sats\<rparr>)"

definition convert_step :: "rate_book \<Rightarrow> str \<Rightarrow> converted \<Rightarrow> order \<Rightarrow> converted" where
  "convert_step book code c ord =
     (let settled_at = the (o_success_at ord) in
      case rate_at book (o_pubkey ord) code settled_at of
        None \<Rightarrow> c\<lparr>cv_unpriced := cv_unpriced c + 1,
                  cv_unpriced_sats := add_sats (cv_unpriced_sats c) (o_amount_sats ord)\<rparr>
      | Some q \<Rightarrow>
          let v = convert_sats q (o_amount_sats ord) in
          if \<not> f64_is_finite v
          then c\<lparr>cv_unusable := cv_unusable c + 1,
                 cv_unusable_sats := add_sats (cv_unusable_sats c) (o_amount_sats ord)\<rparr>
          else c\<lparr>cv_priced := cv_priced c + 1,
                 cv_total := opt_filter f64_is_finite (map_option (\<lambda>t. f64_add t v) (cv_total c)),
                 cv_borrowed := (case q_source q of
                     RS_Instance \<Rightarrow> cv_borrowed c
                   | RS_Fallback pk \<Rightarrow> borrow pk (o_amount_sats ord) (cv_borrowed c)),
                 cv_rate_age_max_secs :=
                   Some (map_or (q_age_secs q) (\<lambda>age. max age (q_age_secs q)) (cv_rate_age_max_secs c))\<rparr>)"

definition convert :: "order list \<Rightarrow> window \<Rightarrow> rate_book \<Rightarrow> str \<Rightarrow> converted" where
  "convert orders w book code = foldl (convert_step book code) (convert_start code) (completed_orders orders w)"

definition sats_text :: "i64 option \<Rightarrow> str" where
  "sats_text s = map_or ''more sats than a number can hold'' (\<lambda>n. show_int n @ '' sats'') s"

definition qualification :: "converted \<Rightarrow> str" where
  "qualification c = join ''; ''
     ([case cv_rate_age_max_secs c of
         Some age \<Rightarrow> ''rate_age_secs '' @ [CHR 0xE2, CHR 0x89, CHR 0xA4] @ '' '' @ show_int age
       | None \<Rightarrow> ''no rate used'']
      @ (if cv_borrowed c \<noteq> []
         then [show_nat (converted_fallbacks c) @ '' at another instance's rate: '' @
               join '', '' (map (\<lambda>(pk, b). short_pubkey pk @ '' ('' @ show_nat (bw_orders b) @ '')'') (cv_borrowed c))]
         else [])
      @ (if 0 < cv_unpriced c
         then [show_nat (cv_unpriced c) @ '' with no usable rate within '' @ show_int max_age_secs @ ''s ('' @
               sats_text (cv_unpriced_sats c) @ '' excluded)'']
         else [])
      @ (if 0 < cv_unusable c
         then [show_nat (cv_unusable c) @ '' unusable: the conversion is not a finite number ('' @
               sats_text (cv_unusable_sats c) @ '' excluded)'']
         else [])
      @ (if cv_total c = None then [''the sum of the priced orders is not a finite number''] else []))"

definition converted_metrics :: "str \<Rightarrow> converted \<Rightarrow> metric list" where
  "converted_metrics pfx c =
     (let infd = (\<lambda>name. inferred (pfx @ ''.in.'' @ cv_code c @ ''.'' @ name));
          excluded = cv_unpriced c + cv_unusable c;
          tot = (case cv_total c of
              Some t \<Rightarrow> if 0 < cv_priced c \<or> excluded = 0 then value_fiat t (cv_code c) else V_Missing
            | None \<Rightarrow> V_Missing)
      in [infd ''total'' tot (qualification c),
          infd ''orders'' (V_Count (u64_as_i64 (cv_priced c))) ''orders with a rate published at or before success_at'',
          infd ''unpriced_sats'' (sats_value (cv_unpriced_sats c))
            ''sats of the orders with no usable rate at success_at; not in the total'',
          infd ''rate_age_max'' (map_or V_Missing V_Seconds (cv_rate_age_max_secs c))
            ''age of the oldest snapshot used''])"

section \<open>The volume report\<close>

type_synonym conversion = "rate_book \<times> str"

definition volume_block :: "conversion option \<Rightarrow> str \<Rightarrow> order list \<Rightarrow> window \<Rightarrow> metric list" where
  "volume_block conv pfx orders w =
     volume_metrics pfx (volume_summarise orders w) @
     (case conv of None \<Rightarrow> [] | Some (book, code) \<Rightarrow> converted_metrics pfx (convert orders w book code))"

definition volume_report ::
  "chrono \<Rightarrow> order list \<Rightarrow> window \<Rightarrow> volume_dimension option \<Rightarrow> conversion option \<Rightarrow> coverage \<Rightarrow> metric list option" where
  "volume_report ch orders w d conv cov =
     (case d of
        None \<Rightarrow> Some (volume_block conv ''volume'' orders w)
      | Some vd \<Rightarrow>
          (case volume_grouping vd of
             Some by \<Rightarrow> Some (concat (map (\<lambda>(key, group). volume_block conv (''volume.'' @ key) group w)
               (activity_slice orders by)))
           | None \<Rightarrow> coverage_walk ch w (volume_period vd) cov
               (\<lambda>key b previous. volume_block conv (''volume.'' @ key) orders b)))"

section \<open>What the fold keeps\<close>









end
