(* ===== verification/Disputes.thy ===== *)
theory Disputes
  imports Volume
begin

text \<open>
  Dispute metrics (\<open>crates/stats/src/disputes.rs\<close>): the figures of one window, the
  split by instance and the report. Opened-side figures are dated by \<open>opened_at\<close>,
  outcomes by \<open>resolved_at\<close>, and the open list by the clock. The two subtractions
  of timestamps wrap as the release profile does.
\<close>

section \<open>Disputes\<close>

datatype dispute_status =
  DS_Initiated | DS_InProgress | DS_SellerRefunded | DS_Settled | DS_Released | DS_CooperativelyCanceled

definition dispute_status_all :: "dispute_status list" where
  "dispute_status_all = [DS_Initiated, DS_InProgress, DS_SellerRefunded, DS_Settled, DS_Released,
     DS_CooperativelyCanceled]"

definition dispute_status_terminal :: "dispute_status list" where
  "dispute_status_terminal = [DS_SellerRefunded, DS_Settled, DS_Released, DS_CooperativelyCanceled]"

fun dispute_status_as_key :: "dispute_status \<Rightarrow> str" where
  "dispute_status_as_key DS_Initiated = ''initiated''"
| "dispute_status_as_key DS_InProgress = ''in_progress''"
| "dispute_status_as_key DS_SellerRefunded = ''seller_refunded''"
| "dispute_status_as_key DS_Settled = ''settled''"
| "dispute_status_as_key DS_Released = ''released''"
| "dispute_status_as_key DS_CooperativelyCanceled = ''cooperatively_canceled''"

datatype initiator = Initiator_Buyer | Initiator_Seller

record dispute =
  dp_dispute_id :: str
  dp_instance :: str
  dp_opened_at :: i64
  dp_status :: dispute_status
  dp_initiator :: "initiator option"
  dp_resolved_at :: "i64 option"
  dp_outcome :: "dispute_status option"

record open_dispute =
  od_dispute_id :: str
  od_age :: i64

record taken =
  tk_order_id :: str
  tk_instance :: str
  tk_left_pending_at :: i64

record dispute_data =
  dd_disputes :: "dispute list"
  dd_taken :: "taken list"

datatype dispute_dimension = DD_Status | DD_Initiator | DD_Instance | DD_Month | DD_Day

record disputes =
  ds_opened :: u64
  ds_by_status :: "u64 list"
  ds_buyer_share :: "f64 option"
  ds_rate :: "f64 option"
  ds_resolved :: u64
  ds_outcome :: "f64 list option"
  ds_resolution_p50 :: "i64 option"
  ds_resolution_p90 :: "i64 option"
  ds_open :: "open_dispute list"

definition disputes_default :: disputes where
  "disputes_default = \<lparr>ds_opened = 0, ds_by_status = replicate 6 0, ds_buyer_share = None, ds_rate = None,
     ds_resolved = 0, ds_outcome = None, ds_resolution_p50 = None, ds_resolution_p90 = None, ds_open = []\<rparr>"

section \<open>The figures of a window\<close>

definition status_index :: "dispute_status \<Rightarrow> nat" where
  "status_index s = the (list_position (\<lambda>status. status = s) dispute_status_all)"

definition count_status :: "dispute list \<Rightarrow> u64 list" where
  "count_status opened =
     foldl (\<lambda>by_status d. by_status[status_index (dp_status d) := by_status ! status_index (dp_status d) + 1])
       (replicate 6 0) opened"

definition opened_le :: "dispute \<Rightarrow> dispute \<Rightarrow> bool" where
  "opened_le a b \<longleftrightarrow> dp_opened_at a < dp_opened_at b \<or>
     dp_opened_at a = dp_opened_at b \<and> dp_dispute_id a \<le> dp_dispute_id b"

definition disputes_summarise :: "dispute_data \<Rightarrow> window \<Rightarrow> i64 \<Rightarrow> disputes" where
  "disputes_summarise data w now =
     (let opened = filter (\<lambda>d. window_contains w (dp_opened_at d)) (dd_disputes data);
          with_initiator = count_where (\<lambda>d. dp_initiator d \<noteq> None) opened;
          buyers = count_where (\<lambda>d. dp_initiator d = Some Initiator_Buyer) opened;
          taken = count_where (\<lambda>t. window_contains w (tk_left_pending_at t)) (dd_taken data);
          resolved = filter (\<lambda>d. is_some_and (dp_resolved_at d) (window_contains w)) (dd_disputes data);
          outcome = then_some (resolved \<noteq> [])
            (map (\<lambda>s. f64_div (f64_of_nat (count_where (\<lambda>d. dp_outcome d = Some s) resolved))
               (f64_of_nat (length resolved))) dispute_status_terminal);
          resolution = filter_map (\<lambda>d. map_option (\<lambda>t. i64_sub t (dp_opened_at d)) (dp_resolved_at d)) resolved;
          open_list = stable_sort opened_le
            (filter (\<lambda>d. dp_status d = DS_Initiated \<and> dp_opened_at d \<le> now) (dd_disputes data))
      in \<lparr>ds_opened = length opened,
          ds_by_status = count_status opened,
          ds_buyer_share = ratio buyers with_initiator,
          ds_rate = ratio (length opened) taken,
          ds_resolved = length resolved,
          ds_outcome = outcome,
          ds_resolution_p50 = percentile_i64 resolution p50,
          ds_resolution_p90 = percentile_i64 resolution p90,
          ds_open = map (\<lambda>d. \<lparr>od_dispute_id = dp_dispute_id d, od_age = i64_sub now (dp_opened_at d)\<rparr>)
            open_list\<rparr>)"

definition push_dispute :: "dispute \<Rightarrow> dispute_data option \<Rightarrow> dispute_data" where
  "push_dispute d old =
     (case old of None \<Rightarrow> \<lparr>dd_disputes = [d], dd_taken = []\<rparr>
      | Some g \<Rightarrow> g\<lparr>dd_disputes := dd_disputes g @ [d]\<rparr>)"

definition push_taken :: "taken \<Rightarrow> dispute_data option \<Rightarrow> dispute_data" where
  "push_taken t old =
     (case old of None \<Rightarrow> \<lparr>dd_disputes = [], dd_taken = [t]\<rparr>
      | Some g \<Rightarrow> g\<lparr>dd_taken := dd_taken g @ [t]\<rparr>)"

definition disputes_by_instance :: "dispute_data \<Rightarrow> (str, dispute_data) btree" where
  "disputes_by_instance data =
     foldl (\<lambda>m t. bt_upd (tk_instance t) (push_taken t) m)
       (foldl (\<lambda>m d. bt_upd (dp_instance d) (push_dispute d) m) [] (dd_disputes data))
       (dd_taken data)"

section \<open>The report\<close>

definition seconds_metric :: "str \<Rightarrow> str \<Rightarrow> i64 option \<Rightarrow> metric" where
  "seconds_metric pfx name s = observed (pfx @ ''.'' @ name) (map_or V_Missing V_Seconds s)"

definition status_metrics :: "str \<Rightarrow> disputes \<Rightarrow> metric list" where
  "status_metrics pfx ds =
     map (\<lambda>(s, n). count_metric pfx (''status.'' @ dispute_status_as_key s) n)
       (zip dispute_status_all (ds_by_status ds))"

definition initiator_metrics :: "str \<Rightarrow> disputes \<Rightarrow> metric list" where
  "initiator_metrics pfx ds =
     [ratio_metric pfx ''initiator.buyer'' (ds_buyer_share ds),
      ratio_metric pfx ''initiator.seller'' (map_option (f64_sub (F64_Fin False 1)) (ds_buyer_share ds))]"

definition disputes_dated_metrics :: "str \<Rightarrow> disputes \<Rightarrow> metric list" where
  "disputes_dated_metrics pfx ds =
     [count_metric pfx ''opened'' (ds_opened ds)]
     @ status_metrics pfx ds
     @ initiator_metrics pfx ds
     @ [ratio_metric pfx ''rate'' (ds_rate ds), count_metric pfx ''resolved'' (ds_resolved ds)]
     @ map (\<lambda>(i, s). ratio_metric pfx (''outcome.'' @ dispute_status_as_key s)
         (map_option (\<lambda>shares. shares ! i) (ds_outcome ds))) (enumerate 0 dispute_status_terminal)
     @ [seconds_metric pfx ''resolution_p50'' (ds_resolution_p50 ds),
        seconds_metric pfx ''resolution_p90'' (ds_resolution_p90 ds)]"

definition disputes_metrics :: "str \<Rightarrow> disputes \<Rightarrow> metric list" where
  "disputes_metrics pfx ds =
     disputes_dated_metrics pfx ds
     @ [count_metric pfx ''open_now'' (length (ds_open ds))]
     @ concat (map (\<lambda>(i, od).
         [observed (pfx @ ''.open.'' @ show_nat (i + 1) @ ''.id'') (V_Text (od_dispute_id od)),
          seconds_metric pfx (''open.'' @ show_nat (i + 1) @ ''.age'') (Some (od_age od))])
         (enumerate 0 (ds_open ds)))"

definition disputes_unavailable :: "str \<Rightarrow> metric list" where
  "disputes_unavailable pfx =
     map (\<lambda>m. observed (m_name m) V_Missing) (disputes_metrics pfx disputes_default)"

definition disputes_report ::
  "chrono \<Rightarrow> dispute_data \<Rightarrow> window \<Rightarrow> i64 \<Rightarrow> dispute_dimension option \<Rightarrow> coverage \<Rightarrow> metric list option" where
  "disputes_report ch data w now dm cov =
     (let periodic = (\<lambda>p. coverage_walk ch w p cov (\<lambda>key b _.
            disputes_dated_metrics (''disputes.'' @ key) (disputes_summarise data b now)))
      in case dm of
           None \<Rightarrow> Some (disputes_metrics ''disputes'' (disputes_summarise data w now))
         | Some DD_Status \<Rightarrow> Some (status_metrics ''disputes'' (disputes_summarise data w now))
         | Some DD_Initiator \<Rightarrow> Some (initiator_metrics ''disputes'' (disputes_summarise data w now))
         | Some DD_Month \<Rightarrow> periodic Month_Period
         | Some DD_Day \<Rightarrow> periodic Day
         | Some DD_Instance \<Rightarrow> Some (concat (map (\<lambda>(key, g).
             disputes_metrics (''disputes.'' @ key) (disputes_summarise g w now)) (disputes_by_instance data))))"

section \<open>Counting by status\<close>

lemma status_index_nth: "status_index s < 6" "dispute_status_all ! status_index s = s"
  by (cases s; simp add: status_index_def dispute_status_all_def)+

lemma sum_list_bump: "i < length xs \<Longrightarrow> sum_list (xs[i := xs ! i + 1]) = sum_list xs + (1::nat)"
  by (induction xs arbitrary: i) (auto split: nat.splits)

lemma count_status_nth:
  "length (count_status ds) = 6 \<and> sum_list (count_status ds) = length ds \<and>
   (\<forall>i < 6. count_status ds ! i = count_where (\<lambda>d. dp_status d = dispute_status_all ! i) ds)"
proof (induction ds rule: rev_induct)
  case Nil
  then show ?case by (simp add: count_status_def)
next
  case (snoc d ds)
  let ?b = "count_status ds" and ?i = "status_index (dp_status d)"
  have step: "count_status (ds @ [d]) = ?b[?i := ?b ! ?i + 1]" by (simp add: count_status_def)
  have inj: "dp_status d = dispute_status_all ! i \<longleftrightarrow> i = ?i" if "i < 6" for i
    using status_index_nth [of "dp_status d"] that
    by (cases "dp_status d") (auto simp: dispute_status_all_def status_index_def nth_Cons' split: if_splits)
  show ?case
    using snoc sum_list_bump [of ?i ?b] status_index_nth(1) [of "dp_status d"]
    by (auto simp: step nth_list_update inj)
qed

interpretation opened_order: sample_order opened_le "\<lambda>_. True"
  by unfold_locales (auto simp: opened_le_def)

section \<open>Properties\<close>

lemma disputes_sels:
  "ds_opened (disputes_summarise data w now) = count_where (\<lambda>d. window_contains w (dp_opened_at d)) (dd_disputes data)"
  "ds_resolved (disputes_summarise data w now) =
     count_where (\<lambda>d. is_some_and (dp_resolved_at d) (window_contains w)) (dd_disputes data)"
  "ds_by_status (disputes_summarise data w now) =
     count_status (filter (\<lambda>d. window_contains w (dp_opened_at d)) (dd_disputes data))"
  "ds_open (disputes_summarise data w now) =
     map (\<lambda>d. \<lparr>od_dispute_id = dp_dispute_id d, od_age = i64_sub now (dp_opened_at d)\<rparr>)
       (stable_sort opened_le (filter (\<lambda>d. dp_status d = DS_Initiated \<and> dp_opened_at d \<le> now) (dd_disputes data)))"
  by (simp_all add: disputes_summarise_def Let_def)

lemma disputes_outcome_None:
  "ds_outcome (disputes_summarise data w now) = None \<longleftrightarrow> ds_resolved (disputes_summarise data w now) = 0"
  unfolding disputes_sels by (simp add: disputes_summarise_def Let_def)

text \<open>
  Every dispute opened in the window stands under exactly one status, so the
  statuses sum to the opened ones; an outcome share exists exactly when something was
  resolved; and the open list holds every dispute still waiting for a solver that
  had opened by now, oldest first, with an age that is never negative.
\<close>

theorem disputes_accounted:
  assumes "in_i64 now" and "list_all (\<lambda>d. 0 \<le> dp_opened_at d) (dd_disputes data)"
  shows "let ds = disputes_summarise data w now; opened = filter (\<lambda>d. window_contains w (dp_opened_at d)) (dd_disputes data) in
    ds_by_status ds = map (\<lambda>s. count_where (\<lambda>d. dp_status d = s) opened) dispute_status_all \<and>
    sum_list (ds_by_status ds) = ds_opened ds \<and>
    (ds_outcome ds = None \<longleftrightarrow> ds_resolved ds = 0) \<and>
    length (ds_open ds) = count_where (\<lambda>d. dp_status d = DS_Initiated \<and> dp_opened_at d \<le> now) (dd_disputes data) \<and>
    sorted_wrt (\<lambda>a b. od_age b \<le> od_age a) (ds_open ds) \<and> list_all (\<lambda>x. 0 \<le> od_age x) (ds_open ds)"
proof -
  let ?opened = "filter (\<lambda>d. window_contains w (dp_opened_at d)) (dd_disputes data)"
  let ?wait = "filter (\<lambda>d. dp_status d = DS_Initiated \<and> dp_opened_at d \<le> now) (dd_disputes data)"
  have status: "count_status ?opened = map (\<lambda>s. count_where (\<lambda>d. dp_status d = s) ?opened) dispute_status_all"
  proof -
    have "length dispute_status_all = 6" by (simp add: dispute_status_all_def)
    with count_status_nth [of ?opened] show ?thesis by (intro nth_equalityI) simp_all
  qed
  have age: "i64_sub now (dp_opened_at d) = now - dp_opened_at d \<and> dp_opened_at d \<le> now"
    if "d \<in> set (stable_sort opened_le ?wait)" for d
  proof -
    have d: "d \<in> set (dd_disputes data)" "dp_opened_at d \<le> now"
      using that by (simp_all add: opened_order.stable_sort_perm)
    then have "0 \<le> dp_opened_at d" using assms(2) by (simp add: list_all_iff)
    with d assms(1) show ?thesis by (simp add: i64_sub_exact in_i64_def i64_bounds)
  qed
  have "sorted_wrt opened_le (stable_sort opened_le ?wait)"
    by (rule opened_order.stable_sort_sorted) (simp add: list_all_iff)
  moreover have "i64_sub now (dp_opened_at b) \<le> i64_sub now (dp_opened_at a)"
    if "a \<in> set (stable_sort opened_le ?wait)" "b \<in> set (stable_sort opened_le ?wait)" "opened_le a b" for a b
    using age [OF that(1)] age [OF that(2)] that(3) by (auto simp only: opened_le_def)
  ultimately have "sorted_wrt (\<lambda>a b. i64_sub now (dp_opened_at b) \<le> i64_sub now (dp_opened_at a)) (stable_sort opened_le ?wait)"
    by (rule sorted_wrt_mono_rel [rotated])
  then have old: "sorted_wrt (\<lambda>a b. od_age b \<le> od_age a) (ds_open (disputes_summarise data w now))"
    by (simp add: disputes_sels sorted_wrt_map)
  have pos: "list_all (\<lambda>x. 0 \<le> od_age x) (ds_open (disputes_summarise data w now))"
  proof -
    have "0 \<le> i64_sub now (dp_opened_at d)" if "d \<in> set (stable_sort opened_le ?wait)" for d
      using age [OF that] by linarith
    then show ?thesis unfolding disputes_sels(4) list_all_iff set_map by force
  qed
  have len: "length (ds_open (disputes_summarise data w now)) = length ?wait"
    by (simp add: disputes_sels opened_order.stable_sort_perm)
  have sum: "sum_list (ds_by_status (disputes_summarise data w now)) = ds_opened (disputes_summarise data w now)"
    using count_status_nth [of ?opened] by (simp add: disputes_sels)
  show ?thesis
    unfolding Let_def
    by (intro conjI status [folded disputes_sels(3) [of data w now]] sum disputes_outcome_None len old pos)
qed

definition example_dispute :: dispute where
  "example_dispute = \<lparr>dp_dispute_id = ''d1'', dp_instance = ''p1'', dp_opened_at = 1767225700,
     dp_status = DS_Initiated, dp_initiator = Some Initiator_Buyer, dp_resolved_at = None, dp_outcome = None\<rparr>"

theorem disputes_accounted_witness:
  "sum_list (ds_by_status (disputes_summarise \<lparr>dd_disputes = [example_dispute], dd_taken = []\<rparr>
     (Window 1767225600 1772323200) 1767225800)) = 1"
proof -
  let ?data = "\<lparr>dd_disputes = [example_dispute], dd_taken = []\<rparr>" and ?w = "Window 1767225600 1772323200"
  have "in_i64 1767225800" "list_all (\<lambda>d. 0 \<le> dp_opened_at d) (dd_disputes ?data)"
    by (simp_all add: in_i64_def i64_bounds example_dispute_def)
  from disputes_accounted [OF this, of ?w]
  have "sum_list (ds_by_status (disputes_summarise ?data ?w 1767225800)) =
      ds_opened (disputes_summarise ?data ?w 1767225800)" unfolding Let_def by blast
  also have "\<dots> = 1" by (simp add: disputes_sels(1) example_dispute_def window_contains_def)
  finally show ?thesis .
qed

text \<open>
  The split by instance loses and repeats nothing: over any window the
  disputes opened, resolved and waiting of the instances sum to those of the whole
  archive, and the instances are listed once each in order.
\<close>

theorem disputes_by_instance_partitions:
  "bt_ok (disputes_by_instance data) \<and>
   sum_list (map (\<lambda>(k, g). ds_opened (disputes_summarise g w now)) (disputes_by_instance data)) =
     ds_opened (disputes_summarise data w now) \<and>
   sum_list (map (\<lambda>(k, g). ds_resolved (disputes_summarise g w now)) (disputes_by_instance data)) =
     ds_resolved (disputes_summarise data w now) \<and>
   sum_list (map (\<lambda>(k, g). length (ds_open (disputes_summarise g w now))) (disputes_by_instance data)) =
     length (ds_open (disputes_summarise data w now))"
proof -
  have part: "sum_list (map (\<lambda>(k, g). count_where P (dd_disputes g)) (disputes_by_instance data)) =
      count_where P (dd_disputes data)" for P
  proof -
    let ?W = "\<lambda>g. count_where P (dd_disputes g)"
    have "sum_list (map (\<lambda>(k, g). ?W g) (foldl (\<lambda>m d. bt_upd (dp_instance d) (push_dispute d) m) [] (dd_disputes data)))
        = sum_list (map (\<lambda>d. if P d then 1 else 0) (dd_disputes data))"
      by (subst sum_foldl_upd [where w = "\<lambda>d. if P d then 1 else 0"]) (simp_all add: push_dispute_def)
    moreover have "sum_list (map (\<lambda>(k, g). ?W g) (foldl (\<lambda>m t. bt_upd (tk_instance t) (push_taken t) m) m ts)) =
        sum_list (map (\<lambda>(k, g). ?W g) m)" for m ts
      by (subst sum_foldl_upd [where w = "\<lambda>_. 0"]) (simp_all add: push_taken_def)
    moreover have "sum_list (map (\<lambda>d. if P d then 1 else 0) ds) = count_where P ds" for ds :: "dispute list"
      by (induction ds) simp_all
    ultimately show ?thesis by (simp add: disputes_by_instance_def)
  qed
  have ok: "bt_ok (disputes_by_instance data)"
    by (simp add: disputes_by_instance_def bt_ok_foldl_upd)
  show ?thesis
    using ok by (simp add: disputes_sels opened_order.stable_sort_perm part)
qed

end
