(* ===== verification/Timing.thy ===== *)
theory Timing
  imports Disputes
begin

text \<open>
  Timing and the funnel (\<open>crates/stats/src/timing.rs\<close>): the gaps between two
  observed versions of an order, the book at an instant, and what became of the
  orders that entered the book in a window.
\<close>

section \<open>One lifecycle per order\<close>

datatype timing_dimension = TD_Fiat | TD_Method | TD_Kind | TD_Instance

datatype terminal = Terminal_Success i64 | Terminal_Canceled i64

definition terminal_of :: "order \<Rightarrow> terminal option" where
  "terminal_of ord =
     (case (o_success_at ord, o_canceled_at ord) of
        (Some success, Some canceled) \<Rightarrow>
          if canceled < success then Some (Terminal_Canceled canceled) else Some (Terminal_Success success)
      | (Some success, None) \<Rightarrow> Some (Terminal_Success success)
      | (None, Some canceled) \<Rightarrow> Some (Terminal_Canceled canceled)
      | (None, None) \<Rightarrow> None)"

definition book_age :: "order \<Rightarrow> i64 \<Rightarrow> i64 option" where
  "book_age ord now =
     (if o_taken_at ord = None \<and> terminal_of ord = None
         \<and> is_some_and (o_expires_at ord) (\<lambda>e. e > now)
      then Option.bind (opt_filter (\<lambda>p. p \<le> now) (o_pending_at ord)) (checked_sub_i64 now)
      else None)"

section \<open>The funnel\<close>

record funnel =
  fn_created :: u64
  fn_taken :: u64
  fn_completed :: u64
  fn_canceled_taken :: u64
  fn_canceled_untaken :: u64
  fn_expired_untaken :: u64
  fn_open :: u64

definition funnel_default :: funnel where
  "funnel_default = \<lparr>fn_created = 0, fn_taken = 0, fn_completed = 0, fn_canceled_taken = 0,
     fn_canceled_untaken = 0, fn_expired_untaken = 0, fn_open = 0\<rparr>"

definition funnel_share :: "funnel \<Rightarrow> u64 \<Rightarrow> f64 option" where
  "funnel_share fn n = ratio n (fn_created fn)"

definition taken_share :: "funnel \<Rightarrow> f64 option" where
  "taken_share fn = funnel_share fn (fn_taken fn)"

definition canceled_untaken_share :: "funnel \<Rightarrow> f64 option" where
  "canceled_untaken_share fn = funnel_share fn (fn_canceled_untaken fn)"

definition found_taker :: "order \<Rightarrow> bool" where
  "found_taker ord \<longleftrightarrow> o_taken_at ord \<noteq> None \<or> (\<exists>t. terminal_of ord = Some (Terminal_Success t))"

lemma found_taker_code [code]:
  "found_taker ord \<longleftrightarrow> o_taken_at ord \<noteq> None \<or>
     (case terminal_of ord of Some (Terminal_Success t) \<Rightarrow> True | _ \<Rightarrow> False)"
  by (auto simp: found_taker_def split: option.splits terminal.splits)

definition funnel_step :: "i64 \<Rightarrow> funnel \<Rightarrow> order \<Rightarrow> funnel" where
  "funnel_step now fn ord =
     (let fn = fn\<lparr>fn_created := fn_created fn + 1\<rparr>;
          taken = found_taker ord;
          fn = (if taken then fn\<lparr>fn_taken := fn_taken fn + 1\<rparr> else fn)
      in case terminal_of ord of
           Some (Terminal_Success _) \<Rightarrow> fn\<lparr>fn_completed := fn_completed fn + 1\<rparr>
         | Some (Terminal_Canceled _) \<Rightarrow>
             if o_taken_at ord \<noteq> None
             then fn\<lparr>fn_canceled_taken := fn_canceled_taken fn + 1\<rparr>
             else fn\<lparr>fn_canceled_untaken := fn_canceled_untaken fn + 1\<rparr>
         | None \<Rightarrow>
             if \<not> taken \<and> is_some_and (o_expires_at ord) (\<lambda>e. e \<le> now)
             then fn\<lparr>fn_expired_untaken := fn_expired_untaken fn + 1\<rparr>
             else fn\<lparr>fn_open := fn_open fn + 1\<rparr>)"

section \<open>The figures of a window\<close>

record timing =
  tm_fill_samples :: u64
  tm_fill_p50 :: "i64 option"
  tm_fill_p90 :: "i64 option"
  tm_complete_samples :: u64
  tm_complete_p50 :: "i64 option"
  tm_complete_p90 :: "i64 option"
  tm_cycle_samples :: u64
  tm_cycle_p50 :: "i64 option"
  tm_cycle_p90 :: "i64 option"
  tm_cancel_samples :: u64
  tm_cancel_p50 :: "i64 option"
  tm_cancel_p90 :: "i64 option"
  tm_book_size :: u64
  tm_book_age_avg :: "i64 option"
  tm_funnel :: funnel
  tm_unknown_origin :: u64
  tm_regressed :: u64

definition gaps :: "order list \<Rightarrow> window \<Rightarrow> (order \<Rightarrow> i64 option) \<Rightarrow> (order \<Rightarrow> i64 option) \<Rightarrow> i64 list" where
  "gaps orders w start finish =
     filter (\<lambda>gap. gap > 0)
       (filter_map (\<lambda>(a, b). checked_sub_i64 b a)
         (filter (\<lambda>(a, b). window_contains w b)
           (filter_map (\<lambda>ord. opt_zip (start ord) (finish ord)) orders)))"

definition terminal_success :: "order \<Rightarrow> i64 option" where
  "terminal_success ord = (case terminal_of ord of Some (Terminal_Success t) \<Rightarrow> Some t | _ \<Rightarrow> None)"

definition terminal_canceled :: "order \<Rightarrow> i64 option" where
  "terminal_canceled ord = (case terminal_of ord of Some (Terminal_Canceled t) \<Rightarrow> Some t | _ \<Rightarrow> None)"

text \<open>\<open>i128\<close> division truncates towards zero.\<close>

definition trunc_div :: "int \<Rightarrow> int \<Rightarrow> int" where
  "trunc_div a b = sgn a * sgn b * (\<bar>a\<bar> div \<bar>b\<bar>)"

definition timing_summarise :: "order list \<Rightarrow> window \<Rightarrow> i64 \<Rightarrow> timing" where
  "timing_summarise orders w now =
     (let fills = gaps orders w o_pending_at o_taken_at;
          completes = gaps orders w o_taken_at terminal_success;
          cycles = gaps orders w o_pending_at terminal_success;
          cancels = gaps orders w o_pending_at terminal_canceled;
          ages = filter_map (\<lambda>ord. book_age ord now) orders
      in \<lparr>tm_fill_samples = length fills, tm_fill_p50 = percentile_i64 fills p50, tm_fill_p90 = percentile_i64 fills p90,
          tm_complete_samples = length completes, tm_complete_p50 = percentile_i64 completes p50,
          tm_complete_p90 = percentile_i64 completes p90,
          tm_cycle_samples = length cycles, tm_cycle_p50 = percentile_i64 cycles p50, tm_cycle_p90 = percentile_i64 cycles p90,
          tm_cancel_samples = length cancels, tm_cancel_p50 = percentile_i64 cancels p50,
          tm_cancel_p90 = percentile_i64 cancels p90,
          tm_book_size = length ages,
          tm_book_age_avg = Option.bind (then_some (ages \<noteq> []) (trunc_div (sum_list ages) (int (length ages)))) try_into_i64,
          tm_funnel = foldl (funnel_step now) funnel_default
            (filter (\<lambda>ord. is_some_and (o_pending_at ord) (window_contains w)) orders),
          tm_unknown_origin = count_where (\<lambda>ord. o_pending_at ord = None \<and> window_contains w (o_created_at ord)) orders,
          tm_regressed = count_where (\<lambda>ord. o_success_at ord \<noteq> None \<and> o_canceled_at ord \<noteq> None) orders\<rparr>)"

section \<open>The report\<close>

fun timing_keys :: "timing_dimension \<Rightarrow> order \<Rightarrow> str list" where
  "timing_keys TD_Fiat ord = [og_fiat_code (o_origin ord)]"
| "timing_keys TD_Method ord = og_payment_methods (o_origin ord)"
| "timing_keys TD_Kind ord = [direction_as_str (og_direction (o_origin ord))]"
| "timing_keys TD_Instance ord = [o_instance ord]"

definition timing_slice :: "order list \<Rightarrow> timing_dimension \<Rightarrow> (str, order list) btree" where
  "timing_slice orders d = group_by (timing_keys d) orders"

definition timing_metrics :: "str \<Rightarrow> timing \<Rightarrow> metric list" where
  "timing_metrics pfx t =
     (let fn = tm_funnel t in
      [count_metric pfx ''time_to_fill_samples'' (tm_fill_samples t),
       seconds_metric pfx ''time_to_fill_p50'' (tm_fill_p50 t),
       seconds_metric pfx ''time_to_fill_p90'' (tm_fill_p90 t),
       count_metric pfx ''time_to_complete_samples'' (tm_complete_samples t),
       seconds_metric pfx ''time_to_complete_p50'' (tm_complete_p50 t),
       seconds_metric pfx ''time_to_complete_p90'' (tm_complete_p90 t),
       count_metric pfx ''full_cycle_samples'' (tm_cycle_samples t),
       seconds_metric pfx ''full_cycle_p50'' (tm_cycle_p50 t),
       seconds_metric pfx ''full_cycle_p90'' (tm_cycle_p90 t),
       count_metric pfx ''time_to_cancel_samples'' (tm_cancel_samples t),
       seconds_metric pfx ''time_to_cancel_p50'' (tm_cancel_p50 t),
       seconds_metric pfx ''time_to_cancel_p90'' (tm_cancel_p90 t),
       count_metric pfx ''book_size'' (tm_book_size t),
       seconds_metric pfx ''book_age_avg'' (tm_book_age_avg t),
       count_metric pfx ''funnel.created'' (fn_created fn),
       count_metric pfx ''funnel.taken'' (fn_taken fn),
       ratio_metric pfx ''funnel.taken_share'' (taken_share fn),
       count_metric pfx ''funnel.completed'' (fn_completed fn),
       count_metric pfx ''funnel.canceled_taken'' (fn_canceled_taken fn),
       count_metric pfx ''funnel.canceled_untaken'' (fn_canceled_untaken fn),
       ratio_metric pfx ''funnel.canceled_untaken_share'' (canceled_untaken_share fn),
       count_metric pfx ''funnel.expired_untaken'' (fn_expired_untaken fn),
       count_metric pfx ''funnel.open'' (fn_open fn),
       count_metric pfx ''unknown_origin'' (tm_unknown_origin t),
       count_metric pfx ''regressed'' (tm_regressed t)])"

definition timing_report :: "order list \<Rightarrow> window \<Rightarrow> timing_dimension option \<Rightarrow> i64 \<Rightarrow> metric list" where
  "timing_report orders w dm now =
     (case dm of
        None \<Rightarrow> timing_metrics ''timing'' (timing_summarise orders w now)
      | Some d \<Rightarrow> concat (map (\<lambda>(key, g). timing_metrics (''timing.'' @ key) (timing_summarise g w now))
          (timing_slice orders d)))"

section \<open>Properties\<close>

definition funnel_inv :: "i64 \<Rightarrow> order list \<Rightarrow> funnel \<Rightarrow> bool" where
  "funnel_inv now xs fn \<longleftrightarrow>
     fn_created fn = length xs \<and>
     fn_taken fn = count_where found_taker xs \<and>
     fn_completed fn + fn_canceled_taken fn \<le> fn_taken fn \<and>
     fn_created fn = fn_completed fn + fn_canceled_taken fn + fn_canceled_untaken fn + fn_expired_untaken fn + fn_open fn \<and>
     fn_taken fn + fn_canceled_untaken fn + fn_expired_untaken fn \<le> fn_created fn"

lemma funnel_inv_step: "funnel_inv now xs fn \<Longrightarrow> funnel_inv now (xs @ [x]) (funnel_step now fn x)"
  by (auto simp: funnel_inv_def funnel_step_def Let_def found_taker_def split: option.splits terminal.splits)

lemma funnel_inv_fold: "funnel_inv now xs (foldl (funnel_step now) funnel_default xs)"
proof (induction xs rule: rev_induct)
  case Nil
  then show ?case by (simp add: funnel_inv_def funnel_default_def)
next
  case (snoc x xs)
  then show ?case by (simp add: funnel_inv_step)
qed

text \<open>
  The funnel loses no order: each one that entered the book in the window ends
  in exactly one of completed, canceled after or before being taken, expired or
  open, and a taker was found for at least the completed and the canceled-after-taken
  ones and for none of the canceled untaken or expired ones. Every duration the
  percentiles are taken over is positive, and so is every age on the book
  non-negative.
\<close>

theorem timing_funnel_partitions:
  "let t = timing_summarise orders w now; fn = tm_funnel t in
   fn_created fn = count_where (\<lambda>ord. is_some_and (o_pending_at ord) (window_contains w)) orders \<and>
   fn_created fn = fn_completed fn + fn_canceled_taken fn + fn_canceled_untaken fn + fn_expired_untaken fn + fn_open fn \<and>
   fn_completed fn + fn_canceled_taken fn \<le> fn_taken fn \<and>
   fn_taken fn + fn_canceled_untaken fn + fn_expired_untaken fn \<le> fn_created fn \<and>
   list_all (\<lambda>gap. 0 < gap) (gaps orders w o_pending_at o_taken_at) \<and>
   list_all (\<lambda>age. 0 \<le> age) (filter_map (\<lambda>ord. book_age ord now) orders)"
proof -
  let ?xs = "filter (\<lambda>ord. is_some_and (o_pending_at ord) (window_contains w)) orders"
  have "tm_funnel (timing_summarise orders w now) = foldl (funnel_step now) funnel_default ?xs"
    by (simp add: timing_summarise_def Let_def)
  moreover have "list_all (\<lambda>age. 0 \<le> age) (filter_map (\<lambda>ord. book_age ord now) orders)"
    by (auto simp: list_all_iff set_filter_map book_age_def checked_sub_Some_iff bind_eq_Some_conv split: if_splits)
  ultimately show ?thesis
    using funnel_inv_fold [of now ?xs] by (simp add: Let_def funnel_inv_def gaps_def list_all_iff)
qed

end
