(* ===== verification/Market.thy ===== *)
theory Market
  imports Timing "HOL-Library.Multiset"
begin

text \<open>
  Market structure (\<open>crates/stats/src/market.rs\<close>), the rankings
  (\<open>market/ranking.rs\<close>) and the view of one currency (\<open>market/fiat.rs\<close>). A weight is
  an \<open>i128\<close> that sums \<open>i64\<close> values of a corpus in memory, an \<^typ>\<open>int\<close>.
\<close>

section \<open>Rankings\<close>

record ranking =
  rk_entries :: "(str \<times> int) list"
  rk_top3_share :: f64
  rk_hhi :: f64

definition rank_le :: "str \<times> int \<Rightarrow> str \<times> int \<Rightarrow> bool" where
  "rank_le a b \<longleftrightarrow> snd b < snd a \<or> snd a = snd b \<and> fst a \<le> fst b"

definition ranking_new :: "(str, int) btree \<Rightarrow> ranking" where
  "ranking_new weights =
     (let entries = stable_sort rank_le (filter (\<lambda>(_, weight). weight > 0) weights);
          total_weight = sum_list (map snd entries);
          share = (\<lambda>weight. f64_div (f64_of_int weight) (f64_of_int total_weight))
      in if total_weight > 0
         then \<lparr>rk_entries = entries,
               rk_top3_share = f64_sum (map (\<lambda>(_, w). share w) (take 3 entries)),
               rk_hhi = f64_sum (map (\<lambda>(_, w). f64_mul (share w) (share w)) entries)\<rparr>
         else \<lparr>rk_entries = entries, rk_top3_share = F64_Fin False 0, rk_hhi = F64_Fin False 0\<rparr>)"

definition ranking_is_empty :: "ranking \<Rightarrow> bool" where
  "ranking_is_empty r \<longleftrightarrow> rk_entries r = []"

definition top3 :: "ranking \<Rightarrow> str \<Rightarrow> str" where
  "top3 r unit_text =
     join '', '' (map (\<lambda>(key, weight). key @ '' '' @ show_int weight @ unit_text) (take 3 (rk_entries r)))"

definition add_weight :: "int \<Rightarrow> int option \<Rightarrow> int" where
  "add_weight w old = map_or 0 (\<lambda>x. x) old + w"

definition tally_weights :: "order list \<Rightarrow> (order \<Rightarrow> str list) \<Rightarrow> (order \<Rightarrow> i64) \<Rightarrow> (str, int) btree" where
  "tally_weights orders keys weight =
     foldl (\<lambda>m ord. foldl (\<lambda>m key. bt_upd key (add_weight (weight ord)) m) m (keys ord)) [] orders"

definition tally :: "order list \<Rightarrow> (order \<Rightarrow> str list) \<Rightarrow> (order \<Rightarrow> i64) \<Rightarrow> ranking" where
  "tally orders keys weight = ranking_new (tally_weights orders keys weight)"

section \<open>The figures of a window\<close>

definition LISTED :: nat where
  "LISTED = 8"

datatype market_dimension = MD_Fiat | MD_Kind | MD_Instance

record market =
  mk_orders :: u64
  mk_buy_orders_share :: "f64 option"
  mk_buy_volume_share :: "f64 option"
  mk_premium_avg :: "f64 option"
  mk_premium_p50 :: "f64 option"
  mk_premium_p50_buy :: "f64 option"
  mk_premium_p50_sell :: "f64 option"
  mk_premium_spread :: "f64 option"
  mk_market_price_share :: "f64 option"
  mk_range_share :: "f64 option"
  mk_range_width_avg :: "f64 option"
  mk_range_width_fiat_avg :: "f64 option"
  mk_fiats_by_orders :: ranking
  mk_fiats_by_volume :: ranking
  mk_methods_by_orders :: ranking
  mk_methods_by_volume :: ranking
  mk_new_fiats :: "str list"
  mk_new_methods :: "str list"

definition first_sightings :: "order list \<Rightarrow> window \<Rightarrow> (order \<Rightarrow> str list) \<Rightarrow> str list" where
  "first_sightings orders w keys =
     (let seen_before = bt_set_of (concat (map keys (filter (\<lambda>ord. o_created_at ord < w_from w) orders))) in
      bt_set_of (filter (\<lambda>key. key \<notin> set seen_before)
        (concat (map keys (filter (\<lambda>ord. window_contains w (o_created_at ord)) orders)))))"

definition f64_mean :: "f64 list \<Rightarrow> f64 option" where
  "f64_mean vs = then_some (vs \<noteq> []) (f64_div (f64_sum vs) (f64_of_nat (length vs)))"

definition fiat_keys :: "order \<Rightarrow> str list" where
  "fiat_keys ord = [o_fiat_code ord]"

definition method_keys :: "order \<Rightarrow> str list" where
  "method_keys ord = og_payment_methods (o_origin ord)"

definition market_summarise :: "order list \<Rightarrow> window \<Rightarrow> market" where
  "market_summarise orders w =
     (let book = filter (\<lambda>ord. window_contains w (o_created_at ord)) orders;
          trades = completed_orders orders w;
          buys = count_where (\<lambda>ord. o_direction ord = Buy) book;
          sats = sum_list (map o_amount_sats trades);
          buy_sats = sum_list (map o_amount_sats (filter (\<lambda>ord. o_direction ord = Buy) trades));
          premiums = (\<lambda>side. map o_premium (filter (\<lambda>ord. is_none_or side (\<lambda>s. o_direction ord = s)) trades));
          all_premiums = premiums None;
          p50_buy = percentile_f64 (premiums (Some Buy)) p50;
          p50_sell = percentile_f64 (premiums (Some Sell)) p50;
          ranges = filter (\<lambda>(_, mx). f64_lt (F64_Fin False 0) mx) (filter_map o_fiat_range book)
      in \<lparr>mk_orders = length book,
          mk_buy_orders_share = ratio buys (length book),
          mk_buy_volume_share = then_some (sats > 0) (f64_div (f64_of_int buy_sats) (f64_of_int sats)),
          mk_premium_avg = f64_mean all_premiums,
          mk_premium_p50 = percentile_f64 all_premiums p50,
          mk_premium_p50_buy = p50_buy,
          mk_premium_p50_sell = p50_sell,
          mk_premium_spread = map_option (\<lambda>(sell, buy). f64_sub sell buy) (opt_zip p50_sell p50_buy),
          mk_market_price_share = ratio (count_where o_is_market_price book) (length book),
          mk_range_share = ratio (count_where (\<lambda>ord. o_fiat_range ord \<noteq> None) book) (length book),
          mk_range_width_avg = f64_mean (map (\<lambda>(mn, mx). f64_div (f64_sub mx mn) mx) ranges),
          mk_range_width_fiat_avg = f64_mean (map (\<lambda>(mn, mx). f64_sub mx mn) ranges),
          mk_fiats_by_orders = tally book fiat_keys (\<lambda>_. 1),
          mk_fiats_by_volume = tally trades fiat_keys o_amount_sats,
          mk_methods_by_orders = tally book method_keys (\<lambda>_. 1),
          mk_methods_by_volume = tally trades method_keys o_amount_sats,
          mk_new_fiats = first_sightings orders w fiat_keys,
          mk_new_methods = first_sightings orders w method_keys\<rparr>)"

section \<open>The report\<close>

definition percent_value :: "f64 option \<Rightarrow> val" where
  "percent_value p = map_or V_Missing value_ratio (map_option (\<lambda>x. f64_div x (F64_Fin False 100)) p)"

definition list_text :: "str list \<Rightarrow> val" where
  "list_text items =
     (if items = [] then V_Missing
      else if length items \<le> LISTED then V_Text (join '', '' items)
      else V_Text (join '', '' (take LISTED items) @ '', +'' @ show_nat (length items - LISTED) @ '' more''))"

definition ranked_value :: "ranking \<Rightarrow> str \<Rightarrow> val" where
  "ranked_value r unit_text = (if ranking_is_empty r then V_Missing else V_Text (top3 r unit_text))"

definition concentration :: "str \<Rightarrow> str \<Rightarrow> ranking \<Rightarrow> str \<Rightarrow> metric list" where
  "concentration pfx name r what =
     (let present = \<not> ranking_is_empty r in
      [ratio_metric pfx (name @ ''_top3_'' @ what @ ''_share'') (then_some present (rk_top3_share r)),
       ratio_metric pfx (name @ ''_hhi_'' @ what) (then_some present (rk_hhi r))])"

definition market_metrics :: "str \<Rightarrow> market \<Rightarrow> str option \<Rightarrow> metric list" where
  "market_metrics pfx m fiat =
     (let obs = (\<lambda>name v. observed (pfx @ ''.'' @ name) v) in
      [count_metric pfx ''orders'' (mk_orders m),
       ratio_metric pfx ''buy_orders_share'' (mk_buy_orders_share m),
       ratio_metric pfx ''buy_volume_share'' (mk_buy_volume_share m),
       obs ''premium_avg'' (percent_value (mk_premium_avg m)),
       obs ''premium_p50'' (percent_value (mk_premium_p50 m)),
       obs ''premium_p50_buy'' (percent_value (mk_premium_p50_buy m)),
       obs ''premium_p50_sell'' (percent_value (mk_premium_p50_sell m)),
       obs ''premium_spread'' (percent_value (mk_premium_spread m)),
       ratio_metric pfx ''market_price_share'' (mk_market_price_share m),
       ratio_metric pfx ''range_share'' (mk_range_share m),
       ratio_metric pfx ''range_width_avg'' (mk_range_width_avg m)]
      @ (case opt_zip fiat (mk_range_width_fiat_avg m) of
           Some (code, width) \<Rightarrow> [obs ''range_width_fiat_avg'' (value_fiat width code)]
         | None \<Rightarrow> [])
      @ (if fiat = None
         then [obs ''fiat_top3_by_orders'' (ranked_value (mk_fiats_by_orders m) [])]
              @ concentration pfx ''fiat'' (mk_fiats_by_orders m) ''orders''
              @ [obs ''fiat_top3_by_volume'' (ranked_value (mk_fiats_by_volume m) '' sats'')]
              @ concentration pfx ''fiat'' (mk_fiats_by_volume m) ''volume''
         else [])
      @ [obs ''method_top3_by_orders'' (ranked_value (mk_methods_by_orders m) []),
         obs ''method_top3_by_volume'' (ranked_value (mk_methods_by_volume m) '' sats'')]
      @ (if fiat = None then [obs ''new_fiats'' (list_text (mk_new_fiats m))] else [])
      @ [obs ''new_methods'' (list_text (mk_new_methods m))])"

fun market_grouping :: "market_dimension \<Rightarrow> dimension" where
  "market_grouping MD_Fiat = Dim_Fiat"
| "market_grouping MD_Kind = Dim_Kind"
| "market_grouping MD_Instance = Dim_Instance"

definition market_report :: "order list \<Rightarrow> window \<Rightarrow> market_dimension option \<Rightarrow> metric list" where
  "market_report orders w dm =
     (case dm of
        None \<Rightarrow> market_metrics ''market'' (market_summarise orders w) None
      | Some d \<Rightarrow> concat (map (\<lambda>(key, g).
          market_metrics (''market.'' @ key) (market_summarise g w) (then_some (d = MD_Fiat) key))
          (activity_slice orders (market_grouping d))))"

section \<open>The market of one currency\<close>

definition orders_in :: "order list \<Rightarrow> str \<Rightarrow> order list" where
  "orders_in orders fiat = filter (\<lambda>ord. o_fiat_code ord = fiat) orders"

definition orders_from :: "order list \<Rightarrow> str \<Rightarrow> order list" where
  "orders_from orders fiat = filter (\<lambda>ord. og_fiat_code (o_origin ord) = fiat) orders"

definition market_fiat_report :: "order list \<Rightarrow> str \<Rightarrow> window \<Rightarrow> i64 \<Rightarrow> metric list" where
  "market_fiat_report orders fiat w now =
     (let in_market = orders_in orders fiat;
          pfx = ''market.'' @ fiat;
          t = timing_summarise (orders_from orders fiat) w now;
          inst = (\<lambda>ord. [o_instance ord]);
          book = filter (\<lambda>ord. window_contains w (o_created_at ord)) in_market;
          by_orders = tally book inst (\<lambda>_. 1);
          by_volume = tally (completed_orders in_market w) inst o_amount_sats
      in market_metrics pfx (market_summarise in_market w) (Some fiat)
         @ [count_metric pfx ''time_to_fill_samples'' (tm_fill_samples t),
            seconds_metric pfx ''time_to_fill_p50'' (tm_fill_p50 t),
            seconds_metric pfx ''time_to_fill_p90'' (tm_fill_p90 t),
            count_metric pfx ''book_size'' (tm_book_size t),
            count_metric pfx ''instances'' (length (rk_entries by_orders)),
            observed (pfx @ ''.instances_top3_by_orders'') (ranked_value by_orders []),
            observed (pfx @ ''.instances_top3_by_volume'') (ranked_value by_volume '' sats'')])"

section \<open>Properties\<close>

interpretation rank_order: sample_order rank_le "\<lambda>_. True"
  by unfold_locales (auto simp: rank_le_def)

lemma mset_stable_sort: "mset (stable_sort le xs) = mset xs"
proof -
  have "mset (insort_by le x ys) = add_mset x (mset ys)" for x ys
    by (induction ys) auto
  then show ?thesis unfolding stable_sort_def by (induction xs) auto
qed

text \<open>What a key is credited with: the weight of an order once per time it names the key.\<close>

definition credited :: "order list \<Rightarrow> (order \<Rightarrow> str list) \<Rightarrow> (order \<Rightarrow> i64) \<Rightarrow> str \<Rightarrow> int" where
  "credited orders keys weight k =
     sum_list (map (\<lambda>ord. weight ord * int (count_where (\<lambda>x. x = k) (keys ord))) orders)"

lemma tally_inner:
  assumes "bt_ok m"
  shows "bt_ok (foldl (\<lambda>m key. bt_upd key (add_weight w) m) m ks) \<and>
    map_or 0 (\<lambda>x. x) (bt_get (foldl (\<lambda>m key. bt_upd key (add_weight w) m) m ks) k) =
      map_or 0 (\<lambda>x. x) (bt_get m k) + w * int (count_where (\<lambda>x. x = k) ks)"
  using assms
proof (induction ks arbitrary: m)
  case (Cons a ks)
  have "bt_ok (bt_upd a (add_weight w) m)" using Cons.prems by (rule bt_ok_upd)
  moreover have "map_or 0 (\<lambda>x. x) (bt_get (bt_upd a (add_weight w) m) k) =
      map_or 0 (\<lambda>x. x) (bt_get m k) + (if a = k then w else 0)"
    using Cons.prems by (simp add: bt_get_upd add_weight_def)
  ultimately show ?case using Cons.IH by (simp add: distrib_left)
qed simp

lemma tally_weights_get:
  "bt_ok (tally_weights orders keys weight) \<and>
   map_or 0 (\<lambda>x. x) (bt_get (tally_weights orders keys weight) k) = credited orders keys weight k"
proof (induction orders rule: rev_induct)
  case Nil
  then show ?case by (simp add: tally_weights_def credited_def)
next
  case (snoc ord orders)
  have "tally_weights (orders @ [ord]) keys weight =
      foldl (\<lambda>m key. bt_upd key (add_weight (weight ord)) m) (tally_weights orders keys weight) (keys ord)"
    by (simp add: tally_weights_def)
  with snoc tally_inner [of "tally_weights orders keys weight" "weight ord" "keys ord" k] show ?case
    by (simp add: credited_def)
qed

lemma ranking_entries: "rk_entries (ranking_new ws) = stable_sort rank_le (filter (\<lambda>(_, weight). weight > 0) ws)"
  by (simp add: ranking_new_def Let_def)

text \<open>
  A ranking lists exactly the keys that carry weight, each with the whole weight
  of the orders that name it (an order naming several keys is credited to each), in
  descending weight with ties by key; keys of zero or negative weight are dropped.
\<close>

theorem tally_ranks_exactly:
  "((k, v) \<in> set (rk_entries (tally orders keys weight)) \<longleftrightarrow> v = credited orders keys weight k \<and> 0 < v) \<and>
   sorted_wrt rank_le (rk_entries (tally orders keys weight)) \<and>
   distinct (map fst (rk_entries (tally orders keys weight)))"
proof -
  let ?ws = "tally_weights orders keys weight"
  have ok: "bt_ok ?ws" and get: "map_or 0 (\<lambda>x. x) (bt_get ?ws k) = credited orders keys weight k"
    using tally_weights_get by blast+
  have "(k, v) \<in> set ?ws \<and> 0 < v \<longleftrightarrow> v = credited orders keys weight k \<and> 0 < v"
    using get bt_get_iff [OF ok, of k v] by (cases "bt_get ?ws k") auto
  moreover have "distinct (map fst (stable_sort rank_le (filter (\<lambda>(_, weight). weight > 0) ?ws)))"
  proof -
    have "distinct (map fst ?ws)" using ok by (simp add: bt_ok_def strict_sorted_iff)
    then have d: "distinct (map fst (filter (\<lambda>(_, weight). weight > 0) ?ws))"
      by (rule distinct_map_filter)
    have "mset (map fst (stable_sort rank_le xs)) = mset (map fst xs)" for xs
      by (simp add: mset_stable_sort)
    with d show ?thesis by (metis mset_eq_imp_distinct_iff)
  qed
  moreover have "sorted_wrt rank_le (stable_sort rank_le (filter (\<lambda>(_, weight). weight > 0) ?ws))"
    by (rule rank_order.stable_sort_sorted) (simp add: list_all_iff)
  ultimately show ?thesis
    by (simp add: tally_def ranking_entries rank_order.stable_sort_perm)
qed

text \<open>
  A first sighting is a key some order created in the window names and no order
  created before the window does; each is listed once, in order.
\<close>

theorem first_sightings_exact:
  "(k \<in> set (first_sightings orders w keys) \<longleftrightarrow>
     list_ex (\<lambda>ord. window_contains w (o_created_at ord) \<and> k \<in> set (keys ord)) orders \<and>
     \<not> list_ex (\<lambda>ord. o_created_at ord < w_from w \<and> k \<in> set (keys ord)) orders) \<and>
   sorted_wrt (<) (first_sightings orders w keys)"
  by (auto simp: first_sightings_def Let_def bt_set_of_ascending list_ex_iff)

end
