(* ===== verification/DevFees.thy ===== *)
theory DevFees
  imports Volume
begin

text \<open>
  Dev fee metrics (\<open>crates/stats/src/dev_fees.rs\<close>) and the volume they imply
  (\<open>crates/stats/src/dev_fees/implied.rs\<close>). Sums and differences of sats and
  seconds are those of \<open>i64\<close> and wrap; the inverse is computed in binary64.
  \<open>dev_fee_pct\<close>, the share assumed for a pubkey, is an argument as in the source.
\<close>

section \<open>Fees and settlements\<close>

record fee =
  f_event_id :: str
  f_order_id :: str
  f_pubkey :: str
  f_instance :: str
  f_created_at :: i64
  f_amount_sats :: i64
  f_is_duplicate :: bool
  f_order_known :: bool
  f_settled_at :: "i64 option"
  f_fee_in_force :: "f64 option"
  f_settled_amount_sats :: "i64 option"

record settlement =
  st_order_id :: str
  st_instance :: str
  st_success_at :: i64
  st_has_fee :: bool
  st_charges_fee :: "bool option"

record dev_fee_data =
  df_fees :: "fee list"
  df_settlements :: "settlement list"

datatype dev_fee_dimension = DF_Instance | DF_Month | DF_Day

record dev_fees =
  dv_total_sats :: i64
  dv_paid :: u64
  dv_coverage :: "f64 option"
  dv_latency_p50 :: "i64 option"
  dv_latency_p90 :: "i64 option"
  dv_duplicates :: u64
  dv_orphans :: u64

definition canonical :: "dev_fee_data \<Rightarrow> window \<Rightarrow> fee list" where
  "canonical data w = filter (\<lambda>fee. \<not> f_is_duplicate fee \<and> window_contains w (f_created_at fee)) (df_fees data)"

definition i64_sum :: "i64 list \<Rightarrow> i64" where
  "i64_sum xs = foldl i64_add 0 xs"

definition dev_fees_summarise :: "dev_fee_data \<Rightarrow> window \<Rightarrow> dev_fees" where
  "dev_fees_summarise data w =
     (let doubly_paid = map f_order_id (filter f_is_duplicate (df_fees data));
          canon = canonical data w;
          latencies = filter_map (\<lambda>fee. map_option (\<lambda>settled. i64_sub (f_created_at fee) settled) (f_settled_at fee)) canon;
          owed = filter (\<lambda>s. st_charges_fee s = Some True)
            (filter (\<lambda>s. window_contains w (st_success_at s)) (df_settlements data));
          covered = count_where st_has_fee owed
      in \<lparr>dv_total_sats = i64_sum (map f_amount_sats canon),
          dv_paid = length canon,
          dv_coverage = then_some (owed \<noteq> []) (f64_div (f64_of_nat covered) (f64_of_nat (length owed))),
          dv_latency_p50 = percentile_i64 latencies p50,
          dv_latency_p90 = percentile_i64 latencies p90,
          dv_duplicates = count_where (\<lambda>fee. f_order_id fee \<in> set doubly_paid) canon,
          dv_orphans = count_where (\<lambda>fee. \<not> f_order_known fee) canon\<rparr>)"

definition push_fee :: "fee \<Rightarrow> dev_fee_data option \<Rightarrow> dev_fee_data" where
  "push_fee x old =
     (case old of None \<Rightarrow> \<lparr>df_fees = [x], df_settlements = []\<rparr>
      | Some g \<Rightarrow> g\<lparr>df_fees := df_fees g @ [x]\<rparr>)"

definition push_settlement :: "settlement \<Rightarrow> dev_fee_data option \<Rightarrow> dev_fee_data" where
  "push_settlement x old =
     (case old of None \<Rightarrow> \<lparr>df_fees = [], df_settlements = [x]\<rparr>
      | Some g \<Rightarrow> g\<lparr>df_settlements := df_settlements g @ [x]\<rparr>)"

definition dev_fees_by_instance :: "dev_fee_data \<Rightarrow> (str, dev_fee_data) btree" where
  "dev_fees_by_instance data =
     foldl (\<lambda>m s. bt_upd (st_instance s) (push_settlement s) m)
       (foldl (\<lambda>m x. bt_upd (f_instance x) (push_fee x) m) [] (df_fees data))
       (df_settlements data)"

definition dev_fees_metrics :: "str \<Rightarrow> dev_fees \<Rightarrow> metric list" where
  "dev_fees_metrics pfx d =
     (let obs = (\<lambda>name v. observed (pfx @ ''.'' @ name) v); secs = map_or V_Missing V_Seconds in
      [obs ''total_sats'' (V_Sats (dv_total_sats d)),
       obs ''paid'' (V_Count (u64_as_i64 (dv_paid d))),
       obs ''coverage'' (map_or V_Missing value_ratio (dv_coverage d)),
       obs ''latency_p50'' (secs (dv_latency_p50 d)),
       obs ''latency_p90'' (secs (dv_latency_p90 d)),
       obs ''duplicates'' (V_Count (u64_as_i64 (dv_duplicates d))),
       obs ''orphans'' (V_Count (u64_as_i64 (dv_orphans d)))])"

section \<open>The implied volume\<close>

definition SHARES_LISTED :: nat where
  "SHARES_LISTED = 3"

record implied =
  im_volume_sats :: "i64 option"
  im_error_sats :: i64
  im_inverted :: u64
  im_no_fee_in_force :: u64
  im_zero_fee :: u64
  im_assumed_pcts :: "f64 list"
  im_with_fee_volume_sats :: "i64 option"
  im_with_fee_orders :: u64
  im_matched :: u64
  im_matched_implied_sats :: i64
  im_matched_observed_sats :: i64
  im_matched_error_sats :: i64
  im_zero_amount_orders :: u64

definition not_invertible :: "implied \<Rightarrow> u64" where
  "not_invertible im = im_no_fee_in_force im + im_zero_fee im"

definition implied_vs_observed :: "implied \<Rightarrow> f64 option" where
  "implied_vs_observed im =
     then_some (im_matched_observed_sats im > 0)
       (f64_sub (f64_div (f64_of_int (im_matched_implied_sats im)) (f64_of_int (im_matched_observed_sats im)))
          (F64_Fin False 1))"

definition implied_vs_observed_error :: "implied \<Rightarrow> f64 option" where
  "implied_vs_observed_error im =
     then_some (im_matched_observed_sats im > 0)
       (f64_div (f64_of_int (im_matched_error_sats im)) (f64_of_int (im_matched_observed_sats im)))"

definition divisor :: "fee \<Rightarrow> f64 \<Rightarrow> f64 option" where
  "divisor x pct =
     Option.bind (f_fee_in_force x) (\<lambda>charged.
       let d = f64_mul charged pct in
       then_some (f64_is_finite d \<and> f64_lt (F64_Fin False 0) d) d)"

text \<open>The mutable locals of the loop beside the result it fills in.\<close>

record implied_acc =
  ia_implied :: implied
  ia_volume :: f64
  ia_error :: f64
  ia_matched_volume :: f64
  ia_matched_error :: f64
  ia_observed :: i64
  ia_pcts :: "f64 list"

definition implied_start :: implied_acc where
  "implied_start =
     \<lparr>ia_implied = \<lparr>im_volume_sats = Some 0, im_error_sats = 0, im_inverted = 0, im_no_fee_in_force = 0,
        im_zero_fee = 0, im_assumed_pcts = [], im_with_fee_volume_sats = None, im_with_fee_orders = 0,
        im_matched = 0, im_matched_implied_sats = 0, im_matched_observed_sats = 0,
        im_matched_error_sats = 0, im_zero_amount_orders = 0\<rparr>,
      ia_volume = F64_Fin False 0, ia_error = F64_Fin False 0,
      ia_matched_volume = F64_Fin False 0, ia_matched_error = F64_Fin False 0,
      ia_observed = 0, ia_pcts = []\<rparr>"

definition implied_observe :: "fee \<Rightarrow> implied_acc \<Rightarrow> implied_acc" where
  "implied_observe x acc =
     (case f_settled_amount_sats x of
        None \<Rightarrow> acc
      | Some amount \<Rightarrow>
          acc\<lparr>ia_implied := (ia_implied acc)\<lparr>im_with_fee_orders := im_with_fee_orders (ia_implied acc) + 1\<rparr>,
              ia_observed := i64_add (ia_observed acc) amount\<rparr>)"

definition implied_invert :: "fee \<Rightarrow> f64 \<Rightarrow> f64 \<Rightarrow> implied_acc \<Rightarrow> implied_acc" where
  "implied_invert x pct d acc =
     (let pcts = (if list_ex (f64_eq pct) (ia_pcts acc) then ia_pcts acc else ia_pcts acc @ [pct]);
          inverse = f64_div (f64_of_int (f_amount_sats x)) d;
          unit_error = f64_div (F64_Fin False 1) d;
          im = ia_implied acc;
          acc = acc\<lparr>ia_pcts := pcts,
            ia_volume := f64_add (ia_volume acc) inverse,
            ia_error := f64_add (ia_error acc) unit_error,
            ia_implied := im\<lparr>im_inverted := im_inverted im + 1\<rparr>\<rparr>;
          im = ia_implied acc
      in case f_settled_amount_sats x of
           None \<Rightarrow> acc
         | Some amount \<Rightarrow>
             if amount > 0
             then acc\<lparr>ia_matched_volume := f64_add (ia_matched_volume acc) inverse,
                      ia_matched_error := f64_add (ia_matched_error acc) unit_error,
                      ia_implied := im\<lparr>im_matched := im_matched im + 1,
                        im_matched_observed_sats := i64_add (im_matched_observed_sats im) amount\<rparr>\<rparr>
             else acc\<lparr>ia_implied := im\<lparr>im_zero_amount_orders := im_zero_amount_orders im + 1\<rparr>\<rparr>)"

definition implied_step :: "(str \<Rightarrow> f64) \<Rightarrow> implied_acc \<Rightarrow> fee \<Rightarrow> implied_acc" where
  "implied_step dev_fee_pct acc x =
     (let acc = implied_observe x acc; pct = dev_fee_pct (f_pubkey x); im = ia_implied acc in
      case divisor x pct of
        None \<Rightarrow>
          (case f_fee_in_force x of
             None \<Rightarrow> acc\<lparr>ia_implied := im\<lparr>im_no_fee_in_force := im_no_fee_in_force im + 1\<rparr>\<rparr>
           | Some _ \<Rightarrow> acc\<lparr>ia_implied := im\<lparr>im_zero_fee := im_zero_fee im + 1\<rparr>\<rparr>)
      | Some d \<Rightarrow> implied_invert x pct d acc)"

text \<open>\<open>f64::total_cmp\<close> on the values a share can have.\<close>

fun f64_total_le :: "f64 \<Rightarrow> f64 \<Rightarrow> bool" where
  "f64_total_le F64_NaN y = (y = F64_NaN)"
| "f64_total_le x F64_NaN = True"
| "f64_total_le x y = (f64_lt x y \<or> f64_eq x y \<and> (f64_neg_bit x \<or> \<not> f64_neg_bit y))"

definition implied_finish :: "implied_acc \<Rightarrow> implied" where
  "implied_finish acc =
     (let im = ia_implied acc in
      im\<lparr>im_assumed_pcts := stable_sort f64_total_le (ia_pcts acc),
         im_error_sats := f64_as_i64 (f64_ceil (ia_error acc)),
         im_matched_implied_sats := f64_as_i64 (f64_round_away (ia_matched_volume acc)),
         im_matched_error_sats := f64_as_i64 (f64_ceil (ia_matched_error acc)),
         im_with_fee_volume_sats := then_some (im_with_fee_orders im > 0) (ia_observed acc),
         im_volume_sats :=
           (if im_inverted im = 0 \<and> not_invertible im > 0 then None
            else Some (f64_as_i64 (f64_round_away (ia_volume acc))))\<rparr>)"

definition implied_summarise :: "dev_fee_data \<Rightarrow> window \<Rightarrow> (str \<Rightarrow> f64) \<Rightarrow> implied" where
  "implied_summarise data w dev_fee_pct =
     implied_finish (foldl (implied_step dev_fee_pct) implied_start (canonical data w))"

section \<open>What the figures rest on, in words\<close>

text \<open>\<open>{:.n}\<close> of a \<open>f64\<close>: the nearest decimal of \<open>n\<close> places.\<close>

definition fixed_f64 :: "nat \<Rightarrow> f64 \<Rightarrow> str" where
  "fixed_f64 n x =
     (case x of
        F64_NaN \<Rightarrow> ''NaN''
      | F64_Inf s \<Rightarrow> (if s then ''-inf'' else ''inf'')
      | F64_Fin s m \<Rightarrow>
          let k = nat (round_half_even (m * 10 ^ n)) in
          (if s then ''-'' else []) @ show_nat (k div 10 ^ n) @ ''.'' @ show_pad n (k mod 10 ^ n))"

definition plus_minus :: str where
  "plus_minus = [CHR 0xC2, CHR 0xB1]"

definition times_sign :: str where
  "times_sign = [CHR 0xC3, CHR 0x97]"

definition minus_sign :: str where
  "minus_sign = [CHR 0xE2, CHR 0x88, CHR 0x92]"

definition en_dash :: str where
  "en_dash = [CHR 0xE2, CHR 0x80, CHR 0x93]"

definition fees_text :: "u64 \<Rightarrow> str" where
  "fees_text n = (if n = 1 then ''1 fee'' else show_nat n @ '' fees'')"

definition shares_text :: "f64 list \<Rightarrow> str" where
  "shares_text pcts =
     (if pcts \<noteq> [] \<and> length pcts > SHARES_LISTED
      then fixed_f64 2 (hd pcts) @ en_dash @ fixed_f64 2 (List.last pcts) @ '' across ''
           @ show_nat (length pcts) @ '' instances''
      else join ''/'' (map (fixed_f64 2) pcts))"

definition uninvertible :: "implied \<Rightarrow> str" where
  "uninvertible im =
     join '', ''
       ((if im_no_fee_in_force im > 0 then [fees_text (im_no_fee_in_force im) @ '' with no fee in force''] else [])
        @ (if im_zero_fee im > 0 then [fees_text (im_zero_fee im) @ '' charging a zero fee''] else []))"

definition implied_qualification :: "implied \<Rightarrow> str" where
  "implied_qualification im =
     join ''; ''
       ([if im_inverted im = 0 then ''no fee inverted''
         else plus_minus @ show_int (im_error_sats im) @ '' sats (worst case: '' @ plus_minus
              @ ''1 sat per fee '' @ times_sign @ '' 1/(fee'' @ times_sign @ ''pct))'']
        @ (if im_assumed_pcts im \<noteq> [] then [''pct assumed '' @ shares_text (im_assumed_pcts im)] else [])
        @ (if not_invertible im > 0
           then [(if im_inverted im = 0 then []
                  else ''lower bound: '' @ show_nat (im_inverted im) @ '' of ''
                       @ show_nat (im_inverted im + not_invertible im) @ '' fees inverted; '')
                 @ uninvertible im]
           else []))"

definition comparison :: "implied \<Rightarrow> str" where
  "comparison im =
     (case implied_vs_observed_error im of
        None \<Rightarrow>
          (if im_zero_amount_orders im = 0 \<and> im_with_fee_orders im = 0 then ''no fee names a settled order''
           else if im_zero_amount_orders im = 0 then ''no fee both inverted and naming a settled order''
           else ''nothing to compare against: '' @ fees_text (im_zero_amount_orders im)
                @ '' name a settled order known at amt = 0 (market price, never amended)'')
      | Some e \<Rightarrow>
          join ''; ''
            ([''implied / observed '' @ minus_sign @ '' 1 over the '' @ fees_text (im_matched im)
              @ '' whose order is known and settled; positive means the real dev fee share is above the assumed'',
              plus_minus @ fixed_f64 4 e @ '' from the rounding of those fees'']
             @ (if im_zero_amount_orders im > 0
                then [fees_text (im_zero_amount_orders im) @ '' left out at amt = 0 (market price, never amended)'']
                else [])))"

definition implied_metrics :: "str \<Rightarrow> implied \<Rightarrow> metric list" where
  "implied_metrics pfx im =
     [inferred (pfx @ ''.implied_volume'') (map_or V_Missing V_Sats (im_volume_sats im)) (implied_qualification im),
      observed (pfx @ ''.with_fee_volume'') (map_or V_Missing V_Sats (im_with_fee_volume_sats im)),
      inferred (pfx @ ''.implied_vs_observed'') (map_or V_Missing value_ratio (implied_vs_observed im)) (comparison im)]"

definition dev_fees_block :: "(str \<Rightarrow> f64) \<Rightarrow> str \<Rightarrow> dev_fee_data \<Rightarrow> window \<Rightarrow> metric list" where
  "dev_fees_block dev_fee_pct pfx data w =
     dev_fees_metrics pfx (dev_fees_summarise data w)
     @ implied_metrics pfx (implied_summarise data w dev_fee_pct)"

definition dev_fees_report ::
  "chrono \<Rightarrow> dev_fee_data \<Rightarrow> window \<Rightarrow> dev_fee_dimension option \<Rightarrow> (str \<Rightarrow> f64) \<Rightarrow> coverage \<Rightarrow> metric list option" where
  "dev_fees_report ch data w dm dev_fee_pct cov =
     (let periodic = (\<lambda>p. coverage_walk ch w p cov (\<lambda>key b _.
            dev_fees_block dev_fee_pct (''dev_fees.'' @ key) data b))
      in case dm of
           None \<Rightarrow> Some (dev_fees_block dev_fee_pct ''dev_fees'' data w)
         | Some DF_Month \<Rightarrow> periodic Month_Period
         | Some DF_Day \<Rightarrow> periodic Day
         | Some DF_Instance \<Rightarrow> Some (concat (map (\<lambda>(key, g).
             dev_fees_block dev_fee_pct (''dev_fees.'' @ key) g w) (dev_fees_by_instance data))))"

section \<open>Properties\<close>

lemma wrap_i64_add: "wrap_i64 (wrap_i64 a + b) = wrap_i64 (a + b)"
proof -
  have "(wrap_i64 a + b + 2 ^ 63) mod 2 ^ 64 = ((a + 2 ^ 63) mod 2 ^ 64 + b) mod 2 ^ 64"
    by (simp add: wrap_i64_def algebra_simps)
  also have "\<dots> = (a + 2 ^ 63 + b) mod 2 ^ 64" by (rule mod_add_left_eq)
  finally show ?thesis by (simp add: wrap_i64_def algebra_simps)
qed

lemma i64_sum_wrap: "i64_sum xs = wrap_i64 (sum_list xs)"
proof (induction xs rule: rev_induct)
  case Nil
  then show ?case by (simp add: i64_sum_def wrap_i64_def)
next
  case (snoc x xs)
  then show ?case by (simp add: i64_sum_def i64_add_def wrap_i64_add)
qed

text \<open>What the loop has counted after some fees.\<close>

definition implied_inv :: "(str \<Rightarrow> f64) \<Rightarrow> fee list \<Rightarrow> implied_acc \<Rightarrow> bool" where
  "implied_inv pct xs acc \<longleftrightarrow>
     (let im = ia_implied acc; inv = (\<lambda>x. divisor x (pct (f_pubkey x)) \<noteq> None) in
      im_inverted im = count_where inv xs \<and>
      im_no_fee_in_force im = count_where (\<lambda>x. f_fee_in_force x = None) xs \<and>
      im_zero_fee im = count_where (\<lambda>x. \<not> inv x \<and> f_fee_in_force x \<noteq> None) xs \<and>
      im_with_fee_orders im = count_where (\<lambda>x. f_settled_amount_sats x \<noteq> None) xs \<and>
      ia_observed acc = i64_sum (filter_map f_settled_amount_sats xs) \<and>
      im_matched im = count_where (\<lambda>x. inv x \<and> is_some_and (f_settled_amount_sats x) (\<lambda>a. 0 < a)) xs \<and>
      im_zero_amount_orders im = count_where (\<lambda>x. inv x \<and> is_some_and (f_settled_amount_sats x) (\<lambda>a. a \<le> 0)) xs)"

lemma implied_inv_step:
  assumes "implied_inv pct xs acc"
  shows "implied_inv pct (xs @ [x]) (implied_step pct acc x)"
proof -
  have no: "f_fee_in_force x = None \<Longrightarrow> divisor x p = None" for p by (simp add: divisor_def)
  show ?thesis
  proof (cases "divisor x (pct (f_pubkey x))")
    case None
    with assms show ?thesis
      by (cases "f_fee_in_force x"; cases "f_settled_amount_sats x")
        (simp_all add: implied_inv_def Let_def implied_step_def implied_observe_def i64_sum_def)
  next
    case (Some d)
    with no have "f_fee_in_force x \<noteq> None" by force
    with Some assms show ?thesis
      by (cases "f_settled_amount_sats x")
        (simp_all add: implied_inv_def Let_def implied_step_def implied_observe_def implied_invert_def i64_sum_def)
  qed
qed

lemma implied_inv_fold: "implied_inv pct xs (foldl (implied_step pct) implied_start xs)"
proof (induction xs rule: rev_induct)
  case Nil
  then show ?case by (simp add: implied_inv_def implied_start_def i64_sum_def)
next
  case (snoc x xs)
  then show ?case by (simp add: implied_inv_step)
qed

lemma dev_fees_sels:
  "dv_paid (dev_fees_summarise data w) = length (canonical data w)"
  "dv_total_sats (dev_fees_summarise data w) = i64_sum (map f_amount_sats (canonical data w))"
  "dv_orphans (dev_fees_summarise data w) = count_where (\<lambda>x. \<not> f_order_known x) (canonical data w)"
  by (simp_all add: dev_fees_summarise_def Let_def)

text \<open>
  C40. The implied volume accounts for every fee that counts: each is inverted or
  stuck for one stated reason, so the three counts sum to the fees paid; the
  figure is missing exactly when fees were paid and none could be inverted; the
  observed side exists exactly when some fee names a settled order and is the
  (wrapping) sum of those orders; and the fees compared are among the inverted ones.
\<close>

theorem implied_accounts_for_every_fee:
  "let im = implied_summarise data w pct; fees = canonical data w in
   im_inverted im + im_no_fee_in_force im + im_zero_fee im = dv_paid (dev_fees_summarise data w) \<and>
   (im_volume_sats im = None \<longleftrightarrow> im_inverted im = 0 \<and> fees \<noteq> []) \<and>
   im_with_fee_volume_sats im =
     (if list_ex (\<lambda>x. f_settled_amount_sats x \<noteq> None) fees
      then Some (wrap_i64 (sum_list (filter_map f_settled_amount_sats fees))) else None) \<and>
   im_matched im + im_zero_amount_orders im \<le> im_inverted im \<and>
   im_matched im + im_zero_amount_orders im \<le> im_with_fee_orders im"
proof -
  let ?xs = "canonical data w" and ?acc = "foldl (implied_step pct) implied_start (canonical data w)"
  let ?inv = "\<lambda>x. divisor x (pct (f_pubkey x)) \<noteq> None"
  let ?im = "implied_summarise data w pct"
  have no: "f_fee_in_force x = None \<Longrightarrow> \<not> ?inv x" for x by (simp add: divisor_def)
  have inv: "implied_inv pct ?xs ?acc" by (rule implied_inv_fold)
  have keep: "im_inverted ?im = count_where ?inv ?xs"
    "im_no_fee_in_force ?im = count_where (\<lambda>x. f_fee_in_force x = None) ?xs"
    "im_zero_fee ?im = count_where (\<lambda>x. \<not> ?inv x \<and> f_fee_in_force x \<noteq> None) ?xs"
    "im_with_fee_orders ?im = count_where (\<lambda>x. f_settled_amount_sats x \<noteq> None) ?xs"
    "im_matched ?im = count_where (\<lambda>x. ?inv x \<and> is_some_and (f_settled_amount_sats x) (\<lambda>a. 0 < a)) ?xs"
    "im_zero_amount_orders ?im = count_where (\<lambda>x. ?inv x \<and> is_some_and (f_settled_amount_sats x) (\<lambda>a. a \<le> 0)) ?xs"
    using inv by (simp_all add: implied_summarise_def implied_finish_def implied_inv_def Let_def)
  have stuck: "count_where (\<lambda>x. f_fee_in_force x = None) xs + count_where (\<lambda>x. \<not> ?inv x \<and> f_fee_in_force x \<noteq> None) xs
      = count_where (\<lambda>x. \<not> ?inv x) xs" for xs
    using no by (induction xs) auto
  have all: "count_where ?inv xs + count_where (\<lambda>x. \<not> ?inv x) xs = length xs" for xs
    by (rule sum_length_filter_compl)
  have total: "im_inverted ?im + im_no_fee_in_force ?im + im_zero_fee ?im = length ?xs"
    using stuck [of ?xs] all [of ?xs] unfolding keep by simp
  have cmp: "im_matched ?im + im_zero_amount_orders ?im =
      count_where (\<lambda>x. ?inv x \<and> f_settled_amount_sats x \<noteq> None) ?xs"
    unfolding keep by (subst count_where_disj [symmetric])
      (auto simp: is_some_and_def intro!: arg_cong [where f = length] filter_cong split: option.splits)
  have le: "im_matched ?im + im_zero_amount_orders ?im \<le> im_inverted ?im"
    "im_matched ?im + im_zero_amount_orders ?im \<le> im_with_fee_orders ?im"
    unfolding cmp unfolding keep by (rule count_where_mono, blast)+
  have "im_volume_sats ?im = None \<longleftrightarrow> im_inverted ?im = 0 \<and> im_no_fee_in_force ?im + im_zero_fee ?im > 0"
    by (simp add: implied_summarise_def implied_finish_def Let_def not_invertible_def)
  then have vol: "im_volume_sats ?im = None \<longleftrightarrow> im_inverted ?im = 0 \<and> ?xs \<noteq> []"
    using total by (cases "?xs") auto
  have "im_with_fee_volume_sats ?im = then_some (im_with_fee_orders ?im > 0) (i64_sum (filter_map f_settled_amount_sats ?xs))"
    using inv by (simp add: implied_summarise_def implied_finish_def implied_inv_def Let_def)
  then have obs: "im_with_fee_volume_sats ?im =
     (if list_ex (\<lambda>x. f_settled_amount_sats x \<noteq> None) ?xs
      then Some (wrap_i64 (sum_list (filter_map f_settled_amount_sats ?xs))) else None)"
    unfolding keep(4) i64_sum_wrap list_ex_iff count_where_pos then_some_def .
  show ?thesis
    unfolding Let_def dev_fees_sels using total vol obs le by blast
qed

text \<open>
  Split by instance, the fees paid and the orphans of a window sum to those of
  the whole archive, and the totals in sats do too, as \<open>i64\<close> adds them.
\<close>

theorem dev_fees_by_instance_partitions:
  "bt_ok (dev_fees_by_instance data) \<and>
   sum_list (map (\<lambda>(k, g). dv_paid (dev_fees_summarise g w)) (dev_fees_by_instance data)) =
     dv_paid (dev_fees_summarise data w) \<and>
   sum_list (map (\<lambda>(k, g). dv_orphans (dev_fees_summarise g w)) (dev_fees_by_instance data)) =
     dv_orphans (dev_fees_summarise data w) \<and>
   i64_sum (map (\<lambda>(k, g). dv_total_sats (dev_fees_summarise g w)) (dev_fees_by_instance data)) =
     dv_total_sats (dev_fees_summarise data w)"
proof -
  let ?C = "\<lambda>x. \<not> f_is_duplicate x \<and> window_contains w (f_created_at x)"
  have part: "sum_list (map (\<lambda>(k, g). sum_list (map v (canonical g w))) (dev_fees_by_instance data)) =
      sum_list (map v (canonical data w))" for v :: "fee \<Rightarrow> 'b::comm_monoid_add"
  proof -
    let ?W = "\<lambda>g. sum_list (map v (canonical g w))" and ?w = "\<lambda>x. if ?C x then v x else 0"
    have "sum_list (map (\<lambda>(k, g). ?W g) (foldl (\<lambda>m x. bt_upd (f_instance x) (push_fee x) m) [] (df_fees data)))
        = sum_list (map ?w (df_fees data))"
      by (subst sum_foldl_upd [where w = ?w]) (simp_all add: push_fee_def canonical_def)
    moreover have "sum_list (map (\<lambda>(k, g). ?W g) (foldl (\<lambda>m s. bt_upd (st_instance s) (push_settlement s) m) m ts)) =
        sum_list (map (\<lambda>(k, g). ?W g) m)" for m ts
      by (subst sum_foldl_upd [where w = "\<lambda>_. 0"]) (simp_all add: push_settlement_def canonical_def)
    moreover have "sum_list (map ?w xs) = sum_list (map v (filter ?C xs))" for xs
      by (induction xs) simp_all
    ultimately show ?thesis by (simp add: dev_fees_by_instance_def canonical_def)
  qed
  have count: "count_where P xs = sum_list (map (\<lambda>x. if P x then 1 else 0) xs)" for P and xs :: "fee list"
    by (induction xs) simp_all
  have wraps: "wrap_i64 (sum_list (map (\<lambda>x. wrap_i64 (h x)) xs)) = wrap_i64 (sum_list (map h xs))"
    for h :: "'c \<Rightarrow> int" and xs
  proof (induction xs)
    case (Cons x xs)
    have "wrap_i64 (wrap_i64 (h x) + sum_list (map (\<lambda>x. wrap_i64 (h x)) xs)) =
        wrap_i64 (sum_list (map (\<lambda>x. wrap_i64 (h x)) xs) + h x)"
      by (metis add.commute wrap_i64_add)
    also have "\<dots> = wrap_i64 (sum_list (map h xs) + h x)" by (metis Cons.IH wrap_i64_add)
    finally show ?case by (simp add: add.commute)
  qed simp
  have "bt_ok (dev_fees_by_instance data)" by (simp add: dev_fees_by_instance_def bt_ok_foldl_upd)
  moreover have "sum_list (map (\<lambda>(k, g). dv_paid (dev_fees_summarise g w)) (dev_fees_by_instance data)) =
     dv_paid (dev_fees_summarise data w)"
    using part [of "\<lambda>_. 1::nat"] unfolding dev_fees_sels sum_list_map_const_one .
  moreover have "sum_list (map (\<lambda>(k, g). dv_orphans (dev_fees_summarise g w)) (dev_fees_by_instance data)) =
     dv_orphans (dev_fees_summarise data w)"
    unfolding dev_fees_sels count by (rule part)
  moreover have "i64_sum (map (\<lambda>(k, g). dv_total_sats (dev_fees_summarise g w)) (dev_fees_by_instance data)) =
     dv_total_sats (dev_fees_summarise data w)"
    using wraps [of "\<lambda>(k, g). sum_list (map f_amount_sats (canonical g w))" "dev_fees_by_instance data"]
      part [of f_amount_sats]
    unfolding dev_fees_sels i64_sum_wrap split_beta by simp
  ultimately show ?thesis by blast
qed

end
