(* ===== verification/Document.thy ===== *)
theory Document
  imports Coverage
begin

text \<open>
  What a published document is made of (\<open>crates/stats/src/publish/document.rs\<close>,
  with \<open>Document\<close> and \<open>Snapshot\<close> of \<open>publish/snapshot.rs\<close>): the run, the tags of an
  event, the \<open>alt\<close> sentence and the envelope around the figures. A payload is a
  type variable: the envelope only carries it. The two constructors of an envelope
  keep the revision and the restatement in step, which is \<open>envelope_ok\<close>.
\<close>

section \<open>The run and the tags\<close>

definition KIND :: nat where
  "KIND = 30666"

definition SCHEMA_VERSION :: nat where
  "SCHEMA_VERSION = 1"

definition TOPIC :: str where
  "TOPIC = ''bestiario''"

record run =
  snapshot_id :: str
  generated_at :: i64

record tag =
  tag_name :: str
  tag_values :: "str list"

definition tag_single :: "str \<Rightarrow> str \<Rightarrow> tag" where
  "tag_single n v = \<lparr>tag_name = n, tag_values = [v]\<rparr>"

definition tag_value :: "tag \<Rightarrow> str" where
  "tag_value t = (case tag_values t of [] \<Rightarrow> [] | v # _ \<Rightarrow> v)"

definition rfc3339 :: "chrono \<Rightarrow> i64 \<Rightarrow> str" where
  "rfc3339 ch t = (case from_timestamp ch t of None \<Rightarrow> show_int t | Some d \<Rightarrow> dt_to_rfc3339 ch d)"

definition parse_rfc3339 :: "chrono \<Rightarrow> str \<Rightarrow> i64 option" where
  "parse_rfc3339 ch t = parse_from_rfc3339 ch t"

fun describe :: "report \<Rightarrow> str" where
  "describe Report_Summary = ''network summary''"
| "describe Report_Orders = ''orders''"
| "describe Report_Volume = ''volume''"
| "describe Report_Market = ''market structure''"
| "describe Report_Disputes = ''disputes''"
| "describe Report_DevFees = ''dev fees''"
| "describe Report_Instances = ''instances''"
| "describe Report_Compare = ''instance comparison''"

fun span_text :: "span \<Rightarrow> str" where
  "span_text Hours24 = ''24 hours''"
| "span_text Days7 = ''7 days''"
| "span_text Days30 = ''30 days''"
| "span_text Days90 = ''90 days''"
| "span_text Span_All = ''whole archive''"

fun spanned :: "bucket \<Rightarrow> str" where
  "spanned (Bucket_Month y m) = ''month '' @ bucket_display (Bucket_Month y m)"
| "spanned (Bucket_Year y) = ''year '' @ bucket_display (Bucket_Year y)"

fun scoped_text :: "scope option \<Rightarrow> str" where
  "scoped_text None = []"
| "scoped_text (Some (Scope_Instance p)) = '' for instance '' @ p"
| "scoped_text (Some (Scope_Network n)) = '' on '' @ n"

fun alt :: "address \<Rightarrow> str" where
  "alt (Addr_Index None) = ''bestiario index: the documents of the current snapshot''"
| "alt (Addr_Index (Some y)) =
     ''bestiario index for '' @ year_display y @ '': the documents of that year''"
| "alt (Addr_Window rep win sc) =
     ''bestiario '' @ describe rep @ '' report over the last '' @ span_text win @ scoped_text sc"
| "alt (Addr_Series rep part sc) =
     ''bestiario '' @ describe rep @ '' series, '' @ resolution_as_str (part_resolution part)
     @ '' buckets, '' @ spanned (part_bucket part) @ scoped_text sc"

definition tags :: "chrono \<Rightarrow> address \<Rightarrow> run \<Rightarrow> nat \<Rightarrow> tag list" where
  "tags ch a r revision =
     [tag_single ''d'' (address_display a), tag_single ''s'' (snapshot_id r),
      tag_single ''t'' TOPIC, tag_single ''alt'' (alt a)]
     @ (case a of
          Addr_Series _ part _ \<Rightarrow>
            (let w = partition_window ch part in
             [tag_single ''resolution'' (resolution_as_str (part_resolution part)),
              \<lparr>tag_name = ''period'', tag_values = [rfc3339 ch (w_from w), rfc3339 ch (w_until w)]\<rparr>])
        | _ \<Rightarrow> [])
     @ [tag_single ''revision'' (show_nat revision),
        tag_single ''schema_version'' (show_nat SCHEMA_VERSION)]"

section \<open>The envelope\<close>

record restatement =
  restated_on :: i64
  because_text :: str

record 'p envelope =
  env_schema_version :: nat
  env_snapshot_id :: str
  env_generated_at :: str
  env_revision :: nat
  env_restated_at :: "str option"
  env_restated_because :: "str option"
  env_payload :: 'p

definition envelope_first :: "chrono \<Rightarrow> run \<Rightarrow> 'p \<Rightarrow> 'p envelope" where
  "envelope_first ch r payload =
     \<lparr>env_schema_version = SCHEMA_VERSION, env_snapshot_id = snapshot_id r,
      env_generated_at = rfc3339 ch (generated_at r), env_revision = 1,
      env_restated_at = None, env_restated_because = None, env_payload = payload\<rparr>"

definition envelope_restated ::
  "chrono \<Rightarrow> run \<Rightarrow> nat \<Rightarrow> restatement \<Rightarrow> 'p \<Rightarrow> 'p envelope option" where
  "envelope_restated ch r revision rs payload =
     then_some (revision > 1)
       ((envelope_first ch r payload)
          \<lparr>env_revision := revision,
           env_restated_at := Some (rfc3339 ch (restated_on rs)),
           env_restated_because := Some (because_text rs)\<rparr>)"

definition envelope_restatement :: "chrono \<Rightarrow> 'p envelope \<Rightarrow> restatement option" where
  "envelope_restatement ch e =
     Option.bind (Option.bind (env_restated_at e) (parse_rfc3339 ch)) (\<lambda>t.
     Option.bind (env_restated_because e) (\<lambda>b.
     Some \<lparr>restated_on = t, because_text = b\<rparr>))"

section \<open>Documents and snapshots\<close>

record 'p document =
  doc_address :: address
  doc_envelope :: "'p envelope"
  doc_hash :: str
  doc_updated_at :: i64
  doc_period :: "window option"

record 'p pub_snapshot =
  snap_run :: run
  snap_coverage :: coverage
  snap_documents :: "'p document list"

abbreviation doc_d :: "'p document \<Rightarrow> str" where
  "doc_d d \<equiv> address_display (doc_address d)"

section \<open>The two states of an envelope\<close>

definition envelope_ok :: "'p envelope \<Rightarrow> bool" where
  "envelope_ok e \<longleftrightarrow>
     env_revision e = 1 \<and> env_restated_at e = None \<and> env_restated_because e = None \<or>
     env_revision e > 1 \<and> env_restated_at e \<noteq> None \<and> env_restated_because e \<noteq> None"

text \<open>The instants whose RFC 3339 text is read back: the years of four digits.\<close>

definition legible :: "chrono \<Rightarrow> i64 \<Rightarrow> bool" where
  "legible ch t \<longleftrightarrow> dt_valid ch t \<and> 0 \<le> dt_year ch t \<and> dt_year ch t \<le> 9999"

lemma envelope_first_simps [simp]:
  "env_schema_version (envelope_first ch r p) = SCHEMA_VERSION"
  "env_snapshot_id (envelope_first ch r p) = snapshot_id r"
  "env_revision (envelope_first ch r p) = 1"
  "env_restated_at (envelope_first ch r p) = None"
  "env_restated_because (envelope_first ch r p) = None"
  "env_payload (envelope_first ch r p) = p"
  by (simp_all add: envelope_first_def)

lemma envelope_restated_eq_Some:
  "envelope_restated ch r n rs p = Some e \<longleftrightarrow> n > 1 \<and>
     e = (envelope_first ch r p)
          \<lparr>env_revision := n, env_restated_at := Some (rfc3339 ch (restated_on rs)),
           env_restated_because := Some (because_text rs)\<rparr>"
  by (auto simp: envelope_restated_def)

lemma envelope_first_ok [simp]: "envelope_ok (envelope_first ch r p)"
  by (simp add: envelope_ok_def)

lemma envelope_restated_ok: "envelope_restated ch r n rs p = Some e \<Longrightarrow> envelope_ok e"
  by (auto simp: envelope_restated_eq_Some envelope_ok_def)

lemma envelope_first_restatement [simp]: "envelope_restatement ch (envelope_first ch r p) = None"
  by (simp add: envelope_restatement_def)

context chrono_laws
begin

lemma parse_rfc3339_rfc3339: "legible ch t \<Longrightarrow> parse_rfc3339 ch (rfc3339 ch t) = Some t"
  by (simp add: parse_rfc3339_def rfc3339_def legible_def timestamp rfc3339)

lemma restated_restatement:
  assumes "envelope_restated ch r n rs p = Some e" and "legible ch (restated_on rs)"
  shows "envelope_restatement ch e = Some rs"
  using assms by (auto simp: envelope_restated_eq_Some envelope_restatement_def parse_rfc3339_rfc3339)

lemma bucket_window_legible:
  assumes "bucket_ok b" and "year_get (case b of Bucket_Month y _ \<Rightarrow> y | Bucket_Year y \<Rightarrow> y) < 9999"
  shows "legible ch (w_from (bucket_window ch b)) \<and> legible ch (w_until (bucket_window ch b))"
proof -
  have first: "legible ch (first_instant ch y m)" if "0 \<le> y" "y \<le> 9999" "1 \<le> m" "m \<le> 12" for y m
  proof -
    have "\<exists>s. with_ymd ch y m 1 = Some s" using that by (intro ymd_exists) auto
    then obtain s where s: "with_ymd ch y m 1 = Some s" by blast
    then show ?thesis using ymd_first [OF s] that by (simp add: first_instant_def legible_def)
  qed
  show ?thesis
    using assms
    by (cases b) (auto simp: year_ok_def year_new_def month_ok_def month_new_def intro!: first)
qed

end

section \<open>What the tags say\<close>

lemma tags_names:
  "map tag_name (tags ch a r n) =
     [''d'', ''s'', ''t'', ''alt''] @ (case a of Addr_Series _ _ _ \<Rightarrow> [''resolution'', ''period''] | _ \<Rightarrow> [])
     @ [''revision'', ''schema_version'']"
  by (cases a) (simp_all add: tags_def tag_single_def Let_def)

definition tag_of :: "str \<Rightarrow> tag list \<Rightarrow> tag option" where
  "tag_of n ts = List.find (\<lambda>t. tag_name t = n) ts"

fun bucket_year :: "bucket \<Rightarrow> int" where
  "bucket_year (Bucket_Month y m) = year_get y"
| "bucket_year (Bucket_Year y) = year_get y"

lemmas tag_lookup = tags_def tag_of_def tag_single_def tag_value_def Let_def

text \<open>
  The tags of a series document name it completely: the \<open>d\<close> tag parses to
  the address, the \<open>resolution\<close> tag to its resolution, the two values of the
  \<open>period\<close> tag read back as the bounds of the month or year it covers, and the
  \<open>revision\<close> tag as the revision. Year 9999 is set aside because its upper bound has a
  five digit year.
\<close>

theorem series_tags_read_back:
  assumes "chrono_laws ch" and "address_ok (Addr_Series rep part sc)"
    and "bucket_year (part_bucket part) < 9999"
  shows "\<exists>d res per rev. let ts = tags ch (Addr_Series rep part sc) r n in
    tag_of ''d'' ts = Some d \<and> address_parse (tag_value d) = Inr (Addr_Series rep part sc) \<and>
    tag_of ''resolution'' ts = Some res \<and> resolution_parse (tag_value res) = Some (part_resolution part) \<and>
    tag_of ''period'' ts = Some per \<and> map (parse_rfc3339 ch) (tag_values per) =
      [Some (w_from (partition_window ch part)), Some (w_until (partition_window ch part))] \<and>
    tag_of ''revision'' ts = Some rev \<and> parse_digits (tag_value rev) = n"
proof -
  have year: "bucket_year b = year_get (case b of Bucket_Month y _ \<Rightarrow> y | Bucket_Year y \<Rightarrow> y)" for b
    by (cases b) simp_all
  have "legible ch (w_from (partition_window ch part)) \<and> legible ch (w_until (partition_window ch part))"
    using assms chrono_laws.bucket_window_legible [OF assms(1), of "part_bucket part"]
    by (simp add: partition_window_def partition_ok_def year)
  then show ?thesis
    using address_parse_display [OF assms(2)] chrono_laws.parse_rfc3339_rfc3339 [OF assms(1)]
    by (simp add: tag_lookup resolution_parse_def resolution_wire.parse_as_str)
qed

theorem series_tags_read_back_witness:
  "\<exists>d res per rev. let part = Partition Daily (Bucket_Month (Year 2026) (Month 2));
     ts = tags gregorian (Addr_Series Report_Orders part None) \<lparr>snapshot_id = ''x'', generated_at = 0\<rparr> 3 in
    tag_of ''d'' ts = Some d \<and> address_parse (tag_value d) = Inr (Addr_Series Report_Orders part None) \<and>
    tag_of ''resolution'' ts = Some res \<and> resolution_parse (tag_value res) = Some (part_resolution part) \<and>
    tag_of ''period'' ts = Some per \<and> map (parse_rfc3339 gregorian) (tag_values per) =
      [Some (w_from (partition_window gregorian part)), Some (w_until (partition_window gregorian part))] \<and>
    tag_of ''revision'' ts = Some rev \<and> parse_digits (tag_value rev) = 3"
  unfolding Let_def
  by (rule series_tags_read_back [unfolded Let_def, OF greg.chrono_laws_axioms])
    (simp_all add: partition_ok_def partition_new_def year_ok_def year_new_def month_ok_def month_new_def)

end
