(* ===== verification/Views.thy ===== *)
theory Views
  imports Market DevFees Document
begin

text \<open>
  The views assembled from the families: the bestiary and one instance's profile
  (\<open>crates/stats/src/instances.rs\<close>), the network summary (\<open>summary.rs\<close>), the
  comparison of instances (\<open>compare.rs\<close>) and the lifecycle of one order
  (\<open>lifecycle.rs\<close>). Their private \<open>rfc3339\<close> functions are the one of
  \<open>publish/document.rs\<close> to the letter and share its definition.
\<close>

section \<open>Instances\<close>

definition SILENT_AFTER_SECS :: i64 where
  "SILENT_AFTER_SECS = 7 * 86400"

record profile =
  pf_pubkey :: str
  pf_name :: "str option"
  pf_label :: str
  pf_mostro_version :: "str option"
  pf_protocol_version :: "str option"
  pf_fee :: "f64 option"
  pf_min_order_sats :: "i64 option"
  pf_max_order_sats :: "i64 option"
  pf_fiat_currencies :: "str list"
  pf_ln_networks :: "str list"
  pf_bond_enabled :: "bool option"
  pf_first_seen_at :: i64
  pf_last_seen_at :: i64

definition silent_for :: "profile \<Rightarrow> i64 \<Rightarrow> i64" where
  "silent_for p now = i64_sub now (pf_last_seen_at p)"

definition is_silent :: "profile \<Rightarrow> i64 \<Rightarrow> bool" where
  "is_silent p now \<longleftrightarrow> silent_for p now > SILENT_AFTER_SECS"

definition profile_metrics :: "chrono \<Rightarrow> str \<Rightarrow> profile \<Rightarrow> i64 \<Rightarrow> metric list" where
  "profile_metrics ch pfx p now =
     (let obs = (\<lambda>name v. observed (pfx @ ''.'' @ name) v);
          txt_m = (\<lambda>name v. obs name (map_or V_Missing V_Text v));
          list_m = (\<lambda>name vs. txt_m name (then_some (vs \<noteq> []) (join '','' vs)));
          sats_m = (\<lambda>name v. obs name (map_or V_Missing V_Sats v))
      in [obs ''pubkey'' (V_Text (pf_pubkey p)),
          txt_m ''name'' (pf_name p),
          txt_m ''mostro_version'' (pf_mostro_version p),
          txt_m ''protocol_version'' (pf_protocol_version p),
          obs ''fee'' (map_or V_Missing value_ratio (pf_fee p)),
          sats_m ''min_order'' (pf_min_order_sats p),
          sats_m ''max_order'' (pf_max_order_sats p),
          list_m ''fiat'' (pf_fiat_currencies p),
          list_m ''ln_networks'' (pf_ln_networks p),
          txt_m ''bond'' (map_option (\<lambda>enabled. if enabled then ''enabled'' else ''disabled'') (pf_bond_enabled p)),
          obs ''first_seen'' (V_Text (rfc3339 ch (pf_first_seen_at p))),
          obs ''last_seen'' (V_Text (rfc3339 ch (pf_last_seen_at p))),
          obs ''silent_for'' (V_Seconds (silent_for p now)),
          txt_m ''silent'' (Some (if is_silent p now then ''yes'' else ''no''))])"

definition instance_created :: "order list \<Rightarrow> window \<Rightarrow> profile \<Rightarrow> nat" where
  "instance_created orders w p =
     count_where (\<lambda>ord. window_contains w (o_created_at ord)) (filter (\<lambda>ord. o_pubkey ord = pf_pubkey p) orders)"

definition instances_list :: "chrono \<Rightarrow> profile list \<Rightarrow> order list \<Rightarrow> window \<Rightarrow> i64 \<Rightarrow> metric list" where
  "instances_list ch profiles orders w now =
     concat (map (\<lambda>p.
       let pfx = ''instances.'' @ pf_label p in
       profile_metrics ch pfx p now
       @ [observed (pfx @ ''.created'') (V_Count (u64_as_i64 (instance_created orders w p)))]) profiles)"

definition share_value :: "f64 \<Rightarrow> f64 \<Rightarrow> val" where
  "share_value part whole =
     (if f64_lt (F64_Fin False 0) whole then value_ratio (f64_div part whole) else V_Missing)"

definition instance_profile ::
  "chrono \<Rightarrow> profile \<Rightarrow> order list \<Rightarrow> order list \<Rightarrow> dev_fee_data \<Rightarrow> dispute_data option \<Rightarrow> window \<Rightarrow> i64 \<Rightarrow> metric list" where
  "instance_profile ch p own network fees dsp w now =
     (let act = activity_summarise own w now;
          net = activity_summarise network w now
      in profile_metrics ch ''instance'' p now
         @ activity_metrics ''orders'' act
         @ [observed ''volume.sats'' (map_or V_Missing V_Sats (observed_sats own w))]
         @ dev_fees_metrics ''dev_fees'' (dev_fees_summarise fees w)
         @ (case dsp of
              Some d \<Rightarrow> disputes_metrics ''disputes'' (disputes_summarise d w now)
            | None \<Rightarrow> disputes_unavailable ''disputes'')
         @ [observed ''share.orders'' (share_value (f64_of_nat (a_created act)) (f64_of_nat (a_created net))),
            observed ''share.volume''
              (case opt_zip (observed_sats own w) (observed_sats network w) of
                 Some (own_sats, net_sats) \<Rightarrow> share_value (f64_of_int own_sats) (f64_of_int net_sats)
               | None \<Rightarrow> V_Missing)])"

section \<open>The network summary\<close>

definition TOP_N :: nat where
  "TOP_N = 3"

definition count_le :: "str \<times> nat \<Rightarrow> str \<times> nat \<Rightarrow> bool" where
  "count_le a b \<longleftrightarrow> snd b < snd a \<or> snd a = snd b \<and> fst a \<le> fst b"

definition summary_counts :: "str list \<Rightarrow> (str, nat) btree" where
  "summary_counts keys = foldl (\<lambda>m key. bt_upd key (\<lambda>old. map_or 0 (\<lambda>x. x) old + 1) m) [] keys"

definition summary_ranking :: "str list \<Rightarrow> val" where
  "summary_ranking keys =
     (let counts = summary_counts keys in
      if counts = [] then V_Missing
      else V_Text (join '', '' (map (\<lambda>(key, n). key @ '' ('' @ show_nat n @ '')'')
        (take TOP_N (stable_sort count_le counts)))))"

definition summary_report :: "order list \<Rightarrow> dispute_data option \<Rightarrow> window \<Rightarrow> i64 \<Rightarrow> metric list" where
  "summary_report orders dsp w now =
     (let act = activity_summarise orders w now;
          open_disputes = map_option (\<lambda>d. length (ds_open (disputes_summarise d w now))) dsp;
          created = filter (\<lambda>ord. window_contains w (o_created_at ord)) orders;
          active_instances = length (bt_set_of (map o_pubkey created));
          obs = (\<lambda>name v. observed (''summary.'' @ name) v)
      in [obs ''created'' (V_Count (u64_as_i64 (a_created act))),
          obs ''completed'' (V_Count (u64_as_i64 (a_completed act))),
          obs ''completion_rate'' (map_or V_Missing value_ratio (a_completion_rate act)),
          obs ''volume_sats'' (map_or V_Missing V_Sats (observed_sats orders w)),
          obs ''active_instances'' (V_Count (u64_as_i64 active_instances)),
          obs ''top_fiat'' (summary_ranking (map o_fiat_code created)),
          obs ''top_methods'' (summary_ranking (concat (map o_payment_methods created))),
          obs ''open_disputes'' (map_or V_Missing (\<lambda>n. V_Count (u64_as_i64 n)) open_disputes)])"

section \<open>The comparison\<close>

definition COLUMNS :: "str list" where
  "COLUMNS = [''completed'', ''volume_sats'', ''completion_rate'', ''fee'', ''dev_fees_sats'', ''dispute_rate'', ''version'']"

definition compare_report ::
  "profile list \<Rightarrow> order list \<Rightarrow> dev_fee_data \<Rightarrow> dispute_data option \<Rightarrow> window \<Rightarrow> i64 \<Rightarrow> metric list" where
  "compare_report profiles orders fees dsp w now =
     (let fees_by_instance = dev_fees_by_instance fees;
          dsp_by_instance = map_option disputes_by_instance dsp
      in concat (map (\<lambda>p.
           let own = filter (\<lambda>ord. o_instance ord = pf_label p) orders;
               act = activity_summarise own w now;
               sent = map_or 0 (\<lambda>f. dv_total_sats (dev_fees_summarise f w)) (bt_get fees_by_instance (pf_label p));
               dispute_rate = Option.bind (Option.bind dsp_by_instance (\<lambda>m. bt_get m (pf_label p)))
                 (\<lambda>d. ds_rate (disputes_summarise d w now));
               obs = (\<lambda>name v. observed (''compare.'' @ pf_label p @ ''.'' @ name) v)
           in [obs ''completed'' (V_Count (u64_as_i64 (a_completed act))),
               obs ''volume_sats'' (map_or V_Missing V_Sats (observed_sats own w)),
               obs ''completion_rate'' (map_or V_Missing value_ratio (a_completion_rate act)),
               obs ''fee'' (map_or V_Missing value_ratio (pf_fee p)),
               obs ''dev_fees_sats'' (V_Sats sent),
               obs ''dispute_rate'' (map_or V_Missing value_ratio dispute_rate),
               obs ''version'' (map_or V_Missing V_Text (pf_mostro_version p))]) profiles))"

section \<open>One order's lifecycle\<close>

datatype version_fiat = Fiat_Fixed f64 | Fiat_Range f64 f64

record version =
  vs_at :: i64
  vs_status :: status
  vs_direction :: direction
  vs_fiat_code :: str
  vs_amount_sats :: i64
  vs_fiat :: version_fiat
  vs_premium :: f64
  vs_expires_at :: i64

record fee_seen =
  fs_at :: i64
  fs_amount_sats :: i64
  fs_is_duplicate :: bool

fun version_fiat_value :: "str \<Rightarrow> version_fiat \<Rightarrow> val" where
  "version_fiat_value code (Fiat_Fixed amount) = value_fiat amount code"
| "version_fiat_value code (Fiat_Range mn mx) =
     V_Text (fixed_f64 2 mn @ en_dash @ fixed_f64 2 mx @ '' '' @ code)"

definition lifecycle_report :: "chrono \<Rightarrow> str \<Rightarrow> version list \<Rightarrow> fee_seen list \<Rightarrow> metric list" where
  "lifecycle_report ch order_id versions fees =
     [observed ''order.id'' (V_Text order_id),
      observed ''order.versions'' (V_Count (u64_as_i64 (length versions)))]
     @ concat (map (\<lambda>(i, v).
         let obs = (\<lambda>name x. observed (''order.'' @ show_nat (i + 1) @ ''.'' @ name) x) in
         [obs ''at'' (V_Text (rfc3339 ch (vs_at v))),
          obs ''status'' (V_Text (status_as_str (vs_status v))),
          obs ''kind'' (V_Text (direction_as_str (vs_direction v))),
          obs ''amount'' (V_Sats (vs_amount_sats v)),
          obs ''fiat'' (version_fiat_value (vs_fiat_code v) (vs_fiat v)),
          obs ''premium'' (value_ratio (f64_div (vs_premium v) (F64_Fin False 100))),
          obs ''expires_at'' (V_Text (rfc3339 ch (vs_expires_at v)))]) (enumerate 0 versions))
     @ concat (map (\<lambda>(i, x).
         let obs = (\<lambda>name y. observed (''dev_fee.'' @ show_nat (i + 1) @ ''.'' @ name) y) in
         [obs ''at'' (V_Text (rfc3339 ch (fs_at x))),
          obs ''amount'' (V_Sats (fs_amount_sats x)),
          obs ''duplicate'' (V_Text (if fs_is_duplicate x then ''yes'' else ''no''))]) (enumerate 0 fees))"

section \<open>Properties\<close>

lemma count_by_owner:
  assumes "distinct (map key ps)"
  shows "sum_list (map (\<lambda>p. count_where Q (filter (\<lambda>x. owner x = key p) xs)) ps) =
    count_where (\<lambda>x. Q x \<and> owner x \<in> key ` set ps) xs"
  using assms
proof (induction ps)
  case (Cons p ps)
  have "count_where (\<lambda>x. Q x \<and> owner x \<in> key ` set (p # ps)) xs =
      count_where (\<lambda>x. (Q x \<and> owner x = key p) \<or> (Q x \<and> owner x \<in> key ` set ps)) xs"
    by (intro arg_cong [where f = length] filter_cong) auto
  also have "\<dots> = count_where (\<lambda>x. Q x \<and> owner x = key p) xs + count_where (\<lambda>x. Q x \<and> owner x \<in> key ` set ps) xs"
    using Cons.prems by (intro count_where_disj) auto
  finally show ?case using Cons by (simp add: conj_commute)
qed simp

text \<open>
  The bestiary counts each order under its own instance: with one profile per
  pubkey, the created counts of the listed instances sum to the orders created in the
  window by a listed pubkey, so to all of them when every pubkey is listed.
\<close>

theorem instances_created_partition:
  assumes "distinct (map pf_pubkey profiles)"
  shows "sum_list (map (instance_created orders w) profiles) =
    count_where (\<lambda>ord. window_contains w (o_created_at ord) \<and> o_pubkey ord \<in> set (map pf_pubkey profiles)) orders"
  unfolding instance_created_def set_map
  by (rule count_by_owner [OF assms])

definition example_profile :: "str \<Rightarrow> profile" where
  "example_profile pk = \<lparr>pf_pubkey = pk, pf_name = None, pf_label = pk, pf_mostro_version = None,
     pf_protocol_version = None, pf_fee = None, pf_min_order_sats = None, pf_max_order_sats = None,
     pf_fiat_currencies = [], pf_ln_networks = [], pf_bond_enabled = None, pf_first_seen_at = 0, pf_last_seen_at = 0\<rparr>"

theorem instances_created_partition_witness:
  "sum_list (map (instance_created [example_order] (Window 1767225600 1772323200))
     [example_profile ''p1'', example_profile ''p2'']) = 1"
  using instances_created_partition [of "[example_profile ''p1'', example_profile ''p2'']" "[example_order]"
      "Window 1767225600 1772323200"]
  by (simp add: example_profile_def example_order_def window_contains_def)

end
