(* ===== verification/TimeSeries.thy ===== *)
theory TimeSeries
  imports Views Converted
begin

text \<open>
  One metric over time (\<open>crates/stats/src/series.rs\<close>): the data of a run, the four
  families behind one dispatch, what can be plotted, the change between two buckets,
  and the series itself with its errors. The walk over the buckets is the bounded
  one of \<open>window.rs\<close>, so the result carries its outcome: \<open>None\<close> would be a walk
  that does not end.
\<close>

section \<open>The data of a run\<close>

record assumption =
  as_per_instance :: "(str, f64) btree"
  as_default :: f64

record priced =
  pd_book :: rate_book
  pd_code :: str

record data =
  d_orders :: "order list"
  d_fees :: dev_fee_data
  d_disputes :: dispute_data
  d_profiles :: "profile list"
  d_dev_fee_pct :: "assumption option"
  d_priced :: "priced option"

definition data_default :: data where
  "data_default = \<lparr>d_orders = [], d_fees = \<lparr>df_fees = [], df_settlements = []\<rparr>,
     d_disputes = \<lparr>dd_disputes = [], dd_taken = []\<rparr>, d_profiles = [], d_dev_fee_pct = None, d_priced = None\<rparr>"

definition assumption_share :: "assumption \<Rightarrow> str \<Rightarrow> f64" where
  "assumption_share a pubkey = map_or (as_default a) (\<lambda>x. x) (bt_get (as_per_instance a) pubkey)"

section \<open>Families\<close>

datatype family = Fam_Activity | Fam_Volume | Fam_DevFees | Fam_Disputes

fun family_prefix :: "family \<Rightarrow> str" where
  "family_prefix Fam_Activity = ''orders''"
| "family_prefix Fam_Volume = ''volume''"
| "family_prefix Fam_DevFees = ''dev_fees''"
| "family_prefix Fam_Disputes = ''disputes''"

definition family_all :: "family list" where
  "family_all = [Fam_Activity, Fam_Volume, Fam_DevFees, Fam_Disputes]"

definition family_for :: "str \<Rightarrow> family option" where
  "family_for name = List.find (\<lambda>f. starts_with (family_prefix f @ ''.'') name) family_all"

definition is_ascii_uppercase :: "char \<Rightarrow> bool" where
  "is_ascii_uppercase c \<longleftrightarrow> CHR ''A'' \<le> c \<and> c \<le> CHR ''Z''"

definition priced_in :: "str \<Rightarrow> str option" where
  "priced_in name =
     Option.bind (strip_prefix (family_prefix Fam_Volume @ ''.in.'') name) (\<lambda>rest.
       let code = hd (split_on (CHR ''.'') rest) in
       then_some (length code = 3 \<and> list_all is_ascii_uppercase code) code)"

fun family_metrics :: "family \<Rightarrow> data \<Rightarrow> window \<Rightarrow> i64 \<Rightarrow> metric list" where
  "family_metrics Fam_Activity dt w now =
     activity_metrics (family_prefix Fam_Activity) (activity_summarise (d_orders dt) w now)"
| "family_metrics Fam_Volume dt w now =
     volume_metrics (family_prefix Fam_Volume) (volume_summarise (d_orders dt) w)
     @ (case d_priced dt of
          None \<Rightarrow> []
        | Some pd \<Rightarrow> converted_metrics (family_prefix Fam_Volume) (convert (d_orders dt) w (pd_book pd) (pd_code pd)))"
| "family_metrics Fam_DevFees dt w now =
     dev_fees_metrics (family_prefix Fam_DevFees) (dev_fees_summarise (d_fees dt) w)
     @ (case d_dev_fee_pct dt of
          None \<Rightarrow> []
        | Some a \<Rightarrow> implied_metrics (family_prefix Fam_DevFees) (implied_summarise (d_fees dt) w (assumption_share a)))"
| "family_metrics Fam_Disputes dt w now =
     disputes_metrics (family_prefix Fam_Disputes) (disputes_summarise (d_disputes dt) w now)"

datatype split = Split_Instance | Split_Kind | Split_Fiat

fun split_as_str :: "split \<Rightarrow> str" where
  "split_as_str Split_Instance = ''instance''"
| "split_as_str Split_Kind = ''kind''"
| "split_as_str Split_Fiat = ''fiat''"

fun supports :: "family \<Rightarrow> split \<Rightarrow> bool" where
  "supports f Split_Instance = True"
| "supports f _ = (f = Fam_Activity \<or> f = Fam_Volume)"

section \<open>What can be plotted\<close>

datatype series_error =
  SE_UnknownMetric str
  | SE_AboutNow str
  | SE_AlreadyADelta str
  | SE_CannotSplit str split
  | SE_TooManyBuckets

definition MAX_BUCKETS :: nat where
  "MAX_BUCKETS = 800"

definition plottable :: "str \<Rightarrow> series_error + unit" where
  "plottable name =
     (if ends_with ''_now'' name then Inl (SE_AboutNow name)
      else if str_contains ''.open.'' name then Inl (SE_AboutNow name)
      else if ends_with ''_delta'' name then Inl (SE_AlreadyADelta name)
      else Inr ())"

definition catalogue_of :: "family \<Rightarrow> data \<Rightarrow> window \<Rightarrow> i64 \<Rightarrow> str list" where
  "catalogue_of f dt w now = filter (\<lambda>name. \<not> isl (plottable name)) (map m_name (family_metrics f dt w now))"

definition catalogue :: "data \<Rightarrow> window \<Rightarrow> i64 \<Rightarrow> str list" where
  "catalogue dt w now = concat (map (\<lambda>f. catalogue_of f dt w now) family_all)"

definition block_of :: "family \<Rightarrow> data \<Rightarrow> window \<Rightarrow> i64 \<Rightarrow> metric list" where
  "block_of f dt w now = family_metrics f dt w now"

definition measure_metric :: "data \<Rightarrow> window \<Rightarrow> i64 \<Rightarrow> str \<Rightarrow> metric option" where
  "measure_metric dt w now name =
     Option.bind (family_for name) (\<lambda>f. List.find (\<lambda>m. m_name m = name) (family_metrics f dt w now))"

definition series_value :: "data \<Rightarrow> window \<Rightarrow> i64 \<Rightarrow> str \<Rightarrow> val option" where
  "series_value dt w now name = map_option m_value (measure_metric dt w now name)"

fun magnitude :: "val \<Rightarrow> f64 option" where
  "magnitude (V_Count n) = Some (f64_of_int n)"
| "magnitude (V_Sats n) = Some (f64_of_int n)"
| "magnitude (V_Seconds n) = Some (f64_of_int n)"
| "magnitude (V_Ratio r) = Some r"
| "magnitude (V_Fiat a c) = Some a"
| "magnitude (V_Text t) = None"
| "magnitude V_Missing = None"

definition delta :: "val \<Rightarrow> val \<Rightarrow> val" where
  "delta previous current =
     (case (magnitude previous, magnitude current) of
        (Some before, Some after) \<Rightarrow>
          (case (previous, current) of
             (V_Ratio _, V_Ratio _) \<Rightarrow> value_ratio (f64_sub after before)
           | _ \<Rightarrow> if f64_eq before (F64_Fin False 0) then V_Missing
                  else value_ratio (f64_div (f64_sub after before) (f64_abs before)))
      | _ \<Rightarrow> V_Missing)"

definition qualified_as :: "str \<Rightarrow> val \<Rightarrow> metric option list \<Rightarrow> metric" where
  "qualified_as name v sources =
     (case find_map m_error (filter is_inferred (filter_map (\<lambda>x. x) sources)) of
        Some e \<Rightarrow> inferred name v e
      | None \<Rightarrow> observed name v)"

section \<open>Slices\<close>

fun split_dimension :: "split \<Rightarrow> dimension" where
  "split_dimension Split_Instance = Dim_Instance"
| "split_dimension Split_Kind = Dim_Kind"
| "split_dimension Split_Fiat = Dim_Fiat"

definition split_data :: "data \<Rightarrow> family \<Rightarrow> split \<Rightarrow> (str, data) btree" where
  "split_data dt f sp =
     (case f of
        Fam_DevFees \<Rightarrow> map (\<lambda>(key, fees). (key, data_default\<lparr>d_fees := fees, d_dev_fee_pct := d_dev_fee_pct dt\<rparr>))
          (dev_fees_by_instance (d_fees dt))
      | Fam_Disputes \<Rightarrow> map (\<lambda>(key, dsp). (key, data_default\<lparr>d_disputes := dsp\<rparr>))
          (disputes_by_instance (d_disputes dt))
      | _ \<Rightarrow> map (\<lambda>(key, orders). (key, data_default\<lparr>d_orders := orders, d_priced := d_priced dt\<rparr>))
          (activity_slice (d_orders dt) (split_dimension sp)))"

section \<open>The series\<close>

fun plot_loop :: "data \<Rightarrow> i64 \<Rightarrow> str \<Rightarrow> str \<Rightarrow> metric option \<Rightarrow> keyed list \<Rightarrow> metric list" where
  "plot_loop dt now name pfx previous [] = []"
| "plot_loop dt now name pfx previous ((key, b) # buckets) =
     (let found = measure_metric dt b now name;
          current = map_or V_Missing m_value found;
          change = map_or V_Missing (\<lambda>p. delta (m_value p) current) previous
      in qualified_as (pfx @ ''.'' @ key) current [found]
         # qualified_as (pfx @ ''.'' @ key @ ''.delta'') change [found, previous]
         # plot_loop dt now name pfx found buckets)"

definition series_report ::
  "chrono \<Rightarrow> data \<Rightarrow> window \<Rightarrow> period \<Rightarrow> str \<Rightarrow> split option \<Rightarrow> i64 \<Rightarrow> (series_error + metric list) option" where
  "series_report ch dt w p name sp now =
     (case family_for name of
        None \<Rightarrow> Some (Inl (SE_UnknownMetric name))
      | Some f \<Rightarrow>
          (case plottable name of
             Inl e \<Rightarrow> Some (Inl e)
           | Inr _ \<Rightarrow>
               if series_value dt w now name = None then Some (Inl (SE_UnknownMetric name))
               else if \<not> is_none_or sp (supports f) then Some (Inl (SE_CannotSplit name (the sp)))
               else map_option (\<lambda>outcome.
                 case outcome of
                   None \<Rightarrow> Inl SE_TooManyBuckets
                 | Some buckets \<Rightarrow>
                     Inr (case sp of
                       None \<Rightarrow> plot_loop dt now name name None buckets
                     | Some s \<Rightarrow> concat (map (\<lambda>(key, sliced).
                         plot_loop sliced now name (name @ ''.'' @ key) None buckets) (split_data dt f s))))
                 (buckets_upto ch w p MAX_BUCKETS)))"

section \<open>Provenance\<close>

lemma activity_metrics_ok: "list_all metric_ok (activity_metrics pfx a)"
  by (simp add: activity_metrics_def activity_dated_metrics_def count_metric_def ratio_metric_def)

lemma volume_metrics_ok: "list_all metric_ok (volume_metrics pfx v)"
  by (auto simp: volume_metrics_def fiat_metrics_def Let_def list_all_iff split: option.splits)

lemma converted_metrics_ok: "list_all metric_ok (converted_metrics pfx c)"
  by (simp add: converted_metrics_def Let_def)

lemma dev_fees_metrics_ok: "list_all metric_ok (dev_fees_metrics pfx d)"
  by (simp add: dev_fees_metrics_def Let_def)

lemma implied_metrics_ok: "list_all metric_ok (implied_metrics pfx im)"
  by (simp add: implied_metrics_def)

lemma disputes_metrics_ok: "list_all metric_ok (disputes_metrics pfx ds)"
  by (auto simp: disputes_metrics_def disputes_dated_metrics_def status_metrics_def initiator_metrics_def
      seconds_metric_def count_metric_def ratio_metric_def list_all_iff)

lemmas family_blocks_ok = activity_metrics_ok volume_metrics_ok converted_metrics_ok dev_fees_metrics_ok
  implied_metrics_ok disputes_metrics_ok

lemma family_metrics_ok: "list_all metric_ok (family_metrics f dt w now)"
  by (cases f) (auto simp: family_blocks_ok split: option.splits)

lemma measure_metric_ok: "measure_metric dt w now name = Some m \<Longrightarrow> metric_ok m \<and> m_name m = name"
  using family_metrics_ok
  by (auto simp: measure_metric_def bind_eq_Some_conv list_all_iff dest!: find_SomeD)

lemma find_map_Nil_iff: "find_map f xs = None \<longleftrightarrow> list_all (\<lambda>x. f x = None) xs"
  by (induction xs) (auto split: option.splits)

lemma qualified_as_inferred:
  assumes "list_all (\<lambda>x. is_none_or x metric_ok) sources"
  shows "is_inferred (qualified_as name v sources) \<longleftrightarrow> list_ex (\<lambda>x. is_some_and x is_inferred) sources"
proof -
  have some: "m_error m \<noteq> None" if "Some m \<in> set sources" "is_inferred m" for m
    using assms that by (auto simp: list_all_iff is_inferred_def metric_ok_def)
  have "is_inferred (qualified_as name v sources) \<longleftrightarrow>
      find_map m_error (filter is_inferred (filter_map (\<lambda>x. x) sources)) \<noteq> None"
    by (simp add: qualified_as_def is_inferred_def split: option.splits)
  also have "\<dots> \<longleftrightarrow> (\<exists>m. Some m \<in> set sources \<and> is_inferred m)"
    using some by (auto simp: find_map_Nil_iff list_all_iff set_filter_map)
  also have "\<dots> \<longleftrightarrow> list_ex (\<lambda>x. is_some_and x is_inferred) sources"
    by (force simp: list_ex_iff is_some_and_def split: option.splits)
  finally show ?thesis .
qed

lemma qualified_as_sels [simp]: "m_name (qualified_as n v s) = n" "m_value (qualified_as n v s) = v"
  by (simp_all add: qualified_as_def split: option.splits)

lemma length_plot_loop [simp]: "length (plot_loop dt now name pfx prev bs) = 2 * length bs"
  by (induction dt now name pfx prev bs rule: plot_loop.induct) (simp_all add: Let_def)

lemma plot_loop_nth:
  assumes "is_none_or prev metric_ok" and "i < length bs"
  shows "let m = plot_loop dt now name pfx prev bs ! (2 * i); d = plot_loop dt now name pfx prev bs ! (2 * i + 1);
      found = measure_metric dt (snd (bs ! i)) now name;
      before = (if i = 0 then prev else measure_metric dt (snd (bs ! (i - 1))) now name) in
    m_name m = pfx @ ''.'' @ fst (bs ! i) \<and> m_name d = pfx @ ''.'' @ fst (bs ! i) @ ''.delta'' \<and>
    m_value m = map_or V_Missing m_value found \<and>
    m_value d = map_or V_Missing (\<lambda>q. delta (m_value q) (m_value m)) before \<and>
    is_inferred m = is_some_and found is_inferred \<and>
    is_inferred d = (is_some_and found is_inferred \<or> is_some_and before is_inferred)"
  using assms
proof (induction dt now name pfx prev bs arbitrary: i rule: plot_loop.induct)
  case (2 dt now name pfx prev key b bs)
  let ?found = "measure_metric dt b now name"
  have ok: "is_none_or ?found metric_ok" using measure_metric_ok by (cases ?found) auto
  show ?case
  proof (cases i)
    case 0
    then show ?thesis using ok "2.prems" by (simp add: Let_def qualified_as_inferred)
  next
    case (Suc j)
    then have "j < length bs" using "2.prems" by simp
    from "2.IH" [OF refl refl refl ok this] show ?thesis
      using Suc by (cases j) (simp_all add: Let_def)
  qed
qed simp

text \<open>
  A series says what the report says: it always returns, and either refuses
  with one of its errors or prints, for each bucket of the window and at most 800 of
  them, the metric under the bucket's key with the value its family reports there,
  and its change against the bucket before. A figure is marked inferred exactly when
  its source is, and a change exactly when either side is.
\<close>

theorem series_keeps_provenance:
  assumes "chrono_laws ch" and "in_i64 (w_from w)" and "in_i64 (w_until w)"
  shows "(\<exists>e. series_report ch dt w p name None now = Some (Inl e)) \<or>
    (\<exists>bs ms. window_buckets ch w p = Some bs \<and> series_report ch dt w p name None now = Some (Inr ms) \<and>
      length bs \<le> 800 \<and> length ms = 2 * length bs \<and>
      (\<forall>i < length bs. let m = ms ! (2 * i); d = ms ! (2 * i + 1);
         found = measure_metric dt (snd (bs ! i)) now name;
         before = (if i = 0 then None else measure_metric dt (snd (bs ! (i - 1))) now name) in
       m_name m = name @ ''.'' @ fst (bs ! i) \<and> m_name d = name @ ''.'' @ fst (bs ! i) @ ''.delta'' \<and>
       m_value m = map_or V_Missing m_value found \<and>
       m_value d = map_or V_Missing (\<lambda>q. delta (m_value q) (m_value m)) before \<and>
       is_inferred m = is_some_and found is_inferred \<and>
       is_inferred d = (is_some_and found is_inferred \<or> is_some_and before is_inferred)))"
proof -
  have i: "- (2 ^ 63) \<le> w_from w" "w_until w < 2 ^ 63"
    using assms(2,3) by (auto simp: in_i64_def i64_min_def i64_max_def)
  obtain bs where bs: "window_buckets ch w p = Some bs"
    "\<forall>limit. buckets_upto ch w p limit = Some (if length bs \<le> limit then Some bs else None)"
    using chrono_laws.window_buckets_returns [OF assms(1) i, of p] by metis
  show ?thesis
  proof (cases "\<exists>e. series_report ch dt w p name None now = Some (Inl e)")
    case False
    then have r: "series_report ch dt w p name None now = Some (Inr (plot_loop dt now name name None bs))"
      and len: "length bs \<le> 800"
      using bs(2) by (auto simp: series_report_def MAX_BUCKETS_def split: option.splits sum.splits if_splits)
    then show ?thesis
      using bs(1) plot_loop_nth [of None _ bs dt now name name]
      by (intro disjI2 exI [of _ bs] exI [of _ "plot_loop dt now name name None bs"]) simp
  qed simp
qed

definition example_data :: data where
  "example_data = data_default\<lparr>d_orders := [example_order]\<rparr>"

lemma example_buckets:
  "case buckets_upto gregorian (Window 1767225600 1767398400) Day MAX_BUCKETS of
     Some (Some bs) \<Rightarrow> length bs = 2 | _ \<Rightarrow> False"
  by code_simp

lemma example_plottable:
  "family_for ''orders.created'' = Some Fam_Activity" "plottable ''orders.created'' = Inr ()"
  by code_simp+

lemma example_measured: "series_value example_data w 0 ''orders.created'' \<noteq> None"
  by (simp add: series_value_def measure_metric_def example_plottable activity_metrics_def
      activity_dated_metrics_def count_metric_def)

lemma example_series_plots:
  "\<exists>ms. series_report gregorian example_data (Window 1767225600 1767398400) Day ''orders.created'' None 0 =
     Some (Inr ms)"
  using example_buckets example_measured
  by (auto simp: series_report_def example_plottable split: option.splits)

theorem series_keeps_provenance_witness:
  "\<exists>bs ms. window_buckets gregorian (Window 1767225600 1767398400) Day = Some bs \<and>
     series_report gregorian example_data (Window 1767225600 1767398400) Day ''orders.created'' None 0 = Some (Inr ms) \<and>
     length ms = 2 * length bs"
proof -
  let ?w = "Window 1767225600 1767398400"
  have "in_i64 (w_from ?w)" "in_i64 (w_until ?w)" by (simp_all add: in_i64_def i64_bounds)
  from series_keeps_provenance [OF greg.chrono_laws_axioms this, of example_data Day "''orders.created''" 0]
  show ?thesis using example_series_plots by (auto simp del: length_plot_loop)
qed

end
