(* ===== verification/Restatement.thy ===== *)
theory Restatement
  imports Document BTree
begin

text \<open>
  Revisions and the documents a run does not send
  (\<open>crates/stats/src/publish/restatement.rs\<close>): what the last publication concluded
  about an address, why the figures moved, what a republication asks for, and
  \<open>Snapshot::restated\<close>, which places a snapshot against that history. A revision
  is a \<open>u32\<close>, a \<^typ>\<open>nat\<close> whose increment saturates at \<open>u32_max\<close>.
\<close>

section \<open>What was published before\<close>

definition u32_max :: nat where
  "u32_max = 2 ^ 32 - 1"

definition saturating_succ_u32 :: "nat \<Rightarrow> nat" where
  "saturating_succ_u32 n = min (n + 1) u32_max"

datatype previous =
  Prev_First str i64
  | Prev_Restated str nat i64 restatement

definition previous_restated :: "str \<Rightarrow> nat \<Rightarrow> i64 \<Rightarrow> restatement \<Rightarrow> previous option" where
  "previous_restated h n u rs = then_some (n > 1) (Prev_Restated h n u rs)"

fun previous_hash :: "previous \<Rightarrow> str" where
  "previous_hash (Prev_First h u) = h"
| "previous_hash (Prev_Restated h n u rs) = h"

fun previous_revision :: "previous \<Rightarrow> nat" where
  "previous_revision (Prev_First h u) = 1"
| "previous_revision (Prev_Restated h n u rs) = n"

fun previous_updated_at :: "previous \<Rightarrow> i64" where
  "previous_updated_at (Prev_First h u) = u"
| "previous_updated_at (Prev_Restated h n u rs) = u"

fun previous_restatement :: "previous \<Rightarrow> restatement option" where
  "previous_restatement (Prev_First h u) = None"
| "previous_restatement (Prev_Restated h n u rs) = Some rs"

section \<open>Why the figures moved\<close>

datatype because = Backfill | Rebuild | Schema | Correction

record archive_read =
  read_schema_version :: nat
  read_covered_from :: "i64 option"
  read_events :: u64

definition because_inferred :: "archive_read \<Rightarrow> archive_read \<Rightarrow> because" where
  "because_inferred previous current =
     (if read_schema_version previous \<noteq> SCHEMA_VERSION then Schema
      else
        let deepened =
          (case (read_covered_from previous, read_covered_from current) of
             (Some before, Some now) \<Rightarrow> now < before
           | (None, Some _) \<Rightarrow> True
           | (_, None) \<Rightarrow> False) in
        if deepened \<or> read_events current > read_events previous then Backfill else Rebuild)"

fun because_as_str :: "because \<Rightarrow> str" where
  "because_as_str Backfill = ''backfill''"
| "because_as_str Rebuild = ''rebuild''"
| "because_as_str Schema = ''schema''"
| "because_as_str Correction = ''correction''"

section \<open>What a run sends beyond what changed\<close>

datatype republish = Republish_No | Republish_All | Republish_Range window

definition sends_unchanged :: "republish \<Rightarrow> 'p document \<Rightarrow> bool" where
  "sends_unchanged rep d =
     (case rep of
        Republish_No \<Rightarrow> False
      | Republish_All \<Rightarrow> True
      | Republish_Range rng \<Rightarrow>
          (case (doc_address d, doc_period d) of
             (Addr_Series _ _ _, Some period) \<Rightarrow>
               w_from period < w_until rng \<and> w_from rng < w_until period
           | _ \<Rightarrow> False))"

section \<open>A snapshot against its history\<close>

record 'p restated =
  rst_snapshot :: "'p pub_snapshot"
  rst_not_sent :: "(str, unit) btree"
  rst_state :: "(str, previous) btree"

definition restated_envelope ::
  "chrono \<Rightarrow> run \<Rightarrow> nat \<Rightarrow> restatement option \<Rightarrow> 'p \<Rightarrow> 'p envelope" where
  "restated_envelope ch r revision rs payload =
     (case Option.bind rs (\<lambda>x. envelope_restated ch r revision x payload) of
        Some e \<Rightarrow> e
      | None \<Rightarrow> envelope_first ch r payload)"

definition recorded :: "chrono \<Rightarrow> 'p document \<Rightarrow> previous" where
  "recorded ch d =
     (case Option.bind (envelope_restatement ch (doc_envelope d))
             (previous_restated (doc_hash d) (env_revision (doc_envelope d)) (doc_updated_at d)) of
        Some p \<Rightarrow> p
      | None \<Rightarrow> Prev_First (doc_hash d) (doc_updated_at d))"

definition against ::
  "chrono \<Rightarrow> run \<Rightarrow> 'p document \<Rightarrow> previous option \<Rightarrow> because \<Rightarrow> 'p document \<times> bool" where
  "against ch r d previous because =
     (let payload = env_payload (doc_envelope d) in
      case previous of
        None \<Rightarrow> (d\<lparr>doc_envelope := envelope_first ch r payload,
                  doc_updated_at := generated_at r\<rparr>, False)
      | Some p \<Rightarrow>
          if previous_hash p = doc_hash d then
            (d\<lparr>doc_envelope := restated_envelope ch r (previous_revision p) (previous_restatement p) payload,
               doc_updated_at := previous_updated_at p\<rparr>, True)
          else
            (d\<lparr>doc_envelope := restated_envelope ch r (saturating_succ_u32 (previous_revision p))
                 (Some \<lparr>restated_on = generated_at r, because_text = because_as_str because\<rparr>) payload,
               doc_updated_at := generated_at r\<rparr>, False))"

definition restated_step ::
  "chrono \<Rightarrow> run \<Rightarrow> (str, previous) btree \<Rightarrow> because \<Rightarrow> republish \<Rightarrow>
   (str, unit) btree \<times> (str, previous) btree \<times> 'p document list \<Rightarrow> 'p document \<Rightarrow>
   (str, unit) btree \<times> (str, previous) btree \<times> 'p document list" where
  "restated_step ch r previous because rep acc d =
     (case acc of (not_sent, state, documents) \<Rightarrow>
      let address = doc_d d;
          (restated, is_unchanged) = against ch r d (bt_get previous address) because in
      (if is_unchanged \<and> \<not> sends_unchanged rep restated then bt_insert address () not_sent else not_sent,
       bt_insert address (recorded ch restated) state,
       documents @ [restated]))"

definition snapshot_restated ::
  "chrono \<Rightarrow> 'p pub_snapshot \<Rightarrow> (str, previous) btree \<Rightarrow> because \<Rightarrow> republish \<Rightarrow> 'p restated" where
  "snapshot_restated ch s previous because rep =
     (case foldl (restated_step ch (snap_run s) previous because rep) ([], [], []) (snap_documents s) of
        (not_sent, state, documents) \<Rightarrow>
          \<lparr>rst_snapshot = \<lparr>snap_run = snap_run s, snap_coverage = snap_coverage s, snap_documents = documents\<rparr>,
           rst_not_sent = not_sent,
           rst_state = state\<rparr>)"

section \<open>One document against its own history\<close>

text \<open>
  What the types of the source promise of a record: above the first revision
  exactly when restated. With it, that a record's restatement clock is one RFC 3339
  reads back.
\<close>

fun previous_ok :: "chrono \<Rightarrow> previous \<Rightarrow> bool" where
  "previous_ok ch (Prev_First h u) = True"
| "previous_ok ch (Prev_Restated h n u rs) = (1 < n \<and> n \<le> u32_max \<and> legible ch (restated_on rs))"

lemma u32_max_gt [simp]: "1 < u32_max"
  by (simp add: u32_max_def)

lemma previous_revision_pos: "previous_ok ch p \<Longrightarrow> 1 \<le> previous_revision p \<and> previous_revision p \<le> u32_max"
  using u32_max_gt by (cases p) (simp_all add: less_imp_le)

lemma saturating_succ_gt: "1 \<le> n \<Longrightarrow> 1 < saturating_succ_u32 n"
  using u32_max_gt by (simp add: saturating_succ_u32_def)

lemma saturating_succ_le: "saturating_succ_u32 n \<le> u32_max"
  by (simp add: saturating_succ_u32_def)

lemma saturating_succ_exact: "n < u32_max \<Longrightarrow> saturating_succ_u32 n = n + 1"
  by (simp add: saturating_succ_u32_def)

lemma restated_envelope_ok [simp]: "envelope_ok (restated_envelope ch r n rs p)"
  by (auto simp: restated_envelope_def envelope_restated_ok split: option.splits Option.bind_splits)

lemma restated_envelope_payload [simp]: "env_payload (restated_envelope ch r n rs p) = p"
  by (auto simp: restated_envelope_def envelope_restated_eq_Some split: option.splits Option.bind_splits)

lemma restated_envelope_None [simp]: "restated_envelope ch r n None p = envelope_first ch r p"
  by (simp add: restated_envelope_def)

lemma restated_envelope_Some:
  assumes "1 < n"
  shows "restated_envelope ch r n (Some rs) p =
    (envelope_first ch r p)\<lparr>env_revision := n, env_restated_at := Some (rfc3339 ch (restated_on rs)),
       env_restated_because := Some (because_text rs)\<rparr>"
  using assms by (simp add: restated_envelope_def envelope_restated_def)

lemma against_keeps:
  "doc_address (fst (against ch r d p b)) = doc_address d"
  "doc_hash (fst (against ch r d p b)) = doc_hash d"
  "doc_period (fst (against ch r d p b)) = doc_period d"
  "env_payload (doc_envelope (fst (against ch r d p b))) = env_payload (doc_envelope d)"
  by (simp_all add: against_def Let_def split: option.splits)

lemma against_ok: "envelope_ok (doc_envelope (fst (against ch r d p b)))"
  by (simp add: against_def Let_def split: option.splits)

lemma against_unchanged: "snd (against ch r d p b) \<longleftrightarrow> (\<exists>q. p = Some q \<and> previous_hash q = doc_hash d)"
  by (simp add: against_def Let_def split: option.splits)

text \<open>The record a document leaves behind, as a function of the record it met.\<close>

definition previous_next :: "run \<Rightarrow> str \<Rightarrow> previous option \<Rightarrow> because \<Rightarrow> previous" where
  "previous_next r h p b =
     (case p of
        None \<Rightarrow> Prev_First h (generated_at r)
      | Some q \<Rightarrow> if previous_hash q = h then q
          else Prev_Restated h (saturating_succ_u32 (previous_revision q)) (generated_at r)
                 \<lparr>restated_on = generated_at r, because_text = because_as_str b\<rparr>)"

lemma previous_next_hash [simp]: "previous_hash (previous_next r h p b) = h"
  by (simp add: previous_next_def split: option.splits)

lemma previous_next_ok:
  assumes "\<And>q. p = Some q \<Longrightarrow> previous_ok ch q" and "legible ch (generated_at r)"
  shows "previous_ok ch (previous_next r h p b)"
proof (cases p)
  case (Some q)
  then have "1 < saturating_succ_u32 (previous_revision q)"
    using assms(1) previous_revision_pos saturating_succ_gt by blast
  with Some assms saturating_succ_le show ?thesis by (simp add: previous_next_def)
qed (simp add: previous_next_def)

context chrono_laws
begin

lemma recorded_restated:
  assumes "1 < n" and "legible ch (restated_on rs)"
    and "doc_envelope d = restated_envelope ch r n (Some rs) q"
  shows "recorded ch d = Prev_Restated (doc_hash d) n (doc_updated_at d) rs"
proof -
  from assms(1) have e: "envelope_restated ch r n rs q = Some (restated_envelope ch r n (Some rs) q)"
    by (simp add: restated_envelope_def envelope_restated_def)
  have "envelope_restatement ch (doc_envelope d) = Some rs"
    using restated_restatement [OF e assms(2)] assms(3) by simp
  moreover have "env_revision (doc_envelope d) = n"
    using assms(1,3) by (simp add: restated_envelope_Some)
  ultimately show ?thesis using assms(1) by (simp add: recorded_def previous_restated_def)
qed

lemma recorded_first:
  "doc_envelope d = envelope_first ch r q \<Longrightarrow> recorded ch d = Prev_First (doc_hash d) (doc_updated_at d)"
  by (simp add: recorded_def)

lemma recorded_against:
  assumes "\<And>q. p = Some q \<Longrightarrow> previous_ok ch q" and "legible ch (generated_at r)"
  shows "recorded ch (fst (against ch r d p b)) = previous_next r (doc_hash d) p b"
proof (cases p)
  case None
  then show ?thesis
    by (simp add: previous_next_def against_def Let_def recorded_first [of _ r "env_payload (doc_envelope d)"])
next
  case (Some q)
  then have ok: "previous_ok ch q" using assms by simp
  show ?thesis
  proof (cases "previous_hash q = doc_hash d")
    case True
    show ?thesis
    proof (cases q)
      case (Prev_First h u)
      with True Some show ?thesis
        by (simp add: previous_next_def against_def Let_def
            recorded_first [of _ r "env_payload (doc_envelope d)"])
    next
      case (Prev_Restated h n u rs)
      with True Some ok show ?thesis
        by (simp add: previous_next_def against_def Let_def
            recorded_restated [of n rs _ r "env_payload (doc_envelope d)"])
    qed
  next
    case False
    then have "recorded ch (fst (against ch r d p b)) =
        Prev_Restated (doc_hash d) (saturating_succ_u32 (previous_revision q)) (generated_at r)
          \<lparr>restated_on = generated_at r, because_text = because_as_str b\<rparr>"
      using Some ok assms(2) saturating_succ_gt [of "previous_revision q"] previous_revision_pos [OF ok]
      by (subst recorded_restated [of "saturating_succ_u32 (previous_revision q)" _ _ r
            "env_payload (doc_envelope d)"]) (simp_all add: against_def Let_def)
    with False Some show ?thesis by (simp add: previous_next_def)
  qed
qed

end

section \<open>The whole snapshot\<close>

lemma foldl_restated_step:
  "foldl (restated_step ch r pv b rep) (ns, st, ds) xs =
    (foldl (\<lambda>m d. if snd (against ch r d (bt_get pv (doc_d d)) b) \<and>
         \<not> sends_unchanged rep (fst (against ch r d (bt_get pv (doc_d d)) b))
       then bt_insert (doc_d d) () m else m) ns xs,
     foldl (\<lambda>m d. bt_insert (doc_d d) (recorded ch (fst (against ch r d (bt_get pv (doc_d d)) b))) m) st xs,
     ds @ map (\<lambda>d. fst (against ch r d (bt_get pv (doc_d d)) b)) xs)"
  by (induction xs arbitrary: ns st ds) (simp_all add: restated_step_def Let_def split_beta)

lemma restated_documents:
  "snap_documents (rst_snapshot (snapshot_restated ch s pv b rep)) =
     map (\<lambda>d. fst (against ch (snap_run s) d (bt_get pv (doc_d d)) b)) (snap_documents s)"
  by (simp add: snapshot_restated_def foldl_restated_step)

lemma foldl_insert_ok:
  "bt_ok m \<Longrightarrow> bt_ok (foldl (\<lambda>m d. bt_insert (k d) (v d) m) m xs)"
  by (induction xs arbitrary: m) simp_all

lemma foldl_insert_get:
  assumes "bt_ok m" and "distinct (map k xs)"
  shows "bt_get (foldl (\<lambda>m d. bt_insert (k d) (v d) m) m xs) a =
    (case List.find (\<lambda>d. k d = a) xs of Some d \<Rightarrow> Some (v d) | None \<Rightarrow> bt_get m a)"
  using assms
proof (induction xs arbitrary: m)
  case (Cons x xs)
  have "List.find (\<lambda>d. k d = a) xs = None" if "k x = a"
    using Cons.prems(2) that by (auto simp: find_None_iff image_iff)
  with Cons show ?case by (auto simp: bt_get_insert split: option.splits)
qed simp

lemma set_bt_keys_insert: "set (bt_keys (bt_insert k v m)) = insert k (set (bt_keys m))"
  by (simp add: bt_keys_def bt_insert_def set_fst_bt_upd)

lemma bt_keys_Nil [simp]: "bt_keys [] = []"
  by (simp add: bt_keys_def)

lemma foldl_insert_if_keys:
  shows "a \<in> set (bt_keys (foldl (\<lambda>m d. if P d then bt_insert (k d) () m else m) m xs)) \<longleftrightarrow>
    a \<in> set (bt_keys m) \<or> (\<exists>d \<in> set xs. P d \<and> k d = a)"
  by (induction xs arbitrary: m) (auto simp: set_bt_keys_insert)

lemma restated_state_ok [simp]: "bt_ok (rst_state (snapshot_restated ch s pv b rep))"
  by (simp add: snapshot_restated_def foldl_restated_step foldl_insert_ok)

lemma restated_not_sent:
  "a \<in> set (bt_keys (rst_not_sent (snapshot_restated ch s pv b rep))) \<longleftrightarrow>
     (\<exists>d \<in> set (snap_documents s). doc_d d = a \<and>
        is_some_and (bt_get pv a) (\<lambda>p. previous_hash p = doc_hash d) \<and> \<not> sends_unchanged rep d)"
proof -
  have same: "sends_unchanged rep (fst (against ch r d p b)) = sends_unchanged rep d"
    for r and d :: "'a document" and p
    by (cases rep) (simp_all add: sends_unchanged_def against_keeps)
  show ?thesis
    unfolding snapshot_restated_def
    by (auto simp: foldl_restated_step foldl_insert_if_keys same against_unchanged is_some_and_def
        split: option.splits)
qed

lemma find_distinct_key:
  assumes "distinct (map k xs)" and "x \<in> set xs"
  shows "List.find (\<lambda>d. k d = k x) xs = Some x"
  using assms by (induction xs) auto

context chrono_laws
begin

lemma restated_state_get:
  assumes "distinct (map doc_d (snap_documents s))" and "legible ch (generated_at (snap_run s))"
    and "\<And>a q. bt_get pv a = Some q \<Longrightarrow> previous_ok ch q"
  shows "bt_get (rst_state (snapshot_restated ch s pv b rep)) a =
    (case List.find (\<lambda>d. doc_d d = a) (snap_documents s) of
       Some d \<Rightarrow> Some (previous_next (snap_run s) (doc_hash d) (bt_get pv a) b)
     | None \<Rightarrow> None)"
proof -
  have "bt_get (rst_state (snapshot_restated ch s pv b rep)) a =
    (case List.find (\<lambda>d. doc_d d = a) (snap_documents s) of
       Some d \<Rightarrow> Some (recorded ch (fst (against ch (snap_run s) d (bt_get pv (doc_d d)) b)))
     | None \<Rightarrow> None)"
    by (simp add: snapshot_restated_def foldl_restated_step foldl_insert_get [OF _ assms(1)]
        split: option.splits)
  moreover have "recorded ch (fst (against ch (snap_run s) d (bt_get pv (doc_d d)) b)) =
      previous_next (snap_run s) (doc_hash d) (bt_get pv (doc_d d)) b" for d
    by (rule recorded_against [OF assms(3,2)])
  ultimately show ?thesis by (auto dest: find_SomeD split: option.splits)
qed

end

text \<open>
  The history a run may meet and what a snapshot promises: records the types
  of the source allow, one document per address, a clock that RFC 3339 writes
  legibly.
\<close>

definition history_ok :: "chrono \<Rightarrow> (str, previous) btree \<Rightarrow> bool" where
  "history_ok ch pv \<longleftrightarrow> bt_ok pv \<and> list_all (\<lambda>(a, p). previous_ok ch p) pv"

definition snapshot_ok :: "chrono \<Rightarrow> 'p pub_snapshot \<Rightarrow> bool" where
  "snapshot_ok ch s \<longleftrightarrow> distinct (map doc_d (snap_documents s)) \<and> legible ch (generated_at (snap_run s))"

lemma history_get: "history_ok ch pv \<Longrightarrow> bt_get pv a = Some q \<Longrightarrow> previous_ok ch q"
  by (auto simp: history_ok_def list_all_iff dest: bt_get_Some_in)

text \<open>
  C15. Every document of a run is placed against its own history and nothing
  else: its address, payload, hash and period are kept, its envelope is in one of
  the two states, and a new address starts at revision 1 with the run's clock;
  an unchanged payload keeps the revision, the clock and the restatement it had;
  a changed one takes the next revision, the run's clock and the run's reason.
\<close>

theorem restated_document_cases:
  assumes "chrono_laws ch" and "history_ok ch pv" and "legible ch (generated_at (snap_run s))"
    and "i < length (snap_documents s)"
  shows "let d = snap_documents s ! i;
      d' = snap_documents (rst_snapshot (snapshot_restated ch s pv b rep)) ! i;
      e' = doc_envelope d' in
    doc_address d' = doc_address d \<and> doc_hash d' = doc_hash d \<and> doc_period d' = doc_period d \<and>
    env_payload e' = env_payload (doc_envelope d) \<and> envelope_ok e' \<and>
    (case bt_get pv (doc_d d) of
       None \<Rightarrow> env_revision e' = 1 \<and> doc_updated_at d' = generated_at (snap_run s)
     | Some p \<Rightarrow>
         if previous_hash p = doc_hash d
         then env_revision e' = previous_revision p \<and> doc_updated_at d' = previous_updated_at p
              \<and> envelope_restatement ch e' = previous_restatement p
         else env_revision e' = saturating_succ_u32 (previous_revision p)
              \<and> doc_updated_at d' = generated_at (snap_run s)
              \<and> envelope_restatement ch e' =
                  Some \<lparr>restated_on = generated_at (snap_run s), because_text = because_as_str b\<rparr>)"
proof -
  let ?r = "snap_run s" and ?d = "snap_documents s ! i"
  let ?p = "bt_get pv (doc_d ?d)" and ?pay = "env_payload (doc_envelope ?d)"
  have d': "snap_documents (rst_snapshot (snapshot_restated ch s pv b rep)) ! i =
      fst (against ch ?r ?d ?p b)"
    using assms(4) by (simp add: restated_documents)
  show ?thesis
  proof (cases ?p)
    case None
    then show ?thesis by (simp add: d' Let_def against_keeps against_ok) (simp add: against_def Let_def)
  next
    case (Some q)
    have ok: "previous_ok ch q" using history_get [OF assms(2) Some] .
    have reread: "env_revision (restated_envelope ch ?r n (Some rs) ?pay) = n
        \<and> envelope_restatement ch (restated_envelope ch ?r n (Some rs) ?pay) = Some rs"
      if "1 < n" "legible ch (restated_on rs)" for n rs
      using that chrono_laws.parse_rfc3339_rfc3339 [OF assms(1)]
      by (simp add: restated_envelope_Some envelope_restatement_def)
    have same: "env_revision (restated_envelope ch ?r (previous_revision q) (previous_restatement q) ?pay)
          = previous_revision q
        \<and> envelope_restatement ch (restated_envelope ch ?r (previous_revision q) (previous_restatement q) ?pay)
          = previous_restatement q"
      using ok reread by (cases q) simp_all
    have moved: "1 < saturating_succ_u32 (previous_revision q)"
      using previous_revision_pos [OF ok] saturating_succ_gt by simp
    show ?thesis
      using same reread [OF moved] assms(3)
      by (simp add: d' Let_def against_keeps against_ok Some) (simp add: against_def Let_def)
  qed
qed

text \<open>A month already published, and a run that recomputes it with a new payload.\<close>

definition example_run :: "i64 \<Rightarrow> run" where
  "example_run t = \<lparr>snapshot_id = ''run'', generated_at = t\<rparr>"

definition example_document :: "i64 \<Rightarrow> str \<Rightarrow> unit document" where
  "example_document t h =
     \<lparr>doc_address = Addr_Series Report_Orders (Partition Daily (Bucket_Month (Year 2026) (Month 2))) None,
      doc_envelope = envelope_first gregorian (example_run t) (), doc_hash = h,
      doc_updated_at = t, doc_period = Some (Window 1769904000 1772323200)\<rparr>"

definition example_snapshot :: "i64 \<Rightarrow> str \<Rightarrow> unit pub_snapshot" where
  "example_snapshot t h =
     \<lparr>snap_run = example_run t, snap_coverage = coverage_between 0 t,
      snap_documents = [example_document t h]\<rparr>"

definition example_history :: "(str, previous) btree" where
  "example_history = [(''series:orders:daily:2026-02'', Prev_First ''old'' 1767225600)]"

lemma example_snapshot_simps [simp]:
  "snap_run (example_snapshot t h) = example_run t"
  "snap_documents (example_snapshot t h) = [example_document t h]"
  "generated_at (example_run t) = t"
  "doc_hash (example_document t h) = h"
  by (simp_all add: example_snapshot_def example_run_def example_document_def)

lemma example_d: "doc_d (example_document t h) = ''series:orders:daily:2026-02''"
  by (simp add: example_document_def) code_simp

lemma example_legible: "legible gregorian 1772323200"
  by code_simp

lemma example_history_ok: "history_ok ch example_history"
  by (simp add: history_ok_def example_history_def bt_ok_def)

lemma example_history_get:
  "bt_get example_history (doc_d (example_document t h)) = Some (Prev_First ''old'' 1767225600)"
  unfolding example_d by (simp add: example_history_def bt_get_def)

theorem restated_document_cases_witness:
  "let d' = snap_documents (rst_snapshot (snapshot_restated gregorian (example_snapshot 1772323200 ''new'')
       example_history Backfill Republish_No)) ! 0 in
     env_revision (doc_envelope d') = 2 \<and> doc_updated_at d' = 1772323200
     \<and> envelope_restatement gregorian (doc_envelope d') =
         Some \<lparr>restated_on = 1772323200, because_text = ''backfill''\<rparr>"
proof -
  have "legible gregorian (generated_at (snap_run (example_snapshot 1772323200 ''new'')))"
    and "0 < length (snap_documents (example_snapshot 1772323200 ''new''))"
    using example_legible by simp_all
  from restated_document_cases [OF greg.chrono_laws_axioms example_history_ok this, of Backfill Republish_No]
  show ?thesis
    by (simp add: Let_def example_history_get saturating_succ_u32_def u32_max_def)
qed

text \<open>
  C16. A document is withheld exactly when its payload is the one already
  published under its address and the republication does not ask for it: a changed or
  new document is sent whatever range was asked for, and a range asks for the
  series partitions it overlaps.
\<close>

theorem restated_withholds_exactly:
  assumes "distinct (map doc_d (snap_documents s))" and "d \<in> set (snap_documents s)"
  shows "doc_d d \<in> set (bt_keys (rst_not_sent (snapshot_restated ch s pv b rep))) \<longleftrightarrow>
    (\<exists>p. bt_get pv (doc_d d) = Some p \<and> previous_hash p = doc_hash d) \<and>
    \<not> (rep = Republish_All \<or>
       (\<exists>w p report part sc. rep = Republish_Range w \<and> doc_address d = Addr_Series report part sc \<and>
          doc_period d = Some p \<and> w_from p < w_until w \<and> w_from w < w_until p))"
proof -
  have only: "d' = d" if "d' \<in> set (snap_documents s)" "doc_d d' = doc_d d" for d'
    using assms that by (auto simp: distinct_map inj_on_def)
  have asks: "sends_unchanged rep d \<longleftrightarrow> rep = Republish_All \<or>
      (\<exists>w p report part sc. rep = Republish_Range w \<and> doc_address d = Addr_Series report part sc \<and>
          doc_period d = Some p \<and> w_from p < w_until w \<and> w_from w < w_until p)"
    by (auto simp: sends_unchanged_def split: republish.splits address.splits option.splits)
  have "doc_d d \<in> set (bt_keys (rst_not_sent (snapshot_restated ch s pv b rep))) \<longleftrightarrow>
      is_some_and (bt_get pv (doc_d d)) (\<lambda>p. previous_hash p = doc_hash d) \<and> \<not> sends_unchanged rep d"
    unfolding restated_not_sent using only assms(2) by blast
  also have "is_some_and (bt_get pv (doc_d d)) (\<lambda>p. previous_hash p = doc_hash d) \<longleftrightarrow>
      (\<exists>p. bt_get pv (doc_d d) = Some p \<and> previous_hash p = doc_hash d)"
    by (cases "bt_get pv (doc_d d)") simp_all
  finally show ?thesis unfolding asks .
qed

theorem restated_withholds_exactly_witness:
  "doc_d (example_document 0 ''old'') \<in>
     set (bt_keys (rst_not_sent (snapshot_restated gregorian (example_snapshot 0 ''old'') example_history
       Rebuild Republish_No)))"
  using restated_withholds_exactly [of "example_snapshot 0 ''old''" "example_document 0 ''old''"]
  by (simp add: example_history_get)

end
