(* ===== verification/Snapshot.thy ===== *)
theory Snapshot
  imports TimeSeries Restatement
begin

text \<open>
  A snapshot in one pass (\<open>crates/stats/src/publish/snapshot.rs\<close>): the payloads of
  window documents and series partitions, the rows of a partition and which of its
  cells are withheld, and \<open>Snapshot::compute\<close>. \<open>hash_of\<close> (\<open>sha2\<close> over
  \<open>serde_json\<close>) is the parameter \<open>hash\<close>, a function of the payload. A walk over
  a calendar that could fail to end makes its result an option.
\<close>

section \<open>Payloads\<close>

record json_range =
  rg_from :: str
  rg_until :: str

definition range_of :: "chrono \<Rightarrow> window \<Rightarrow> json_range" where
  "range_of ch w = \<lparr>rg_from = rfc3339 ch (w_from w), rg_until = rfc3339 ch (w_until w)\<rparr>"

record window_payload =
  wp_range :: json_range
  wp_metrics :: "metric list"

definition window_payload_of :: "chrono \<Rightarrow> window \<Rightarrow> metric list \<Rightarrow> window_payload" where
  "window_payload_of ch w ms = \<lparr>wp_range = range_of ch w, wp_metrics = ms\<rparr>"

record column =
  col_name :: str
  col_kind :: "metric_kind option"
  col_unit :: str
  col_error :: "str option"

datatype json = J_Null | J_String str | J_Int i64 | J_Float f64

record series_payload =
  sp_period :: json_range
  sp_resolution :: str
  sp_columns :: "column list"
  sp_rows :: "json list list"

datatype payload = P_Window window_payload | P_Series series_payload

record series_partition =
  pt_address :: address
  pt_period :: window
  pt_payload :: series_payload
  pt_hash :: str

section \<open>Window documents\<close>

definition traded :: "u64 list \<Rightarrow> bool" where
  "traded counts = list_ex (\<lambda>n. n > 0) counts"

definition fiat_block :: "window \<Rightarrow> i64 \<Rightarrow> str \<times> order list \<Rightarrow> metric list" where
  "fiat_block w now kg =
     (case kg of (code, g) \<Rightarrow>
      let a = activity_summarise g w now;
          counts = [(''created'', a_created a), (''completed'', a_completed a),
                    (''canceled'', a_canceled a), (''open_now'', a_open_now a)]
      in if \<not> traded (map snd counts) then []
         else map (\<lambda>(name, n). observed (''orders.'' @ code @ ''.'' @ name) (V_Count (u64_as_i64 n))) counts)"

definition fiat_counts :: "order list \<Rightarrow> window \<Rightarrow> i64 \<Rightarrow> metric list" where
  "fiat_counts orders w now = concat (map (fiat_block w now) (activity_slice orders Dim_Fiat))"

definition window_metrics :: "chrono \<Rightarrow> report \<Rightarrow> data \<Rightarrow> window \<Rightarrow> i64 \<Rightarrow> metric list" where
  "window_metrics ch rep dt w now =
     (case rep of
        Report_Orders \<Rightarrow> block_of Fam_Activity dt w now @ fiat_counts (d_orders dt) w now
      | Report_Volume \<Rightarrow> block_of Fam_Volume dt w now
      | Report_DevFees \<Rightarrow> block_of Fam_DevFees dt w now
      | Report_Disputes \<Rightarrow> block_of Fam_Disputes dt w now
      | Report_Summary \<Rightarrow> summary_report (d_orders dt) (Some (d_disputes dt)) w now
      | Report_Market \<Rightarrow> market_report (d_orders dt) w None
      | Report_Instances \<Rightarrow> instances_list ch (d_profiles dt) (d_orders dt) w now
      | Report_Compare \<Rightarrow> compare_report (d_profiles dt) (d_orders dt) (d_fees dt) (Some (d_disputes dt)) w now)"

definition SCOPED_REPORTS :: "report list" where
  "SCOPED_REPORTS = [Report_Orders]"

definition instance_metrics :: "order list \<Rightarrow> window \<Rightarrow> i64 \<Rightarrow> metric list" where
  "instance_metrics own w now =
     activity_metrics ''orders'' (activity_summarise own w now)
     @ concat (map (\<lambda>(code, g).
         let a = activity_summarise g w now in
         if \<not> traded [a_created a, a_completed a, a_canceled a, a_open_now a, a_in_progress_now a] then []
         else activity_metrics (''orders.'' @ code) a) (activity_slice own Dim_Fiat))"

definition window_of :: "span \<Rightarrow> coverage \<Rightarrow> i64 \<Rightarrow> window" where
  "window_of sp cov now =
     (let until = map_or now (\<lambda>latest. min latest now) (cov_latest cov);
          start = (case sp of
              Hours24 \<Rightarrow> i64_sub until 86400
            | Days7 \<Rightarrow> i64_sub until (7 * 86400)
            | Days30 \<Rightarrow> i64_sub until (30 * 86400)
            | Days90 \<Rightarrow> i64_sub until (90 * 86400)
            | Span_All \<Rightarrow> min (map_or until (\<lambda>e. e) (cov_earliest cov)) until)
      in Window start until)"

section \<open>Series partitions\<close>

fun family_of :: "report \<Rightarrow> family option" where
  "family_of Report_Orders = Some Fam_Activity"
| "family_of Report_Volume = Some Fam_Volume"
| "family_of Report_DevFees = Some Fam_DevFees"
| "family_of Report_Disputes = Some Fam_Disputes"
| "family_of _ = None"

definition unit_of :: "val \<Rightarrow> str" where
  "unit_of v =
     (case normalised v of
        V_Count _ \<Rightarrow> ''count'' | V_Sats _ \<Rightarrow> ''sats'' | V_Ratio _ \<Rightarrow> ''ratio'' | V_Seconds _ \<Rightarrow> ''seconds''
      | V_Fiat _ _ \<Rightarrow> ''fiat'' | V_Text _ \<Rightarrow> ''text'' | V_Missing \<Rightarrow> ''missing'')"

definition cell :: "val \<Rightarrow> json" where
  "cell v =
     (case normalised v of
        V_Count n \<Rightarrow> J_Int n | V_Sats n \<Rightarrow> J_Int n | V_Ratio r \<Rightarrow> J_Float r | V_Seconds n \<Rightarrow> J_Int n
      | V_Fiat a _ \<Rightarrow> J_Float a | V_Text t \<Rightarrow> J_String t | V_Missing \<Rightarrow> J_Null)"

definition WEEK :: i64 where
  "WEEK = 7 * 86400"

definition EPOCH_TO_MONDAY :: i64 where
  "EPOCH_TO_MONDAY = 3 * 86400"

text \<open>\<open>div_euclid\<close> by a positive divisor is the floor.\<close>

definition monday_of :: "i64 \<Rightarrow> i64" where
  "monday_of t = i64_sub (i64_mul (i64_add t EPOCH_TO_MONDAY div WEEK) WEEK) EPOCH_TO_MONDAY"

partial_function (option) weeks_loop :: "chrono \<Rightarrow> i64 \<Rightarrow> i64 \<Rightarrow> keyed list \<Rightarrow> keyed list option" where
  "weeks_loop ch until monday weeks =
     (if monday < until then
        (let week = Window monday (saturating_add_i64 monday WEEK) in
         Option.bind (window_weeks ch week) (\<lambda>named.
         weeks_loop ch until (saturating_add_i64 monday WEEK)
           (case named of [] \<Rightarrow> weeks | (key, _) # _ \<Rightarrow> weeks @ [(key, week)])))
      else Some weeks)"

declare weeks_loop.simps [code]

definition weeks_of :: "chrono \<Rightarrow> window \<Rightarrow> keyed list option" where
  "weeks_of ch w =
     (let monday = monday_of (w_from w);
          start = (if monday < w_from w then i64_add monday WEEK else monday)
      in weeks_loop ch (w_until w) start [])"

definition rows_of :: "chrono \<Rightarrow> resolution \<Rightarrow> window \<Rightarrow> keyed list option" where
  "rows_of ch r w =
     (case r of
        Daily \<Rightarrow> window_buckets ch w Day
      | Monthly \<Rightarrow> window_buckets ch w Month_Period
      | Weekly \<Rightarrow> weeks_of ch w)"

definition column_of :: "family \<Rightarrow> data \<Rightarrow> window \<Rightarrow> i64 \<Rightarrow> str \<Rightarrow> column" where
  "column_of f dt w now name =
     (let sample = measure_metric dt w now name in
      \<lparr>col_name = map_or name (\<lambda>x. x) (strip_prefix (family_prefix f @ ''.'') name),
       col_kind = map_option m_kind sample,
       col_unit = map_or ''missing'' (\<lambda>m. unit_of (m_value m)) sample,
       col_error = Option.bind sample m_error\<rparr>)"

definition date_column :: column where
  "date_column = \<lparr>col_name = ''date'', col_kind = None, col_unit = ''date'', col_error = None\<rparr>"

definition row_cell :: "data \<Rightarrow> coverage \<Rightarrow> i64 \<Rightarrow> window \<Rightarrow> str \<Rightarrow> json" where
  "row_cell dt cov now slot name =
     (if \<not> covers cov slot \<or> w_from slot \<ge> now then J_Null
      else map_or J_Null (\<lambda>m. cell (m_value m)) (measure_metric dt slot now name))"

definition compute_partition ::
  "chrono \<Rightarrow> (payload \<Rightarrow> str) \<Rightarrow> data \<Rightarrow> report \<Rightarrow> resolution \<Rightarrow> bucket \<Rightarrow> coverage \<Rightarrow> i64 \<Rightarrow> series_partition option option" where
  "compute_partition ch hash dt rep r b cov now =
     (case family_of rep of
        None \<Rightarrow> Some None
      | Some f \<Rightarrow>
          (case partition_new r b of
             None \<Rightarrow> Some None
           | Some slot \<Rightarrow>
               let w = partition_window ch slot in
               if \<not> covers cov w then Some None
               else
                 let names = catalogue_of f dt w now;
                     columns = date_column # map (column_of f dt w now) names in
                 map_option (\<lambda>buckets.
                   let pl = \<lparr>sp_period = range_of ch w, sp_resolution = resolution_as_str r, sp_columns = columns,
                         sp_rows = map (\<lambda>(key, slot). J_String key # map (row_cell dt cov now slot) names) buckets\<rparr>
                   in Some \<lparr>pt_address = Addr_Series rep slot None, pt_period = w, pt_payload = pl,
                        pt_hash = hash (P_Series pl)\<rparr>)
                   (rows_of ch r w)))"

section \<open>The whole snapshot\<close>

fun opt_traverse :: "('a \<Rightarrow> 'b option) \<Rightarrow> 'a list \<Rightarrow> 'b list option" where
  "opt_traverse f [] = Some []"
| "opt_traverse f (x # xs) = Option.bind (f x) (\<lambda>y. map_option ((#) y) (opt_traverse f xs))"

definition window_document ::
  "chrono \<Rightarrow> (payload \<Rightarrow> str) \<Rightarrow> run \<Rightarrow> coverage \<Rightarrow> i64 \<Rightarrow> report \<Rightarrow> scope option \<Rightarrow> (window \<Rightarrow> metric list) \<Rightarrow> span \<Rightarrow> payload document" where
  "window_document ch hash r cov now rep sc metrics sp =
     (let w = window_of sp cov now; pl = P_Window (window_payload_of ch w (metrics w)) in
      \<lparr>doc_address = Addr_Window rep sp sc, doc_envelope = envelope_first ch r pl, doc_hash = hash pl,
       doc_updated_at = now, doc_period = None\<rparr>)"

definition partition_document :: "chrono \<Rightarrow> run \<Rightarrow> i64 \<Rightarrow> series_partition \<Rightarrow> payload document" where
  "partition_document ch r now p =
     \<lparr>doc_address = pt_address p, doc_envelope = envelope_first ch r (P_Series (pt_payload p)),
      doc_hash = pt_hash p, doc_updated_at = now, doc_period = Some (pt_period p)\<rparr>"

definition series_documents ::
  "chrono \<Rightarrow> (payload \<Rightarrow> str) \<Rightarrow> run \<Rightarrow> data \<Rightarrow> coverage \<Rightarrow> i64 \<Rightarrow> report \<Rightarrow> resolution \<Rightarrow> payload document list option" where
  "series_documents ch hash r dt cov now rep res =
     Option.bind (coverage_partitions ch cov res now) (\<lambda>buckets.
     map_option (\<lambda>ps. map (partition_document ch r now) (filter_map (\<lambda>x. x) ps))
       (opt_traverse (\<lambda>b. compute_partition ch hash dt rep res b cov now) buckets))"

definition report_documents ::
  "chrono \<Rightarrow> (payload \<Rightarrow> str) \<Rightarrow> run \<Rightarrow> data \<Rightarrow> coverage \<Rightarrow> i64 \<Rightarrow> report \<Rightarrow> payload document list option" where
  "report_documents ch hash r dt cov now rep =
     (let windows = map (window_document ch hash r cov now rep None (\<lambda>w. window_metrics ch rep dt w now)) span_all in
      if family_of rep = None then Some windows
      else map_option (\<lambda>ds. windows @ concat ds)
        (opt_traverse (series_documents ch hash r dt cov now rep) resolution_all))"

definition scoped_documents ::
  "chrono \<Rightarrow> (payload \<Rightarrow> str) \<Rightarrow> run \<Rightarrow> data \<Rightarrow> coverage \<Rightarrow> i64 \<Rightarrow> profile \<Rightarrow> payload document list" where
  "scoped_documents ch hash r dt cov now p =
     (case scope_instance (pf_pubkey p) of
        None \<Rightarrow> []
      | Some sc \<Rightarrow>
          let own = filter (\<lambda>ord. o_pubkey ord = pf_pubkey p) (d_orders dt) in
          concat (map (\<lambda>rep. map (window_document ch hash r cov now rep (Some sc)
            (\<lambda>w. instance_metrics own w now)) span_all) SCOPED_REPORTS))"

definition snapshot_compute ::
  "chrono \<Rightarrow> (payload \<Rightarrow> str) \<Rightarrow> data \<Rightarrow> coverage \<Rightarrow> str \<Rightarrow> i64 \<Rightarrow> payload pub_snapshot option" where
  "snapshot_compute ch hash dt cov sid now =
     (let r = \<lparr>snapshot_id = sid, generated_at = now\<rparr> in
      map_option (\<lambda>ds. \<lparr>snap_run = r, snap_coverage = cov,
          snap_documents = concat ds @ concat (map (scoped_documents ch hash r dt cov now) (d_profiles dt))\<rparr>)
        (opt_traverse (report_documents ch hash r dt cov now) report_all))"

section \<open>The window of a document\<close>

fun span_secs :: "span \<Rightarrow> i64 option" where
  "span_secs Hours24 = Some 86400"
| "span_secs Days7 = Some (7 * 86400)"
| "span_secs Days30 = Some (30 * 86400)"
| "span_secs Days90 = Some (90 * 86400)"
| "span_secs Span_All = None"

text \<open>
  The window of a document is never inverted and never ends after the clock: it
  ends at the archive's last event, or at the clock when that is earlier or nothing is
  stored, and reaches back exactly the span its address names, \<open>all\<close> to the first
  event. Over an archive that has not moved it is the same window whatever the clock
  says, which is what lets an unchanged document keep its hash.
\<close>

theorem window_of_anchored:
  assumes "in_i64 now" and "0 \<le> now" and "is_none_or (cov_latest cov) (\<lambda>l. 0 \<le> l)"
  shows "let w = window_of sp cov now in
    w_from w \<le> w_until w \<and> w_until w = map_or now (\<lambda>l. min l now) (cov_latest cov) \<and>
    (case span_secs sp of
       Some n \<Rightarrow> w_until w - w_from w = n
     | None \<Rightarrow> w_from w = min (map_or (w_until w) (\<lambda>e. e) (cov_earliest cov)) (w_until w)) \<and>
    (\<forall>l now'. cov_latest cov = Some l \<and> l \<le> now \<and> l \<le> now' \<longrightarrow> window_of sp cov now' = w)"
proof -
  let ?u = "map_or now (\<lambda>l. min l now) (cov_latest cov)"
  have u: "0 \<le> ?u" "?u \<le> now" using assms by (cases "cov_latest cov"; simp)+
  have sub: "i64_sub ?u n = ?u - n" if "0 \<le> n" "n \<le> 90 * 86400" for n
    using u that assms(1) by (intro i64_sub_exact) (simp add: in_i64_def i64_bounds)
  have same: "window_of sp cov now' = window_of sp cov now"
    if "cov_latest cov = Some l" "l \<le> now" "l \<le> now'" for l now'
    using that by (simp add: window_of_def)
  have until: "w_until (window_of sp cov now) = ?u" by (simp add: window_of_def Let_def)
  have start: "case span_secs sp of
       Some n \<Rightarrow> ?u - w_from (window_of sp cov now) = n \<and> 0 \<le> n
     | None \<Rightarrow> w_from (window_of sp cov now) = min (map_or ?u (\<lambda>e. e) (cov_earliest cov)) ?u"
    by (cases sp) (simp_all add: window_of_def Let_def sub)
  then have le: "w_from (window_of sp cov now) \<le> ?u" by (simp split: option.splits)
  from start have "case span_secs sp of
       Some n \<Rightarrow> ?u - w_from (window_of sp cov now) = n
     | None \<Rightarrow> w_from (window_of sp cov now) = min (map_or ?u (\<lambda>e. e) (cov_earliest cov)) ?u"
    by (simp split: option.splits)
  with le same show ?thesis unfolding Let_def until by blast
qed

theorem window_of_anchored_witness:
  "let w = window_of Days7 (coverage_between 1754006400 1756684800) 1760000000 in
   w_until w = 1756684800 \<and> w_until w - w_from w = 7 * 86400"
proof -
  have "in_i64 1760000000" "(0::int) \<le> 1760000000"
    "is_none_or (cov_latest (coverage_between 1754006400 1756684800)) (\<lambda>l. 0 \<le> l)"
    by (simp_all add: in_i64_def i64_bounds coverage_between_def)
  note * = window_of_anchored [OF this, of Days7, unfolded Let_def, THEN conjunct2]
  have "w_until (window_of Days7 (coverage_between 1754006400 1756684800) 1760000000) = 1756684800"
    using * [THEN conjunct1] by (simp add: coverage_between_def)
  moreover have "w_until (window_of Days7 (coverage_between 1754006400 1756684800) 1760000000)
      - w_from (window_of Days7 (coverage_between 1754006400 1756684800) 1760000000) = 7 * 86400"
    using * [THEN conjunct2, THEN conjunct1] by simp
  ultimately show ?thesis unfolding Let_def by blast
qed

section \<open>Currencies of the network document\<close>

definition count_of :: "metric \<Rightarrow> int" where
  "count_of m = (case m_value m of V_Count n \<Rightarrow> n | _ \<Rightarrow> 0)"

definition currency_total :: "str \<Rightarrow> metric list \<Rightarrow> int" where
  "currency_total name ms = sum_list (map count_of (filter (\<lambda>m. ends_with (''.'' @ name) (m_name m)) ms))"

lemma dated_le: "dated os w pick \<le> length os"
  by (simp add: dated_def)

lemma u64_as_i64_small: "n < 2 ^ 63 \<Longrightarrow> u64_as_i64 n = int n"
  by (simp add: u64_as_i64_def wrap_i64_def)

lemma ends_with_rev: "ends_with p s \<longleftrightarrow> prefix (rev p) (rev s)"
  by (simp add: ends_with_def suffix_to_prefix)

lemma currency_total_block:
  assumes "length g < 2 ^ 63"
  shows "currency_total ''created'' (fiat_block w now (code, g)) = int (dated g w created_on)"
    "currency_total ''completed'' (fiat_block w now (code, g)) = int (dated g w completed_on)"
    "currency_total ''canceled'' (fiat_block w now (code, g)) = int (dated g w canceled_on)"
proof -
  have small: "dated g w pick < 2 ^ 63" for pick using dated_le [of g w pick] assms by linarith
  show "currency_total ''created'' (fiat_block w now (code, g)) = int (dated g w created_on)"
    "currency_total ''completed'' (fiat_block w now (code, g)) = int (dated g w completed_on)"
    "currency_total ''canceled'' (fiat_block w now (code, g)) = int (dated g w canceled_on)"
    using small
    by (simp_all add: fiat_block_def Let_def activity_summarise_def traded_def currency_total_def count_of_def
        u64_as_i64_small ends_with_rev)
qed

lemma currency_total_append: "currency_total name (xs @ ys) = currency_total name xs + currency_total name ys"
  by (simp add: currency_total_def)

lemma currency_total_slices:
  assumes "\<And>code g. length g < 2 ^ 63 \<Longrightarrow> currency_total name (fiat_block w now (code, g)) = int (dated g w pick)"
    and "length orders < 2 ^ 63"
  shows "currency_total name (fiat_counts orders w now) = int (dated orders w pick)"
proof -
  have keys: "dimension_keys Dim_Fiat x = [o_fiat_code x]" for x by simp
  have small: "length (snd kg) < 2 ^ 63" if "kg \<in> set (activity_slice orders Dim_Fiat)" for kg
  proof -
    have "snd kg = filter (\<lambda>x. o_fiat_code x = fst kg) orders"
      by (rule group_by_mem(1) [of orders "dimension_keys Dim_Fiat" o_fiat_code "fst kg" "snd kg"])
        (use that in \<open>simp_all add: activity_slice_def\<close>)
    then have "length (snd kg) \<le> length orders" by simp
    with assms(2) show ?thesis by linarith
  qed
  have "currency_total name (concat (map (fiat_block w now) xs)) = int (sum_list (map (\<lambda>(k, g). dated g w pick) xs))"
    if "\<forall>kg \<in> set xs. length (snd kg) < 2 ^ 63" for xs
    using that
  proof (induction xs)
    case Nil
    then show ?case by (simp add: currency_total_def)
  next
    case (Cons x xs)
    obtain code g where x: "x = (code, g)" by force
    with Cons assms(1) [of g code] show ?case by (simp add: currency_total_append)
  qed
  with small show ?thesis
    unfolding fiat_counts_def by (simp add: dated_slice [of Dim_Fiat orders w pick] single_key_def)
qed

text \<open>
  The currency rows of the network's \<open>orders\<close> document sum to the network's own
  row: over all currencies the created, completed and canceled counts are those of the
  window, though the currencies with nothing to report are left out.
\<close>

theorem fiat_counts_sum_to_network:
  assumes "length orders < 2 ^ 63"
  shows "currency_total ''created'' (fiat_counts orders w now) = int (a_created (activity_summarise orders w now)) \<and>
    currency_total ''completed'' (fiat_counts orders w now) = int (a_completed (activity_summarise orders w now)) \<and>
    currency_total ''canceled'' (fiat_counts orders w now) = int (a_canceled (activity_summarise orders w now))"
  using currency_total_slices [OF currency_total_block(1) assms] currency_total_slices [OF currency_total_block(2) assms]
    currency_total_slices [OF currency_total_block(3) assms]
  by (simp add: activity_summarise_def)

theorem fiat_counts_sum_to_network_witness:
  "currency_total ''created'' (fiat_counts [example_order] (Window 1767225600 1772323200) 0) = 1"
  using fiat_counts_sum_to_network [of "[example_order]" "Window 1767225600 1772323200" 0]
  by (simp add: activity_summarise_def dated_def created_on_def example_order_def window_contains_def)

section \<open>What a partition withholds\<close>

context chrono_laws
begin

lemma window_buckets_total:
  assumes "- (2 ^ 63) \<le> w_from w" and "w_until w < 2 ^ 63"
  shows "\<exists>bs. window_buckets ch w p = Some bs"
  using assms by (rule window_buckets_returns) blast

end

text \<open>
  A series partition has one row per bucket of its span, each as wide as the
  declared columns and opened by the bucket's key; a bucket that holds no instant of the
  archive's extent, or that has not begun, is null in every figure, and any other cell
  is the figure the family reports over the bucket.
\<close>

theorem partition_rows_withhold:
  assumes "compute_partition ch hash dt rep r b cov now = Some (Some p)"
    and "\<And>e l. cov_earliest cov = Some e \<Longrightarrow> cov_latest cov = Some l \<Longrightarrow> e \<le> l"
  shows "\<exists>rows names. rows_of ch r (pt_period p) = Some rows \<and>
    length (sp_columns (pt_payload p)) = Suc (length names) \<and>
    list_all2 (\<lambda>(key, slot) row. w_from slot < w_until slot \<longrightarrow>
      row = J_String key # map (\<lambda>name.
        if now \<le> w_from slot \<or> (\<nexists>t. window_contains slot t \<and> in_extent cov t) then J_Null
        else map_or J_Null (\<lambda>m. cell (m_value m)) (measure_metric dt slot now name)) names)
      rows (sp_rows (pt_payload p))"
proof -
  obtain f slot rows where f: "family_of rep = Some f" and slot: "partition_new r b = Some slot"
    and rows: "rows_of ch r (partition_window ch slot) = Some rows"
    and p: "pt_period p = partition_window ch slot"
      "sp_columns (pt_payload p) = date_column #
        map (column_of f dt (partition_window ch slot) now) (catalogue_of f dt (partition_window ch slot) now)"
      "sp_rows (pt_payload p) = map (\<lambda>(key, s). J_String key #
        map (row_cell dt cov now s) (catalogue_of f dt (partition_window ch slot) now)) rows"
    using assms(1) by (auto simp: compute_partition_def Let_def split: option.splits if_splits)
  let ?names = "catalogue_of f dt (partition_window ch slot) now"
  have "row_cell dt cov now s name =
      (if now \<le> w_from s \<or> (\<nexists>t. window_contains s t \<and> in_extent cov t) then J_Null
       else map_or J_Null (\<lambda>m. cell (m_value m)) (measure_metric dt s now name))"
    if "w_from s < w_until s" for s name
    using covers_iff_overlap [OF that assms(2)] by (auto simp: row_cell_def)
  then have "list_all2 (\<lambda>(key, slot) row. w_from slot < w_until slot \<longrightarrow>
      row = J_String key # map (\<lambda>name.
        if now \<le> w_from slot \<or> (\<nexists>t. window_contains slot t \<and> in_extent cov t) then J_Null
        else map_or J_Null (\<lambda>m. cell (m_value m)) (measure_metric dt slot now name)) ?names)
      rows (sp_rows (pt_payload p))"
    unfolding p by (auto simp: list_all2_conv_all_nth split: prod.splits)
  with rows p show ?thesis by (intro exI [of _ rows] exI [of _ ?names]) simp
qed

lemma example_partition:
  "\<exists>p. compute_partition gregorian hash example_data Report_Orders Monthly (Bucket_Year (Year 2025))
     (coverage_between 1754006400 1756684800) 1760000000 = Some (Some p)"
proof -
  have new: "partition_new Monthly (Bucket_Year (Year 2025)) = Some (Partition Monthly (Bucket_Year (Year 2025)))"
    by (simp add: partition_new_def)
  have w: "partition_window gregorian (Partition Monthly (Bucket_Year (Year 2025))) = Window 1735689600 1767225600"
    by code_simp
  have "\<exists>bs. window_buckets gregorian (Window 1735689600 1767225600) Month_Period = Some bs"
    by (intro greg.window_buckets_total) simp_all
  then show ?thesis
    by (auto simp: compute_partition_def new w rows_of_def Let_def covers_def coverage_between_def)
qed

theorem partition_rows_withhold_witness:
  "\<exists>p rows. compute_partition gregorian (\<lambda>_. ''h'') example_data Report_Orders Monthly (Bucket_Year (Year 2025))
       (coverage_between 1754006400 1756684800) 1760000000 = Some (Some p) \<and>
     rows_of gregorian Monthly (pt_period p) = Some rows \<and> length (sp_rows (pt_payload p)) = length rows"
proof -
  obtain p where p: "compute_partition gregorian (\<lambda>_. ''h'') example_data Report_Orders Monthly
      (Bucket_Year (Year 2025)) (coverage_between 1754006400 1756684800) 1760000000 = Some (Some p)"
    using example_partition by blast
  have "e \<le> l" if "cov_earliest (coverage_between 1754006400 1756684800) = Some e"
    "cov_latest (coverage_between 1754006400 1756684800) = Some l" for e l
    using that by (simp add: coverage_between_def)
  from partition_rows_withhold [OF p this] p show ?thesis by (auto dest: list_all2_lengthD)
qed

end
