(* ===== verification/Index.thy ===== *)
theory Index
  imports Restatement
begin

text \<open>
  The index (\<open>crates/stats/src/publish/index.rs\<close>) and the size gate
  (\<open>crates/stats/src/publish/size.rs\<close>). The bytes of a document are
  \<open>serde_json::to_string\<close> of it, a parameter \<open>json\<close> of the definitions that weigh
  one.
\<close>

section \<open>The index\<close>

record publisher =
  pub_name :: str
  pub_version :: str

record extent =
  ext_first_event_at :: "str option"
  ext_last_event_at :: "str option"

record available =
  av_from :: str
  av_until :: str

record entry =
  e_d :: str
  e_hash :: str
  e_revision :: nat
  e_updated_at :: str
  e_restated_at :: "str option"
  e_restated_because :: "str option"

record index =
  ix_schema_version :: nat
  ix_snapshot_id :: str
  ix_generated_at :: str
  ix_publisher :: publisher
  ix_coverage :: extent
  ix_resolutions :: "(str, available) btree"
  ix_documents :: "entry list"

definition index_address :: "index \<Rightarrow> address" where
  "index_address ix = Addr_Index None"

definition entry_of :: "chrono \<Rightarrow> 'p document \<Rightarrow> entry" where
  "entry_of ch d =
     \<lparr>e_d = doc_d d, e_hash = doc_hash d, e_revision = env_revision (doc_envelope d),
      e_updated_at = rfc3339 ch (doc_updated_at d),
      e_restated_at = env_restated_at (doc_envelope d),
      e_restated_because = env_restated_because (doc_envelope d)\<rparr>"

definition span_key :: "str \<Rightarrow> available option \<Rightarrow> available" where
  "span_key key old =
     (case old of
        None \<Rightarrow> \<lparr>av_from = key, av_until = key\<rparr>
      | Some sp \<Rightarrow> \<lparr>av_from = min (av_from sp) key, av_until = max (av_until sp) key\<rparr>)"

definition resolutions :: "'p document list \<Rightarrow> (str, available) btree" where
  "resolutions documents =
     foldl (\<lambda>spans d. case doc_address d of
         Addr_Series _ part _ \<Rightarrow>
           bt_upd (resolution_as_str (part_resolution part))
             (span_key (bucket_display (part_bucket part))) spans
       | _ \<Rightarrow> spans) [] documents"

definition snapshot_index :: "chrono \<Rightarrow> 'p pub_snapshot \<Rightarrow> publisher \<Rightarrow> index" where
  "snapshot_index ch s publisher =
     \<lparr>ix_schema_version = SCHEMA_VERSION, ix_snapshot_id = snapshot_id (snap_run s),
      ix_generated_at = rfc3339 ch (generated_at (snap_run s)), ix_publisher = publisher,
      ix_coverage =
        \<lparr>ext_first_event_at = map_option (rfc3339 ch) (cov_earliest (snap_coverage s)),
         ext_last_event_at = map_option (rfc3339 ch) (cov_latest (snap_coverage s))\<rparr>,
      ix_resolutions = resolutions (snap_documents s),
      ix_documents = map (entry_of ch) (snap_documents s)\<rparr>"

section \<open>The size gate\<close>

definition DEFAULT_MAX_CONTENT_BYTES :: nat where
  "DEFAULT_MAX_CONTENT_BYTES = 64 * 1024"

record ceiling =
  ceil_bytes :: nat
  ceil_relay :: "str option"

definition ceiling_configured :: "nat \<Rightarrow> ceiling" where
  "ceiling_configured bytes = \<lparr>ceil_bytes = bytes, ceil_relay = None\<rparr>"

definition and_relay :: "ceiling \<Rightarrow> str \<Rightarrow> nat \<Rightarrow> ceiling" where
  "and_relay c relay advertised =
     (if advertised < ceil_bytes c
      then \<lparr>ceil_bytes = advertised, ceil_relay = Some relay\<rparr>
      else c)"

record measured =
  ms_address :: address
  ms_bytes :: nat
  ms_hash :: "str option"

definition measure_documents :: "('p envelope \<Rightarrow> str) \<Rightarrow> 'p document list \<Rightarrow> measured list" where
  "measure_documents json documents =
     map (\<lambda>d. \<lparr>ms_address = doc_address d, ms_bytes = length (json (doc_envelope d)),
       ms_hash = Some (doc_hash d)\<rparr>) documents"

definition measure_index :: "(index \<Rightarrow> str) \<Rightarrow> index \<Rightarrow> measured" where
  "measure_index json ix =
     \<lparr>ms_address = index_address ix, ms_bytes = length (json ix), ms_hash = None\<rparr>"

definition over :: "measured list \<Rightarrow> ceiling \<Rightarrow> measured list" where
  "over ms c = filter (\<lambda>m. ms_bytes m > ceil_bytes c) ms"

section \<open>Keys as text are keys as dates\<close>

lemma list_less_append:
  fixes a b c d :: "'a::linorder list"
  assumes "length a = length b"
  shows "a @ c \<le> b @ d \<longleftrightarrow> a < b \<or> a = b \<and> c \<le> d"
  using assms
proof (induction a b rule: list_induct2)
  case (Cons x xs y ys)
  then show ?case by (cases "x = y") (auto simp: less_le_not_le)
qed simp

lemma digit_le: "is_ascii_digit c \<Longrightarrow> is_ascii_digit d \<Longrightarrow> c \<le> d \<longleftrightarrow> char_digit c \<le> char_digit d"
  by (auto simp: is_ascii_digit_iff char_digit_def less_eq_char_def)

lemma digits_le:
  assumes "length s = length t" and "\<forall>c \<in> set s. is_ascii_digit c" and "\<forall>c \<in> set t. is_ascii_digit c"
  shows "s \<le> t \<longleftrightarrow> parse_digits s \<le> parse_digits t"
  using assms
proof (induction s arbitrary: t rule: rev_induct)
  case (snoc c s)
  then obtain t' d where t: "t = t' @ [d]" by (cases t rule: rev_cases) auto
  have c: "char_digit c < 10" and d: "char_digit d < 10" and cd: "c \<le> d \<longleftrightarrow> char_digit c \<le> char_digit d"
    using snoc.prems t by (simp_all add: char_digit_less digit_le)
  have le: "s \<le> t' \<longleftrightarrow> parse_digits s \<le> parse_digits t'"
    and eq: "s = t' \<longleftrightarrow> parse_digits s = parse_digits t'"
    using snoc t parse_digits_inj [of s t'] by auto
  have "s @ [c] \<le> t \<longleftrightarrow> s < t' \<or> s = t' \<and> c \<le> d"
    using snoc.prems(1) t by (auto simp: list_less_append)
  also have "\<dots> \<longleftrightarrow> parse_digits s < parse_digits t' \<or>
      parse_digits s = parse_digits t' \<and> char_digit c \<le> char_digit d"
    using le eq cd by (auto simp: order.strict_iff_order)
  also have "\<dots> \<longleftrightarrow> 10 * parse_digits s + char_digit c \<le> 10 * parse_digits t' + char_digit d"
    using c d by arith
  finally show ?case using t by simp
qed simp

lemma show_pad_le:
  assumes "length (show_pad w m) = length (show_pad w n)"
  shows "show_pad w m \<le> show_pad w n \<longleftrightarrow> m \<le> n"
  using digits_le [OF assms show_pad_digits show_pad_digits] by simp

text \<open>The first month of a bucket, and whether it is a month or a year.\<close>

fun bucket_first :: "bucket \<Rightarrow> int \<times> nat" where
  "bucket_first (Bucket_Month y m) = (year_get y, month_get m)"
| "bucket_first (Bucket_Year y) = (year_get y, 1)"

lemma year_display_le:
  assumes "year_ok y" and "year_ok y'"
  shows "year_display y \<le> year_display y' \<longleftrightarrow> year_get y \<le> year_get y'"
    and "length (year_display y) = 4"
    and "year_display y = year_display y' \<longleftrightarrow> year_get y = year_get y'"
proof -
  have len: "length (year_display y) = 4" if "year_ok y" for y
    using that by (cases y) (auto simp: year_display_def year_ok_def year_new_def intro!: length_show_pad)
  then show "length (year_display y) = 4" using assms by simp
  have pos: "0 \<le> year_get y" "0 \<le> year_get y'"
    using assms by (cases y; simp add: year_ok_def year_new_def)
      (use assms in \<open>cases y'; simp add: year_ok_def year_new_def\<close>)
  have "length (year_display y) = length (year_display y')" using len assms by simp
  then show le: "year_display y \<le> year_display y' \<longleftrightarrow> year_get y \<le> year_get y'"
    unfolding year_display_def using pos by (simp add: show_pad_le nat_le_eq_zle)
  have "parse_digits (year_display x) = nat (year_get x)" for x by (simp add: year_display_def)
  then show "year_display y = year_display y' \<longleftrightarrow> year_get y = year_get y'"
    using pos by (metis eq_nat_nat_iff year_display_def)
qed

lemma month_display_le:
  assumes "month_ok m" and "month_ok m'"
  shows "month_display m \<le> month_display m' \<longleftrightarrow> month_get m \<le> month_get m'"
proof -
  have len: "length (month_display m) = 2" if "month_ok m" for m
    using that by (cases m) (simp add: month_display_def month_ok_def month_new_def length_show_pad)
  then have "length (month_display m) = length (month_display m')" using assms by simp
  then show ?thesis unfolding month_display_def by (simp add: show_pad_le)
qed

lemma bucket_display_le:
  assumes "bucket_ok b" and "bucket_ok b'" and "bucket_fits b r" and "bucket_fits b' r"
  shows "bucket_display b \<le> bucket_display b' \<longleftrightarrow>
    ym_le (fst (bucket_first b)) (snd (bucket_first b)) (fst (bucket_first b')) (snd (bucket_first b'))"
proof (cases b; cases b')
  fix y m y' m'
  assume b: "b = Bucket_Month y m" "b' = Bucket_Month y' m'"
  then have ok: "year_ok y" "year_ok y'" "month_ok m" "month_ok m'" using assms by simp_all
  have "year_display y @ ''-'' @ month_display m \<le> year_display y' @ ''-'' @ month_display m' \<longleftrightarrow>
      year_display y < year_display y' \<or> year_display y = year_display y' \<and> month_display m \<le> month_display m'"
    using year_display_le(2) [OF ok(1,1)] year_display_le(2) [OF ok(2,2)] by (simp add: list_less_append)
  then show ?thesis
    using b year_display_le(1,3) [OF ok(1,2)] month_display_le [OF ok(3,4)]
    by (auto simp: ym_le_def order.strict_iff_order)
next
  fix y y'
  assume "b = Bucket_Year y" "b' = Bucket_Year y'"
  then show ?thesis using assms year_display_le(1) [of y y'] by (auto simp: ym_le_def)
qed (use assms in auto)

context chrono_laws
begin

lemma bucket_from_le:
  assumes "bucket_ok b" and "bucket_ok b'" and "bucket_fits b r" and "bucket_fits b' r"
  shows "w_from (bucket_window ch b) \<le> w_from (bucket_window ch b') \<longleftrightarrow>
    bucket_display b \<le> bucket_display b'"
proof -
  have "\<exists>s. with_ymd ch (fst (bucket_first x)) (snd (bucket_first x)) 1 = Some s
      \<and> w_from (bucket_window ch x) = s" if "bucket_ok x" for x
  proof -
    have "1 \<le> snd (bucket_first x) \<and> snd (bucket_first x) \<le> 12 \<and>
        0 \<le> fst (bucket_first x) \<and> fst (bucket_first x) \<le> 10000"
      using that by (cases x)
        (auto simp: year_ok_def year_new_def month_ok_def month_new_def)
    then have "\<exists>s. with_ymd ch (fst (bucket_first x)) (snd (bucket_first x)) 1 = Some s"
      by (intro ymd_exists) auto
    then show ?thesis by (cases x) (auto simp: first_instant_def)
  qed
  then have "with_ymd ch (fst (bucket_first x)) (snd (bucket_first x)) 1 = Some (w_from (bucket_window ch x))"
    if "bucket_ok x" for x using that by blast
  from ymd_mono [OF this [OF assms(1)] this [OF assms(2)]] bucket_display_le [OF assms]
  show ?thesis by simp
qed

end

section \<open>What the index promises\<close>

text \<open>The buckets of the published partitions at one resolution.\<close>

definition published_buckets :: "resolution \<Rightarrow> 'p document list \<Rightarrow> bucket list" where
  "published_buckets r documents =
     filter_map (\<lambda>d. case doc_address d of
         Addr_Series _ part _ \<Rightarrow> then_some (part_resolution part = r) (part_bucket part)
       | _ \<Rightarrow> None) documents"

lemma resolutions_snoc:
  "resolutions (ds @ [d]) =
    (case doc_address d of
       Addr_Series _ part _ \<Rightarrow>
         bt_upd (resolution_as_str (part_resolution part))
           (span_key (bucket_display (part_bucket part))) (resolutions ds)
     | _ \<Rightarrow> resolutions ds)"
  by (cases "doc_address d") (simp_all add: resolutions_def)

lemma resolutions_ok: "bt_ok (resolutions ds)"
proof (induction ds rule: rev_induct)
  case Nil
  then show ?case by (simp add: resolutions_def)
next
  case (snoc d ds)
  then show ?case by (simp add: resolutions_snoc bt_ok_upd split: address.splits)
qed

definition key_span :: "str list \<Rightarrow> available option" where
  "key_span ks = (if ks = [] then None else Some \<lparr>av_from = Min (set ks), av_until = Max (set ks)\<rparr>)"

lemma key_span_snoc: "key_span (ks @ [k]) = Some (span_key k (key_span ks))"
  by (simp add: key_span_def span_key_def min.commute max.commute)

lemma resolutions_get:
  "bt_get (resolutions ds) (resolution_as_str r) = key_span (map bucket_display (published_buckets r ds))"
proof (induction ds rule: rev_induct)
  case Nil
  then show ?case by (simp add: resolutions_def published_buckets_def key_span_def)
next
  case (snoc d ds)
  show ?case
  proof (cases "doc_address d")
    case (Addr_Series rep part sc)
    then show ?thesis
      using snoc
      by (auto simp: resolutions_snoc bt_get_upd [OF resolutions_ok] published_buckets_def key_span_snoc
          then_some_def dest: resolution_wire.distinct_names)
  qed (use snoc in \<open>simp_all add: resolutions_snoc published_buckets_def\<close>)
qed

text \<open>
  C39. The index names exactly what was published: every document of the snapshot
  once and in order, and for each resolution with a published partition the
  span from its earliest to its latest one. The bounds are the keys of two
  published partitions, and comparing the keys as text, as the code does, is
  comparing the instants the partitions open at.
\<close>

theorem index_names_what_was_published:
  assumes "chrono_laws ch" and "list_all (\<lambda>d. address_ok (doc_address d)) (snap_documents s)"
  shows "map e_d (ix_documents (snapshot_index ch s pub)) = map doc_d (snap_documents s) \<and>
    (case bt_get (ix_resolutions (snapshot_index ch s pub)) (resolution_as_str r) of
       None \<Rightarrow> published_buckets r (snap_documents s) = []
     | Some sp \<Rightarrow>
         \<exists>b1 b2. {b1, b2} \<subseteq> set (published_buckets r (snap_documents s)) \<and>
           av_from sp = bucket_display b1 \<and> av_until sp = bucket_display b2 \<and>
           list_all (\<lambda>b. w_from (bucket_window ch b1) \<le> w_from (bucket_window ch b) \<and>
             w_from (bucket_window ch b) \<le> w_from (bucket_window ch b2))
             (published_buckets r (snap_documents s)))"
proof -
  let ?bs = "published_buckets r (snap_documents s)"
  have ok: "bucket_ok b \<and> bucket_fits b r" if "b \<in> set ?bs" for b
  proof -
    from that obtain d where "d \<in> set (snap_documents s)" and
      "(case doc_address d of Addr_Series _ part _ \<Rightarrow> then_some (part_resolution part = r) (part_bucket part)
        | _ \<Rightarrow> None) = Some b"
      unfolding published_buckets_def set_filter_map by blast
    then obtain rep part sc where d: "d \<in> set (snap_documents s)"
      "doc_address d = Addr_Series rep part sc" "part_resolution part = r" "b = part_bucket part"
      by (cases "doc_address d") auto
    with assms(2) have "partition_ok part" by (force simp: list_all_iff)
    with d show ?thesis by (simp add: partition_ok_def partition_new_def)
  qed
  have le: "w_from (bucket_window ch b) \<le> w_from (bucket_window ch b') \<longleftrightarrow>
      bucket_display b \<le> bucket_display b'" if "b \<in> set ?bs" "b' \<in> set ?bs" for b b'
    using ok [OF that(1)] ok [OF that(2)] chrono_laws.bucket_from_le [OF assms(1)] by blast
  have get: "bt_get (ix_resolutions (snapshot_index ch s pub)) (resolution_as_str r) =
      key_span (map bucket_display ?bs)"
    by (simp add: snapshot_index_def resolutions_get)
  have "\<exists>b1 b2. {b1, b2} \<subseteq> set ?bs \<and>
      key_span (map bucket_display ?bs) = Some \<lparr>av_from = bucket_display b1, av_until = bucket_display b2\<rparr> \<and>
      list_all (\<lambda>b. w_from (bucket_window ch b1) \<le> w_from (bucket_window ch b) \<and>
             w_from (bucket_window ch b) \<le> w_from (bucket_window ch b2)) ?bs" if "?bs \<noteq> []"
  proof -
    have "Min (bucket_display ` set ?bs) \<in> bucket_display ` set ?bs"
      and "Max (bucket_display ` set ?bs) \<in> bucket_display ` set ?bs" using that by simp_all
    then obtain b1 b2 where b: "b1 \<in> set ?bs" "Min (bucket_display ` set ?bs) = bucket_display b1"
      "b2 \<in> set ?bs" "Max (bucket_display ` set ?bs) = bucket_display b2" by auto
    then have "bucket_display b1 \<le> bucket_display x \<and> bucket_display x \<le> bucket_display b2"
      if "x \<in> set ?bs" for x
      using that by (metis Max_ge Min_le finite_imageI finite_set imageI)
    with b le that show ?thesis
      by (intro exI [of _ b1] exI [of _ b2]) (simp add: key_span_def list_all_iff)
  qed
  then have "case key_span (map bucket_display ?bs) of
       None \<Rightarrow> ?bs = []
     | Some sp \<Rightarrow>
         \<exists>b1 b2. {b1, b2} \<subseteq> set ?bs \<and> av_from sp = bucket_display b1 \<and> av_until sp = bucket_display b2 \<and>
           list_all (\<lambda>b. w_from (bucket_window ch b1) \<le> w_from (bucket_window ch b) \<and>
             w_from (bucket_window ch b) \<le> w_from (bucket_window ch b2)) ?bs"
    by (cases "?bs = []") (simp add: key_span_def, fastforce)
  moreover have "map e_d (ix_documents (snapshot_index ch s pub)) = map doc_d (snap_documents s)"
    by (simp add: snapshot_index_def entry_of_def)
  ultimately show ?thesis unfolding get by blast
qed

text \<open>
  The size gate weighs every document against the smallest limit: folding the
  relays that advertise one into the configured ceiling gives the minimum of them
  all, named after a relay exactly when one is below the configuration, and no
  document is over it exactly when every document fits under every limit.
\<close>

theorem ceiling_is_smallest_limit:
  "let c = foldl (\<lambda>c (relay, limit). and_relay c relay limit) (ceiling_configured own) relays in
   ceil_bytes c = Min (insert own (snd ` set relays)) \<and>
   (ceil_relay c = None \<longleftrightarrow> list_all (\<lambda>(_, limit). own \<le> limit) relays) \<and>
   (over ms c = [] \<longleftrightarrow>
     list_all (\<lambda>m. ms_bytes m \<le> own \<and> list_all (\<lambda>(_, limit). ms_bytes m \<le> limit) relays) ms)"
proof -
  let ?c = "foldl (\<lambda>c (relay, limit). and_relay c relay limit) (ceiling_configured own) relays"
  have "ceil_bytes ?c = Min (insert own (snd ` set relays)) \<and>
      (ceil_relay ?c = None \<longleftrightarrow> (\<forall>limit \<in> snd ` set relays. own \<le> limit))"
  proof (induction relays rule: rev_induct)
    case Nil
    then show ?case by (simp add: ceiling_configured_def)
  next
    case (snoc x xs)
    let ?prior = "foldl (\<lambda>c (relay, limit). and_relay c relay limit) (ceiling_configured own) xs"
    have "insert own (snd ` set (xs @ [x])) = insert (snd x) (insert own (snd ` set xs))" by auto
    then have "Min (insert own (snd ` set (xs @ [x]))) = min (snd x) (Min (insert own (snd ` set xs)))"
      by (simp add: min.assoc min.left_commute)
    moreover have "Min (insert own (snd ` set xs)) \<le> own" by simp
    moreover have "Min (insert own (snd ` set xs)) = own" if "\<forall>limit \<in> snd ` set xs. own \<le> limit"
      using that by (intro Min_eqI) auto
    moreover have "foldl (\<lambda>c (relay, limit). and_relay c relay limit) (ceiling_configured own) (xs @ [x]) =
        (if snd x < ceil_bytes ?prior then \<lparr>ceil_bytes = snd x, ceil_relay = Some (fst x)\<rparr> else ?prior)"
      by (simp add: and_relay_def split_beta)
    ultimately show ?case
      using snoc by (cases "snd x < ceil_bytes ?prior") auto
  qed
  moreover have "over ms ?c = [] \<longleftrightarrow> (\<forall>m \<in> set ms. ms_bytes m \<le> Min (insert own (snd ` set relays)))"
    using calculation by (auto simp: over_def filter_empty_conv not_less)
  ultimately show ?thesis by (simp add: Let_def list_all_iff split_beta)
qed

theorem index_names_what_was_published_witness:
  "case bt_get (ix_resolutions (snapshot_index gregorian (example_snapshot 1772323200 ''h'')
       \<lparr>pub_name = ''bestiario'', pub_version = ''1''\<rparr>)) (resolution_as_str Daily) of
     None \<Rightarrow> False
   | Some sp \<Rightarrow> av_from sp = ''2026-02'' \<and> av_until sp = ''2026-02''"
proof -
  have ok: "list_all (\<lambda>d. address_ok (doc_address d)) (snap_documents (example_snapshot 1772323200 ''h''))"
    by (simp add: example_document_def partition_ok_def partition_new_def year_ok_def year_new_def
        month_ok_def month_new_def)
  have b: "published_buckets Daily (snap_documents (example_snapshot 1772323200 ''h'')) =
      [Bucket_Month (Year 2026) (Month 2)]"
    by (simp add: published_buckets_def example_document_def)
  have k: "bucket_display (Bucket_Month (Year 2026) (Month 2)) = ''2026-02''" by code_simp
  from index_names_what_was_published [OF greg.chrono_laws_axioms ok,
      of "\<lparr>pub_name = ''bestiario'', pub_version = ''1''\<rparr>" Daily]
  show ?thesis unfolding b by (simp add: k del: bucket_display.simps split: option.splits)
qed

end
