(* ===== verification/Computed.thy ===== *)
theory Computed
  imports Snapshot Index
begin

text \<open>
  What \<open>Snapshot::compute\<close> returns: every loop ends, and the documents are exactly
  the addresses the vocabulary and the archive's extent call for, each once, at its
  first revision and hashed over its own payload.
\<close>

section \<open>Traversals\<close>

lemma opt_traverse_total:
  assumes "\<And>x. x \<in> set xs \<Longrightarrow> \<exists>y. f x = Some y \<and> P x y"
  shows "\<exists>ys. opt_traverse f xs = Some ys \<and> list_all2 P xs ys"
  using assms
proof (induction xs)
  case (Cons x xs)
  then obtain ys where "opt_traverse f xs = Some ys" "list_all2 P xs ys" by auto
  moreover obtain y where "f x = Some y" "P x y" using Cons.prems [of x] by auto
  ultimately show ?case by auto
qed simp

lemma list_all2_concat_map:
  "list_all2 (\<lambda>x ys. map f ys = g x) xs yss \<Longrightarrow> map f (concat yss) = concat (map g xs)"
  by (induction rule: list_all2_induct) simp_all

lemma list_all2_rightD: "list_all2 P xs ys \<Longrightarrow> y \<in> set ys \<Longrightarrow> \<exists>x \<in> set xs. P x y"
  by (induction rule: list_all2_induct) auto

lemma list_all2_conjD:
  "list_all2 (\<lambda>x y. P x y \<and> Q x y) xs ys \<Longrightarrow> list_all2 P xs ys \<and> list_all2 Q xs ys"
  by (auto intro: list_all2_mono)

lemma distinct_concat_by:
  assumes "distinct ks" and "\<And>k. k \<in> set ks \<Longrightarrow> distinct (f k)"
    and "\<And>k x. k \<in> set ks \<Longrightarrow> x \<in> set (f k) \<Longrightarrow> g x = k"
  shows "distinct (concat (map f ks))"
  using assms
proof (induction ks)
  case (Cons k ks)
  have "g x = k" if "x \<in> set (f k)" for x using Cons.prems(3) that by simp
  moreover have "g x \<in> set ks" if "x \<in> set (concat (map f ks))" for x
    using Cons.prems(3) that by auto
  ultimately have "set (f k) \<inter> set (concat (map f ks)) = {}" using Cons.prems(1) by auto
  moreover have "distinct (concat (map f ks))" using Cons by (intro Cons.IH) simp_all
  ultimately show ?case using Cons.prems(2) by simp
qed simp

section \<open>The weeks of a partition\<close>

context chrono_laws
begin

lemma weeks_loop_total:
  assumes "in_i64 monday" and "in_i64 until"
  shows "\<exists>ws. weeks_loop ch until monday acc = Some ws"
  using assms(1)
proof (induction "nat (until - monday)" arbitrary: monday acc rule: less_induct)
  case less
  show ?case
  proof (cases "monday < until")
    case True
    let ?next = "saturating_add_i64 monday WEEK"
    have gt: "monday < ?next"
      using True less.prems assms(2) by (simp add: saturating_add_i64_def WEEK_def in_i64_def)
    have "in_i64 ?next" by simp
    then obtain named where "window_weeks ch (Window monday ?next) = Some named"
      using less.prems window_buckets_total [of "Window monday ?next" Week]
      by (auto simp: window_weeks_def in_i64_def i64_bounds)
    moreover have "\<exists>ws. weeks_loop ch until ?next acc' = Some ws" for acc'
      using gt True by (intro less.hyps) simp_all
    ultimately show ?thesis using True by (subst weeks_loop.simps) (simp add: Let_def)
  qed (subst weeks_loop.simps, simp)
qed

lemma rows_of_total:
  assumes "in_i64 (w_from w)" and "in_i64 (w_until w)"
  shows "\<exists>rows. rows_of ch r w = Some rows"
proof -
  have "\<exists>bs. window_buckets ch w p = Some bs" for p
    using assms by (intro window_buckets_total) (simp_all add: in_i64_def i64_bounds)
  moreover have "\<exists>ws. weeks_of ch w = Some ws"
    using assms weeks_loop_total by (simp add: weeks_of_def Let_def monday_of_def)
  ultimately show ?thesis by (cases r) (simp_all add: rows_of_def)
qed

lemma valid_in_i64: "dt_valid ch t \<Longrightarrow> in_i64 t"
  using range_i64 by (simp add: dt_valid_def in_i64_def i64_bounds)

end

section \<open>The shape of a document\<close>

definition document_fresh :: "chrono \<Rightarrow> ('p \<Rightarrow> str) \<Rightarrow> run \<Rightarrow> 'p document \<Rightarrow> bool" where
  "document_fresh ch hash r d \<longleftrightarrow>
     doc_envelope d = envelope_first ch r (env_payload (doc_envelope d)) \<and>
     doc_hash d = hash (env_payload (doc_envelope d)) \<and> doc_updated_at d = generated_at r \<and>
     doc_period d = (case doc_address d of
         Addr_Series _ part _ \<Rightarrow> Some (partition_window ch part) | _ \<Rightarrow> None)"

text \<open>An extent the archive can have: instants the calendar knows, in order.\<close>

definition extent_ok :: "chrono \<Rightarrow> coverage \<Rightarrow> bool" where
  "extent_ok ch cov \<longleftrightarrow>
     (case cov_earliest cov of
        None \<Rightarrow> True
      | Some e \<Rightarrow> dt_valid ch e \<and> is_none_or (cov_latest cov) (\<lambda>l. dt_valid ch l \<and> e \<le> l))"

definition extent_reaches :: "chrono \<Rightarrow> coverage \<Rightarrow> i64 \<Rightarrow> resolution \<Rightarrow> bucket \<Rightarrow> bool" where
  "extent_reaches ch cov now r b \<longleftrightarrow> bucket_ok b \<and> bucket_fits b r \<and>
     (\<exists>t. window_contains (bucket_window ch b) t \<and> in_extent cov t \<and> t \<le> now)"

lemma extent_reaches_covers: "extent_reaches ch cov now r b \<Longrightarrow> covers cov (bucket_window ch b)"
  by (auto simp: extent_reaches_def covers_def in_extent_def window_contains_def is_some_and_def is_none_or_def
      split: option.splits)

context chrono_laws
begin

lemma coverage_partitions_reached:
  assumes "extent_ok ch cov" and "dt_valid ch now"
  shows "\<exists>bs. coverage_partitions ch cov r now = Some bs \<and> distinct bs \<and>
    (\<forall>b. b \<in> set bs \<longleftrightarrow> extent_reaches ch cov now r b)"
proof (cases "opt_filter (\<lambda>e. e \<le> now) (cov_earliest cov)")
  case None
  then have "\<not> extent_reaches ch cov now r b" for b
    by (auto simp: extent_reaches_def in_extent_def is_some_and_def opt_filter_def split: option.splits if_splits)
  with None show ?thesis by (simp add: coverage_partitions_def)
next
  case (Some e)
  then have e: "cov_earliest cov = Some e" "e \<le> now" by (auto simp: opt_filter_def split: option.splits if_splits)
  have "dt_valid ch e" "dt_valid ch (extent_until cov now)" "e \<le> extent_until cov now"
    using assms e by (cases "cov_latest cov"; simp add: extent_ok_def extent_until_def min_def)+
  moreover have "(\<exists>t. e \<le> t \<and> t \<le> extent_until cov now \<and> window_contains w t) \<longleftrightarrow>
      (\<exists>t. window_contains w t \<and> in_extent cov t \<and> t \<le> now)" for w
    using e by (cases "cov_latest cov") (auto simp: extent_until_def in_extent_def)
  ultimately show ?thesis
    using partitions_exact [OF e, of r] by (simp add: extent_reaches_def)
qed

lemma compute_partition_listed:
  assumes "family_of rep = Some f" and "extent_reaches ch cov now r b"
  shows "\<exists>pl. compute_partition ch hash dt rep r b cov now =
    Some (Some \<lparr>pt_address = Addr_Series rep (Partition r b) None, pt_period = bucket_window ch b,
      pt_payload = pl, pt_hash = hash (P_Series pl)\<rparr>)"
proof -
  have b: "bucket_ok b" "bucket_fits b r" using assms(2) by (simp_all add: extent_reaches_def)
  obtain rows where "rows_of ch r (bucket_window ch b) = Some rows"
    using rows_of_total valid_in_i64 bucket_window_valid [OF b(1)] by blast
  with assms(1) b extent_reaches_covers [OF assms(2)] show ?thesis
    by (simp add: compute_partition_def partition_new_def partition_window_def Let_def)
qed

lemma filter_map_Some: "filter_map (\<lambda>x. x) (map Some xs) = xs"
  by (induction xs) simp_all

lemma series_documents_shape:
  assumes "family_of rep = Some f" and "extent_ok ch cov" and "dt_valid ch now" and "generated_at r = now"
  shows "\<exists>ds bs. series_documents ch hash r dt cov now rep res = Some ds \<and> distinct bs \<and>
    (\<forall>b. b \<in> set bs \<longleftrightarrow> extent_reaches ch cov now res b) \<and>
    map doc_address ds = map (\<lambda>b. Addr_Series rep (Partition res b) None) bs \<and>
    list_all (document_fresh ch hash r) ds"
proof -
  obtain bs where bs: "coverage_partitions ch cov res now = Some bs" "distinct bs"
    "\<forall>b. b \<in> set bs \<longleftrightarrow> extent_reaches ch cov now res b"
    using coverage_partitions_reached [OF assms(2,3)] by blast
  let ?P = "\<lambda>b x. \<exists>pl. x = Some \<lparr>pt_address = Addr_Series rep (Partition res b) None,
      pt_period = bucket_window ch b, pt_payload = pl, pt_hash = hash (P_Series pl)\<rparr>"
  obtain ps where ps: "opt_traverse (\<lambda>b. compute_partition ch hash dt rep res b cov now) bs = Some ps"
    "list_all2 ?P bs ps"
    using opt_traverse_total [of bs "\<lambda>b. compute_partition ch hash dt rep res b cov now" ?P]
      compute_partition_listed [OF assms(1)] bs(3) by blast
  let ?ds = "map (partition_document ch r now) (filter_map (\<lambda>x. x) ps)"
  have "map doc_address ?ds = map (\<lambda>b. Addr_Series rep (Partition res b) None) bs \<and>
      list_all (document_fresh ch hash r) ?ds"
    using ps(2)
    by (induction rule: list_all2_induct)
      (auto simp: partition_document_def document_fresh_def partition_window_def assms(4))
  with bs ps(1) show ?thesis by (auto simp: series_documents_def)
qed

end


section \<open>The whole snapshot\<close>

text \<open>The addresses a snapshot is made of.\<close>

definition snapshot_addresses :: "chrono \<Rightarrow> coverage \<Rightarrow> i64 \<Rightarrow> profile list \<Rightarrow> address set" where
  "snapshot_addresses ch cov now profiles =
     {Addr_Window rep sp None | rep sp. True} \<union>
     {Addr_Series rep (Partition r b) None | rep r b. family_of rep \<noteq> None \<and> extent_reaches ch cov now r b} \<union>
     {Addr_Window Report_Orders sp (Some sc) | sp sc. \<exists>p \<in> set profiles. scope_instance (pf_pubkey p) = Some sc}"

lemma window_document_shape [simp]:
  "doc_address (window_document ch hash r cov now rep sc m sp) = Addr_Window rep sp sc"
  "generated_at r = now \<Longrightarrow> document_fresh ch hash r (window_document ch hash r cov now rep sc m sp)"
  by (simp_all add: window_document_def Let_def document_fresh_def)

fun address_report :: "address \<Rightarrow> report" where
  "address_report (Addr_Window rep sp sc) = rep"
| "address_report (Addr_Series rep part sc) = rep"
| "address_report (Addr_Index y) = Report_Summary"

fun address_resolution :: "address \<Rightarrow> resolution" where
  "address_resolution (Addr_Series rep part sc) = part_resolution part"
| "address_resolution _ = Daily"

lemma distinct_vocabulary [simp]: "distinct report_all" "distinct span_all" "distinct resolution_all"
  by (simp_all add: report_all_def span_all_def resolution_all_def)

lemma vocabulary_complete [simp]: "rep \<in> set report_all" "sp \<in> set span_all" "r \<in> set resolution_all"
  by (rule report_wire.complete span_wire.complete resolution_wire.complete)+

context chrono_laws
begin

lemma report_documents_shape:
  assumes "extent_ok ch cov" and "dt_valid ch now" and "generated_at r = now"
  shows "\<exists>ds. report_documents ch hash r dt cov now rep = Some ds \<and> distinct (map doc_address ds) \<and>
    doc_address ` set ds = {Addr_Window rep sp None | sp. True} \<union>
      {Addr_Series rep (Partition res b) None | res b. family_of rep \<noteq> None \<and> extent_reaches ch cov now res b} \<and>
    list_all (document_fresh ch hash r) ds"
proof -
  let ?ws = "map (window_document ch hash r cov now rep None (\<lambda>w. window_metrics ch rep dt w now)) span_all"
  have ws: "doc_address ` set ?ws = {Addr_Window rep sp None | sp. True}" "distinct (map doc_address ?ws)"
    "list_all (document_fresh ch hash r) ?ws"
    using assms(3) by (auto simp: image_image list_all_iff comp_def distinct_map inj_on_def)
  show ?thesis
  proof (cases "family_of rep")
    case None
    with ws show ?thesis by (simp add: report_documents_def)
  next
    case (Some f)
    let ?P = "\<lambda>res ds. distinct (map doc_address ds) \<and> list_all (document_fresh ch hash r) ds \<and>
      doc_address ` set ds = {Addr_Series rep (Partition res b) None | b. extent_reaches ch cov now res b}"
    have "\<exists>ds. series_documents ch hash r dt cov now rep res = Some ds \<and> ?P res ds" for res
    proof -
      obtain ds bs where d: "series_documents ch hash r dt cov now rep res = Some ds" "distinct bs"
        "\<forall>b. b \<in> set bs \<longleftrightarrow> extent_reaches ch cov now res b"
        "map doc_address ds = map (\<lambda>b. Addr_Series rep (Partition res b) None) bs"
        "list_all (document_fresh ch hash r) ds"
        using series_documents_shape [OF Some assms] by blast
      have "doc_address ` set ds = (\<lambda>b. Addr_Series rep (Partition res b) None) ` set bs"
        using d(4) by (metis list.set_map)
      moreover have "distinct (map doc_address ds)" unfolding d(4) by (simp add: distinct_map d(2) inj_on_def)
      ultimately show ?thesis using d by auto
    qed
    then obtain dss where dss: "opt_traverse (series_documents ch hash r dt cov now rep) resolution_all = Some dss"
      "list_all2 ?P resolution_all dss"
      using opt_traverse_total [of resolution_all "series_documents ch hash r dt cov now rep" ?P] by blast
    then obtain d1 d2 d3 where ds: "dss = [d1, d2, d3]" "?P Daily d1" "?P Weekly d2" "?P Monthly d3"
      by (auto simp: resolution_all_def list_all2_Cons1)
    have series: "doc_address ` set (concat dss) =
        {Addr_Series rep (Partition res b) None | res b. extent_reaches ch cov now res b}"
    proof -
      have "doc_address ` set (concat dss) = (\<Union>res. {Addr_Series rep (Partition res b) None | b. extent_reaches ch cov now res b})"
        using ds by (auto simp: image_Un) (metis resolution.exhaust)+
      then show ?thesis by auto
    qed
    have "distinct (map doc_address (concat dss))"
      using ds by (auto simp: set_eq_iff)
    then have "distinct (map doc_address (?ws @ concat dss))" using ws series by auto
    moreover have "list_all (document_fresh ch hash r) (?ws @ concat dss)" using ws ds by auto
    ultimately show ?thesis
      using ws(1) series dss(1) Some by (simp add: report_documents_def image_Un)
  qed
qed

lemma all_reports_shape:
  assumes "extent_ok ch cov" and "dt_valid ch now" and "generated_at r = now"
  shows "\<exists>dss. opt_traverse (report_documents ch hash r dt cov now) report_all = Some dss \<and>
    distinct (map doc_address (concat dss)) \<and>
    doc_address ` set (concat dss) = snapshot_addresses ch cov now [] \<and>
    list_all (document_fresh ch hash r) (concat dss)"
proof -
  let ?A = "\<lambda>rep. {Addr_Window rep sp None | sp. True} \<union>
      {Addr_Series rep (Partition res b) None | res b. family_of rep \<noteq> None \<and> extent_reaches ch cov now res b}"
  have "\<exists>ds. report_documents ch hash r dt cov now rep = Some ds \<and> distinct (map doc_address ds) \<and>
      doc_address ` set ds = ?A rep \<and> list_all (document_fresh ch hash r) ds" for rep
    using report_documents_shape [OF assms] by blast
  then obtain F where F: "\<And>rep. report_documents ch hash r dt cov now rep = Some (F rep)"
    "\<And>rep. distinct (map doc_address (F rep))" "\<And>rep. doc_address ` set (F rep) = ?A rep"
    "\<And>rep. list_all (document_fresh ch hash r) (F rep)"
    by metis
  have "opt_traverse (report_documents ch hash r dt cov now) reps = Some (map F reps)" for reps
    by (induction reps) (simp_all add: F(1))
  moreover have "address_report a = rep" if "a \<in> set (map doc_address (F rep))" for a rep
    using that F(3) [of rep] by auto
  then have "distinct (map doc_address (concat (map F report_all)))"
    unfolding map_concat map_map comp_def
    by (intro distinct_concat_by [where g = address_report]) (auto simp: F(2))
  moreover have "set (concat (map F report_all)) = (\<Union>rep. set (F rep))" using vocabulary_complete(1) by auto
  then have "doc_address ` set (concat (map F report_all)) = (\<Union>rep. ?A rep)"
    by (simp only: image_UN F(3))
  then have "doc_address ` set (concat (map F report_all)) = snapshot_addresses ch cov now []"
    unfolding snapshot_addresses_def by auto
  moreover have "list_all (document_fresh ch hash r) (concat (map F report_all))"
    using F(4) by (auto simp: list_all_iff)
  ultimately show ?thesis by blast
qed

end

lemma scoped_documents_shape:
  assumes "generated_at r = now"
  shows "distinct (map doc_address (scoped_documents ch hash r dt cov now p))"
    "doc_address ` set (scoped_documents ch hash r dt cov now p) =
      {Addr_Window Report_Orders sp (Some sc) | sp sc. scope_instance (pf_pubkey p) = Some sc}"
    "list_all (document_fresh ch hash r) (scoped_documents ch hash r dt cov now p)"
proof -
  have addr: "map doc_address (scoped_documents ch hash r dt cov now p) =
      (case scope_instance (pf_pubkey p) of None \<Rightarrow> []
       | Some sc \<Rightarrow> map (\<lambda>sp. Addr_Window Report_Orders sp (Some sc)) span_all)"
    by (simp add: scoped_documents_def SCOPED_REPORTS_def Let_def comp_def split: option.splits)
  show "distinct (map doc_address (scoped_documents ch hash r dt cov now p))"
    unfolding addr by (simp add: distinct_map inj_on_def split: option.splits)
  have "set (map doc_address (scoped_documents ch hash r dt cov now p)) =
      {Addr_Window Report_Orders sp (Some sc) | sp sc. scope_instance (pf_pubkey p) = Some sc}"
    unfolding addr by (cases "scope_instance (pf_pubkey p)") auto
  then show "doc_address ` set (scoped_documents ch hash r dt cov now p) =
      {Addr_Window Report_Orders sp (Some sc) | sp sc. scope_instance (pf_pubkey p) = Some sc}"
    by simp
  show "list_all (document_fresh ch hash r) (scoped_documents ch hash r dt cov now p)"
    using assms by (auto simp: scoped_documents_def SCOPED_REPORTS_def Let_def list_all_iff split: option.splits)
qed

fun address_instance :: "address \<Rightarrow> str" where
  "address_instance (Addr_Window rep sp (Some (Scope_Instance p))) = p"
| "address_instance _ = []"

lemma all_scoped_shape:
  fixes ch hash dt cov
  assumes "generated_at r = now" and "distinct (map pf_pubkey ps)"
  defines "ds \<equiv> concat (map (scoped_documents ch hash r dt cov now) ps)"
  shows "distinct (map doc_address ds)"
    "doc_address ` set ds = {Addr_Window Report_Orders sp (Some sc) | sp sc.
       \<exists>p \<in> set ps. scope_instance (pf_pubkey p) = Some sc}"
    "list_all (document_fresh ch hash r) ds"
proof -
  note shape = scoped_documents_shape [OF assms(1), of ch hash dt cov]
  have "address_instance a = pf_pubkey p"
    if "a \<in> set (map doc_address (scoped_documents ch hash r dt cov now p))" for a p
    using that shape(2) [of p] by (auto simp: scope_instance_def)
  then have "(THE q. q \<in> set ps \<and> pf_pubkey q = address_instance a) = p"
    if "p \<in> set ps" "a \<in> set (map doc_address (scoped_documents ch hash r dt cov now p))" for a p
    using that assms(2) by (intro the_equality) (auto simp: distinct_map inj_on_def)
  then show "distinct (map doc_address ds)"
    unfolding ds_def map_concat map_map comp_def using assms(2)
    by (intro distinct_concat_by [where g = "\<lambda>a. THE q. q \<in> set ps \<and> pf_pubkey q = address_instance a"])
      (auto simp: shape(1) dest: distinct_map [THEN iffD1, THEN conjunct1])
  show "doc_address ` set ds = {Addr_Window Report_Orders sp (Some sc) | sp sc.
       \<exists>p \<in> set ps. scope_instance (pf_pubkey p) = Some sc}"
    unfolding ds_def using shape(2) by (simp add: image_UN) blast
  show "list_all (document_fresh ch hash r) ds"
    unfolding ds_def using shape(3) by (auto simp: list_all_iff)
qed

lemma snapshot_addresses_ok: "a \<in> snapshot_addresses ch cov now ps \<Longrightarrow> address_ok a"
  by (auto simp: snapshot_addresses_def extent_reaches_def partition_ok_def partition_new_def scope_instance_def)

lemma compute_shape:
  assumes "chrono_laws ch" and "extent_ok ch cov" and "legible ch now" and "distinct (map pf_pubkey (d_profiles dt))"
  shows "\<exists>s. snapshot_compute ch hash dt cov sid now = Some s \<and> snapshot_ok ch s \<and>
    snap_run s = \<lparr>snapshot_id = sid, generated_at = now\<rparr> \<and> snap_coverage s = cov \<and>
    doc_address ` set (snap_documents s) = snapshot_addresses ch cov now (d_profiles dt) \<and>
    list_all (\<lambda>d. address_ok (doc_address d) \<and> document_fresh ch hash (snap_run s) d) (snap_documents s)"
proof -
  let ?r = "\<lparr>snapshot_id = sid, generated_at = now\<rparr>"
  have now: "generated_at ?r = now" "dt_valid ch now" using assms(3) by (simp_all add: legible_def)
  obtain dss where dss: "opt_traverse (report_documents ch hash ?r dt cov now) report_all = Some dss"
    "distinct (map doc_address (concat dss))" "doc_address ` set (concat dss) = snapshot_addresses ch cov now []"
    "list_all (document_fresh ch hash ?r) (concat dss)"
    using chrono_laws.all_reports_shape [OF assms(1,2) now(2,1)] by blast
  let ?sc = "concat (map (scoped_documents ch hash ?r dt cov now) (d_profiles dt))"
  note sc = all_scoped_shape [OF now(1) assms(4), of ch hash dt cov]
  let ?ds = "concat dss @ ?sc"
  have set: "doc_address ` set ?ds = snapshot_addresses ch cov now (d_profiles dt)"
    unfolding set_append image_Un dss(3) sc(2) by (auto simp: snapshot_addresses_def)
  then have ok: "address_ok (doc_address d)" if "d \<in> set ?ds" for d
    using that snapshot_addresses_ok by blast
  have "doc_address ` set (concat dss) \<inter> doc_address ` set ?sc = {}"
    unfolding dss(3) sc(2) by (auto simp: snapshot_addresses_def)
  then have "distinct (map doc_address ?ds)" using dss(2) sc(1) by simp
  then have "distinct (map doc_d ?ds)"
    using ok address_display_inj unfolding distinct_map inj_on_def by metis
  moreover define s where "s = \<lparr>snap_run = ?r, snap_coverage = cov, snap_documents = ?ds\<rparr>"
  then have s: "snap_run s = ?r" "snap_coverage s = cov" "snap_documents s = ?ds" by simp_all
  ultimately have "snapshot_ok ch s" using assms(3) unfolding snapshot_ok_def s by simp
  moreover have "list_all (\<lambda>d. address_ok (doc_address d) \<and> document_fresh ch hash ?r d) ?ds"
    using ok dss(4) sc(3) unfolding list_all_iff by (metis Un_iff set_append)
  moreover have "snapshot_compute ch hash dt cov sid now = Some s"
    using dss(1) by (simp add: snapshot_compute_def Let_def s_def)
  ultimately show ?thesis using set s by metis
qed

text \<open>
  C3. A snapshot is complete and unambiguous: \<open>Snapshot::compute\<close> always returns, and
  publishes exactly the addresses its vocabulary and the archive call for, each once:
  every report over every span, every series partition the archive's extent reaches before
  the clock and no other, and the \<open>orders\<close> windows of every instance whose key is
  well formed. Each document is at its first revision, stamped by the run, hashed over its own
  payload, and carries the span of its partition.
\<close>

theorem snapshot_compute_complete:
  assumes "chrono_laws ch" and "extent_ok ch cov" and "legible ch now" and "distinct (map pf_pubkey (d_profiles dt))"
  shows "\<exists>s. snapshot_compute ch hash dt cov sid now = Some s \<and>
    distinct (map doc_d (snap_documents s)) \<and>
    doc_address ` set (snap_documents s) = snapshot_addresses ch cov now (d_profiles dt) \<and>
    list_all (\<lambda>d. address_parse (doc_d d) = Inr (doc_address d) \<and>
      document_fresh ch hash \<lparr>snapshot_id = sid, generated_at = now\<rparr> d) (snap_documents s)"
  using compute_shape [OF assms, of hash sid] address_parse_display
  by (force simp: snapshot_ok_def list_all_iff)

lemma example_extent: "extent_ok gregorian (coverage_between 1754006400 1756684800)"
  by (simp add: extent_ok_def coverage_between_def dt_valid_def gregorian_def greg_values)

theorem snapshot_compute_complete_witness:
  "\<exists>s. snapshot_compute gregorian (\<lambda>_. ''h'') example_data (coverage_between 1754006400 1756684800) ''x'' 1772323200 =
      Some s \<and> Addr_Window Report_Volume Days30 None \<in> doc_address ` set (snap_documents s)"
  using snapshot_compute_complete [OF greg.chrono_laws_axioms example_extent example_legible,
      of example_data "\<lambda>_. ''h''" "''x''"]
  by (force simp: example_data_def data_default_def snapshot_addresses_def)

end
