(* ===== verification/Csv.thy ===== *)
theory Csv
  imports Texts
begin

text \<open>
  Lists in one text column (\<open>src/db/repo/csv.rs\<close>): \<open>join\<close> quotes a value that reading
  back unquoted would change, \<open>split\<close> is a scan over the characters with the field under
  construction and two flags. \<open>str::trim\<close> is modelled on the UTF-8 bytes of a text.
\<close>

section \<open>Trimming\<close>

text \<open>The code points with Unicode's \<open>White_Space\<close> property, as UTF-8.\<close>

definition white_spaces :: "str list" where
  "white_spaces =
     map (\<lambda>n. [char_of n]) [9, 10, 11, 12, 13, 32 :: nat]
     @ [[CHR 0xC2, CHR 0x85], [CHR 0xC2, CHR 0xA0], [CHR 0xE1, CHR 0x9A, CHR 0x80]]
     @ map (\<lambda>n. [CHR 0xE2, CHR 0x80, char_of n])
         [128, 129, 130, 131, 132, 133, 134, 135, 136, 137, 138, 168, 169, 175 :: nat]
     @ [[CHR 0xE2, CHR 0x81, CHR 0x9F], [CHR 0xE3, CHR 0x80, CHR 0x80]]"

function strip_each :: "str list \<Rightarrow> str \<Rightarrow> str" where
  "strip_each ps s =
     (case List.find (\<lambda>p. p \<noteq> [] \<and> starts_with p s) ps of
        None \<Rightarrow> s
      | Some p \<Rightarrow> strip_each ps (drop (length p) s))"
  by pat_completeness auto

termination
  by (relation "measure (\<lambda>(_, s). length s)")
    (auto simp: find_Some_iff starts_with_def prefix_def)

declare strip_each.simps [simp del]

definition trim :: "str \<Rightarrow> str" where
  "trim s = rev (strip_each (map rev white_spaces) (rev (strip_each white_spaces s)))"

section \<open>Writing a list\<close>

definition COMMA :: char where
  "COMMA = CHR 0x2C"

definition QUOTE :: char where
  "QUOTE = CHR 0x22"

definition needs_quoting :: "str \<Rightarrow> bool" where
  "needs_quoting v \<longleftrightarrow> COMMA \<in> set v \<or> QUOTE \<in> set v \<or> trim v \<noteq> v"

definition double_quotes :: "str \<Rightarrow> str" where
  "double_quotes v = concat (map (\<lambda>c. if c = QUOTE then [QUOTE, QUOTE] else [c]) v)"

definition csv_field :: "str \<Rightarrow> str" where
  "csv_field v = (if needs_quoting v then [QUOTE] @ double_quotes v @ [QUOTE] else v)"

definition csv_join :: "str list \<Rightarrow> str" where
  "csv_join vals = join [COMMA] (map csv_field vals)"

section \<open>Reading it back\<close>

definition csv_push :: "str list \<Rightarrow> str \<Rightarrow> bool \<Rightarrow> str list" where
  "csv_push vals field quoted =
     (let value = (if quoted then field else trim field) in
      if value \<noteq> [] then vals @ [value] else vals)"

fun csv_loop :: "str \<Rightarrow> str list \<Rightarrow> str \<Rightarrow> bool \<Rightarrow> bool \<Rightarrow> str list" where
  "csv_loop [] vals field quoted inside = csv_push vals field quoted"
| "csv_loop (c # cs) vals field quoted inside =
     (if c = QUOTE \<and> inside then
        (if cs \<noteq> [] \<and> hd cs = QUOTE then csv_loop (tl cs) vals (field @ [QUOTE]) quoted inside
         else csv_loop cs vals field quoted False)
      else if c = QUOTE \<and> field = [] \<and> \<not> quoted then csv_loop cs vals field True True
      else if c = COMMA \<and> \<not> inside then csv_loop cs (csv_push vals field quoted) [] False inside
      else csv_loop cs vals (field @ [c]) quoted inside)"

definition csv_split :: "str \<Rightarrow> str list" where
  "csv_split csv = csv_loop csv [] [] False False"

section \<open>The round trip\<close>

lemma csv_loop_plain:
  assumes "COMMA \<notin> set v" and "QUOTE \<notin> set v"
  shows "csv_loop (v @ rest) vals field False False = csv_loop rest vals (field @ v) False False"
  using assms by (induction v arbitrary: field) auto

lemma csv_loop_quoted:
  assumes "rest = [] \<or> hd rest \<noteq> QUOTE"
  shows "csv_loop (double_quotes v @ QUOTE # rest) vals field True True =
    csv_loop rest vals (field @ v) True False"
proof (induction v arbitrary: field)
  case Nil
  with assms show ?case by (cases rest) (simp_all add: double_quotes_def)
next
  case (Cons c v)
  have "csv_loop (double_quotes (c # v) @ QUOTE # rest) vals field True True =
      csv_loop (double_quotes v @ QUOTE # rest) vals (field @ [c]) True True"
    by (simp add: double_quotes_def)
  with Cons show ?case by simp
qed

lemma csv_loop_field:
  assumes "v \<noteq> []" and "rest = [] \<or> hd rest = COMMA"
  shows "csv_loop (csv_field v @ rest) vals [] False False =
    (if rest = [] then vals @ [v] else csv_loop (tl rest) (vals @ [v]) [] False False)"
proof -
  have "COMMA \<noteq> QUOTE" by (simp add: COMMA_def QUOTE_def)
  with assms(2) have rest: "rest = [] \<or> hd rest \<noteq> QUOTE" by auto
  show ?thesis
  proof (cases "needs_quoting v")
    case True
    then have "csv_loop (csv_field v @ rest) vals [] False False =
        csv_loop (double_quotes v @ QUOTE # rest) vals [] True True"
      by (simp add: csv_field_def)
    with csv_loop_quoted [OF rest, of v vals "[]"] assms \<open>COMMA \<noteq> QUOTE\<close> show ?thesis
      by (cases rest) (simp_all add: csv_push_def)
  next
    case False
    then have v: "COMMA \<notin> set v" "QUOTE \<notin> set v" "trim v = v" by (simp_all add: needs_quoting_def)
    with csv_loop_plain [OF v(1,2), of rest vals "[]"] False assms \<open>COMMA \<noteq> QUOTE\<close> show ?thesis
      by (cases rest) (simp_all add: csv_push_def csv_field_def)
  qed
qed

lemma csv_loop_join:
  assumes "list_all (\<lambda>v. v \<noteq> []) (v # vs)"
  shows "csv_loop (join [COMMA] (map csv_field (v # vs))) vals [] False False = vals @ v # vs"
  using assms
proof (induction vs arbitrary: v vals)
  case Nil
  then show ?case using csv_loop_field [of v "[]" vals] by simp
next
  case (Cons u us)
  then show ?case
    using csv_loop_field [of v "COMMA # join [COMMA] (map csv_field (u # us))" vals] Cons.IH [of u "vals @ [v]"]
    by simp
qed

lemma csv_split_join: "list_all (\<lambda>v. v \<noteq> []) vals \<Longrightarrow> csv_split (csv_join vals) = vals"
proof (cases vals)
  case Nil
  then show ?thesis by (simp add: csv_split_def csv_join_def csv_push_def trim_def strip_each.simps starts_with_def
      white_spaces_def)
next
  case (Cons v vs)
  moreover assume "list_all (\<lambda>v. v \<noteq> []) vals"
  ultimately show ?thesis using csv_loop_join [of v vs "[]"] by (simp add: csv_split_def csv_join_def)
qed

text \<open>
  A list of payment methods survives its column: reading back what \<open>join\<close> wrote gives
  the same methods in the same order, whatever commas, quotes or padding they contain, as
  long as none is empty.
\<close>

theorem csv_round_trip: "list_all (\<lambda>v. v \<noteq> []) vals \<Longrightarrow> csv_split (csv_join vals) = vals"
  by (rule csv_split_join)

theorem csv_round_trip_witness:
  "csv_split (csv_join [''Zelle, Revolut'', '' cash '', [QUOTE]]) = [''Zelle, Revolut'', '' cash '', [QUOTE]]"
  by (rule csv_round_trip) simp

end
