(* ===== verification/Sending.thy ===== *)
theory Sending
  imports Index Csv
begin

text \<open>
  Signing and sending a snapshot: the key of \<open>[publish].nsec\<close> and the events documents
  become (\<open>src/nostr/signer.rs\<close>), what a relay made of one (\<open>Delivery\<close> of
  \<open>src/nostr/client.rs\<close>) and \<open>send_to\<close> of \<open>src/commands/publish.rs\<close>. The
  functions of \<open>nostr_sdk\<close> are the fields of \<open>sdk\<close>, \<open>serde_json\<close> is the two
  functions \<open>json\<close> and \<open>json_index\<close>, and what the relays answer to an event is the
  function \<open>answer\<close>. \<open>send_to\<close> reads its deliveries in snapshot order;
  \<open>send_step\<close> is the concurrent machine underneath, in which up to \<open>IN_FLIGHT\<close>
  events wait for answers that come in any order.
\<close>

section \<open>Keys\<close>

datatype key_error = MissingEnv str | Malformed str

record unsigned_event =
  ev_kind :: nat
  ev_tags :: "tag list"
  ev_content :: str
  ev_created_at :: u64

record ('k, 'e) sdk =
  from_bech32 :: "str \<Rightarrow> 'k option"
  from_hex :: "str \<Rightarrow> 'k option"
  to_bech32 :: "'k \<Rightarrow> str option"
  finalize :: "'k \<Rightarrow> unsigned_event \<Rightarrow> 'e"

definition key_parse :: "('k, 'e) sdk \<Rightarrow> str \<Rightarrow> str \<Rightarrow> key_error + 'k" where
  "key_parse lib raw setting =
     (let value = trim raw in
      case (if starts_with ''nsec1'' value then from_bech32 lib value else from_hex lib value) of
        None \<Rightarrow> Inl (Malformed setting)
      | Some k \<Rightarrow> Inr k)"

text \<open>\<open>EnvRef::read_env\<close> looks the name up in the process environment \<open>env\<close>.\<close>

definition key_resolve :: "('k, 'e) sdk \<Rightarrow> (str \<Rightarrow> str option) \<Rightarrow> str \<Rightarrow> key_error + 'k" where
  "key_resolve lib env name =
     (case env name of
        None \<Rightarrow> Inl (MissingEnv name)
      | Some secret \<Rightarrow> key_parse lib secret (''`'' @ name @ ''`''))"

section \<open>Signed events\<close>

definition FIRST_REVISION :: nat where
  "FIRST_REVISION = 1"

definition signed :: "('k, 'e) sdk \<Rightarrow> tag list \<Rightarrow> str \<Rightarrow> run \<Rightarrow> 'k \<Rightarrow> 'e" where
  "signed lib ts content r k =
     finalize lib k \<lparr>ev_kind = KIND, ev_tags = ts, ev_content = content,
       ev_created_at = nat (max (generated_at r) 0)\<rparr>"

definition sign :: "('k, 'e) sdk \<Rightarrow> chrono \<Rightarrow> ('p envelope \<Rightarrow> str) \<Rightarrow> 'p document \<Rightarrow> run \<Rightarrow> 'k \<Rightarrow> 'e" where
  "sign lib ch json d r k =
     signed lib (tags ch (doc_address d) r (env_revision (doc_envelope d))) (json (doc_envelope d)) r k"

definition sign_index :: "('k, 'e) sdk \<Rightarrow> chrono \<Rightarrow> (index \<Rightarrow> str) \<Rightarrow> index \<Rightarrow> run \<Rightarrow> 'k \<Rightarrow> 'e" where
  "sign_index lib ch json_index ix r k =
     signed lib (tags ch (index_address ix) r FIRST_REVISION) (json_index ix) r k"

section \<open>Deliveries\<close>

record delivery =
  dl_accepted :: "str list"
  dl_refused :: "(str \<times> str) list"

definition is_published :: "delivery \<Rightarrow> bool" where
  "is_published dl \<longleftrightarrow> dl_accepted dl \<noteq> []"

definition IN_FLIGHT :: nat where
  "IN_FLIGHT = 16"

datatype 'x send_error =
  SE_Bech32
  | SE_Client 'x
  | SE_NoRelay nat "str list"
  | SE_Index

text \<open>\<open>try_collect\<close>: the values in order, or the first error.\<close>

fun try_collect :: "('a \<Rightarrow> 'x + 'b) \<Rightarrow> 'a list \<Rightarrow> 'x + ('a \<times> 'b) list" where
  "try_collect f [] = Inr []"
| "try_collect f (a # as) =
     (case f a of
        Inl x \<Rightarrow> Inl x
      | Inr b \<Rightarrow> map_sum (\<lambda>x. x) ((#) (a, b)) (try_collect f as))"

definition newline :: str where
  "newline = [CHR 0x0A]"

definition refused_lines :: "('p document \<times> delivery) list \<Rightarrow> str" where
  "refused_lines ds =
     concat (map (\<lambda>(d, dl). concat (map (\<lambda>(relay, reason).
       ''  '' @ doc_d d @ '' refused by '' @ relay @ '': '' @ reason @ newline) (dl_refused dl))) ds)"

definition refusals :: "('p document \<times> delivery) list \<Rightarrow> str list" where
  "refusals ds = map (\<lambda>(d, _). doc_d d) (filter (\<lambda>(_, dl). \<not> is_published dl) ds)"

definition to_send :: "'p document list \<Rightarrow> (str, unit) btree \<Rightarrow> 'p document list" where
  "to_send ds not_sent = filter (\<lambda>d. bt_get not_sent (doc_d d) = None) ds"

definition send_report :: "run \<Rightarrow> nat \<Rightarrow> str \<Rightarrow> nat \<Rightarrow> ('p document \<times> delivery) list \<Rightarrow> str" where
  "send_report r relays npub unchanged ds =
     ''publishing to '' @ show_nat relays @ '' relay(s) as '' @ npub @ newline
     @ refused_lines ds
     @ ''snapshot '' @ snapshot_id r @ '' published: '' @ show_nat (length ds) @ '' document(s) sent, ''
     @ show_nat unchanged @ '' unchanged, index last'' @ newline"

text \<open>
  The end of \<open>send_to\<close> once every delivery is in: nothing more is sent when a document
  reached no relay, otherwise the index goes out and its own delivery decides.
\<close>

definition send_index_last ::
  "(unit \<Rightarrow> 'x + delivery) \<Rightarrow> (('p document \<times> delivery) list \<Rightarrow> str) \<Rightarrow> ('p document \<times> delivery) list \<Rightarrow> 'x send_error + str" where
  "send_index_last send_index report deliveries =
     (if refusals deliveries \<noteq> [] then Inl (SE_NoRelay (length (refusals deliveries)) (refusals deliveries))
      else case send_index () of
          Inl x \<Rightarrow> Inl (SE_Client x)
        | Inr dl \<Rightarrow> if is_published dl then Inr (report deliveries) else Inl SE_Index)"

definition send_to ::
  "('k, 'e) sdk \<Rightarrow> chrono \<Rightarrow> ('p envelope \<Rightarrow> str) \<Rightarrow> (index \<Rightarrow> str) \<Rightarrow> ('e \<Rightarrow> 'x + delivery) \<Rightarrow> nat \<Rightarrow> 'k \<Rightarrow>
   'p pub_snapshot \<Rightarrow> index \<Rightarrow> (str, unit) btree \<Rightarrow> 'x send_error + str" where
  "send_to lib ch json json_index answer relays k s ix not_sent =
     (case to_bech32 lib k of
        None \<Rightarrow> Inl SE_Bech32
      | Some npub \<Rightarrow>
          (case try_collect (\<lambda>d. answer (sign lib ch json d (snap_run s) k)) (to_send (snap_documents s) not_sent) of
             Inl x \<Rightarrow> Inl (SE_Client x)
           | Inr deliveries \<Rightarrow>
               send_index_last (\<lambda>_. answer (sign_index lib ch json_index ix (snap_run s) k))
                 (send_report (snap_run s) relays npub (length not_sent)) deliveries))"

section \<open>The machine underneath\<close>

text \<open>
  \<open>buffered(IN_FLIGHT)\<close>: documents are taken in order, each waits for its answer,
  the answers come in any order, and the head of the queue is yielded once it has one.
  An error there drops the stream. The phase is what the run has committed to.
\<close>

datatype ('x, 'b) phase =
  Sending_Documents
  | Dropped 'x
  | Withheld
  | Index_Sent

record ('a, 'x, 'b) stream =
  st_todo :: "'a list"
  st_flight :: "('a \<times> ('x + 'b) option) list"
  st_done :: "('a \<times> 'b) list"
  st_phase :: "('x, 'b) phase"

definition stream_start :: "'a list \<Rightarrow> ('a, 'x, 'b) stream" where
  "stream_start docs = \<lparr>st_todo = docs, st_flight = [], st_done = [], st_phase = Sending_Documents\<rparr>"

inductive send_step ::
  "('a \<Rightarrow> 'x + 'b) \<Rightarrow> ('b \<Rightarrow> bool) \<Rightarrow> ('a, 'x, 'b) stream \<Rightarrow> ('a, 'x, 'b) stream \<Rightarrow> bool"
  for answer published where
  step_take: "send_step answer published
      \<lparr>st_todo = d # todo, st_flight = fl, st_done = dn, st_phase = Sending_Documents\<rparr>
      \<lparr>st_todo = todo, st_flight = fl @ [(d, None)], st_done = dn, st_phase = Sending_Documents\<rparr>"
    if "length fl < IN_FLIGHT"
| step_answer: "send_step answer published
      \<lparr>st_todo = todo, st_flight = fl @ (d, None) # fl', st_done = dn, st_phase = Sending_Documents\<rparr>
      \<lparr>st_todo = todo, st_flight = fl @ (d, Some (answer d)) # fl', st_done = dn, st_phase = Sending_Documents\<rparr>"
| step_yield: "send_step answer published
      \<lparr>st_todo = todo, st_flight = (d, Some (Inr b)) # fl, st_done = dn, st_phase = Sending_Documents\<rparr>
      \<lparr>st_todo = todo, st_flight = fl, st_done = dn @ [(d, b)], st_phase = Sending_Documents\<rparr>"
| step_drop: "send_step answer published
      \<lparr>st_todo = todo, st_flight = (d, Some (Inl x)) # fl, st_done = dn, st_phase = Sending_Documents\<rparr>
      \<lparr>st_todo = todo, st_flight = fl, st_done = dn, st_phase = Dropped x\<rparr>"
| step_withhold: "send_step answer published
      \<lparr>st_todo = [], st_flight = [], st_done = dn, st_phase = Sending_Documents\<rparr>
      \<lparr>st_todo = [], st_flight = [], st_done = dn, st_phase = Withheld\<rparr>"
    if "\<not> list_all (\<lambda>(_, b). published b) dn"
| step_index: "send_step answer published
      \<lparr>st_todo = [], st_flight = [], st_done = dn, st_phase = Sending_Documents\<rparr>
      \<lparr>st_todo = [], st_flight = [], st_done = dn, st_phase = Index_Sent\<rparr>"
    if "list_all (\<lambda>(_, b). published b) dn"

inductive_cases send_step_cases: "send_step answer published s s'"

abbreviation send_run :: "('a \<Rightarrow> 'x + 'b) \<Rightarrow> ('b \<Rightarrow> bool) \<Rightarrow> ('a, 'x, 'b) stream \<Rightarrow> ('a, 'x, 'b) stream \<Rightarrow> bool" where
  "send_run answer published \<equiv> (send_step answer published)\<^sup>*\<^sup>*"

definition stream_inv :: "('a \<Rightarrow> 'x + 'b) \<Rightarrow> ('b \<Rightarrow> bool) \<Rightarrow> 'a list \<Rightarrow> ('a, 'x, 'b) stream \<Rightarrow> bool" where
  "stream_inv answer published docs s \<longleftrightarrow>
     length (st_flight s) \<le> IN_FLIGHT \<and>
     list_all (\<lambda>(d, b). answer d = Inr b) (st_done s) \<and>
     list_all (\<lambda>(d, a). is_none_or a (\<lambda>x. x = answer d)) (st_flight s) \<and>
     (case st_phase s of
        Sending_Documents \<Rightarrow> map fst (st_done s) @ map fst (st_flight s) @ st_todo s = docs
      | Dropped x \<Rightarrow> \<exists>d rest. map fst (st_done s) @ d # rest = docs \<and> answer d = Inl x
      | Withheld \<Rightarrow> map fst (st_done s) = docs \<and> \<not> list_all (\<lambda>(_, b). published b) (st_done s)
      | Index_Sent \<Rightarrow> map fst (st_done s) = docs \<and> list_all (\<lambda>(_, b). published b) (st_done s))"

lemma stream_inv_start: "stream_inv answer published docs (stream_start docs)"
  by (simp add: stream_inv_def stream_start_def)

lemma stream_inv_step:
  "send_step answer published s s' \<Longrightarrow> stream_inv answer published docs s \<Longrightarrow> stream_inv answer published docs s'"
  by (induction rule: send_step.induct) (auto simp: stream_inv_def is_none_or_def)

lemma stream_inv_run:
  "send_run answer published (stream_start docs) s \<Longrightarrow> stream_inv answer published docs s"
  by (induction rule: rtranclp_induct) (auto intro: stream_inv_start stream_inv_step)

text \<open>Progress, and a measure that every step decreases.\<close>

lemma send_step_progress:
  assumes "st_phase s = Sending_Documents"
  shows "\<exists>s'. send_step answer published s s'"
proof (cases s)
  case (fields todo fl dn ph)
  show ?thesis
  proof (cases fl)
    case Nil
    then show ?thesis
      using fields assms step_take [of fl answer published "hd todo" "tl todo" dn] step_withhold [of published dn answer]
        step_index [of published dn answer]
      by (cases todo; cases "list_all (\<lambda>(_, b). published b) dn") (auto simp: IN_FLIGHT_def)
  next
    case (Cons h rest)
    obtain d a where h: "h = (d, a)" by force
    show ?thesis
    proof (cases a)
      case None
      then show ?thesis using fields assms Cons h step_answer [of answer published todo "[]" d rest dn] by auto
    next
      case (Some r)
      then show ?thesis
        using fields assms Cons h step_yield [of answer published todo d _ rest dn] step_drop [of answer published todo d _ rest dn]
        by (cases r) auto
    qed
  qed
qed

definition stream_measure :: "('a, 'x, 'b) stream \<Rightarrow> nat" where
  "stream_measure s =
     3 * length (st_todo s) + 2 * count_where (\<lambda>(_, a). a = None) (st_flight s)
     + count_where (\<lambda>(_, a). a \<noteq> None) (st_flight s) + (if st_phase s = Sending_Documents then 1 else 0)"

lemma send_step_measure: "send_step answer published s s' \<Longrightarrow> stream_measure s' < stream_measure s"
  by (induction rule: send_step.induct) (auto simp: stream_measure_def)

lemma send_run_ends: "\<exists>s'. send_run answer published s s' \<and> st_phase s' \<noteq> Sending_Documents"
proof (induction "stream_measure s" arbitrary: s rule: less_induct)
  case less
  show ?case
  proof (cases "st_phase s = Sending_Documents")
    case True
    then obtain s1 where s1: "send_step answer published s s1" using send_step_progress by blast
    with less [OF send_step_measure] obtain s' where "send_run answer published s1 s'" "st_phase s' \<noteq> Sending_Documents"
      by blast
    with s1 show ?thesis by (blast intro: converse_rtranclp_into_rtranclp)
  qed blast
qed

lemma send_step_wf: "wf {(s', s). send_step answer published s s'}"
  by (rule wf_subset [OF wf_measure [of stream_measure]]) (auto simp: send_step_measure)

lemma try_collect_Inr: "list_all (\<lambda>(d, b). f d = Inr b) ds \<Longrightarrow> try_collect f (map fst ds) = Inr ds"
  by (induction ds) auto

lemma try_collect_Inl:
  "list_all (\<lambda>(d, b). f d = Inr b) ds \<Longrightarrow> f d = Inl x \<Longrightarrow> try_collect f (map fst ds @ d # rest) = Inl x"
  by (induction ds) auto

section \<open>The index is the last thing sent\<close>

definition stream_outcome ::
  "('x + delivery) \<Rightarrow> (('p document \<times> delivery) list \<Rightarrow> str) \<Rightarrow> ('p document, 'x, delivery) stream \<Rightarrow> ('x send_error + str) option" where
  "stream_outcome index_answer report s =
     (case st_phase s of
        Sending_Documents \<Rightarrow> None
      | Dropped x \<Rightarrow> Some (Inl (SE_Client x))
      | Withheld \<Rightarrow> Some (Inl (SE_NoRelay (length (refusals (st_done s))) (refusals (st_done s))))
      | Index_Sent \<Rightarrow> Some (case index_answer of
            Inl x \<Rightarrow> Inl (SE_Client x)
          | Inr dl \<Rightarrow> if is_published dl then Inr (report (st_done s)) else Inl SE_Index))"

lemma refusals_Nil: "refusals ds = [] \<longleftrightarrow> list_all (\<lambda>(_, dl). is_published dl) ds"
  by (auto simp: refusals_def filter_empty_conv list_all_iff)

lemma stream_outcome_collect:
  assumes "stream_inv f is_published docs s" and "st_phase s \<noteq> Sending_Documents"
  shows "stream_outcome ia report s =
    Some (case try_collect f docs of Inl x \<Rightarrow> Inl (SE_Client x) | Inr ds \<Rightarrow> send_index_last (\<lambda>_. ia) report ds)"
proof (cases "st_phase s")
  case (Dropped x)
  with assms(1) obtain d rest where "map fst (st_done s) @ d # rest = docs" "f d = Inl x"
    "list_all (\<lambda>(d, b). f d = Inr b) (st_done s)"
    by (auto simp: stream_inv_def)
  then have "try_collect f docs = Inl x" using try_collect_Inl [of f "st_done s" d x rest] by simp
  with Dropped show ?thesis by (simp add: stream_outcome_def)
next
  case Withheld
  with assms(1) have ds: "docs = map fst (st_done s)" "list_all (\<lambda>(d, b). f d = Inr b) (st_done s)"
    and "refusals (st_done s) \<noteq> []"
    by (simp_all add: stream_inv_def refusals_Nil)
  moreover have "try_collect f docs = Inr (st_done s)" unfolding ds(1) using ds(2) by (rule try_collect_Inr)
  ultimately show ?thesis using Withheld by (simp add: stream_outcome_def send_index_last_def)
next
  case Index_Sent
  with assms(1) have ds: "docs = map fst (st_done s)" "list_all (\<lambda>(d, b). f d = Inr b) (st_done s)"
    and "refusals (st_done s) = []"
    by (simp_all add: stream_inv_def refusals_Nil)
  moreover have "try_collect f docs = Inr (st_done s)" unfolding ds(1) using ds(2) by (rule try_collect_Inr)
  ultimately show ?thesis using Index_Sent by (simp add: stream_outcome_def send_index_last_def)
qed (use assms in simp)

text \<open>
  C4. Whatever order the relays answer in, sending a snapshot ends, never has more than
  \<open>IN_FLIGHT\<close> events waiting, and concludes what reading the answers one document after
  the other concludes; and the index is sent only when every document before it was taken
  by at least one relay.
\<close>

theorem send_machine_refines_send_to:
  assumes "to_bech32 lib k = Some npub"
    and "send_run (\<lambda>d. answer (sign lib ch json d (snap_run s) k)) is_published
      (stream_start (to_send (snap_documents s) not_sent)) st"
  shows "length (st_flight st) \<le> IN_FLIGHT \<and>
    wf {(st', st). send_step (\<lambda>d. answer (sign lib ch json d (snap_run s) k)) is_published st st'} \<and>
    (st_phase st = Sending_Documents \<longrightarrow>
      (\<exists>st'. send_step (\<lambda>d. answer (sign lib ch json d (snap_run s) k)) is_published st st')) \<and>
    (st_phase st = Index_Sent \<longrightarrow>
      list_all (\<lambda>d. \<exists>dl. answer (sign lib ch json d (snap_run s) k) = Inr dl \<and> dl_accepted dl \<noteq> [])
        (to_send (snap_documents s) not_sent)) \<and>
    (st_phase st \<noteq> Sending_Documents \<longrightarrow>
      stream_outcome (answer (sign_index lib ch json_index ix (snap_run s) k))
        (send_report (snap_run s) relays npub (length not_sent)) st =
      Some (send_to lib ch json json_index answer relays k s ix not_sent))"
proof -
  let ?f = "\<lambda>d. answer (sign lib ch json d (snap_run s) k)"
  let ?docs = "to_send (snap_documents s) not_sent"
  have inv: "stream_inv ?f is_published ?docs st" using assms(2) by (rule stream_inv_run)
  have "list_all (\<lambda>d. \<exists>dl. ?f d = Inr dl \<and> dl_accepted dl \<noteq> []) ?docs" if "st_phase st = Index_Sent"
  proof -
    from inv that have ds: "map fst (st_done st) = ?docs"
      "list_all (\<lambda>(_, b). is_published b) (st_done st)" "list_all (\<lambda>(d, b). ?f d = Inr b) (st_done st)"
      by (simp_all add: stream_inv_def)
    show ?thesis unfolding ds(1) [symmetric] using ds(2,3) by (fastforce simp: list_all_iff is_published_def)
  qed
  moreover have "stream_outcome (answer (sign_index lib ch json_index ix (snap_run s) k)) report st =
      Some (case try_collect ?f ?docs of Inl x \<Rightarrow> Inl (SE_Client x)
        | Inr ds \<Rightarrow> send_index_last (\<lambda>_. answer (sign_index lib ch json_index ix (snap_run s) k)) report ds)"
    if "st_phase st \<noteq> Sending_Documents" for report
    using stream_outcome_collect [OF inv that] .
  moreover have "length (st_flight st) \<le> IN_FLIGHT" using inv by (simp add: stream_inv_def)
  ultimately show ?thesis
    using assms(1) send_step_progress [of st ?f is_published] send_step_wf [of ?f is_published]
    by (auto simp: send_to_def)
qed

definition example_sdk :: "(str, unsigned_event) sdk" where
  "example_sdk = \<lparr>from_bech32 = Some, from_hex = Some, to_bech32 = Some, finalize = (\<lambda>k e. e)\<rparr>"

definition example_answer :: "unsigned_event \<Rightarrow> str + delivery" where
  "example_answer e = Inr \<lparr>dl_accepted = [''wss://relay''], dl_refused = []\<rparr>"

theorem send_machine_refines_send_to_witness:
  "\<exists>st. send_run (\<lambda>d. example_answer (sign example_sdk gregorian (\<lambda>_. ''{}'') d
       (snap_run (example_snapshot 1772323200 ''h'')) ''k'')) is_published
     (stream_start (to_send (snap_documents (example_snapshot 1772323200 ''h'')) [])) st \<and>
    st_phase st = Index_Sent \<and>
    stream_outcome (example_answer (sign_index example_sdk gregorian (\<lambda>_. ''[]'')
        (snapshot_index gregorian (example_snapshot 1772323200 ''h'') \<lparr>pub_name = ''b'', pub_version = ''1''\<rparr>)
        (snap_run (example_snapshot 1772323200 ''h'')) ''k''))
      (send_report (snap_run (example_snapshot 1772323200 ''h'')) 1 ''k'' 0) st =
    Some (send_to example_sdk gregorian (\<lambda>_. ''{}'') (\<lambda>_. ''[]'') example_answer 1 ''k''
      (example_snapshot 1772323200 ''h'')
      (snapshot_index gregorian (example_snapshot 1772323200 ''h'') \<lparr>pub_name = ''b'', pub_version = ''1''\<rparr>) [])"
proof -
  let ?s = "example_snapshot 1772323200 ''h''"
  let ?f = "\<lambda>d. example_answer (sign example_sdk gregorian (\<lambda>_. ''{}'') d (snap_run ?s) ''k'')"
  obtain st where st: "send_run ?f is_published (stream_start (to_send (snap_documents ?s) [])) st"
    "st_phase st \<noteq> Sending_Documents"
    using send_run_ends by blast
  have k: "to_bech32 example_sdk ''k'' = Some ''k''" by (simp add: example_sdk_def)
  note * = send_machine_refines_send_to [OF k st(1), of "\<lambda>_. ''[]''"
      "snapshot_index gregorian ?s \<lparr>pub_name = ''b'', pub_version = ''1''\<rparr>" 1]
  have inv: "stream_inv ?f is_published (to_send (snap_documents ?s) []) st" using st(1) by (rule stream_inv_run)
  have "st_phase st \<noteq> Dropped x" for x using inv by (auto simp: stream_inv_def example_answer_def)
  moreover have "st_phase st \<noteq> Withheld"
    using inv by (fastforce simp: stream_inv_def is_published_def list_all_iff example_answer_def)
  ultimately have "st_phase st = Index_Sent" using st(2) by (metis phase.exhaust)
  with * st show ?thesis by auto
qed

end
