(* ===== verification/Published.thy ===== *)
theory Published
  imports Restatement
begin

text \<open>
  The \<open>published_documents\<close> and \<open>publication_runs\<close> tables
  (\<open>src/db/repo/published.rs\<close>) and the transaction that writes them
  (\<open>record\<close> of \<open>src/commands/publish.rs\<close>). A table is an ordered map from its
  primary key to the columns of a row; a column of SQLite's integer type is an
  \<open>i64\<close>. The conversions of \<open>all\<close> and \<open>latest_run\<close> are those of the source,
  \<open>max(0)\<close> and the truncating casts included.
\<close>

section \<open>The rows\<close>

record published_row =
  row_hash :: str
  row_revision :: i64
  row_updated_at :: i64
  row_restated_at :: "i64 option"
  row_restated_because :: "str option"

record published_run =
  pr_snapshot_id :: str
  pr_generated_at :: i64
  pr_schema_version :: nat
  pr_first_event_at :: "i64 option"
  pr_last_event_at :: "i64 option"
  pr_events :: u64

record run_row =
  rr_generated_at :: i64
  rr_schema_version :: i64
  rr_first_event_at :: "i64 option"
  rr_last_event_at :: "i64 option"
  rr_events :: i64

record tables =
  published_documents :: "(str, published_row) btree"
  publication_runs :: "(str, run_row) btree"

definition as_u32 :: "int \<Rightarrow> nat" where
  "as_u32 x = nat (x mod 2 ^ 32)"

section \<open>Documents\<close>

definition row_previous :: "published_row \<Rightarrow> previous" where
  "row_previous row =
     (let restatement = map_option (\<lambda>(t, b). \<lparr>restated_on = t, because_text = b\<rparr>)
            (opt_zip (row_restated_at row) (row_restated_because row)) in
      case Option.bind restatement
             (previous_restated (row_hash row) (as_u32 (max (row_revision row) 0)) (row_updated_at row)) of
        Some p \<Rightarrow> p
      | None \<Rightarrow> Prev_First (row_hash row) (row_updated_at row))"

definition published_all :: "tables \<Rightarrow> (str, previous) btree" where
  "published_all t = map (\<lambda>(d, row). (d, row_previous row)) (published_documents t)"

definition previous_row :: "previous \<Rightarrow> published_row" where
  "previous_row p =
     \<lparr>row_hash = previous_hash p, row_revision = int (previous_revision p),
      row_updated_at = previous_updated_at p,
      row_restated_at = map_option restated_on (previous_restatement p),
      row_restated_because = map_option because_text (previous_restatement p)\<rparr>"

definition published_record :: "str \<Rightarrow> previous \<Rightarrow> tables \<Rightarrow> tables" where
  "published_record d p t = t\<lparr>published_documents := bt_insert d (previous_row p) (published_documents t)\<rparr>"

section \<open>Runs\<close>

definition record_run :: "published_run \<Rightarrow> tables \<Rightarrow> tables" where
  "record_run r t = t\<lparr>publication_runs := bt_insert (pr_snapshot_id r)
     \<lparr>rr_generated_at = pr_generated_at r, rr_schema_version = int (pr_schema_version r),
      rr_first_event_at = pr_first_event_at r, rr_last_event_at = pr_last_event_at r,
      rr_events = wrap_i64 (int (pr_events r))\<rparr> (publication_runs t)\<rparr>"

definition row_run :: "str \<times> run_row \<Rightarrow> published_run" where
  "row_run row = (case row of (i, r) \<Rightarrow>
     \<lparr>pr_snapshot_id = i, pr_generated_at = rr_generated_at r,
      pr_schema_version = as_u32 (max (rr_schema_version r) 0),
      pr_first_event_at = rr_first_event_at r, pr_last_event_at = rr_last_event_at r,
      pr_events = nat (max (rr_events r) 0)\<rparr>)"

text \<open>\<open>ORDER BY generated_at DESC, snapshot_id DESC LIMIT 1\<close>.\<close>

fun latest_row :: "(str, run_row) btree \<Rightarrow> (str \<times> run_row) option" where
  "latest_row [] = None"
| "latest_row (x # xs) =
     (case latest_row xs of
        None \<Rightarrow> Some x
      | Some y \<Rightarrow>
          if rr_generated_at (snd y) < rr_generated_at (snd x)
             \<or> rr_generated_at (snd y) = rr_generated_at (snd x) \<and> fst y \<le> fst x
          then Some x else Some y)"

definition latest_run :: "tables \<Rightarrow> published_run option" where
  "latest_run t = map_option row_run (latest_row (publication_runs t))"

section \<open>The transaction\<close>

definition record_publication ::
  "(str, previous) btree \<Rightarrow> 'p pub_snapshot \<Rightarrow> u64 \<Rightarrow> tables \<Rightarrow> tables" where
  "record_publication state s events t =
     record_run
       \<lparr>pr_snapshot_id = snapshot_id (snap_run s), pr_generated_at = generated_at (snap_run s),
        pr_schema_version = SCHEMA_VERSION,
        pr_first_event_at = cov_earliest (snap_coverage s), pr_last_event_at = cov_latest (snap_coverage s),
        pr_events = events\<rparr>
       (foldl (\<lambda>t (address, previous). published_record address previous t) t state)"

section \<open>Reading back what was written\<close>

definition tables_ok :: "tables \<Rightarrow> bool" where
  "tables_ok t \<longleftrightarrow> bt_ok (published_documents t) \<and> bt_ok (publication_runs t)"

lemma as_u32_int [simp]: "n \<le> u32_max \<Longrightarrow> as_u32 (int n) = n"
  by (simp add: as_u32_def u32_max_def)

lemma row_previous_row [simp]:
  assumes "previous_ok ch p"
  shows "row_previous (previous_row p) = p"
proof (cases p)
  case (Prev_Restated h n u rs)
  with assms show ?thesis
    by (simp add: row_previous_def previous_row_def previous_restated_def)
qed (simp add: row_previous_def previous_row_def)

lemma bt_get_map_snd: "bt_get (map (\<lambda>(k, v). (k, f v)) m) k = map_option f (bt_get m k)"
  by (induction m) (auto simp: bt_get_def)

lemma published_all_get: "bt_get (published_all t) d = map_option row_previous (bt_get (published_documents t) d)"
  unfolding published_all_def by (rule bt_get_map_snd)

lemma bt_ok_published_all [simp]: "bt_ok (published_all t) \<longleftrightarrow> bt_ok (published_documents t)"
proof -
  have "map fst (published_all t) = map fst (published_documents t)" by (auto simp: published_all_def)
  then show ?thesis by (simp add: bt_ok_def)
qed

lemma published_record_runs [simp]:
  "publication_runs (foldl (\<lambda>t (a, p). published_record a p t) t st) = publication_runs t"
  by (induction st arbitrary: t) (auto simp: published_record_def)

lemma published_record_ok:
  "bt_ok (published_documents t) \<Longrightarrow>
   bt_ok (published_documents (foldl (\<lambda>t (a, p). published_record a p t) t st))"
  by (induction st arbitrary: t) (auto simp: published_record_def)

lemma bt_get_Cons: "bt_get ((a, b) # m) k = (if k = a then Some b else bt_get m k)"
  by (simp add: bt_get_def)

lemma published_record_get:
  assumes "bt_ok (published_documents t)" and "distinct (map fst st)"
  shows "bt_get (published_documents (foldl (\<lambda>t (a, p). published_record a p t) t st)) d =
    (case bt_get st d of Some p \<Rightarrow> Some (previous_row p) | None \<Rightarrow> bt_get (published_documents t) d)"
  using assms
proof (induction st arbitrary: t)
  case (Cons x st)
  obtain a p where x: "x = (a, p)" by force
  have "bt_get st d = None" if "d = a"
    using Cons.prems(2) that x by (simp add: bt_get_def map_of_eq_None_iff)
  with Cons x show ?case
    by (auto simp: published_record_def bt_get_insert bt_get_Cons split: option.splits)
qed simp

lemma record_publication_documents [simp]:
  "published_documents (record_publication st s n t) =
     published_documents (foldl (\<lambda>t (a, p). published_record a p t) t st)"
  by (simp add: record_publication_def record_run_def)

lemma record_publication_ok: "tables_ok t \<Longrightarrow> tables_ok (record_publication st s n t)"
  by (simp add: tables_ok_def published_record_ok) (simp add: record_publication_def record_run_def)

lemma record_publication_get:
  assumes "tables_ok t" and "bt_ok st" and "\<And>a p. bt_get st a = Some p \<Longrightarrow> previous_ok ch p"
  shows "bt_get (published_all (record_publication st s n t)) d =
    (case bt_get st d of Some p \<Rightarrow> Some p | None \<Rightarrow> bt_get (published_all t) d)"
proof -
  have "distinct (map fst st)" using assms(2) by (simp add: bt_ok_def strict_sorted_iff)
  then show ?thesis
    using assms row_previous_row [OF assms(3)]
    by (auto simp: published_all_get published_record_get tables_ok_def split: option.splits)
qed

section \<open>The newest run\<close>

lemma latest_row_None [simp]: "latest_row m = None \<longleftrightarrow> m = []"
  by (cases m) (auto split: option.splits)

lemma latest_row_max:
  "latest_row m = Some y \<Longrightarrow> y \<in> set m \<and> (\<forall>x \<in> set m. rr_generated_at (snd x) \<le> rr_generated_at (snd y))"
  by (induction m arbitrary: y) (fastforce split: option.splits if_splits)+

section \<open>Histories\<close>

text \<open>
  One publication that reached the relays: the snapshot placed against what the
  tables hold, and its conclusions written back.
\<close>

definition empty_tables :: tables where
  "empty_tables = \<lparr>published_documents = [], publication_runs = []\<rparr>"

definition publish_step ::
  "chrono \<Rightarrow> 'p pub_snapshot \<Rightarrow> because \<Rightarrow> republish \<Rightarrow> u64 \<Rightarrow> tables \<Rightarrow> tables" where
  "publish_step ch s b rep n t =
     (let r = snapshot_restated ch s (published_all t) b rep in
      record_publication (rst_state r) (rst_snapshot r) n t)"

definition clock_advanced :: "tables \<Rightarrow> i64 \<Rightarrow> bool" where
  "clock_advanced t now \<longleftrightarrow> is_none_or (latest_run t) (\<lambda>l. pr_generated_at l < now)"

definition history_inv :: "chrono \<Rightarrow> tables \<Rightarrow> bool" where
  "history_inv ch t \<longleftrightarrow> tables_ok t \<and> history_ok ch (published_all t)"

lemma history_ok_iff:
  "history_ok ch pv \<longleftrightarrow> bt_ok pv \<and> (\<forall>a p. bt_get pv a = Some p \<longrightarrow> previous_ok ch p)"
  unfolding history_ok_def list_all_iff by (auto simp: bt_get_iff)

context chrono_laws
begin

lemma publish_step_get:
  assumes "history_inv ch t" and "snapshot_ok ch s"
  shows "bt_get (published_all (publish_step ch s b rep n t)) a =
    (case List.find (\<lambda>d. doc_d d = a) (snap_documents s) of
       Some d \<Rightarrow> Some (previous_next (snap_run s) (doc_hash d) (bt_get (published_all t) a) b)
     | None \<Rightarrow> bt_get (published_all t) a)"
proof -
  let ?st = "rst_state (snapshot_restated ch s (published_all t) b rep)"
  have ok: "previous_ok ch q" if "bt_get (published_all t) a = Some q" for a q
    using assms(1) that by (auto simp: history_inv_def dest: history_get)
  have get: "bt_get ?st a = (case List.find (\<lambda>d. doc_d d = a) (snap_documents s) of
       Some d \<Rightarrow> Some (previous_next (snap_run s) (doc_hash d) (bt_get (published_all t) a) b)
     | None \<Rightarrow> None)" for a
    using assms(2) ok by (intro restated_state_get) (auto simp: snapshot_ok_def)
  have new: "previous_ok ch p" if "bt_get ?st a = Some p" for a p
    using that assms(2) ok by (auto simp: get snapshot_ok_def intro!: previous_next_ok split: option.splits)
  have "bt_get (published_all (record_publication ?st x n t)) a =
      (case bt_get ?st a of Some p \<Rightarrow> Some p | None \<Rightarrow> bt_get (published_all t) a)"
    for x :: "'a pub_snapshot"
    by (rule record_publication_get [where ch = ch])
      (use assms(1) in \<open>auto simp: history_inv_def intro: new\<close>)
  then show ?thesis by (simp add: publish_step_def Let_def get split: option.splits)
qed

lemma publish_step_inv:
  assumes "history_inv ch t" and "snapshot_ok ch s"
  shows "history_inv ch (publish_step ch s b rep n t)"
proof -
  have t: "tables_ok (publish_step ch s b rep n t)"
    using assms(1) by (simp add: history_inv_def publish_step_def Let_def record_publication_ok)
  have "previous_ok ch p" if "bt_get (published_all (publish_step ch s b rep n t)) a = Some p" for a p
    using that assms
    by (auto simp: publish_step_get history_inv_def snapshot_ok_def
        intro: previous_next_ok history_get split: option.splits)
  with t show ?thesis by (simp add: history_inv_def history_ok_iff tables_ok_def)
qed

end

lemma history_inv_empty: "history_inv ch empty_tables"
  by (simp add: history_inv_def tables_ok_def history_ok_def published_all_def empty_tables_def)

section \<open>Publishing the same figures again\<close>


lemma example_snapshot_ok: "snapshot_ok gregorian (example_snapshot 1772323200 h)"
  using example_legible by (simp add: snapshot_ok_def)


section \<open>What a revision counts\<close>

fun changes :: "str list \<Rightarrow> nat" where
  "changes (x # y # ys) = (if x = y then 0 else 1) + changes (y # ys)"
| "changes _ = 0"

definition publish_all ::
  "chrono \<Rightarrow> ('p pub_snapshot \<times> because \<times> republish \<times> u64) list \<Rightarrow> tables \<Rightarrow> tables" where
  "publish_all ch steps t = foldl (\<lambda>t (s, b, rep, n). publish_step ch s b rep n t) t steps"

definition hashes_at :: "str \<Rightarrow> ('p pub_snapshot \<times> because \<times> republish \<times> u64) list \<Rightarrow> str list" where
  "hashes_at a steps =
     filter_map (\<lambda>(s, _). map_option doc_hash (List.find (\<lambda>d. doc_d d = a) (snap_documents s))) steps"

lemma changes_snoc: "xs \<noteq> [] \<Longrightarrow> changes (xs @ [y]) = changes xs + (if List.last xs = y then 0 else 1)"
  by (induction xs rule: changes.induct) auto

lemma min_succ_u32: "saturating_succ_u32 (min u32_max n) = min u32_max (n + 1)"
  by (simp add: saturating_succ_u32_def min_def)

lemma publish_all_record:
  assumes "chrono_laws ch" and "list_all (\<lambda>(s, _). snapshot_ok ch s) steps"
  shows "history_inv ch (publish_all ch steps empty_tables) \<and>
    map_option (\<lambda>p. (previous_hash p, previous_revision p))
      (bt_get (published_all (publish_all ch steps empty_tables)) a) =
    (if hashes_at a steps = [] then None
     else Some (List.last (hashes_at a steps), min u32_max (1 + changes (hashes_at a steps))))"
  using assms(2)
proof (induction steps rule: rev_induct)
  case Nil
  show ?case
    using history_inv_empty by (simp add: publish_all_def hashes_at_def published_all_def empty_tables_def)
next
  case (snoc x steps)
  obtain s b rep n where x: "x = (s, b, rep, n)" by (cases x)
  let ?t = "publish_all ch steps empty_tables"
  from snoc have inv: "history_inv ch ?t" and ok: "snapshot_ok ch s"
    and IH: "map_option (\<lambda>p. (previous_hash p, previous_revision p)) (bt_get (published_all ?t) a) =
      (if hashes_at a steps = [] then None
       else Some (List.last (hashes_at a steps), min u32_max (1 + changes (hashes_at a steps))))"
    by (simp_all add: x)
  have step: "publish_all ch (steps @ [x]) empty_tables = publish_step ch s b rep n ?t"
    by (simp add: publish_all_def x)
  have "map_option (\<lambda>p. (previous_hash p, previous_revision p))
      (bt_get (published_all (publish_step ch s b rep n ?t)) a) =
    (if hashes_at a (steps @ [x]) = [] then None
     else Some (List.last (hashes_at a (steps @ [x])), min u32_max (1 + changes (hashes_at a (steps @ [x])))))"
  proof (cases "List.find (\<lambda>d. doc_d d = a) (snap_documents s)")
    case None
    then show ?thesis
      using IH by (simp add: chrono_laws.publish_step_get [OF assms(1) inv ok] hashes_at_def x)
  next
    case (Some d)
    then have hs: "hashes_at a (steps @ [x]) = hashes_at a steps @ [doc_hash d]"
      by (simp add: hashes_at_def x)
    show ?thesis
    proof (cases "bt_get (published_all ?t) a")
      case None
      with IH have "hashes_at a steps = []" by (simp split: if_splits)
      with None Some u32_max_gt show ?thesis
        by (simp add: chrono_laws.publish_step_get [OF assms(1) inv ok] hs previous_next_def)
    next
      case q: (Some q)
      with IH have ne: "hashes_at a steps \<noteq> []"
        and q': "previous_hash q = List.last (hashes_at a steps)"
          "previous_revision q = min u32_max (1 + changes (hashes_at a steps))"
        by (simp_all split: if_splits)
      have "map_option (\<lambda>p. (previous_hash p, previous_revision p))
          (bt_get (published_all (publish_step ch s b rep n ?t)) a) =
        Some (doc_hash d, min u32_max (1 + changes (hashes_at a steps @ [doc_hash d])))"
        using Some q q' min_succ_u32 [of "1 + changes (hashes_at a steps)"]
        by (simp add: chrono_laws.publish_step_get [OF assms(1) inv ok] previous_next_def changes_snoc [OF ne])
      then show ?thesis unfolding hs by simp
    qed
  qed
  with chrono_laws.publish_step_inv [OF assms(1) inv ok] show ?case by (simp add: step)
qed

text \<open>
  C17. The revision counts restatements: whatever sequence of snapshots is
  published, the record of an address carries the last hash published there and
  the revision \<open>1 + c\<close>, where \<open>c\<close> is how often consecutive publications of that
  address differed (saturating at the largest \<open>u32\<close>); an address never published has
  no record, and a run that does not compute an address leaves it alone.
\<close>

theorem revision_counts_changes:
  assumes "chrono_laws ch" and "list_all (\<lambda>(s, _). snapshot_ok ch s) steps"
  shows "map_option (\<lambda>p. (previous_hash p, previous_revision p))
      (bt_get (published_all (publish_all ch steps empty_tables)) a) =
    (if hashes_at a steps = [] then None
     else Some (List.last (hashes_at a steps), min u32_max (1 + changes (hashes_at a steps))))"
  using publish_all_record [OF assms, of a] by blast

theorem revision_counts_changes_witness:
  "let step = (\<lambda>h. (example_snapshot 1772323200 h, Rebuild, Republish_No, 0)) in
   map_option (\<lambda>p. (previous_hash p, previous_revision p))
     (bt_get (published_all (publish_all gregorian (map step [''a'', ''b'', ''b'', ''a'']) empty_tables))
       ''series:orders:daily:2026-02'') = Some (''a'', 3)"
  using revision_counts_changes [OF greg.chrono_laws_axioms, of
      "map (\<lambda>h. (example_snapshot 1772323200 h, Rebuild, Republish_No, 0)) [''a'', ''b'', ''b'', ''a'']"
      "''series:orders:daily:2026-02''"]
  by (simp add: Let_def example_snapshot_ok hashes_at_def example_d u32_max_def numeral_3_eq_3)

end
