(* ===== verification/Publishing.thy ===== *)
theory Publishing
  imports Computed Sending Published
begin

text \<open>
  \<open>bestiario publish\<close> (\<open>src/commands/publish.rs\<close>): what a run refuses, the
  snapshot it computes from one reading of the archive, the listing of a review, the
  files of \<open>--out\<close>, and the run itself, which records what it published only after the
  relays took it. The archive a run reads is \<open>reading\<close>: the extent, the number of events
  and the rows the loaders of \<open>src/db/load\<close> return. The process environment, the relays'
  NIP-11 limits and answers, \<open>serde_json\<close> and \<open>sha2\<close> are the fields of \<open>world\<close>.
\<close>

section \<open>What a run reads and what it asks for\<close>

record reading =
  rd_earliest :: "i64 option"
  rd_latest :: "i64 option"
  rd_events :: u64
  rd_orders :: "order list"
  rd_fees :: dev_fee_data
  rd_disputes :: dispute_data
  rd_profiles :: "profile list"
  rd_book :: "i64 \<Rightarrow> i64 \<Rightarrow> rate_book"

record advertised =
  adv_relay :: str
  adv_limit :: "nat option"

record publish_settings =
  ps_nsec :: "str option"
  ps_relays :: "str list"
  ps_max_content_bytes :: nat
  ps_assumption :: assumption
  ps_reference_currency :: str

record ('k, 'e, 'x) world =
  wd_chrono :: chrono
  wd_hash :: "payload \<Rightarrow> str"
  wd_json :: "payload envelope \<Rightarrow> str"
  wd_json_index :: "index \<Rightarrow> str"
  wd_sdk :: "('k, 'e) sdk"
  wd_env :: "str \<Rightarrow> str option"
  wd_publisher :: publisher
  wd_limits :: "str list \<Rightarrow> advertised list"
  wd_connect :: "str list \<Rightarrow> 'x + nat"
  wd_answer :: "'e \<Rightarrow> 'x + delivery"

record invocation =
  iv_dry_run :: bool
  iv_out :: bool
  iv_republish :: bool
  iv_from :: "i64 option"
  iv_until :: "i64 option"
  iv_instance :: "str option"
  iv_network :: "str option"

datatype 'x publish_error =
  Pub_Scoped
  | Pub_Key key_error
  | Pub_No_Key
  | Pub_Stalled_Clock i64 str i64
  | Pub_Empty_Range i64 i64
  | Pub_Oversized nat nat "str option" "(address \<times> nat) list"
  | Pub_Connect 'x
  | Pub_Send "'x send_error"

definition refuse_scoped :: "invocation \<Rightarrow> 'x publish_error + unit" where
  "refuse_scoped iv = (if iv_instance iv = None \<and> iv_network iv = None then Inr () else Inl Pub_Scoped)"

definition requested :: "i64 option \<Rightarrow> i64 option \<Rightarrow> bool \<Rightarrow> 'x publish_error + republish" where
  "requested since until republish =
     (if \<not> republish then Inr Republish_No
      else case (since, until) of
          (None, None) \<Rightarrow> Inr Republish_All
        | _ \<Rightarrow>
            let w = Window (map_or 0 (\<lambda>t. t) since) (map_or i64_max (\<lambda>t. t) until) in
            if w_from w < w_until w then Inr (Republish_Range w)
            else Inl (Pub_Empty_Range (w_from w) (w_until w)))"

definition refuse_stalled_clock :: "published_run option \<Rightarrow> i64 \<Rightarrow> 'x publish_error + unit" where
  "refuse_stalled_clock latest now =
     (case latest of
        None \<Rightarrow> Inr ()
      | Some l \<Rightarrow> if now > pr_generated_at l then Inr ()
          else Inl (Pub_Stalled_Clock now (pr_snapshot_id l) (pr_generated_at l)))"

definition run_snapshot_id :: "chrono \<Rightarrow> i64 \<Rightarrow> str" where
  "run_snapshot_id ch now =
     map_or (show_int now) (dt_format ch ''%Y%m%dT%H%M%SZ'') (from_timestamp ch now)"

section \<open>The publication\<close>

record publication =
  pb_snapshot :: "payload pub_snapshot"
  pb_index :: index
  pb_ceiling :: ceiling
  pb_relays_asked :: nat
  pb_measured :: "measured list"
  pb_not_sent :: "(str, unit) btree"
  pb_state :: "(str, previous) btree"
  pb_events :: u64

definition pb_documents :: "('k, 'e, 'x) world \<Rightarrow> publication \<Rightarrow> (str \<times> str) list" where
  "pb_documents wd pb =
     map (\<lambda>d. (doc_d d, wd_json wd (doc_envelope d))) (snap_documents (pb_snapshot pb))
     @ [(address_display (index_address (pb_index pb)), wd_json_index wd (pb_index pb))]"

definition reading_coverage :: "reading \<Rightarrow> coverage" where
  "reading_coverage rd = coverage_from_extent (rd_earliest rd) (rd_latest rd)"

definition publish_load :: "publish_settings \<Rightarrow> reading \<Rightarrow> i64 \<Rightarrow> data" where
  "publish_load st rd now =
     (let since = map_or now (\<lambda>t. t) (cov_earliest (reading_coverage rd)) in
      \<lparr>d_orders = rd_orders rd, d_fees = rd_fees rd, d_disputes = rd_disputes rd, d_profiles = rd_profiles rd,
       d_dev_fee_pct = Some (ps_assumption st),
       d_priced = Some \<lparr>pd_book = rd_book rd since now, pd_code = ps_reference_currency st\<rparr>\<rparr>)"

definition run_because :: "tables \<Rightarrow> reading \<Rightarrow> because" where
  "run_because t rd =
     (let current = \<lparr>read_schema_version = SCHEMA_VERSION, read_covered_from = rd_earliest rd,
            read_events = rd_events rd\<rparr> in
      because_inferred
        (map_or current (\<lambda>l. \<lparr>read_schema_version = pr_schema_version l,
           read_covered_from = pr_first_event_at l, read_events = pr_events l\<rparr>) (latest_run t))
        current)"

definition run_ceiling :: "nat \<Rightarrow> advertised list \<Rightarrow> ceiling" where
  "run_ceiling own ads =
     foldl (\<lambda>c a. case adv_limit a of Some limit \<Rightarrow> and_relay c (adv_relay a) limit | None \<Rightarrow> c)
       (ceiling_configured own) ads"

text \<open>\<open>None\<close> stands for a walk over the calendar that does not end.\<close>

definition publish_compute ::
  "('k, 'e, 'x) world \<Rightarrow> publish_settings \<Rightarrow> reading \<Rightarrow> tables \<Rightarrow> republish \<Rightarrow> i64 \<Rightarrow> publication option" where
  "publish_compute wd st rd t rep now =
     map_option (\<lambda>computed.
       let r = snapshot_restated (wd_chrono wd) computed (published_all t) (run_because t rd) rep;
           ix = snapshot_index (wd_chrono wd) (rst_snapshot r) (wd_publisher wd);
           ads = wd_limits wd (ps_relays st)
       in \<lparr>pb_snapshot = rst_snapshot r, pb_index = ix,
           pb_ceiling = run_ceiling (ps_max_content_bytes st) ads, pb_relays_asked = length ads,
           pb_measured = measure_documents (wd_json wd) (snap_documents (rst_snapshot r))
             @ [measure_index (wd_json_index wd) ix],
           pb_not_sent = rst_not_sent r, pb_state = rst_state r, pb_events = rd_events rd\<rparr>)
       (snapshot_compute (wd_chrono wd) (wd_hash wd) (publish_load st rd now) (reading_coverage rd)
         (run_snapshot_id (wd_chrono wd) now) now)"

definition refuse_oversized :: "publication \<Rightarrow> 'x publish_error + unit" where
  "refuse_oversized pb =
     (let ov = over (pb_measured pb) (pb_ceiling pb) in
      if ov = [] then Inr ()
      else Inl (Pub_Oversized (length ov) (ceil_bytes (pb_ceiling pb)) (ceil_relay (pb_ceiling pb))
             (map (\<lambda>m. (ms_address m, ms_bytes m)) ov)))"

section \<open>Review, files and relays\<close>

definition HASH_PREFIX :: nat where
  "HASH_PREFIX = 16"

definition ellipsis :: str where
  "ellipsis = [CHR 0xE2, CHR 0x80, CHR 0xA6]"

definition em_dash :: str where
  "em_dash = [CHR 0xE2, CHR 0x80, CHR 0x94]"

definition abbreviated :: "str \<Rightarrow> str" where
  "abbreviated h = take (min HASH_PREFIX (length h)) h @ ellipsis"

definition pad_right :: "nat \<Rightarrow> str \<Rightarrow> str" where
  "pad_right n s = s @ replicate (n - length s) (CHR '' '')"

definition pad_left :: "nat \<Rightarrow> str \<Rightarrow> str" where
  "pad_left n s = replicate (n - length s) (CHR '' '') @ s"

definition listing_width :: "measured list \<Rightarrow> nat" where
  "listing_width ms = (case ms of [] \<Rightarrow> 1 | _ \<Rightarrow> Max (set (map (\<lambda>m. length (address_display (ms_address m))) ms)))"

definition listing :: "chrono \<Rightarrow> publication \<Rightarrow> str" where
  "listing ch pb =
     (let s = pb_snapshot pb; c = pb_ceiling pb; width = listing_width (pb_measured pb) in
      ''snapshot '' @ snapshot_id (snap_run s) @ '' generated at '' @ rfc3339 ch (generated_at (snap_run s)) @ newline
      @ (case (cov_earliest (snap_coverage s), cov_latest (snap_coverage s)) of
           (Some first, Some l) \<Rightarrow> ''archive '' @ rfc3339 ch first @ '' to '' @ rfc3339 ch l @ newline
         | _ \<Rightarrow> ''archive holds nothing'' @ newline)
      @ ''ceiling '' @ show_nat (ceil_bytes c) @ '' bytes (''
      @ map_or ''[publish].max_content_bytes'' (\<lambda>r. r) (ceil_relay c) @ ''), ''
      @ show_nat (pb_relays_asked pb) @ '' relay(s) asked'' @ newline @ newline
      @ concat (map (\<lambda>m. pad_right width (address_display (ms_address m)) @ ''  ''
          @ pad_left 7 (show_nat (ms_bytes m)) @ ''  '' @ map_or em_dash abbreviated (ms_hash m) @ newline)
          (pb_measured pb))
      @ newline @ show_nat (length (pb_measured pb)) @ '' documents, ''
      @ show_nat (sum_list (map ms_bytes (pb_measured pb))) @ '' bytes'' @ newline)"

definition file_name :: "str \<Rightarrow> str" where
  "file_name address = map (\<lambda>c. if c = CHR '':'' then CHR ''-'' else c) address @ ''.json''"

text \<open>The directory of \<open>--out\<close> maps a file name to what it holds; a write replaces.\<close>

definition write_files :: "('k, 'e, 'x) world \<Rightarrow> publication \<Rightarrow> (str \<rightharpoonup> str) \<Rightarrow> (str \<rightharpoonup> str)" where
  "write_files wd pb dir = foldl (\<lambda>m (address, content). m(file_name address \<mapsto> content)) dir (pb_documents wd pb)"

definition send :: "('k, 'e, 'x) world \<Rightarrow> publication \<Rightarrow> 'k \<Rightarrow> str list \<Rightarrow> 'x publish_error + str" where
  "send wd pb k relays =
     (case wd_connect wd relays of
        Inl x \<Rightarrow> Inl (Pub_Connect x)
      | Inr n \<Rightarrow> map_sum Pub_Send (\<lambda>report. report)
          (send_to (wd_sdk wd) (wd_chrono wd) (wd_json wd) (wd_json_index wd) (wd_answer wd) n k
            (pb_snapshot pb) (pb_index pb) (pb_not_sent pb)))"

section \<open>The run\<close>

record 'x outcome =
  oc_result :: "'x publish_error + unit"
  oc_printed :: str
  oc_directory :: "str \<rightharpoonup> str"
  oc_tables :: tables

definition signing_key :: "('k, 'e, 'x) world \<Rightarrow> publish_settings \<Rightarrow> invocation \<Rightarrow> 'x publish_error + 'k option" where
  "signing_key wd st iv =
     (case (iv_dry_run iv, ps_nsec st) of
        (False, Some reference) \<Rightarrow> map_sum Pub_Key Some (key_resolve (wd_sdk wd) (wd_env wd) reference)
      | _ \<Rightarrow> Inr None)"

text \<open>Everything a run checks before it reads the archive, in its order.\<close>

definition admit ::
  "('k, 'e, 'x) world \<Rightarrow> publish_settings \<Rightarrow> invocation \<Rightarrow> tables \<Rightarrow> i64 \<Rightarrow> 'x publish_error + 'k option \<times> republish" where
  "admit wd st iv t now =
     and_then (refuse_scoped iv) (\<lambda>_.
     and_then (signing_key wd st iv) (\<lambda>keys.
     and_then (if iv_dry_run iv \<or> iv_out iv \<or> keys \<noteq> None then Inr () else Inl Pub_No_Key) (\<lambda>_.
     and_then (if keys \<noteq> None then refuse_stalled_clock (latest_run t) now else Inr ()) (\<lambda>_.
     and_then (requested (iv_from iv) (iv_until iv) (iv_republish iv)) (\<lambda>rep.
     Inr (keys, rep))))))"

definition publish_run ::
  "('k, 'e, 'x) world \<Rightarrow> publish_settings \<Rightarrow> invocation \<Rightarrow> reading \<Rightarrow> (str \<rightharpoonup> str) \<Rightarrow> tables \<Rightarrow> i64 \<Rightarrow> 'x outcome option" where
  "publish_run wd st iv rd dir t now =
     (case admit wd st iv t now of
        Inl e \<Rightarrow> Some \<lparr>oc_result = Inl e, oc_printed = [], oc_directory = dir, oc_tables = t\<rparr>
      | Inr (keys, rep) \<Rightarrow>
          map_option (\<lambda>pb.
            case refuse_oversized pb of
              Inl e \<Rightarrow> \<lparr>oc_result = Inl e, oc_printed = [], oc_directory = dir, oc_tables = t\<rparr>
            | Inr _ \<Rightarrow>
                let printed = (if iv_dry_run iv then listing (wd_chrono wd) pb else []);
                    dir' = (if iv_out iv then write_files wd pb dir else dir)
                in case keys of
                     None \<Rightarrow> \<lparr>oc_result = Inr (), oc_printed = printed, oc_directory = dir', oc_tables = t\<rparr>
                   | Some k \<Rightarrow>
                       (case send wd pb k (ps_relays st) of
                          Inl e \<Rightarrow> \<lparr>oc_result = Inl e, oc_printed = printed, oc_directory = dir', oc_tables = t\<rparr>
                        | Inr report \<Rightarrow> \<lparr>oc_result = Inr (), oc_printed = printed @ report, oc_directory = dir',
                            oc_tables = record_publication (pb_state pb) (pb_snapshot pb) (pb_events pb) t\<rparr>))
            (publish_compute wd st rd t rep now))"

section \<open>What a run leaves behind\<close>

text \<open>An archive and a clock a run can meet.\<close>

definition reading_ok :: "chrono \<Rightarrow> reading \<Rightarrow> i64 \<Rightarrow> bool" where
  "reading_ok ch rd now \<longleftrightarrow> extent_ok ch (reading_coverage rd) \<and> legible ch now \<and>
     distinct (map pf_pubkey (rd_profiles rd))"

lemma clock_advanced_iff: "refuse_stalled_clock (latest_run t) now = Inr () \<longleftrightarrow> clock_advanced t now"
  by (auto simp: refuse_stalled_clock_def clock_advanced_def is_none_or_def split: option.splits)

lemma admit_Inr:
  assumes "admit wd st iv t now = Inr (keys, rep)"
  shows "iv_instance iv = None \<and> iv_network iv = None \<and> (keys = None \<longrightarrow> iv_dry_run iv \<or> iv_out iv) \<and>
    (keys \<noteq> None \<longleftrightarrow> \<not> iv_dry_run iv \<and> ps_nsec st \<noteq> None) \<and> (keys \<noteq> None \<longrightarrow> clock_advanced t now) \<and>
    requested (iv_from iv) (iv_until iv) (iv_republish iv) = (Inr rep :: 'x publish_error + republish)"
  using assms
  by (auto simp: admit_def and_then_Inr refuse_scoped_def signing_key_def clock_advanced_iff requested_def Let_def map_sum_Inr
      split: if_splits option.splits bool.splits prod.splits)

lemma publish_compute_shape:
  assumes "chrono_laws (wd_chrono wd)" and "reading_ok (wd_chrono wd) rd now"
  shows "\<exists>s pb. publish_compute wd st rd t rep now = Some pb \<and> snapshot_ok (wd_chrono wd) s \<and>
    snap_run s = \<lparr>snapshot_id = run_snapshot_id (wd_chrono wd) now, generated_at = now\<rparr> \<and>
    snap_coverage s = reading_coverage rd \<and>
    doc_address ` set (snap_documents s) = snapshot_addresses (wd_chrono wd) (reading_coverage rd) now (rd_profiles rd) \<and>
    pb_snapshot pb = rst_snapshot (snapshot_restated (wd_chrono wd) s (published_all t) (run_because t rd) rep) \<and>
    record_publication (pb_state pb) (pb_snapshot pb) (pb_events pb) t =
      publish_step (wd_chrono wd) s (run_because t rd) rep (rd_events rd) t"
proof -
  have d: "d_profiles (publish_load st rd now) = rd_profiles rd" by (simp add: publish_load_def Let_def)
  obtain s where s: "snapshot_compute (wd_chrono wd) (wd_hash wd) (publish_load st rd now) (reading_coverage rd)
      (run_snapshot_id (wd_chrono wd) now) now = Some s" "snapshot_ok (wd_chrono wd) s"
    "snap_run s = \<lparr>snapshot_id = run_snapshot_id (wd_chrono wd) now, generated_at = now\<rparr>"
    "snap_coverage s = reading_coverage rd"
    "doc_address ` set (snap_documents s) = snapshot_addresses (wd_chrono wd) (reading_coverage rd) now (rd_profiles rd)"
    using compute_shape [OF assms(1), of "reading_coverage rd" now "publish_load st rd now" "wd_hash wd"
        "run_snapshot_id (wd_chrono wd) now"] assms(2)
    unfolding reading_ok_def d by blast
  then show ?thesis
    by (intro exI [of _ s]) (simp add: publish_compute_def Let_def publish_step_def)
qed

lemma set_bt_insert: "bt_ok m \<Longrightarrow> x \<in> set (bt_insert k v m) \<longleftrightarrow> x = (k, v) \<or> x \<in> set m \<and> fst x \<noteq> k"
proof -
  assume ok: "bt_ok m"
  have "(a, b) \<in> set (bt_insert k v m) \<longleftrightarrow> (a, b) = (k, v) \<or> (a, b) \<in> set m \<and> a \<noteq> k" for a b
    using bt_get_iff [of "bt_insert k v m" a b] bt_get_iff [of m a b] ok by (auto simp: bt_get_insert split: if_splits)
  then show ?thesis by (cases x) auto
qed

definition run_clocks :: "tables \<Rightarrow> i64 set" where
  "run_clocks t = (rr_generated_at \<circ> snd) ` set (publication_runs t)"

lemma publish_step_runs:
  "publication_runs (publish_step ch s b rep n t) =
     bt_insert (snapshot_id (snap_run s))
       \<lparr>rr_generated_at = generated_at (snap_run s), rr_schema_version = 1,
        rr_first_event_at = cov_earliest (snap_coverage s), rr_last_event_at = cov_latest (snap_coverage s),
        rr_events = wrap_i64 (int n)\<rparr> (publication_runs t)"
  by (simp add: publish_step_def Let_def record_publication_def record_run_def snapshot_restated_def
      SCHEMA_VERSION_def split_beta)

lemma clock_advanced_runs: "clock_advanced t now \<longleftrightarrow> (\<forall>c \<in> run_clocks t. c < now)"
proof (cases "latest_row (publication_runs t)")
  case None
  then show ?thesis by (simp add: clock_advanced_def latest_run_def run_clocks_def)
next
  case (Some y)
  with latest_row_max [OF Some] show ?thesis
    by (force simp: clock_advanced_def latest_run_def run_clocks_def row_run_def split_beta)
qed

lemma publish_step_latest:
  assumes "tables_ok t" and "clock_advanced t (generated_at (snap_run s))" and "n < 2 ^ 63"
  shows "latest_run (publish_step ch s b rep n t) =
    Some \<lparr>pr_snapshot_id = snapshot_id (snap_run s), pr_generated_at = generated_at (snap_run s),
      pr_schema_version = SCHEMA_VERSION, pr_first_event_at = cov_earliest (snap_coverage s),
      pr_last_event_at = cov_latest (snap_coverage s), pr_events = n\<rparr>"
proof -
  let ?m = "publication_runs (publish_step ch s b rep n t)"
  have ok: "bt_ok (publication_runs t)" using assms(1) by (simp add: tables_ok_def)
  let ?new = "(snapshot_id (snap_run s), \<lparr>rr_generated_at = generated_at (snap_run s), rr_schema_version = 1,
        rr_first_event_at = cov_earliest (snap_coverage s), rr_last_event_at = cov_latest (snap_coverage s),
        rr_events = wrap_i64 (int n)\<rparr>)"
  have mem: "x \<in> set ?m \<longleftrightarrow> x = ?new \<or> x \<in> set (publication_runs t) \<and> fst x \<noteq> fst ?new" for x
    unfolding publish_step_runs set_bt_insert [OF ok] by simp
  then have "?m \<noteq> []" by (metis empty_iff list.set(1))
  then obtain y where y: "latest_row ?m = Some y" using latest_row_None [of ?m] by blast
  have "generated_at (snap_run s) \<le> rr_generated_at (snd y)" and "y \<in> set ?m"
    using latest_row_max [OF y] mem [of ?new] by auto
  moreover have "rr_generated_at (snd x) < generated_at (snap_run s)" if "x \<in> set (publication_runs t)" for x
    using assms(2) that by (auto simp: clock_advanced_runs run_clocks_def)
  ultimately have "y \<notin> set (publication_runs t)" and "y \<in> set ?m" by fastforce+
  then have "y = ?new" using mem [of y] by blast
  moreover have "wrap_i64 (int n) = int n" using assms(3) by (intro wrap_i64_id) (simp add: in_i64_def i64_bounds)
  ultimately show ?thesis
    by (simp add: latest_run_def y row_run_def SCHEMA_VERSION_def as_u32_def)
qed

lemma publish_run_outcomes:
  assumes "chrono_laws (wd_chrono wd)" and "reading_ok (wd_chrono wd) rd now"
  obtains (failed) oc e where "publish_run wd st iv rd dir t now = Some oc" "oc_result oc = Inl e" "oc_tables oc = t"
    | (reviewed) oc where "publish_run wd st iv rd dir t now = Some oc" "oc_result oc = Inr ()" "oc_tables oc = t"
        "iv_dry_run iv \<or> ps_nsec st = None" "iv_dry_run iv \<or> iv_out iv"
    | (published) oc and s :: "payload pub_snapshot" and rep where "publish_run wd st iv rd dir t now = Some oc" "oc_result oc = Inr ()"
        "\<not> iv_dry_run iv" "ps_nsec st \<noteq> None" "clock_advanced t now" "snapshot_ok (wd_chrono wd) s"
        "snap_run s = \<lparr>snapshot_id = run_snapshot_id (wd_chrono wd) now, generated_at = now\<rparr>"
        "snap_coverage s = reading_coverage rd"
        "doc_address ` set (snap_documents s) = snapshot_addresses (wd_chrono wd) (reading_coverage rd) now (rd_profiles rd)"
        "oc_tables oc = publish_step (wd_chrono wd) s (run_because t rd) rep (rd_events rd) t"
proof (cases "admit wd st iv t now")
  case (Inl e)
  then show thesis by - (rule failed, (simp add: publish_run_def)+)
next
  case (Inr kr)
  obtain keys rep where kr: "kr = (keys, rep)" by force
  note adm = admit_Inr [OF Inr [unfolded kr]]
  obtain s :: "payload pub_snapshot" and pb where pb: "publish_compute wd st rd t rep now = Some pb" and s: "snapshot_ok (wd_chrono wd) s"
    "snap_run s = \<lparr>snapshot_id = run_snapshot_id (wd_chrono wd) now, generated_at = now\<rparr>"
    "snap_coverage s = reading_coverage rd"
    "doc_address ` set (snap_documents s) = snapshot_addresses (wd_chrono wd) (reading_coverage rd) now (rd_profiles rd)"
    and rec: "record_publication (pb_state pb) (pb_snapshot pb) (pb_events pb) t =
      publish_step (wd_chrono wd) s (run_because t rd) rep (rd_events rd) t"
    using publish_compute_shape [OF assms, of st t rep] by blast
  note run = publish_run_def Inr kr pb Let_def
  show thesis
  proof (cases "refuse_oversized pb :: 'c publish_error + unit")
    case (Inl e)
    then show thesis by - (rule failed, (simp add: run)+)
  next
    case ok: (Inr u)
    show thesis
    proof (cases keys)
      case None
      with adm ok show thesis by (elim conjE) (rule reviewed, (simp add: run)+)
    next
      case (Some k)
      show thesis
      proof (cases "send wd pb k (ps_relays st)")
        case (Inl e)
        with Some ok show thesis by - (rule failed, (simp add: run)+)
      next
        case (Inr report)
        with Some ok adm s rec show thesis by (elim conjE) (rule published, (simp add: run)+)
      qed
    qed
  qed
qed

lemma publish_run_tables:
  assumes "chrono_laws (wd_chrono wd)" and "history_inv (wd_chrono wd) t"
    and "reading_ok (wd_chrono wd) rd now" and "rd_events rd < 2 ^ 63"
  shows "\<exists>oc. publish_run wd st iv rd dir t now = Some oc \<and>
    (case oc_result oc of
       Inl e \<Rightarrow> oc_tables oc = t
     | Inr _ \<Rightarrow>
         if iv_dry_run iv \<or> ps_nsec st = None then oc_tables oc = t
         else clock_advanced t now \<and> history_inv (wd_chrono wd) (oc_tables oc) \<and>
           latest_run (oc_tables oc) =
             Some \<lparr>pr_snapshot_id = run_snapshot_id (wd_chrono wd) now, pr_generated_at = now,
               pr_schema_version = SCHEMA_VERSION, pr_first_event_at = rd_earliest rd,
               pr_last_event_at = rd_latest rd, pr_events = rd_events rd\<rparr> \<and>
           (\<forall>a \<in> snapshot_addresses (wd_chrono wd) (reading_coverage rd) now (rd_profiles rd).
             bt_get (published_all (oc_tables oc)) (address_display a) \<noteq> None))"
  using assms(1,3)
proof (cases rule: publish_run_outcomes [where st = st and iv = iv and dir = dir and t = t])
  case (published oc s rep)
  let ?t' = "publish_step (wd_chrono wd) s (run_because t rd) rep (rd_events rd) t"
  have t: "tables_ok t" using assms(2) by (simp add: history_inv_def)
  have clock: "clock_advanced t (generated_at (snap_run s))" using published(5,7) by simp
  have cov: "cov_earliest (snap_coverage s) = rd_earliest rd" "cov_latest (snap_coverage s) = rd_latest rd"
    by (simp_all add: published(8) reading_coverage_def coverage_from_extent_def)
  have "bt_get (published_all ?t') (address_display a) \<noteq> None"
    if a: "a \<in> snapshot_addresses (wd_chrono wd) (reading_coverage rd) now (rd_profiles rd)" for a
  proof -
    obtain d where "d \<in> set (snap_documents s)" "doc_address d = a"
      using a unfolding published(9) [symmetric] by blast
    then have "List.find (\<lambda>d. doc_d d = address_display a) (snap_documents s) \<noteq> None"
      by (auto simp: find_None_iff)
    then show ?thesis by (auto simp: chrono_laws.publish_step_get [OF assms(1,2) published(6)])
  qed
  moreover have "history_inv (wd_chrono wd) ?t'"
    by (rule chrono_laws.publish_step_inv [OF assms(1,2) published(6)])
  ultimately show ?thesis
    using published publish_step_latest [OF t clock assms(4)] cov by auto
qed simp_all

section \<open>Every history\<close>

text \<open>The tables that a sequence of runs, successful or not, can leave behind.\<close>

inductive publish_history :: "('k, 'e, 'x) world itself \<Rightarrow> chrono \<Rightarrow> tables \<Rightarrow> bool" for ty ch where
  history_start: "publish_history ty ch empty_tables"
| history_run: "publish_history ty ch (oc_tables oc)"
    if "publish_history ty ch t" and "wd_chrono (wd :: ('k, 'e, 'x) world) = ch" and "reading_ok ch rd now"
      and "publish_run wd st iv rd dir t now = Some oc"

definition record_dated :: "tables \<Rightarrow> previous \<Rightarrow> bool" where
  "record_dated t p \<longleftrightarrow> (\<exists>c \<in> run_clocks t. previous_updated_at p \<le> c) \<and>
     is_none_or (previous_restatement p) (\<lambda>rs. restated_on rs = previous_updated_at p)"

definition dated_inv :: "tables \<Rightarrow> bool" where
  "dated_inv t \<longleftrightarrow> inj_on (rr_generated_at \<circ> snd) (set (publication_runs t)) \<and>
     (\<forall>a p. bt_get (published_all t) a = Some p \<longrightarrow> record_dated t p)"

lemma previous_next_dated:
  assumes "\<And>q. p = Some q \<Longrightarrow> record_dated t q" and "clock_advanced t (generated_at r)"
    and "generated_at r \<in> run_clocks t'"
  shows "record_dated t' (previous_next r h p b)"
proof (cases p)
  case (Some q)
  with assms(1) obtain c where "c \<in> run_clocks t" "previous_updated_at q \<le> c"
    "is_none_or (previous_restatement q) (\<lambda>rs. restated_on rs = previous_updated_at q)"
    by (auto simp: record_dated_def)
  moreover from this(1) assms(2) have "c < generated_at r" by (simp add: clock_advanced_runs)
  ultimately have "previous_updated_at q \<le> generated_at r" by simp
  with \<open>is_none_or _ _\<close> Some assms(3) show ?thesis
    by (auto simp: previous_next_def record_dated_def)
qed (use assms(3) in \<open>auto simp: previous_next_def record_dated_def\<close>)

lemma publish_step_dated:
  assumes "chrono_laws ch" and "history_inv ch t" and "snapshot_ok ch s"
    and "clock_advanced t (generated_at (snap_run s))" and "dated_inv t"
  shows "dated_inv (publish_step ch s b rep n t)"
proof -
  let ?t' = "publish_step ch s b rep n t"
  have ok: "bt_ok (publication_runs t)" using assms(2) by (simp add: history_inv_def tables_ok_def)
  note mem = set_bt_insert [OF ok]
  have now: "generated_at (snap_run s) \<in> run_clocks ?t'"
    by (force simp: run_clocks_def publish_step_runs mem)
  have old: "rr_generated_at (snd x) < generated_at (snap_run s)" if "x \<in> set (publication_runs t)" for x
    using assms(4) that by (auto simp: clock_advanced_runs run_clocks_def)
  have cases: "x \<in> set (publication_runs t) \<or> x \<notin> set (publication_runs t) \<and> rr_generated_at (snd x) = generated_at (snap_run s)"
    if "x \<in> set (publication_runs ?t')" for x
    using that old [of x] unfolding publish_step_runs mem by auto
  have fresh: "x = y" if "x \<in> set (publication_runs ?t')" "y \<in> set (publication_runs ?t')"
    "x \<notin> set (publication_runs t)" "y \<notin> set (publication_runs t)" for x y
    using that unfolding publish_step_runs mem by simp
  have "inj_on (rr_generated_at \<circ> snd) (set (publication_runs ?t'))"
  proof (rule inj_onI)
    fix x y assume xy: "x \<in> set (publication_runs ?t')" "y \<in> set (publication_runs ?t')"
      "(rr_generated_at \<circ> snd) x = (rr_generated_at \<circ> snd) y"
    have "inj_on (rr_generated_at \<circ> snd) (set (publication_runs t))" using assms(5) by (simp add: dated_inv_def)
    with xy show "x = y"
      using cases [OF xy(1)] cases [OF xy(2)] fresh [OF xy(1,2)] old [of x] old [of y]
        inj_onD [of "rr_generated_at \<circ> snd" "set (publication_runs t)" x y] by auto
  qed
  moreover have "record_dated ?t' p" if p: "bt_get (published_all ?t') a = Some p" for a p
  proof (cases "List.find (\<lambda>d. doc_d d = a) (snap_documents s)")
    case (Some d)
    with p show ?thesis
      using assms(5) previous_next_dated [OF _ assms(4) now, of "bt_get (published_all t) a" "doc_hash d" b]
      by (auto simp: chrono_laws.publish_step_get [OF assms(1-3)] dated_inv_def)
  next
    case None
    with p have "record_dated t p"
      using assms(5) by (simp add: chrono_laws.publish_step_get [OF assms(1-3)] dated_inv_def)
    then obtain c where c: "c \<in> run_clocks t" "previous_updated_at p \<le> c"
      "is_none_or (previous_restatement p) (\<lambda>rs. restated_on rs = previous_updated_at p)"
      by (auto simp: record_dated_def)
    then have "previous_updated_at p \<le> generated_at (snap_run s)"
      using assms(4) by (auto simp: clock_advanced_runs)
    with c(3) now show ?thesis by (auto simp: record_dated_def)
  qed
  ultimately show ?thesis by (simp add: dated_inv_def)
qed

lemma publish_history_inv:
  assumes "chrono_laws ch" and "publish_history ty ch t"
  shows "history_inv ch t \<and> dated_inv t"
  using assms(2)
proof (induction rule: publish_history.induct)
  case history_start
  show ?case
    using history_inv_empty by (simp add: dated_inv_def empty_tables_def published_all_def)
next
  case (history_run t wd rd now st iv dir oc)
  then have wd: "chrono_laws (wd_chrono wd)" "reading_ok (wd_chrono wd) rd now" using assms(1) by simp_all
  from wd show ?case
  proof (cases rule: publish_run_outcomes [where st = st and iv = iv and dir = dir and t = t])
    case (published oc' s rep)
    then show ?thesis
      using history_run chrono_laws.publish_step_inv [OF assms(1), of t s] publish_step_dated [OF assms(1), of t s]
      by simp
  qed (use history_run in simp_all)
qed

text \<open>
  C13. Whatever sequence of runs a database has seen, refused, failed or published, its
  publication tables are well formed: no two recorded runs share a clock, no document claims
  to have been updated after the last run, every revision above the first carries its restatement, and
  a restatement is dated by the run that published it.
\<close>

theorem published_tables_wellformed:
  assumes "chrono_laws ch" and "publish_history ty ch t" and "bt_get (published_all t) a = Some p"
  shows "inj_on (rr_generated_at \<circ> snd) (set (publication_runs t)) \<and>
    (\<exists>l. latest_run t = Some l \<and> previous_updated_at p \<le> pr_generated_at l) \<and>
    (previous_revision p > 1 \<longleftrightarrow> previous_restatement p \<noteq> None) \<and> previous_revision p \<ge> 1 \<and>
    is_none_or (previous_restatement p) (\<lambda>rs. restated_on rs = previous_updated_at p)"
proof -
  have inv: "history_inv ch t" "dated_inv t" using publish_history_inv [OF assms(1,2)] by simp_all
  then have ok: "previous_ok ch p" using assms(3) history_get by (auto simp: history_inv_def)
  obtain c where c: "c \<in> run_clocks t" "previous_updated_at p \<le> c"
    and rs: "is_none_or (previous_restatement p) (\<lambda>rs. restated_on rs = previous_updated_at p)"
    using inv(2) assms(3) by (force simp: dated_inv_def record_dated_def)
  have "publication_runs t \<noteq> []" using c(1) by (auto simp: run_clocks_def)
  then obtain y where y: "latest_row (publication_runs t) = Some y"
    using latest_row_None [of "publication_runs t"] by blast
  have "c \<le> rr_generated_at (snd y)" using latest_row_max [OF y] c(1) by (auto simp: run_clocks_def)
  then have "\<exists>l. latest_run t = Some l \<and> previous_updated_at p \<le> pr_generated_at l"
    using y c(2) by (auto simp: latest_run_def row_run_def split_beta)
  moreover have "previous_revision p > 1 \<longleftrightarrow> previous_restatement p \<noteq> None" using ok by (cases p) simp_all
  ultimately show ?thesis
    using inv(2) rs previous_revision_pos [OF ok] by (simp add: dated_inv_def)
qed


section \<open>One run\<close>

definition example_world :: "(str, unsigned_event, str) world" where
  "example_world =
     \<lparr>wd_chrono = gregorian, wd_hash = (\<lambda>_. ''h''), wd_json = (\<lambda>_. ''{}''), wd_json_index = (\<lambda>_. ''[]''),
      wd_sdk = example_sdk, wd_env = (\<lambda>_. Some ''k''), wd_publisher = \<lparr>pub_name = ''b'', pub_version = ''1''\<rparr>,
      wd_limits = (\<lambda>_. []), wd_connect = (\<lambda>_. Inr 1), wd_answer = example_answer\<rparr>"

definition example_settings :: publish_settings where
  "example_settings = \<lparr>ps_nsec = Some ''KEY'', ps_relays = [''wss://relay''],
     ps_max_content_bytes = DEFAULT_MAX_CONTENT_BYTES,
     ps_assumption = \<lparr>as_per_instance = [], as_default = f64_of_int 30\<rparr>, ps_reference_currency = ''USD''\<rparr>"

definition example_invocation :: invocation where
  "example_invocation = \<lparr>iv_dry_run = False, iv_out = False, iv_republish = False, iv_from = None, iv_until = None,
     iv_instance = None, iv_network = None\<rparr>"

definition example_reading :: reading where
  "example_reading = \<lparr>rd_earliest = Some 1754006400, rd_latest = Some 1756684800, rd_events = 7, rd_orders = [],
     rd_fees = \<lparr>df_fees = [], df_settlements = []\<rparr>, rd_disputes = \<lparr>dd_disputes = [], dd_taken = []\<rparr>,
     rd_profiles = [], rd_book = (\<lambda>_ _. rate_book_new [])\<rparr>"

lemma example_reading_ok: "reading_ok gregorian example_reading 1772323200"
  using example_legible example_extent
  by (simp add: reading_ok_def example_reading_def reading_coverage_def coverage_from_extent_def coverage_between_def)

lemma try_collect_const: "(\<And>a. f a = Inr b) \<Longrightarrow> try_collect f as = Inr (map (\<lambda>a. (a, b)) as)"
  by (induction as) simp_all

lemma example_send: "\<exists>report. send example_world pb ''k'' relays = Inr report"
proof -
  have published: "is_published \<lparr>dl_accepted = [''wss://relay''], dl_refused = []\<rparr>" by (simp add: is_published_def)
  have "refusals (map (\<lambda>a. (a, \<lparr>dl_accepted = [''wss://relay''], dl_refused = []\<rparr>)) ds) = []" for ds :: "payload document list"
    using published by (simp add: refusals_Nil list_all_iff)
  with published show ?thesis
    by (simp add: send_def send_to_def example_world_def example_sdk_def send_index_last_def example_answer_def
        try_collect_const [of _ "\<lparr>dl_accepted = [''wss://relay''], dl_refused = []\<rparr>"])
qed

lemma example_fits:
  assumes "publish_compute example_world example_settings rd t rep now = Some pb"
  shows "refuse_oversized pb = Inr ()"
  using assms
  by (auto simp: publish_compute_def Let_def refuse_oversized_def over_def measure_documents_def measure_index_def
      example_world_def example_settings_def run_ceiling_def ceiling_configured_def DEFAULT_MAX_CONTENT_BYTES_def)

lemma example_run:
  "\<exists>oc. publish_run example_world example_settings example_invocation example_reading dir empty_tables 1772323200 = Some oc \<and>
     oc_result oc = Inr ()"
proof -
  let ?ok = "publish_compute example_world example_settings example_reading empty_tables Republish_No 1772323200"
  have adm: "admit example_world example_settings example_invocation empty_tables 1772323200 = Inr (Some ''k'', Republish_No)"
    by (simp add: admit_def refuse_scoped_def example_invocation_def signing_key_def example_settings_def key_resolve_def
        example_world_def key_parse_def example_sdk_def refuse_stalled_clock_def latest_run_def empty_tables_def
        requested_def Let_def) (code_simp)
  obtain pb where pb: "?ok = Some pb"
    using publish_compute_shape [of example_world example_reading 1772323200 example_settings empty_tables Republish_No]
      greg.chrono_laws_axioms example_reading_ok by (auto simp: example_world_def)
  obtain report where "send example_world pb ''k'' (ps_relays example_settings) = Inr report"
    using example_send by blast
  moreover have "refuse_oversized pb = (Inr () :: str publish_error + unit)" by (rule example_fits [OF pb])
  ultimately show ?thesis using adm pb by (simp add: publish_run_def Let_def)
qed


theorem published_tables_wellformed_witness:
  "\<exists>t p. publish_history TYPE((str, unsigned_event, str) world) gregorian t \<and>
     bt_get (published_all t) (address_display (Addr_Window Report_Orders Days30 None)) = Some p \<and> previous_revision p \<ge> 1"
proof -
  have hyps: "chrono_laws (wd_chrono example_world)" "history_inv (wd_chrono example_world) empty_tables"
    "reading_ok (wd_chrono example_world) example_reading 1772323200" "rd_events example_reading < 2 ^ 63"
    using greg.chrono_laws_axioms history_inv_empty example_reading_ok
    by (simp_all add: example_world_def) (simp add: example_reading_def)
  obtain oc where oc: "publish_run example_world example_settings example_invocation example_reading Map.empty
      empty_tables 1772323200 = Some oc" "oc_result oc = Inr ()"
    using example_run by blast
  have h: "publish_history TYPE((str, unsigned_event, str) world) gregorian (oc_tables oc)"
    by (rule history_run [OF history_start _ _ oc(1)]) (use example_reading_ok in \<open>simp_all add: example_world_def\<close>)
  have "Addr_Window Report_Orders Days30 None \<in> snapshot_addresses (wd_chrono example_world)
      (reading_coverage example_reading) 1772323200 (rd_profiles example_reading)"
    by (simp add: snapshot_addresses_def)
  then obtain p where p: "bt_get (published_all (oc_tables oc)) (address_display (Addr_Window Report_Orders Days30 None)) = Some p"
    using publish_run_tables [OF hyps, of example_settings example_invocation Map.empty] oc
    by (fastforce simp: example_settings_def example_invocation_def)
  from published_tables_wellformed [OF greg.chrono_laws_axioms h p] h p show ?thesis by blast
qed

end
