(* ===== verification/Tables.thy ===== *)
theory Tables
  imports BTree "HOL-Library.Product_Lexorder"
begin

text \<open>
  What the repositories of \<open>src/db/repo\<close> rest on. A table is an ordered map from its
  primary key to a row. \<open>INSERT ... ON CONFLICT DO UPDATE\<close> is one \<open>bt_upd\<close> with a
  merge function, \<open>INSERT OR IGNORE\<close> the merge that keeps what is there. Backfill
  walks backwards and live sync forwards, so the rows of a table arrive in any order and more than once:
  \<open>arrival\<close> states what makes that harmless, and \<open>upserts\<close> reduces it to the merge
  function of one row.
\<close>

section \<open>Order of arrival\<close>

locale arrival =
  fixes ok :: "'s \<Rightarrow> bool" and agree :: "'a \<Rightarrow> 'a \<Rightarrow> bool" and step :: "'s \<Rightarrow> 'a \<Rightarrow> 's"
  assumes step_ok: "ok s \<Longrightarrow> ok (step s a)"
    and step_commute: "ok s \<Longrightarrow> agree a b \<Longrightarrow> step (step s a) b = step (step s b) a"
    and step_idem: "ok s \<Longrightarrow> step (step s a) a = step s a"
begin

lemma fold_ok: "ok s \<Longrightarrow> ok (foldl step s xs)"
  by (induction xs arbitrary: s) (simp_all add: step_ok)

lemma fold_move:
  assumes "ok s" and "\<forall>b \<in> set xs. agree a b"
  shows "foldl step (step s a) xs = step (foldl step s xs) a"
  using assms by (induction xs arbitrary: s) (simp_all add: step_commute step_ok)

definition compatible :: "'a set \<Rightarrow> bool" where
  "compatible A \<longleftrightarrow> (\<forall>a \<in> A. \<forall>b \<in> A. agree a b)"

lemma fold_absorb:
  assumes "ok s" and "compatible (set xs)" and "a \<in> set xs"
  shows "step (foldl step s xs) a = foldl step s xs"
proof -
  obtain us vs where xs: "xs = us @ a # vs" using assms(3) by (meson split_list)
  have "foldl step s xs = step (foldl step (foldl step s us) vs) a"
    using assms unfolding xs by (simp add: fold_move fold_ok compatible_def)
  then show ?thesis using assms(1) by (simp add: step_idem fold_ok)
qed

lemma fold_absorb_all:
  assumes "ok s" and "compatible (set xs)" and "set ys \<subseteq> set xs"
  shows "foldl step (foldl step s xs) ys = foldl step s xs"
  using assms(3) by (induction ys) (simp_all add: fold_absorb [OF assms(1,2)])

lemma fold_swap:
  assumes "ok s" and "compatible (set xs \<union> set ys)"
  shows "foldl step (foldl step s xs) ys = foldl step (foldl step s ys) xs"
  using assms
proof (induction ys arbitrary: s)
  case (Cons y ys)
  have "foldl step (foldl step s xs) (y # ys) = foldl step (foldl step (step s y) xs) ys"
    using Cons.prems by (simp add: fold_move compatible_def)
  also have "\<dots> = foldl step (foldl step (step s y) ys) xs"
    using Cons by (simp add: step_ok compatible_def)
  finally show ?case by simp
qed simp

theorem converges:
  assumes "ok s" and "compatible (set xs)" and "set xs = set ys"
  shows "foldl step s xs = foldl step s ys"
proof -
  have "foldl step s xs = foldl step (foldl step s xs) ys" using assms by (simp add: fold_absorb_all)
  also have "\<dots> = foldl step (foldl step s ys) xs" using assms by (intro fold_swap) simp_all
  also have "\<dots> = foldl step s ys" using assms by (intro fold_absorb_all) simp_all
  finally show ?thesis .
qed

end

section \<open>Tables are equal when their rows are\<close>

lemma bt_ext:
  assumes "bt_ok m" and "bt_ok m'" and "\<And>k. bt_get m k = bt_get m' k"
  shows "m = m'"
proof -
  have keys: "set (map fst m) = set (map fst m')"
    using bt_keys_get [of _ m] bt_keys_get [of _ m'] assms(3) unfolding bt_keys_def
    by (intro set_eqI) simp
  have fst: "map fst m = map fst m'"
    using assms(1,2) keys by (intro sorted_distinct_set_unique) (auto simp: bt_ok_def strict_sorted_iff)
  have "m ! i = m' ! i" if "i < length m" for i
  proof -
    have "i < length m'" using fst that by (metis length_map)
    then have f: "fst (m ! i) = fst (m' ! i)" using fst that by (metis nth_map)
    have "bt_get m (fst (m ! i)) = Some (snd (m ! i))" "bt_get m' (fst (m' ! i)) = Some (snd (m' ! i))"
      using that \<open>i < length m'\<close> by (simp_all add: bt_get_iff assms(1,2))
    then show ?thesis using f assms(3) by (metis option.inject prod.collapse)
  qed
  then show ?thesis using fst by (metis length_map nth_equalityI)
qed

section \<open>Upserts\<close>

lemma bt_upd_commute:
  assumes "bt_ok m" and "k = l \<Longrightarrow> g (Some (f (bt_get m k))) = f (Some (g (bt_get m k)))"
  shows "bt_upd l g (bt_upd k f m) = bt_upd k f (bt_upd l g m)"
proof (rule bt_ext)
  show "bt_get (bt_upd l g (bt_upd k f m)) a = bt_get (bt_upd k f (bt_upd l g m)) a" for a
    using assms by (auto simp: bt_get_upd bt_ok_upd)
qed (use assms(1) in \<open>simp_all add: bt_ok_upd\<close>)

lemma bt_upd_idem:
  assumes "bt_ok m" and "f (Some (f (bt_get m k))) = f (bt_get m k)"
  shows "bt_upd k f (bt_upd k f m) = bt_upd k f m"
proof (rule bt_ext)
  show "bt_get (bt_upd k f (bt_upd k f m)) a = bt_get (bt_upd k f m) a" for a
    using assms by (auto simp: bt_get_upd bt_ok_upd)
qed (use assms(1) in \<open>simp_all add: bt_ok_upd\<close>)

locale upserts =
  fixes key :: "'a \<Rightarrow> 'k::linorder" and merge :: "'a \<Rightarrow> 'v option \<Rightarrow> 'v" and agree :: "'a \<Rightarrow> 'a \<Rightarrow> bool"
  assumes merge_commute: "agree a b \<Longrightarrow> key a = key b \<Longrightarrow> merge b (Some (merge a old)) = merge a (Some (merge b old))"
    and merge_idem: "merge a (Some (merge a old)) = merge a old"
begin

definition upsert :: "('k, 'v) btree \<Rightarrow> 'a \<Rightarrow> ('k, 'v) btree" where
  "upsert m a = bt_upd (key a) (merge a) m"

end

sublocale upserts \<subseteq> arrival bt_ok agree upsert
  by unfold_locales
    (simp_all add: upsert_def bt_ok_upd bt_upd_commute bt_upd_idem merge_commute merge_idem)

text \<open>\<open>INSERT OR IGNORE\<close>.\<close>

definition keep_old :: "'v \<Rightarrow> 'v option \<Rightarrow> 'v" where
  "keep_old v old = (case old of None \<Rightarrow> v | Some w \<Rightarrow> w)"

definition insert_ignore :: "'k::linorder \<Rightarrow> 'v \<Rightarrow> ('k, 'v) btree \<Rightarrow> ('k, 'v) btree" where
  "insert_ignore k v m = bt_upd k (keep_old v) m"

lemma keep_old_simps [simp]: "keep_old v None = v" "keep_old v (Some w) = w"
  by (simp_all add: keep_old_def)

lemma bt_ok_insert_ignore [simp]: "bt_ok m \<Longrightarrow> bt_ok (insert_ignore k v m)"
  by (simp add: insert_ignore_def bt_ok_upd)

lemma bt_get_insert_ignore:
  "bt_ok m \<Longrightarrow> bt_get (insert_ignore k v m) a = (if a = k then Some (keep_old v (bt_get m k)) else bt_get m a)"
  by (simp add: insert_ignore_def bt_get_upd)

lemma insert_ignore_old: "bt_ok m \<Longrightarrow> bt_get m k = Some w \<Longrightarrow> insert_ignore k v m = m"
  by (intro bt_ext) (auto simp: bt_get_insert_ignore)

lemma insert_ignore_commute:
  assumes "bt_ok m" and "k = l \<Longrightarrow> v = w"
  shows "insert_ignore l w (insert_ignore k v m) = insert_ignore k v (insert_ignore l w m)"
  using assms by (intro bt_ext) (auto simp: bt_get_insert_ignore)

lemma insert_ignore_idem: "bt_ok m \<Longrightarrow> insert_ignore k v (insert_ignore k v m) = insert_ignore k v m"
  by (intro bt_ext) (auto simp: bt_get_insert_ignore)

lemma set_insert_ignore: "set (insert_ignore k v m) \<subseteq> insert (k, v) (set m)"
  unfolding insert_ignore_def by (induction m) (auto split: if_splits)

section \<open>Ordered queries\<close>

text \<open>\<open>ORDER BY ... LIMIT 1\<close>: the first row under \<open>before\<close>.\<close>

fun first_by :: "('a \<Rightarrow> 'a \<Rightarrow> bool) \<Rightarrow> 'a list \<Rightarrow> 'a option" where
  "first_by before [] = None"
| "first_by before (x # xs) =
     (case first_by before xs of
        None \<Rightarrow> Some x
      | Some y \<Rightarrow> if before y x then Some y else Some x)"

text \<open>\<open>MIN\<close> and \<open>MAX\<close> of a column pass over nulls, and are null over nothing.\<close>

definition sql_min :: "int option list \<Rightarrow> int option" where
  "sql_min xs = (case filter_map (\<lambda>x. x) xs of [] \<Rightarrow> None | y # ys \<Rightarrow> Some (foldl min y ys))"

definition sql_max :: "int option list \<Rightarrow> int option" where
  "sql_max xs = (case filter_map (\<lambda>x. x) xs of [] \<Rightarrow> None | y # ys \<Rightarrow> Some (foldl max y ys))"

definition table_rows :: "('k, 'v) btree \<Rightarrow> 'v list" where
  "table_rows t = map snd t"

lemma first_by_None [simp]: "first_by before xs = None \<longleftrightarrow> xs = []"
  by (cases xs) (auto split: option.splits)

lemma first_by_in: "first_by before xs = Some x \<Longrightarrow> x \<in> set xs"
  by (induction xs arbitrary: x) (auto split: option.splits if_splits)

lemma first_by_least:
  assumes "first_by before xs = Some x" and "y \<in> set xs"
    and asym: "\<And>a b. before a b \<Longrightarrow> \<not> before b a"
    and neg_trans: "\<And>a b c. \<not> before a b \<Longrightarrow> \<not> before b c \<Longrightarrow> \<not> before a c"
  shows "\<not> before y x"
  using assms(1,2)
proof (induction xs arbitrary: x y)
  case (Cons z zs)
  have irrefl: "\<not> before a a" for a using asym by blast
  show ?case
  proof (cases "first_by before zs")
    case None
    with Cons irrefl show ?thesis by auto
  next
    case (Some w)
    have zs: "\<not> before u w" if "u \<in> set zs" for u using Cons.IH [OF Some that] .
    have "\<not> before u z" if "u \<in> set zs" "\<not> before w z" for u
      using zs [OF that(1)] that(2) neg_trans by blast
    then show ?thesis using Cons.prems Some zs irrefl asym by (cases "before w z") auto
  qed
qed simp

lemma first_by_map:
  assumes "\<And>a b. before (g a) (g b) = before' a b"
  shows "first_by before (map g xs) = map_option g (first_by before' xs)"
  by (induction xs) (auto simp: assms split: option.splits)

lemma foldl_min: "foldl min (y :: int) ys = Min (insert y (set ys))"
proof (induction ys arbitrary: y)
  case (Cons a ys)
  have "Min (insert (min y a) (set ys)) = min (min y a) (Min (set ys))" if "ys \<noteq> []" using that by simp
  moreover have "Min (insert y (insert a (set ys))) = min y (min a (Min (set ys)))" if "ys \<noteq> []" using that by simp
  ultimately show ?case using Cons by (cases "ys = []") (simp_all add: min.assoc)
qed simp

lemma foldl_max: "foldl max (y :: int) ys = Max (insert y (set ys))"
proof (induction ys arbitrary: y)
  case (Cons a ys)
  have "Max (insert (max y a) (set ys)) = max (max y a) (Max (set ys))" if "ys \<noteq> []" using that by simp
  moreover have "Max (insert y (insert a (set ys))) = max y (max a (Max (set ys)))" if "ys \<noteq> []" using that by simp
  ultimately show ?case using Cons by (cases "ys = []") (simp_all add: max.assoc)
qed simp

lemma all_null: "set xs \<subseteq> {None} \<longleftrightarrow> (\<forall>y. Some y \<notin> set xs)"
proof
  assume "\<forall>y. Some y \<notin> set xs"
  then show "set xs \<subseteq> {None}" by (metis option.exhaust singletonI subsetI)
qed auto

lemma sql_min_eq: "sql_min xs = (if set xs \<subseteq> {None} then None else Some (Min {y. Some y \<in> set xs}))"
proof -
  have "set (filter_map (\<lambda>x. x) xs) = {y. Some y \<in> set xs}" by (auto simp: set_filter_map)
  then show ?thesis
    unfolding sql_min_def all_null by (cases "filter_map (\<lambda>x. x) xs") (auto simp: foldl_min)
qed

lemma sql_max_eq: "sql_max xs = (if set xs \<subseteq> {None} then None else Some (Max {y. Some y \<in> set xs}))"
proof -
  have "set (filter_map (\<lambda>x. x) xs) = {y. Some y \<in> set xs}" by (auto simp: set_filter_map)
  then show ?thesis
    unfolding sql_max_def all_null by (cases "filter_map (\<lambda>x. x) xs") (auto simp: foldl_max)
qed

section \<open>Projections\<close>

text \<open>
  A projection holds one row per subject, recomputed from every stored version that names
  it. The locale says what the recomputation has to be for the projection to stay current:
  nothing but an empty history has no row.
\<close>

definition subject_rows :: "('v \<Rightarrow> 's) \<Rightarrow> ('k, 'v) btree \<Rightarrow> 's \<Rightarrow> 'v list" where
  "subject_rows subject vs s = filter (\<lambda>v. subject v = s) (table_rows vs)"

lemma filter_insert_ignore: "\<not> P v \<Longrightarrow> filter P (table_rows (insert_ignore k v m)) = filter P (table_rows m)"
  unfolding table_rows_def insert_ignore_def by (induction m) auto

lemma table_rows_iff: "bt_ok m \<Longrightarrow> v \<in> set (table_rows m) \<longleftrightarrow> (\<exists>k. bt_get m k = Some v)"
  by (force simp: table_rows_def bt_get_iff)

locale projection =
  fixes subject :: "'v \<Rightarrow> 's::linorder" and project :: "'v list \<Rightarrow> 'p option"
  assumes project_None: "project rs = None \<longleftrightarrow> rs = []"
begin

lemma project_Nil [simp]: "project [] = None"
  by (simp add: project_None)

definition refresh :: "('k, 'v) btree \<Rightarrow> 's \<Rightarrow> ('s, 'p) btree \<Rightarrow> ('s, 'p) btree" where
  "refresh vs s ps =
     (case project (subject_rows subject vs s) of None \<Rightarrow> ps | Some p \<Rightarrow> bt_insert s p ps)"

definition current :: "('k, 'v) btree \<Rightarrow> ('s, 'p) btree \<Rightarrow> bool" where
  "current vs ps \<longleftrightarrow> bt_ok ps \<and> (\<forall>s. bt_get ps s = project (subject_rows subject vs s))"

lemma current_unique: "current vs ps \<Longrightarrow> current vs ps' \<Longrightarrow> ps = ps'"
  unfolding current_def by (intro bt_ext) simp_all

lemma current_empty: "current [] []"
  by (simp add: current_def subject_rows_def table_rows_def)

lemma bt_ok_refresh: "bt_ok ps \<Longrightarrow> bt_ok (refresh vs s ps)"
  by (simp add: refresh_def split: option.splits)

lemma get_refresh:
  "bt_ok ps \<Longrightarrow> bt_get (refresh vs s ps) t =
    (if t = s \<and> subject_rows subject vs s \<noteq> [] then project (subject_rows subject vs s) else bt_get ps t)"
proof (cases "project (subject_rows subject vs s)")
  case None
  then have "subject_rows subject vs s = []" by (simp add: project_None)
  with None show ?thesis by (simp add: refresh_def)
next
  case (Some p)
  then have "subject_rows subject vs s \<noteq> []" by auto
  with Some show "bt_ok ps \<Longrightarrow> ?thesis" by (simp add: refresh_def bt_get_insert)
qed

lemma refresh_same: "current vs ps \<Longrightarrow> refresh vs s ps = ps"
  by (rule bt_ext) (auto simp: current_def get_refresh bt_ok_refresh)

lemma refresh_current:
  assumes "bt_ok vs" and "current vs ps" and "subject v = s"
  shows "current (insert_ignore k v vs) (refresh (insert_ignore k v vs) s ps)"
proof -
  let ?vs = "insert_ignore k v vs"
  have "subject_rows subject ?vs t = subject_rows subject vs t" if "t \<noteq> s" for t
    using that assms(3) unfolding subject_rows_def by (intro filter_insert_ignore) simp
  moreover have "project (subject_rows subject vs s) = None" if "subject_rows subject ?vs s = []"
  proof -
    have "bt_get vs k \<noteq> None"
    proof
      assume "bt_get vs k = None"
      then have "v \<in> set (table_rows ?vs)" using assms(1) by (auto simp: table_rows_iff bt_get_insert_ignore)
      then show False using that assms(3) by (auto simp: subject_rows_def filter_empty_conv)
    qed
    then have "?vs = vs" using assms(1) insert_ignore_old by fastforce
    then show ?thesis using that by simp
  qed
  ultimately have "bt_get (refresh ?vs s ps) t = project (subject_rows subject ?vs t)" for t
    using assms(2) by (cases "t = s") (auto simp: current_def get_refresh)
  then show ?thesis using assms(2) by (simp add: current_def bt_ok_refresh)
qed

text \<open>A projection refreshed for every subject of the version table is current, whatever it held for them.\<close>

lemma get_refresh_all:
  assumes "bt_ok ps"
  shows "bt_get (foldl (\<lambda>ps s. refresh vs s ps) ps ss) t =
    (if t \<in> set ss \<and> subject_rows subject vs t \<noteq> [] then project (subject_rows subject vs t) else bt_get ps t)
    \<and> bt_ok (foldl (\<lambda>ps s. refresh vs s ps) ps ss)"
  using assms by (induction ss arbitrary: ps) (auto simp: get_refresh bt_ok_refresh)

lemma sweep_current:
  assumes "bt_ok ps" and "\<And>t. bt_get ps t = None \<or> t \<in> set ss \<and> subject_rows subject vs t \<noteq> []"
    and "subject ` set (table_rows vs) \<subseteq> set ss"
  shows "current vs (foldl (\<lambda>ps s. refresh vs s ps) ps ss)"
proof -
  have "bt_get (foldl (\<lambda>ps s. refresh vs s ps) ps ss) t = project (subject_rows subject vs t)" for t
  proof (cases "subject_rows subject vs t = []")
    case True
    then have "bt_get ps t = None" using assms(2) by blast
    with True show ?thesis using get_refresh_all [OF assms(1), of vs ss t] by simp
  next
    case False
    then have "t \<in> set ss" using assms(3) by (auto simp: subject_rows_def filter_empty_conv)
    with False show ?thesis using get_refresh_all [OF assms(1), of vs ss t] by simp
  qed
  then show ?thesis unfolding current_def using get_refresh_all [OF assms(1), of vs ss] by blast
qed

end

end
