(* ===== verification/Parsing.thy ===== *)
theory Parsing
  imports F64 BTree Csv Address "HOL-Library.Multiset"
begin

text \<open>
  One parser per Nostr kind (\<open>src/ingest/parse\<close>): tags in, a typed record out, and an
  error that names the offending tag otherwise. An event is the record \<open>nostr_event\<close>
  with the hex forms of its id and key; a tag is never empty. The \<open>uuid\<close> crate,
  \<open>RelayUrl\<close> of \<open>nostr_sdk\<close> and \<open>serde_json\<close> are the fields of \<open>wire_lib\<close>; the
  number parsers of the standard library are defined here. An error carries a number
  as it is and not as its text.
\<close>

section \<open>Events and networks\<close>

record nostr_event =
  ne_id :: str
  ne_pubkey :: str
  ne_kind :: nat
  ne_created_at :: u64
  ne_tags :: "str list list"
  ne_content :: str

definition event_secs :: "nostr_event \<Rightarrow> i64" where
  "event_secs e = wrap_i64 (int (ne_created_at e))"

datatype network = Mainnet | Testnet | Signet | Regtest

fun network_as_str :: "network \<Rightarrow> str" where
  "network_as_str Mainnet = ''mainnet''"
| "network_as_str Testnet = ''testnet''"
| "network_as_str Signet = ''signet''"
| "network_as_str Regtest = ''regtest''"

definition network_all :: "network list" where
  "network_all = [Mainnet, Testnet, Signet, Regtest]"

definition network_from_wire :: "str \<Rightarrow> network option" where
  "network_from_wire wire = wire_parse network_all network_as_str wire"

interpretation network_wire: wire_enum network_all network_as_str
proof
  fix x y :: network
  show "x \<in> set network_all" by (cases x) (simp_all add: network_all_def)
  show "network_as_str x = network_as_str y \<Longrightarrow> x = y" by (cases x; cases y) simp_all
qed

section \<open>Numbers of the standard library\<close>

definition digits_value :: "str \<Rightarrow> nat option" where
  "digits_value s = then_some (s \<noteq> [] \<and> list_all is_ascii_digit s) (parse_digits s)"

fun strip_sign :: "str \<Rightarrow> bool \<times> str" where
  "strip_sign [] = (False, [])"
| "strip_sign (c # cs) =
     (if c = CHR ''-'' then (True, cs) else if c = CHR ''+'' then (False, cs) else (False, c # cs))"

definition i64_from_str :: "str \<Rightarrow> i64 option" where
  "i64_from_str s =
     (case strip_sign s of (neg, ds) \<Rightarrow>
        Option.bind (digits_value ds) (\<lambda>n. try_into_i64 (if neg then - int n else int n)))"

definition lower_char :: "char \<Rightarrow> char" where
  "lower_char c = (let n = of_char c :: nat in if 65 \<le> n \<and> n \<le> 90 then char_of (n + 32) else c)"

definition digits_or_zero :: "str \<Rightarrow> nat option" where
  "digits_or_zero s = (if s = [] then Some 0 else digits_value s)"

text \<open>The exponent of a decimal: nothing, or \<open>e\<close> and a signed number.\<close>

definition split_exponent :: "str \<Rightarrow> (str \<times> int) option" where
  "split_exponent s =
     (case split_once (CHR ''e'') (map lower_char s) of
        None \<Rightarrow> Some (s, 0)
      | Some (m, e) \<Rightarrow>
          (case strip_sign e of (neg, ds) \<Rightarrow>
             map_option (\<lambda>n. (m, if neg then - int n else int n)) (digits_value ds)))"

definition decimal_value :: "str \<Rightarrow> rat option" where
  "decimal_value s =
     Option.bind (split_exponent s) (\<lambda>(m, e).
       case split_once (CHR ''.'') m of
         None \<Rightarrow> map_option (\<lambda>n. of_nat n * 10 powi e) (digits_value m)
       | Some (whole, decimals) \<Rightarrow>
           if whole = [] \<and> decimals = [] then None
           else Option.bind (digits_or_zero whole) (\<lambda>w.
                map_option (\<lambda>f. (of_nat w + of_nat f / 10 ^ length decimals) * 10 powi e) (digits_or_zero decimals)))"

definition f64_from_str :: "str \<Rightarrow> f64 option" where
  "f64_from_str s =
     (case strip_sign s of (neg, body) \<Rightarrow>
        let word = map lower_char body in
        if word = ''inf'' \<or> word = ''infinity'' then Some (F64_Inf neg)
        else if word = ''nan'' then Some F64_NaN
        else map_option (\<lambda>q. f64_round neg (if neg then - q else q)) (decimal_value body))"

section \<open>Errors and tags\<close>

datatype number = Num_I64 i64 | Num_F64 f64 | Num_U64 u64

text \<open>
  What is wrong with the content of a rate snapshot, without the library's wording.
\<close>

datatype content_error =
  CE_Json str
  | CE_Duplicate str
  | CE_No_Table
  | CE_Price str
  | CE_Code str
  | CE_Empty

datatype event_error =
  Wrong_Kind nat nat
  | Missing_Tag str
  | Empty_Tag str
  | Unknown_Value str str str
  | Not_A_Number str str str
  | Wrong_Value_Count str nat str
  | Repeated_Tag str nat
  | Blank_Value str str
  | Out_Of_Range str number str
  | Inverted_Range str f64 f64
  | Invalid_Content content_error

definition repeated_tag_values :: "nostr_event \<Rightarrow> str \<Rightarrow> str list list" where
  "repeated_tag_values e name = map tl (filter (\<lambda>t. t \<noteq> [] \<and> hd t = name) (ne_tags e))"

definition tag_values_of :: "nostr_event \<Rightarrow> str \<Rightarrow> event_error + str list option" where
  "tag_values_of e name =
     (case repeated_tag_values e name of
        [] \<Rightarrow> Inr None
      | [vs] \<Rightarrow> Inr (Some vs)
      | vss \<Rightarrow> Inl (Repeated_Tag name (length vss)))"

definition non_blank :: "str \<Rightarrow> str \<Rightarrow> str \<Rightarrow> event_error + str" where
  "non_blank name v expected = (if trim v = [] then Inl (Blank_Value name expected) else Inr v)"

definition required :: "nostr_event \<Rightarrow> str \<Rightarrow> event_error + str" where
  "required e name =
     and_then (tag_values_of e name) (\<lambda>found.
       case found of
         None \<Rightarrow> Inl (Missing_Tag name)
       | Some [] \<Rightarrow> Inl (Empty_Tag name)
       | Some [v] \<Rightarrow> non_blank name v ''a value''
       | Some vs \<Rightarrow> Inl (Wrong_Value_Count name (length vs) ''exactly one value''))"

definition optional :: "nostr_event \<Rightarrow> str \<Rightarrow> event_error + str option" where
  "optional e name =
     and_then (tag_values_of e name) (\<lambda>found.
       case found of
         None \<Rightarrow> Inr None
       | Some [] \<Rightarrow> Inr None
       | Some [v] \<Rightarrow> Inr (if trim v = [] then None else Some v)
       | Some vs \<Rightarrow> Inl (Wrong_Value_Count name (length vs) ''exactly one value''))"

definition non_negative_i64 :: "str \<Rightarrow> i64 \<Rightarrow> str \<Rightarrow> event_error + i64" where
  "non_negative_i64 name v expected = (if v < 0 then Inl (Out_Of_Range name (Num_I64 v) expected) else Inr v)"

definition non_negative_f64 :: "str \<Rightarrow> f64 \<Rightarrow> str \<Rightarrow> event_error + f64" where
  "non_negative_f64 name v expected =
     (if f64_lt v (F64_Fin False 0) then Inl (Out_Of_Range name (Num_F64 v) expected) else Inr v)"

definition expect_kind :: "nostr_event \<Rightarrow> nat \<Rightarrow> event_error + unit" where
  "expect_kind e expected = (if ne_kind e = expected then Inr () else Inl (Wrong_Kind expected (ne_kind e)))"

definition number_i64 :: "str \<Rightarrow> str \<Rightarrow> str \<Rightarrow> event_error + i64" where
  "number_i64 name v expected = ok_or (Not_A_Number name v expected) (i64_from_str v)"

definition number_f64 :: "str \<Rightarrow> str \<Rightarrow> str \<Rightarrow> event_error + f64" where
  "number_f64 name v expected = ok_or (Not_A_Number name v expected) (f64_from_str v)"

definition finite_f64 :: "str \<Rightarrow> str \<Rightarrow> str \<Rightarrow> event_error + f64" where
  "finite_f64 name v expected =
     and_then (number_f64 name v expected) (\<lambda>x.
       if f64_is_finite x then Inr x else Inl (Not_A_Number name v expected))"

definition expect_discriminator :: "nostr_event \<Rightarrow> str \<Rightarrow> event_error + unit" where
  "expect_discriminator e expected =
     and_then (required e ''z'') (\<lambda>found.
       if found = expected then Inr () else Inl (Unknown_Value ''z'' found expected))"

definition timestamp_of :: "str \<Rightarrow> str \<Rightarrow> event_error + i64" where
  "timestamp_of name v =
     and_then (number_i64 name v ''a unix timestamp'') (\<lambda>t. non_negative_i64 name t ''a unix timestamp'')"

fun first_timestamp :: "nostr_event \<Rightarrow> str list \<Rightarrow> event_error + i64 option" where
  "first_timestamp e [] = Inr None"
| "first_timestamp e (name # names) =
     and_then (optional e name) (\<lambda>found.
       case found of
         Some v \<Rightarrow> map_sum (\<lambda>x. x) Some (timestamp_of name v)
       | None \<Rightarrow> first_timestamp e names)"

definition published_at_of :: "nostr_event \<Rightarrow> event_error + i64 option" where
  "published_at_of e = first_timestamp e [''published_at'', ''created_at'']"

definition optional_network :: "nostr_event \<Rightarrow> event_error + network option" where
  "optional_network e =
     and_then (optional e ''network'') (\<lambda>found.
       case found of
         None \<Rightarrow> Inr None
       | Some v \<Rightarrow> map_sum (\<lambda>x. x) Some
           (ok_or (Unknown_Value ''network'' v ''`mainnet`, `testnet`, `signet` or `regtest`'') (network_from_wire v)))"

section \<open>Who published it\<close>

definition MOSTRO :: str where
  "MOSTRO = ''mostro''"

definition y_values :: "nostr_event \<Rightarrow> str list option" where
  "y_values e = (case tag_values_of e ''y'' of Inr vs \<Rightarrow> vs | Inl _ \<Rightarrow> None)"

definition platform :: "nostr_event \<Rightarrow> str option" where
  "platform e = Option.bind (y_values e) (\<lambda>vs. case vs of [] \<Rightarrow> None | v # _ \<Rightarrow> Some v)"

definition is_mostro :: "nostr_event \<Rightarrow> bool" where
  "is_mostro e \<longleftrightarrow> platform e = Some MOSTRO"

definition instance_name :: "nostr_event \<Rightarrow> str option" where
  "instance_name e =
     Option.bind (y_values e) (\<lambda>vs.
       case vs of
         _ # v # _ \<Rightarrow> then_some (trim v \<noteq> []) (trim v)
       | _ \<Rightarrow> None)"

section \<open>What the libraries read\<close>

text \<open>
  \<open>serde_json\<close> hands an object over entry by entry, in the order of the text and with
  repeated keys repeated; a price is its \<open>as_f64\<close>.
\<close>

datatype json_entry = Entry_Table "(str \<times> f64 option) list" | Entry_Other str

record wire_lib =
  wl_uuid :: "str \<Rightarrow> str option"
  wl_relay_url :: "str \<Rightarrow> str option"
  wl_json :: "str \<Rightarrow> str + (str \<times> json_entry) list"

definition uuid_of :: "wire_lib \<Rightarrow> str \<Rightarrow> str \<Rightarrow> event_error + str" where
  "uuid_of lib name v = ok_or (Unknown_Value name v ''a UUID'') (wl_uuid lib v)"

section \<open>Orders\<close>

definition ORDER_KIND :: nat where
  "ORDER_KIND = 38383"

definition ORDER_DISCRIMINATOR :: str where
  "ORDER_DISCRIMINATOR = ''order''"

datatype order_side = Side_Buy | Side_Sell

fun order_side_as_str :: "order_side \<Rightarrow> str" where
  "order_side_as_str Side_Buy = ''buy''"
| "order_side_as_str Side_Sell = ''sell''"

definition order_side_all :: "order_side list" where
  "order_side_all = [Side_Buy, Side_Sell]"

definition order_side_parse :: "str \<Rightarrow> event_error + order_side" where
  "order_side_parse v =
     ok_or (Unknown_Value ''k'' v ''`buy` or `sell`'') (wire_parse order_side_all order_side_as_str v)"

datatype order_status = Order_Pending | Order_In_Progress | Order_Success | Order_Canceled

fun order_status_as_str :: "order_status \<Rightarrow> str" where
  "order_status_as_str Order_Pending = ''pending''"
| "order_status_as_str Order_In_Progress = ''in-progress''"
| "order_status_as_str Order_Success = ''success''"
| "order_status_as_str Order_Canceled = ''canceled''"

definition order_status_all :: "order_status list" where
  "order_status_all = [Order_Pending, Order_In_Progress, Order_Success, Order_Canceled]"

definition order_status_parse :: "str \<Rightarrow> event_error + order_status" where
  "order_status_parse v =
     ok_or (Unknown_Value ''s'' v ''`pending`, `in-progress`, `success` or `canceled`'')
       (wire_parse order_status_all order_status_as_str v)"

datatype fiat_amount = Fiat_Amount_Fixed f64 | Fiat_Amount_Range f64 f64

fun fiat_fixed :: "fiat_amount \<Rightarrow> f64 option" where
  "fiat_fixed (Fiat_Amount_Fixed a) = Some a"
| "fiat_fixed (Fiat_Amount_Range lo hi) = None"

fun fiat_bounds :: "fiat_amount \<Rightarrow> (f64 \<times> f64) option" where
  "fiat_bounds (Fiat_Amount_Fixed a) = None"
| "fiat_bounds (Fiat_Amount_Range lo hi) = Some (lo, hi)"

record order_version =
  ov_event_id :: str
  ov_order_id :: str
  ov_pubkey :: str
  ov_created_at :: i64
  ov_side :: order_side
  ov_status :: order_status
  ov_fiat_code :: str
  ov_amount_sats :: i64
  ov_fiat :: fiat_amount
  ov_payment_methods :: "str list"
  ov_premium :: f64
  ov_network :: "network option"
  ov_expires_at :: i64
  ov_order_created_at :: "i64 option"

definition fiat_amount_of :: "str \<Rightarrow> str \<Rightarrow> event_error + f64" where
  "fiat_amount_of v expected =
     and_then (finite_f64 ''fa'' v expected) (\<lambda>x. non_negative_f64 ''fa'' x expected)"

definition parse_fiat_amount :: "nostr_event \<Rightarrow> event_error + fiat_amount" where
  "parse_fiat_amount e =
     and_then (tag_values_of e ''fa'') (\<lambda>found.
       case found of
         None \<Rightarrow> Inl (Missing_Tag ''fa'')
       | Some [] \<Rightarrow> Inl (Empty_Tag ''fa'')
       | Some [a] \<Rightarrow> and_then (fiat_amount_of a ''a fiat amount'') (\<lambda>x. Inr (Fiat_Amount_Fixed x))
       | Some [a, b] \<Rightarrow>
           and_then (fiat_amount_of a ''the minimum of a range'') (\<lambda>lo.
           and_then (fiat_amount_of b ''the maximum of a range'') (\<lambda>hi.
           if f64_lt hi lo then Inl (Inverted_Range ''fa'' lo hi) else Inr (Fiat_Amount_Range lo hi)))
       | Some vs \<Rightarrow> Inl (Wrong_Value_Count ''fa'' (length vs) ''one amount, or a `[min, max]` pair''))"

fun sum_traverse :: "('a \<Rightarrow> 'e + 'b) \<Rightarrow> 'a list \<Rightarrow> 'e + 'b list" where
  "sum_traverse f [] = Inr []"
| "sum_traverse f (x # xs) = and_then (f x) (\<lambda>y. and_then (sum_traverse f xs) (\<lambda>ys. Inr (y # ys)))"

definition parse_payment_methods :: "nostr_event \<Rightarrow> event_error + str list" where
  "parse_payment_methods e =
     and_then (tag_values_of e ''pm'') (\<lambda>found.
       case found of
         None \<Rightarrow> Inl (Missing_Tag ''pm'')
       | Some [] \<Rightarrow> Inl (Empty_Tag ''pm'')
       | Some vs \<Rightarrow> sum_traverse (\<lambda>m. non_blank ''pm'' m ''a payment method'') vs)"

definition amount_of :: "nostr_event \<Rightarrow> str \<Rightarrow> event_error + i64" where
  "amount_of e name =
     and_then (required e name) (\<lambda>v.
     and_then (number_i64 name v ''an amount in sats'') (\<lambda>n. non_negative_i64 name n ''an amount in sats''))"

definition parse_order :: "wire_lib \<Rightarrow> nostr_event \<Rightarrow> event_error + order_version" where
  "parse_order lib e =
     and_then (expect_kind e ORDER_KIND) (\<lambda>_.
     and_then (expect_discriminator e ORDER_DISCRIMINATOR) (\<lambda>_.
     and_then (and_then (required e ''d'') (uuid_of lib ''d'')) (\<lambda>order_id.
     and_then (and_then (required e ''k'') order_side_parse) (\<lambda>side.
     and_then (and_then (required e ''s'') order_status_parse) (\<lambda>status.
     and_then (required e ''f'') (\<lambda>code.
     and_then (amount_of e ''amt'') (\<lambda>amount.
     and_then (parse_fiat_amount e) (\<lambda>fiat.
     and_then (parse_payment_methods e) (\<lambda>methods.
     and_then (and_then (required e ''premium'') (\<lambda>v. finite_f64 ''premium'' v ''a percentage'')) (\<lambda>premium.
     and_then (optional_network e) (\<lambda>net.
     and_then (and_then (required e ''expires_at'') (timestamp_of ''expires_at'')) (\<lambda>expires.
     and_then (published_at_of e) (\<lambda>created.
     Inr \<lparr>ov_event_id = ne_id e, ov_order_id = order_id, ov_pubkey = ne_pubkey e, ov_created_at = event_secs e,
          ov_side = side, ov_status = status, ov_fiat_code = code, ov_amount_sats = amount, ov_fiat = fiat,
          ov_payment_methods = methods, ov_premium = premium, ov_network = net, ov_expires_at = expires,
          ov_order_created_at = created\<rparr>)))))))))))))"

section \<open>Disputes\<close>

definition DISPUTE_KIND :: nat where
  "DISPUTE_KIND = 38386"

datatype dispute_side = By_Buyer | By_Seller

fun dispute_side_as_str :: "dispute_side \<Rightarrow> str" where
  "dispute_side_as_str By_Buyer = ''buyer''"
| "dispute_side_as_str By_Seller = ''seller''"

definition dispute_side_all :: "dispute_side list" where
  "dispute_side_all = [By_Buyer, By_Seller]"

definition dispute_side_parse :: "str \<Rightarrow> event_error + dispute_side" where
  "dispute_side_parse v =
     ok_or (Unknown_Value ''initiator'' v ''`buyer` or `seller`'') (wire_parse dispute_side_all dispute_side_as_str v)"

datatype dispute_state =
  Dispute_Initiated | Dispute_In_Progress | Dispute_Seller_Refunded | Dispute_Settled | Dispute_Released
  | Dispute_Cooperatively_Canceled

fun dispute_state_as_str :: "dispute_state \<Rightarrow> str" where
  "dispute_state_as_str Dispute_Initiated = ''initiated''"
| "dispute_state_as_str Dispute_In_Progress = ''in-progress''"
| "dispute_state_as_str Dispute_Seller_Refunded = ''seller-refunded''"
| "dispute_state_as_str Dispute_Settled = ''settled''"
| "dispute_state_as_str Dispute_Released = ''released''"
| "dispute_state_as_str Dispute_Cooperatively_Canceled = ''cooperatively-canceled''"

definition dispute_state_all :: "dispute_state list" where
  "dispute_state_all = [Dispute_Initiated, Dispute_In_Progress, Dispute_Seller_Refunded, Dispute_Settled,
     Dispute_Released, Dispute_Cooperatively_Canceled]"

definition dispute_state_parse :: "str \<Rightarrow> event_error + dispute_state" where
  "dispute_state_parse v =
     ok_or (Unknown_Value ''s'' v (''`initiated`, `in-progress`, `seller-refunded`, `settled`, `released` ''
         @ ''or `cooperatively-canceled`''))
       (wire_parse dispute_state_all dispute_state_as_str v)"

record dispute_version =
  dv_event_id :: str
  dv_dispute_id :: str
  dv_pubkey :: str
  dv_created_at :: i64
  dv_status :: dispute_state
  dv_initiator :: "dispute_side option"
  dv_opened_at :: "i64 option"

definition parse_dispute :: "nostr_event \<Rightarrow> event_error + dispute_version" where
  "parse_dispute e =
     and_then (expect_kind e DISPUTE_KIND) (\<lambda>_.
     and_then (and_then (optional e ''initiator'') (\<lambda>found.
         case found of None \<Rightarrow> Inr None | Some v \<Rightarrow> and_then (dispute_side_parse v) (\<lambda>x. Inr (Some x)))) (\<lambda>side.
     and_then (published_at_of e) (\<lambda>opened.
     and_then (required e ''d'') (\<lambda>dispute_id.
     and_then (and_then (required e ''s'') dispute_state_parse) (\<lambda>status.
     Inr \<lparr>dv_event_id = ne_id e, dv_dispute_id = dispute_id, dv_pubkey = ne_pubkey e, dv_created_at = event_secs e,
          dv_status = status, dv_initiator = side, dv_opened_at = opened\<rparr>)))))"

section \<open>Dev fees\<close>

definition DEV_FEE_KIND :: nat where
  "DEV_FEE_KIND = 8383"

definition DEV_FEE_DISCRIMINATOR :: str where
  "DEV_FEE_DISCRIMINATOR = ''dev-fee-payment''"

record dev_fee =
  fe_event_id :: str
  fe_pubkey :: str
  fe_order_id :: str
  fe_created_at :: i64
  fe_amount_sats :: i64
  fe_payment_hash :: str
  fe_destination :: "str option"
  fe_network :: "network option"

definition parse_dev_fee :: "wire_lib \<Rightarrow> nostr_event \<Rightarrow> event_error + dev_fee" where
  "parse_dev_fee lib e =
     and_then (expect_kind e DEV_FEE_KIND) (\<lambda>_.
     and_then (expect_discriminator e DEV_FEE_DISCRIMINATOR) (\<lambda>_.
     and_then (and_then (required e ''order-id'') (uuid_of lib ''order-id'')) (\<lambda>order_id.
     and_then (amount_of e ''amount'') (\<lambda>amount.
     and_then (required e ''hash'') (\<lambda>payment_hash.
     and_then (optional e ''destination'') (\<lambda>destination.
     and_then (optional_network e) (\<lambda>net.
     Inr \<lparr>fe_event_id = ne_id e, fe_pubkey = ne_pubkey e, fe_order_id = order_id, fe_created_at = event_secs e,
          fe_amount_sats = amount, fe_payment_hash = payment_hash, fe_destination = destination,
          fe_network = net\<rparr>)))))))"

section \<open>Instance profiles\<close>

definition INFO_KIND :: nat where
  "INFO_KIND = 38385"

record instance_info =
  in_event_id :: str
  in_pubkey :: str
  in_created_at :: i64
  in_fee :: "f64 option"
  in_max_order_amount :: "i64 option"
  in_min_order_amount :: "i64 option"
  in_fiat_currencies :: "str option"
  in_mostro_version :: "str option"
  in_protocol_version :: "str option"
  in_ln_networks :: "str option"
  in_bond_enabled :: "bool option"

definition optional_parsed :: "nostr_event \<Rightarrow> str \<Rightarrow> (str \<Rightarrow> event_error + 'a) \<Rightarrow> event_error + 'a option" where
  "optional_parsed e name read =
     and_then (optional e name) (\<lambda>found.
       case found of None \<Rightarrow> Inr None | Some v \<Rightarrow> and_then (read v) (\<lambda>x. Inr (Some x)))"

definition bool_of :: "str \<Rightarrow> str \<Rightarrow> event_error + bool" where
  "bool_of name v =
     (if v = ''true'' then Inr True else if v = ''false'' then Inr False
      else Inl (Unknown_Value name v ''`true` or `false`''))"

definition parse_info :: "nostr_event \<Rightarrow> event_error + instance_info" where
  "parse_info e =
     and_then (expect_kind e INFO_KIND) (\<lambda>_.
     and_then (required e ''d'') (\<lambda>identifier.
     and_then (if identifier = ne_pubkey e then Inr ()
        else Inl (Unknown_Value ''d'' identifier ''the publishing instance's own pubkey'')) (\<lambda>_.
     and_then (optional_parsed e ''fee'' (\<lambda>v. number_f64 ''fee'' v ''a fraction, e.g. `0.006`'')) (\<lambda>fee.
     and_then (optional_parsed e ''max_order_amount'' (\<lambda>v. number_i64 ''max_order_amount'' v ''an amount in sats'')) (\<lambda>mx.
     and_then (optional_parsed e ''min_order_amount'' (\<lambda>v. number_i64 ''min_order_amount'' v ''an amount in sats'')) (\<lambda>mn.
     and_then (optional e ''fiat_currencies_accepted'') (\<lambda>currencies.
     and_then (optional e ''mostro_version'') (\<lambda>version.
     and_then (optional e ''protocol_version'') (\<lambda>protocol.
     and_then (optional e ''lnd_networks'') (\<lambda>networks.
     and_then (optional_parsed e ''bond_enabled'' (bool_of ''bond_enabled'')) (\<lambda>bond.
     Inr \<lparr>in_event_id = ne_id e, in_pubkey = ne_pubkey e, in_created_at = event_secs e, in_fee = fee,
          in_max_order_amount = mx, in_min_order_amount = mn, in_fiat_currencies = currencies,
          in_mostro_version = version, in_protocol_version = protocol, in_ln_networks = networks,
          in_bond_enabled = bond\<rparr>)))))))))))"

section \<open>Rate snapshots\<close>

definition RATES_KIND :: nat where
  "RATES_KIND = 30078"

definition MAX_CLOCK_DIVERGENCE_SECS :: i64 where
  "MAX_CLOCK_DIVERGENCE_SECS = 600"

definition RATES_IDENTIFIER :: str where
  "RATES_IDENTIFIER = ''mostro-rates''"

record rate_snapshot =
  rs_event_id :: str
  rs_pubkey :: str
  rs_published_at :: i64
  rs_source :: "str option"
  rs_rates :: "(str, f64) btree"

definition canonical_code :: "str \<Rightarrow> event_error + str" where
  "canonical_code code =
     (if length code = 3 \<and> list_all (\<lambda>c. 65 \<le> (of_char c :: nat) \<and> (of_char c :: nat) \<le> 90) code then Inr code
      else Inl (Invalid_Content (CE_Code code)))"

definition near :: "i64 \<Rightarrow> i64 \<Rightarrow> event_error + i64" where
  "near created_at published_at =
     (if \<bar>i64_sub published_at created_at\<bar> > MAX_CLOCK_DIVERGENCE_SECS
      then Inl (Out_Of_Range ''published_at'' (Num_I64 published_at)
             ''a time within ten minutes of the event's own clock'')
      else Inr published_at)"

definition signed_at :: "nostr_event \<Rightarrow> event_error + i64" where
  "signed_at e =
     ok_or (Out_Of_Range ''created_at'' (Num_U64 (ne_created_at e))
         ''a unix timestamp that fits a signed 64-bit second count'')
       (try_into_i64 (int (ne_created_at e)))"

text \<open>The two visitors: a key that appears twice is an error, in either object.\<close>

fun unique_table :: "(str \<times> 'a) list \<Rightarrow> (str, 'a) btree \<Rightarrow> content_error + (str, 'a) btree" where
  "unique_table [] table = Inr table"
| "unique_table ((code, price) # rest) table =
     (if bt_get table code \<noteq> None then Inl (CE_Duplicate code)
      else unique_table rest (bt_insert code price table))"

fun visit_content ::
  "(str \<times> json_entry) list \<Rightarrow> str list \<Rightarrow> (str, f64 option) btree option \<Rightarrow> content_error + (str, f64 option) btree option" where
  "visit_content [] seen btc = Inr btc"
| "visit_content ((key, entry) # rest) seen btc =
     (if key \<in> set seen then Inl (CE_Duplicate key)
      else if key = ''BTC'' then
        (case entry of
           Entry_Other reason \<Rightarrow> Inl (CE_Json reason)
         | Entry_Table entries \<Rightarrow>
             and_then (unique_table entries []) (\<lambda>table. visit_content rest (key # seen) (Some table)))
      else visit_content rest (key # seen) btc)"

fun price_table :: "(str \<times> f64 option) list \<Rightarrow> (str, f64) btree \<Rightarrow> event_error + (str, f64) btree" where
  "price_table [] rates = Inr rates"
| "price_table ((code, price) # rest) rates =
     (case opt_filter (\<lambda>p. f64_is_finite p \<and> f64_lt (F64_Fin False 0) p) price of
        None \<Rightarrow> Inl (Invalid_Content (CE_Price code))
      | Some p \<Rightarrow> and_then (canonical_code code) (\<lambda>c. price_table rest (bt_insert c p rates)))"

definition as_content_error :: "content_error + 'a \<Rightarrow> event_error + 'a" where
  "as_content_error r = map_sum Invalid_Content (\<lambda>x. x) r"

definition parse_content :: "wire_lib \<Rightarrow> str \<Rightarrow> event_error + (str, f64) btree" where
  "parse_content lib content =
     and_then (as_content_error (map_sum CE_Json (\<lambda>x. x) (wl_json lib content))) (\<lambda>entries.
     and_then (as_content_error (visit_content entries [] None)) (\<lambda>btc.
       case btc of
         None \<Rightarrow> Inl (Invalid_Content CE_No_Table)
       | Some table \<Rightarrow>
           and_then (price_table table []) (\<lambda>rates.
             if rates = [] then Inl (Invalid_Content CE_Empty) else Inr rates)))"

definition parse_rates :: "wire_lib \<Rightarrow> nostr_event \<Rightarrow> event_error + rate_snapshot" where
  "parse_rates lib e =
     and_then (expect_kind e RATES_KIND) (\<lambda>_.
     and_then (required e ''d'') (\<lambda>identifier.
     and_then (if identifier = RATES_IDENTIFIER then Inr ()
        else Inl (Unknown_Value ''d'' identifier ''`mostro-rates`'')) (\<lambda>_.
     and_then (signed_at e) (\<lambda>created.
     and_then (and_then (optional e ''published_at'') (\<lambda>found.
         case found of
           Some v \<Rightarrow> and_then (timestamp_of ''published_at'' v) (near created)
         | None \<Rightarrow> Inr created)) (\<lambda>published.
     and_then (optional e ''source'') (\<lambda>source.
     and_then (parse_content lib (ne_content e)) (\<lambda>rates.
     Inr \<lparr>rs_event_id = ne_id e, rs_pubkey = ne_pubkey e, rs_published_at = published, rs_source = source,
          rs_rates = rates\<rparr>)))))))"

section \<open>Relay lists\<close>

definition RELAY_LIST_KIND :: nat where
  "RELAY_LIST_KIND = 10002"

record relay_list =
  rl_event_id :: str
  rl_pubkey :: str
  rl_created_at :: i64
  rl_relays :: "str list"

definition writes_to :: "str option \<Rightarrow> bool" where
  "writes_to marker = is_none_or marker (\<lambda>m. m = ''write'')"

definition relay_step :: "wire_lib \<Rightarrow> str list \<Rightarrow> str list \<Rightarrow> str list" where
  "relay_step lib relays vals =
     (case vals of
        [] \<Rightarrow> relays
      | url # rest \<Rightarrow>
          if \<not> writes_to (case rest of [] \<Rightarrow> None | m # _ \<Rightarrow> Some m) then relays
          else case wl_relay_url lib url of
              None \<Rightarrow> relays
            | Some u \<Rightarrow> if u \<in> set relays then relays else relays @ [u])"

definition parse_relay_list :: "wire_lib \<Rightarrow> nostr_event \<Rightarrow> event_error + relay_list" where
  "parse_relay_list lib e =
     and_then (expect_kind e RELAY_LIST_KIND) (\<lambda>_.
     Inr \<lparr>rl_event_id = ne_id e, rl_pubkey = ne_pubkey e, rl_created_at = event_secs e,
          rl_relays = foldl (relay_step lib) [] (repeated_tag_values e ''r'')\<rparr>)"

section \<open>What a parsed order is\<close>

lemma and_then_InrE: "and_then x f = Inr y \<Longrightarrow> (\<And>z. x = Inr z \<Longrightarrow> f z = Inr y \<Longrightarrow> P) \<Longrightarrow> P"
  by (cases x) auto

lemma f64_lt_zero_iff: "f64_is_finite x \<Longrightarrow> \<not> f64_lt x (F64_Fin False 0) \<longleftrightarrow> 0 \<le> f64_val x"
  by (cases x) (auto simp: not_less)

lemma f64_lt_fin: "f64_is_finite x \<Longrightarrow> f64_is_finite y \<Longrightarrow> f64_lt x y \<longleftrightarrow> f64_val x < f64_val y"
  by (cases x; cases y) auto

lemmas parse_simps = and_then_Inr ok_or_Inr

lemma required_not_blank: "required e name = Inr v \<Longrightarrow> trim v \<noteq> []"
  by (auto simp: required_def non_blank_def elim!: and_then_InrE split: option.splits list.splits if_splits)

lemma amount_of_range: "amount_of e name = Inr n \<Longrightarrow> 0 \<le> n \<and> in_i64 n"
  by (auto simp: amount_of_def parse_simps non_negative_i64_def number_i64_def i64_from_str_def
      split: if_splits prod.splits Option.bind_splits)

lemma timestamp_of_range: "timestamp_of name v = Inr n \<Longrightarrow> 0 \<le> n \<and> in_i64 n"
  by (auto simp: timestamp_of_def parse_simps non_negative_i64_def number_i64_def i64_from_str_def
      split: if_splits prod.splits Option.bind_splits)

lemma finite_f64_finite: "finite_f64 name v expected = Inr x \<Longrightarrow> f64_is_finite x"
  by (auto simp: finite_f64_def parse_simps split: if_splits)

lemma fiat_amount_of_range: "fiat_amount_of v expected = Inr x \<Longrightarrow> f64_is_finite x \<and> 0 \<le> f64_val x"
  using f64_lt_zero_iff
  by (auto simp: fiat_amount_of_def parse_simps non_negative_f64_def dest!: finite_f64_finite split: if_splits)

fun fiat_amount_ok :: "fiat_amount \<Rightarrow> bool" where
  "fiat_amount_ok (Fiat_Amount_Fixed a) = (f64_is_finite a \<and> 0 \<le> f64_val a)"
| "fiat_amount_ok (Fiat_Amount_Range lo hi) =
     (f64_is_finite lo \<and> f64_is_finite hi \<and> 0 \<le> f64_val lo \<and> f64_val lo \<le> f64_val hi)"

lemma parse_fiat_amount_ok: "parse_fiat_amount e = Inr a \<Longrightarrow> fiat_amount_ok a"
  by (auto simp: parse_fiat_amount_def f64_lt_fin not_less elim!: and_then_InrE
      dest!: fiat_amount_of_range split: option.splits list.splits if_splits)

lemma sum_traverse_all:
  "sum_traverse f xs = Inr ys \<Longrightarrow> length ys = length xs \<and> (\<forall>y \<in> set ys. \<exists>x \<in> set xs. f x = Inr y)"
  by (induction xs arbitrary: ys) (fastforce simp: parse_simps)+

lemma parse_payment_methods_ok:
  "parse_payment_methods e = Inr ms \<Longrightarrow> ms \<noteq> [] \<and> list_all (\<lambda>m. trim m \<noteq> []) ms"
proof -
  assume "parse_payment_methods e = Inr ms"
  then obtain v vs where "sum_traverse (\<lambda>m. non_blank ''pm'' m ''a payment method'') (v # vs) = Inr ms"
    by (auto simp: parse_payment_methods_def simp del: sum_traverse.simps elim!: and_then_InrE
        split: option.splits list.splits)
  from sum_traverse_all [OF this] show ?thesis
    by (auto simp: list_all_iff non_blank_def split: if_splits)
qed

definition order_version_ok :: "order_version \<Rightarrow> bool" where
  "order_version_ok v \<longleftrightarrow>
     0 \<le> ov_amount_sats v \<and> in_i64 (ov_amount_sats v) \<and> 0 \<le> ov_expires_at v \<and> in_i64 (ov_expires_at v) \<and>
     in_i64 (ov_created_at v) \<and> is_none_or (ov_order_created_at v) (\<lambda>t. 0 \<le> t \<and> in_i64 t) \<and>
     fiat_amount_ok (ov_fiat v) \<and> f64_is_finite (ov_premium v) \<and> trim (ov_fiat_code v) \<noteq> [] \<and>
     ov_payment_methods v \<noteq> [] \<and> list_all (\<lambda>m. trim m \<noteq> []) (ov_payment_methods v)"

lemma first_timestamp_ok: "first_timestamp e names = Inr t \<Longrightarrow> is_none_or t (\<lambda>t. 0 \<le> t \<and> in_i64 t)"
  by (induction names)
    (auto simp: parse_simps map_sum_Inr dest!: timestamp_of_range split: option.splits)

lemma published_at_of_ok: "published_at_of e = Inr t \<Longrightarrow> is_none_or t (\<lambda>t. 0 \<le> t \<and> in_i64 t)"
  unfolding published_at_of_def by (rule first_timestamp_ok)

lemma parse_order_ok: "parse_order lib e = Inr v \<Longrightarrow> order_version_ok v"
  by (auto simp: parse_order_def parse_simps order_version_ok_def event_secs_def
      dest!: amount_of_range timestamp_of_range parse_fiat_amount_ok parse_payment_methods_ok finite_f64_finite
        published_at_of_ok
      dest: required_not_blank)

section \<open>The order of the tags\<close>

lemma tag_values_of_perm:
  assumes "mset ts = mset (ne_tags e)"
  shows "tag_values_of (e\<lparr>ne_tags := ts\<rparr>) name = tag_values_of e name"
proof -
  let ?vs = "repeated_tag_values (e\<lparr>ne_tags := ts\<rparr>) name" and ?ws = "repeated_tag_values e name"
  have m: "mset ?vs = mset ?ws" using assms by (simp add: repeated_tag_values_def)
  then have "length ?vs = length ?ws" by (metis size_mset)
  then consider "?ws = []" "?vs = []" | w where "?ws = [w]" "?vs = [w]"
    | w w' ws v v' vs where "?ws = w # w' # ws" "?vs = v # v' # vs" "length vs = length ws"
    using m by (cases ?ws rule: remdups_adj.cases; cases ?vs rule: remdups_adj.cases) simp_all
  then show ?thesis unfolding tag_values_of_def by cases simp_all
qed

lemma tag_readers_perm:
  assumes "mset ts = mset (ne_tags e)"
  shows "required (e\<lparr>ne_tags := ts\<rparr>) name = required e name" "optional (e\<lparr>ne_tags := ts\<rparr>) name = optional e name"
    "amount_of (e\<lparr>ne_tags := ts\<rparr>) name = amount_of e name" "optional_network (e\<lparr>ne_tags := ts\<rparr>) = optional_network e"
    "published_at_of (e\<lparr>ne_tags := ts\<rparr>) = published_at_of e"
    "parse_fiat_amount (e\<lparr>ne_tags := ts\<rparr>) = parse_fiat_amount e"
    "parse_payment_methods (e\<lparr>ne_tags := ts\<rparr>) = parse_payment_methods e"
    "expect_discriminator (e\<lparr>ne_tags := ts\<rparr>) z = expect_discriminator e z"
  by (simp_all add: required_def optional_def amount_of_def optional_network_def published_at_of_def
      parse_fiat_amount_def parse_payment_methods_def expect_discriminator_def tag_values_of_perm [OF assms])

lemma trim_Nil [simp]: "trim [] = []"
  by (simp add: trim_def strip_each.simps starts_with_def white_spaces_def)

lemma strip_each_plain:
  assumes "list_all (\<lambda>p. p = [] \<or> hd p \<noteq> c) ps"
  shows "strip_each ps (c # s) = c # s"
proof -
  have "List.find (\<lambda>p. p \<noteq> [] \<and> starts_with p (c # s)) ps = None"
    using assms by (auto simp: find_None_iff starts_with_def list_all_iff prefix_Cons)
  then show ?thesis by (simp add: strip_each.simps)
qed

definition graphic :: "char \<Rightarrow> bool" where
  "graphic c \<longleftrightarrow> 33 \<le> (of_char c :: nat) \<and> (of_char c :: nat) \<le> 126"

lemma trim_graphic:
  assumes "s \<noteq> []" and "graphic (hd s)" and "graphic (List.last s)"
  shows "trim s = s"
proof -
  have front: "list_all (\<lambda>p. p = [] \<or> hd p \<noteq> c) white_spaces" if "graphic c" for c
    using that by (auto simp: white_spaces_def graphic_def)
  have rear: "list_all (\<lambda>p. p = [] \<or> hd p \<noteq> c) (map rev white_spaces)" if "graphic c" for c
    using that by (auto simp: white_spaces_def graphic_def)
  have "strip_each white_spaces s = s"
    using strip_each_plain [OF front [OF assms(2)], of "tl s"] assms(1) by simp
  moreover have "strip_each (map rev white_spaces) (rev s) = rev s"
    using strip_each_plain [OF rear [OF assms(3)], of "tl (rev s)"] assms(1)
    by (metis hd_rev list.collapse rev_is_Nil_conv)
  ultimately show ?thesis by (simp add: trim_def)
qed

text \<open>
  C35. An order that parses is fit to be counted: its amounts and clocks are non-negative
  and fit their columns, its numbers are finite, a range is the right way round, and
  every payment method is named and survives the column it is stored in; and it is the same order
  whatever order the tags came in.
\<close>

theorem parse_order_sound:
  assumes "parse_order lib e = Inr v" and "mset ts = mset (ne_tags e)"
  shows "order_version_ok v \<and> ov_event_id v = ne_id e \<and> ov_pubkey v = ne_pubkey e \<and>
    csv_split (csv_join (ov_payment_methods v)) = ov_payment_methods v \<and>
    parse_order lib (e\<lparr>ne_tags := ts\<rparr>) = Inr v"
proof -
  have ok: "order_version_ok v" using assms(1) by (rule parse_order_ok)
  then have "list_all (\<lambda>m. m \<noteq> []) (ov_payment_methods v)"
    by (auto simp: order_version_ok_def list_all_iff)
  then have "csv_split (csv_join (ov_payment_methods v)) = ov_payment_methods v" by (rule csv_split_join)
  moreover have "ov_event_id v = ne_id e \<and> ov_pubkey v = ne_pubkey e"
    using assms(1) by (auto simp: parse_order_def elim!: and_then_InrE)
  moreover have "parse_order lib (e\<lparr>ne_tags := ts\<rparr>) = parse_order lib e"
    by (simp add: parse_order_def expect_kind_def tag_readers_perm [OF assms(2)] event_secs_def)
  ultimately show ?thesis using ok assms(1) by simp
qed

definition example_lib :: wire_lib where
  "example_lib = \<lparr>wl_uuid = Some, wl_relay_url = Some, wl_json = (\<lambda>_. Inr [])\<rparr>"

definition example_order_tags :: "str list list" where
  "example_order_tags = [[''d'', ''u1''], [''k'', ''sell''], [''s'', ''pending''], [''f'', ''ARS''], [''amt'', ''0''],
     [''fa'', ''0''], [''pm'', ''cash''], [''premium'', ''0''], [''expires_at'', ''0''],
     [''z'', ''order''], [''y'', ''mostro'', ''Mostro'']]"

definition example_event :: nostr_event where
  "example_event = \<lparr>ne_id = ''e1'', ne_pubkey = ''p1'', ne_kind = 38383, ne_created_at = 1772000000,
     ne_tags = example_order_tags, ne_content = []\<rparr>"

lemma example_zero: "f64_from_str ''0'' = Some (F64_Fin False 0)" "i64_from_str ''0'' = Some 0"
  by (simp_all add: f64_from_str_def i64_from_str_def decimal_value_def split_exponent_def digits_value_def
      parse_digits_def lower_char_def f64_round_def Let_def char_digit_def is_ascii_digit_def in_i64_def i64_bounds)

lemma example_values:
  "tag_values_of example_event ''d'' = Inr (Some [''u1''])" "tag_values_of example_event ''k'' = Inr (Some [''sell''])"
  "tag_values_of example_event ''s'' = Inr (Some [''pending''])" "tag_values_of example_event ''f'' = Inr (Some [''ARS''])"
  "tag_values_of example_event ''amt'' = Inr (Some [''0''])" "tag_values_of example_event ''fa'' = Inr (Some [''0''])"
  "tag_values_of example_event ''pm'' = Inr (Some [''cash''])" "tag_values_of example_event ''premium'' = Inr (Some [''0''])"
  "tag_values_of example_event ''expires_at'' = Inr (Some [''0''])" "tag_values_of example_event ''z'' = Inr (Some [''order''])"
  "tag_values_of example_event ''network'' = Inr None" "tag_values_of example_event ''published_at'' = Inr None"
  "tag_values_of example_event ''created_at'' = Inr None" "tag_values_of example_event ''y'' = Inr (Some [''mostro'', ''Mostro''])"
  by (simp_all add: tag_values_of_def repeated_tag_values_def example_event_def example_order_tags_def)

lemma example_parses: "\<exists>v. parse_order example_lib example_event = Inr v \<and> ov_order_id v = ''u1''"
  by (simp add: parse_order_def expect_kind_def expect_discriminator_def required_def optional_def non_blank_def
      example_values trim_graphic graphic_def ORDER_KIND_def ORDER_DISCRIMINATOR_def uuid_of_def example_lib_def
      order_side_parse_def order_status_parse_def wire_parse_def order_side_all_def order_status_all_def
      amount_of_def number_i64_def number_f64_def finite_f64_def example_zero non_negative_i64_def
      non_negative_f64_def parse_fiat_amount_def fiat_amount_of_def parse_payment_methods_def optional_network_def
      timestamp_of_def published_at_of_def)
    (simp add: example_event_def)

theorem parse_order_sound_witness:
  "\<exists>v. parse_order example_lib (example_event\<lparr>ne_tags := rev example_order_tags\<rparr>) = Inr v \<and> order_version_ok v"
proof -
  obtain v where v: "parse_order example_lib example_event = Inr v"
    using example_parses by blast
  have "mset (rev example_order_tags) = mset (ne_tags example_event)" by (simp add: example_event_def)
  from parse_order_sound [OF v this] show ?thesis by blast
qed

end
