(* ===== verification/Projection.thy ===== *)
theory Projection
  imports Tables Parsing
begin

text \<open>
  Orders, disputes and dev fees in the database (\<open>src/db/repo/orders.rs\<close>,
  \<open>disputes.rs\<close>, \<open>dev_fees.rs\<close>): the append-only version tables as their rows are stored,
  enums as text and lists as csv, and what is derived from them, which is one row per
  order or dispute and the duplicate flag of a fee. The locale \<open>projection\<close> of \<open>Tables\<close> is
  interpreted on both projection queries. A \<open>REAL\<close> column holds no NaN, which is bound as
  \<open>NULL\<close>, and no negative zero, which SQLite stores as the integer 0.
\<close>

section \<open>Columns\<close>

definition plain_zero :: "f64 \<Rightarrow> f64" where
  "plain_zero x = (if x = F64_Fin True 0 then F64_Fin False 0 else x)"

definition sql_real :: "f64 \<Rightarrow> f64 option" where
  "sql_real x = (if f64_is_nan x then None else Some (plain_zero x))"

datatype row_error = Column_Decode str | Decode_Message str

definition decode :: "str \<Rightarrow> 'e + 'a \<Rightarrow> row_error + 'a" where
  "decode column v = map_sum (\<lambda>_. Column_Decode column) (\<lambda>x. x) v"

definition stored_network :: "str option \<Rightarrow> str + network option" where
  "stored_network stored =
     (case stored of
        None \<Rightarrow> Inr None
      | Some w \<Rightarrow> ok_or (''`'' @ w @ ''` is not a network'') (map_option Some (network_from_wire w)))"

section \<open>Order versions\<close>

record version_row =
  vr_event_id :: str
  vr_order_id :: str
  vr_pubkey :: str
  vr_created_at :: i64
  vr_kind :: str
  vr_status :: str
  vr_fiat_code :: str
  vr_amount_sats :: i64
  vr_fiat_amount :: "f64 option"
  vr_fiat_min :: "f64 option"
  vr_fiat_max :: "f64 option"
  vr_payment_methods :: str
  vr_premium :: f64
  vr_network :: "str option"
  vr_expires_at :: i64
  vr_order_created_at :: "i64 option"

definition version_row_of :: "order_version \<Rightarrow> version_row" where
  "version_row_of v =
     (case (case ov_fiat v of
              Fiat_Amount_Fixed a \<Rightarrow> (sql_real a, None, None)
            | Fiat_Amount_Range lo hi \<Rightarrow> (None, sql_real lo, sql_real hi)) of (amount, lo, hi) \<Rightarrow>
      \<lparr>vr_event_id = ov_event_id v, vr_order_id = ov_order_id v, vr_pubkey = ov_pubkey v,
       vr_created_at = ov_created_at v, vr_kind = order_side_as_str (ov_side v),
       vr_status = order_status_as_str (ov_status v), vr_fiat_code = ov_fiat_code v,
       vr_amount_sats = ov_amount_sats v, vr_fiat_amount = amount, vr_fiat_min = lo, vr_fiat_max = hi,
       vr_payment_methods = csv_join (ov_payment_methods v), vr_premium = plain_zero (ov_premium v),
       vr_network = map_option network_as_str (ov_network v), vr_expires_at = ov_expires_at v,
       vr_order_created_at = ov_order_created_at v\<rparr>)"

text \<open>
  \<open>INSERT OR IGNORE\<close> also passes over a row whose \<open>premium\<close> would be \<open>NULL\<close>, the column
  being \<open>NOT NULL\<close>.
\<close>

definition insert_order_version :: "order_version \<Rightarrow> (str, version_row) btree \<Rightarrow> (str, version_row) btree" where
  "insert_order_version v t =
     (if f64_is_nan (ov_premium v) then t else insert_ignore (ov_event_id v) (version_row_of v) t)"

definition into_version :: "version_row \<Rightarrow> row_error + order_version" where
  "into_version r =
     and_then (case (vr_fiat_amount r, vr_fiat_min r, vr_fiat_max r) of
         (Some a, _, _) \<Rightarrow> Inr (Fiat_Amount_Fixed a)
       | (None, Some lo, Some hi) \<Rightarrow> Inr (Fiat_Amount_Range lo hi)
       | _ \<Rightarrow> Inl (Decode_Message ''an order version has neither a fiat amount nor a range'')) (\<lambda>fiat.
     and_then (decode ''kind'' (order_side_parse (vr_kind r))) (\<lambda>side.
     and_then (decode ''status'' (order_status_parse (vr_status r))) (\<lambda>status.
     and_then (decode ''network'' (stored_network (vr_network r))) (\<lambda>net.
     Inr \<lparr>ov_event_id = vr_event_id r, ov_order_id = vr_order_id r, ov_pubkey = vr_pubkey r,
          ov_created_at = vr_created_at r, ov_side = side, ov_status = status, ov_fiat_code = vr_fiat_code r,
          ov_amount_sats = vr_amount_sats r, ov_fiat = fiat, ov_payment_methods = csv_split (vr_payment_methods r),
          ov_premium = vr_premium r, ov_network = net, ov_expires_at = vr_expires_at r,
          ov_order_created_at = vr_order_created_at r\<rparr>))))"

text \<open>\<open>ORDER BY created_at, event_id\<close>.\<close>

definition order_versions_for :: "(str, version_row) btree \<Rightarrow> str \<Rightarrow> row_error + order_version list" where
  "order_versions_for t order_id =
     sum_traverse into_version
       (sort_key (\<lambda>r. (vr_created_at r, vr_event_id r)) (subject_rows vr_order_id t order_id))"

definition order_ids :: "(str, version_row) btree \<Rightarrow> str list" where
  "order_ids t = bt_set_of (map vr_order_id (table_rows t))"

section \<open>Orders\<close>

record order_row =
  or_order_id :: str
  or_pubkey :: str
  or_first_seen_at :: i64
  or_last_updated_at :: i64
  or_final_status :: str
  or_kind :: str
  or_fiat_code :: str
  or_amount_sats :: i64
  or_fiat_amount :: "f64 option"
  or_payment_methods :: str
  or_premium :: f64
  or_network :: "str option"
  or_success_at :: "i64 option"
  or_canceled_at :: "i64 option"
  or_order_created_at :: "i64 option"

text \<open>\<open>ORDER BY created_at DESC, event_id ASC\<close>.\<close>

definition newer :: "('r \<Rightarrow> i64) \<Rightarrow> ('r \<Rightarrow> str) \<Rightarrow> 'r \<Rightarrow> 'r \<Rightarrow> bool" where
  "newer clock ident a b \<longleftrightarrow> clock b < clock a \<or> clock a = clock b \<and> ident a < ident b"

text \<open>The \<open>SELECT\<close> over the versions of one order: the latest version joined with the span of them all.\<close>

definition project_order :: "version_row list \<Rightarrow> order_row option" where
  "project_order rs =
     Option.bind (first_by (newer vr_created_at vr_event_id) rs) (\<lambda>latest.
     Option.bind (sql_min (map (\<lambda>r. Some (vr_created_at r)) rs)) (\<lambda>first_seen.
     map_option (\<lambda>last_updated.
       \<lparr>or_order_id = vr_order_id latest, or_pubkey = vr_pubkey latest, or_first_seen_at = first_seen,
        or_last_updated_at = last_updated, or_final_status = vr_status latest, or_kind = vr_kind latest,
        or_fiat_code = vr_fiat_code latest, or_amount_sats = vr_amount_sats latest,
        or_fiat_amount = vr_fiat_amount latest, or_payment_methods = vr_payment_methods latest,
        or_premium = vr_premium latest, or_network = vr_network latest,
        or_success_at = sql_min (map (\<lambda>r. then_some (vr_status r = ''success'') (vr_created_at r)) rs),
        or_canceled_at = sql_min (map (\<lambda>r. then_some (vr_status r = ''canceled'') (vr_created_at r)) rs),
        or_order_created_at = sql_min (map vr_order_created_at rs)\<rparr>)
       (sql_max (map (\<lambda>r. Some (vr_created_at r)) rs))))"

definition refresh_order :: "(str, version_row) btree \<Rightarrow> str \<Rightarrow> (str, order_row) btree \<Rightarrow> (str, order_row) btree" where
  "refresh_order versions order_id orders =
     (case project_order (subject_rows vr_order_id versions order_id) of
        None \<Rightarrow> orders
      | Some row \<Rightarrow> bt_insert order_id row orders)"

record stored_order =
  so_order_id :: str
  so_pubkey :: str
  so_first_seen_at :: i64
  so_last_updated_at :: i64
  so_final_status :: order_status
  so_side :: order_side
  so_fiat_code :: str
  so_amount_sats :: i64
  so_fiat_amount :: "f64 option"
  so_payment_methods :: "str list"
  so_premium :: f64
  so_network :: "network option"
  so_success_at :: "i64 option"
  so_canceled_at :: "i64 option"
  so_order_created_at :: "i64 option"

definition into_order :: "order_row \<Rightarrow> row_error + stored_order" where
  "into_order r =
     and_then (decode ''final_status'' (order_status_parse (or_final_status r))) (\<lambda>status.
     and_then (decode ''kind'' (order_side_parse (or_kind r))) (\<lambda>side.
     and_then (decode ''network'' (stored_network (or_network r))) (\<lambda>net.
     Inr \<lparr>so_order_id = or_order_id r, so_pubkey = or_pubkey r, so_first_seen_at = or_first_seen_at r,
          so_last_updated_at = or_last_updated_at r, so_final_status = status, so_side = side,
          so_fiat_code = or_fiat_code r, so_amount_sats = or_amount_sats r, so_fiat_amount = or_fiat_amount r,
          so_payment_methods = csv_split (or_payment_methods r), so_premium = or_premium r, so_network = net,
          so_success_at = or_success_at r, so_canceled_at = or_canceled_at r,
          so_order_created_at = or_order_created_at r\<rparr>)))"

definition find_order :: "(str, order_row) btree \<Rightarrow> str \<Rightarrow> row_error + stored_order option" where
  "find_order orders order_id =
     (case bt_get orders order_id of
        None \<Rightarrow> Inr None
      | Some r \<Rightarrow> map_sum (\<lambda>x. x) Some (into_order r))"

section \<open>Disputes\<close>

record dispute_version_row =
  dvr_event_id :: str
  dvr_dispute_id :: str
  dvr_pubkey :: str
  dvr_created_at :: i64
  dvr_status :: str
  dvr_initiator :: "str option"
  dvr_opened_at :: "i64 option"

record dispute_row =
  dr_dispute_id :: str
  dr_pubkey :: str
  dr_opened_at :: "i64 option"
  dr_last_updated_at :: i64
  dr_final_status :: str
  dr_initiator :: "str option"

record stored_dispute =
  sd_dispute_id :: str
  sd_pubkey :: str
  sd_opened_at :: "i64 option"
  sd_last_updated_at :: i64
  sd_final_status :: dispute_state
  sd_initiator :: "dispute_side option"

definition dispute_row_of :: "dispute_version \<Rightarrow> dispute_version_row" where
  "dispute_row_of v =
     \<lparr>dvr_event_id = dv_event_id v, dvr_dispute_id = dv_dispute_id v, dvr_pubkey = dv_pubkey v,
      dvr_created_at = dv_created_at v, dvr_status = dispute_state_as_str (dv_status v),
      dvr_initiator = map_option dispute_side_as_str (dv_initiator v), dvr_opened_at = dv_opened_at v\<rparr>"

definition insert_dispute_version ::
  "dispute_version \<Rightarrow> (str, dispute_version_row) btree \<Rightarrow> (str, dispute_version_row) btree" where
  "insert_dispute_version v t = insert_ignore (dv_event_id v) (dispute_row_of v) t"

text \<open>The latest version that has the column, of the versions of one dispute.\<close>

definition latest_with :: "(dispute_version_row \<Rightarrow> 'a option) \<Rightarrow> dispute_version_row list \<Rightarrow> 'a option" where
  "latest_with column rs =
     Option.bind (first_by (newer dvr_created_at dvr_event_id) (filter (\<lambda>r. column r \<noteq> None) rs)) column"

definition project_dispute :: "dispute_version_row list \<Rightarrow> dispute_row option" where
  "project_dispute rs =
     Option.bind (first_by (newer dvr_created_at dvr_event_id) rs) (\<lambda>latest.
     map_option (\<lambda>last_updated.
       \<lparr>dr_dispute_id = dvr_dispute_id latest, dr_pubkey = dvr_pubkey latest,
        dr_opened_at = latest_with dvr_opened_at rs, dr_last_updated_at = last_updated,
        dr_final_status = dvr_status latest, dr_initiator = latest_with dvr_initiator rs\<rparr>)
       (sql_max (map (\<lambda>r. Some (dvr_created_at r)) rs)))"

definition refresh_dispute ::
  "(str, dispute_version_row) btree \<Rightarrow> str \<Rightarrow> (str, dispute_row) btree \<Rightarrow> (str, dispute_row) btree" where
  "refresh_dispute versions dispute_id disputes =
     (case project_dispute (subject_rows dvr_dispute_id versions dispute_id) of
        None \<Rightarrow> disputes
      | Some row \<Rightarrow> bt_insert dispute_id row disputes)"

definition stored_initiator :: "str option \<Rightarrow> row_error + dispute_side option" where
  "stored_initiator stored =
     (case stored of
        None \<Rightarrow> Inr None
      | Some w \<Rightarrow> map_sum (\<lambda>x. x) Some (decode ''initiator'' (dispute_side_parse w)))"

definition into_dispute :: "dispute_row \<Rightarrow> row_error + stored_dispute" where
  "into_dispute r =
     and_then (decode ''final_status'' (dispute_state_parse (dr_final_status r))) (\<lambda>status.
     and_then (stored_initiator (dr_initiator r)) (\<lambda>side.
     Inr \<lparr>sd_dispute_id = dr_dispute_id r, sd_pubkey = dr_pubkey r, sd_opened_at = dr_opened_at r,
          sd_last_updated_at = dr_last_updated_at r, sd_final_status = status, sd_initiator = side\<rparr>))"

definition find_dispute :: "(str, dispute_row) btree \<Rightarrow> str \<Rightarrow> row_error + stored_dispute option" where
  "find_dispute disputes dispute_id =
     (case bt_get disputes dispute_id of
        None \<Rightarrow> Inr None
      | Some r \<Rightarrow> map_sum (\<lambda>x. x) Some (into_dispute r))"

definition into_dispute_version :: "dispute_version_row \<Rightarrow> row_error + dispute_version" where
  "into_dispute_version r =
     and_then (decode ''status'' (dispute_state_parse (dvr_status r))) (\<lambda>status.
     and_then (stored_initiator (dvr_initiator r)) (\<lambda>side.
     Inr \<lparr>dv_event_id = dvr_event_id r, dv_dispute_id = dvr_dispute_id r, dv_pubkey = dvr_pubkey r,
          dv_created_at = dvr_created_at r, dv_status = status, dv_initiator = side,
          dv_opened_at = dvr_opened_at r\<rparr>))"

definition dispute_versions_for :: "(str, dispute_version_row) btree \<Rightarrow> str \<Rightarrow> row_error + dispute_version list" where
  "dispute_versions_for t dispute_id =
     sum_traverse into_dispute_version
       (sort_key (\<lambda>r. (dvr_created_at r, dvr_event_id r)) (subject_rows dvr_dispute_id t dispute_id))"

definition dispute_ids :: "(str, dispute_version_row) btree \<Rightarrow> str list" where
  "dispute_ids t = bt_set_of (map dvr_dispute_id (table_rows t))"

section \<open>Dev fees\<close>

record fee_row =
  fr_event_id :: str
  fr_pubkey :: str
  fr_order_id :: str
  fr_amount_sats :: i64
  fr_payment_hash :: str
  fr_destination :: "str option"
  fr_network :: "str option"
  fr_created_at :: i64
  fr_is_duplicate :: i64

record stored_fee =
  sf_fee :: dev_fee
  sf_is_duplicate :: bool

definition fee_row_of :: "dev_fee \<Rightarrow> fee_row" where
  "fee_row_of f =
     \<lparr>fr_event_id = fe_event_id f, fr_pubkey = fe_pubkey f, fr_order_id = fe_order_id f,
      fr_amount_sats = fe_amount_sats f, fr_payment_hash = fe_payment_hash f, fr_destination = fe_destination f,
      fr_network = map_option network_as_str (fe_network f), fr_created_at = fe_created_at f,
      fr_is_duplicate = 0\<rparr>"

text \<open>\<open>ORDER BY created_at, event_id\<close>.\<close>

definition earlier_fee :: "fee_row \<Rightarrow> fee_row \<Rightarrow> bool" where
  "earlier_fee a b \<longleftrightarrow>
     fr_created_at a < fr_created_at b \<or> fr_created_at a = fr_created_at b \<and> fr_event_id a < fr_event_id b"

definition canonical_fee :: "(str, fee_row) btree \<Rightarrow> str \<Rightarrow> str option" where
  "canonical_fee t order_id = map_option fr_event_id (first_by earlier_fee (subject_rows fr_order_id t order_id))"

definition refresh_duplicates :: "str \<Rightarrow> (str, fee_row) btree \<Rightarrow> (str, fee_row) btree" where
  "refresh_duplicates order_id t =
     map (\<lambda>(k, r). (k, if fr_order_id r = order_id
       then r\<lparr>fr_is_duplicate := (if Some (fr_event_id r) = canonical_fee t order_id then 0 else 1)\<rparr> else r)) t"

definition insert_fee :: "dev_fee \<Rightarrow> (str, fee_row) btree \<Rightarrow> (str, fee_row) btree" where
  "insert_fee f t = refresh_duplicates (fe_order_id f) (insert_ignore (fe_event_id f) (fee_row_of f) t)"

definition into_stored :: "fee_row \<Rightarrow> row_error + stored_fee" where
  "into_stored r =
     and_then (decode ''network'' (stored_network (fr_network r))) (\<lambda>net.
     Inr \<lparr>sf_fee = \<lparr>fe_event_id = fr_event_id r, fe_pubkey = fr_pubkey r, fe_order_id = fr_order_id r,
            fe_created_at = fr_created_at r, fe_amount_sats = fr_amount_sats r,
            fe_payment_hash = fr_payment_hash r, fe_destination = fr_destination r, fe_network = net\<rparr>,
          sf_is_duplicate = (fr_is_duplicate r \<noteq> 0)\<rparr>)"

definition fees_for_order :: "(str, fee_row) btree \<Rightarrow> str \<Rightarrow> row_error + stored_fee list" where
  "fees_for_order t order_id =
     sum_traverse into_stored
       (sort_key (\<lambda>r. (fr_created_at r, fr_event_id r)) (subject_rows fr_order_id t order_id))"

definition fee_order_ids :: "(str, fee_row) btree \<Rightarrow> str list" where
  "fee_order_ids t = bt_set_of (map fr_order_id (table_rows t))"

section \<open>Reading back what was stored\<close>

interpretation order_side_wire: wire_enum order_side_all order_side_as_str
proof
  fix x y :: order_side
  show "x \<in> set order_side_all" by (cases x) (simp_all add: order_side_all_def)
  show "order_side_as_str x = order_side_as_str y \<Longrightarrow> x = y" by (cases x; cases y) simp_all
qed

interpretation order_status_wire: wire_enum order_status_all order_status_as_str
proof
  fix x y :: order_status
  show "x \<in> set order_status_all" by (cases x) (simp_all add: order_status_all_def)
  show "order_status_as_str x = order_status_as_str y \<Longrightarrow> x = y" by (cases x; cases y) simp_all
qed

interpretation dispute_side_wire: wire_enum dispute_side_all dispute_side_as_str
proof
  fix x y :: dispute_side
  show "x \<in> set dispute_side_all" by (cases x) (simp_all add: dispute_side_all_def)
  show "dispute_side_as_str x = dispute_side_as_str y \<Longrightarrow> x = y" by (cases x; cases y) simp_all
qed

interpretation dispute_state_wire: wire_enum dispute_state_all dispute_state_as_str
proof
  fix x y :: dispute_state
  show "x \<in> set dispute_state_all" by (cases x) (simp_all add: dispute_state_all_def)
  show "dispute_state_as_str x = dispute_state_as_str y \<Longrightarrow> x = y" by (cases x; cases y) simp_all
qed

lemma decode_Inr [simp]: "decode column (Inr x) = Inr x"
  by (simp add: decode_def)

lemma parse_stored [simp]:
  "order_side_parse (order_side_as_str a) = Inr a" "order_status_parse (order_status_as_str b) = Inr b"
  "dispute_side_parse (dispute_side_as_str c) = Inr c" "dispute_state_parse (dispute_state_as_str d) = Inr d"
  "stored_network (map_option network_as_str n) = Inr n"
  by (simp_all add: order_side_parse_def order_status_parse_def dispute_side_parse_def dispute_state_parse_def
      order_side_wire.parse_as_str order_status_wire.parse_as_str dispute_side_wire.parse_as_str
      dispute_state_wire.parse_as_str stored_network_def network_from_wire_def network_wire.parse_as_str
      split: option.splits)

lemma stored_initiator_as_str [simp]: "stored_initiator (map_option dispute_side_as_str s) = Inr s"
  by (simp add: stored_initiator_def split: option.splits)

lemma sql_real_finite: "f64_is_finite x \<Longrightarrow> sql_real x = Some (plain_zero x)"
  by (cases x) (simp_all add: sql_real_def)

fun plain_fiat :: "fiat_amount \<Rightarrow> fiat_amount" where
  "plain_fiat (Fiat_Amount_Fixed a) = Fiat_Amount_Fixed (plain_zero a)"
| "plain_fiat (Fiat_Amount_Range lo hi) = Fiat_Amount_Range (plain_zero lo) (plain_zero hi)"

definition plain_version :: "order_version \<Rightarrow> order_version" where
  "plain_version v = v\<lparr>ov_fiat := plain_fiat (ov_fiat v), ov_premium := plain_zero (ov_premium v)\<rparr>"

lemma into_version_row:
  assumes "order_version_ok v"
  shows "into_version (version_row_of v) = Inr (plain_version v)"
proof -
  have "csv_split (csv_join (ov_payment_methods v)) = ov_payment_methods v"
    using assms by (intro csv_split_join) (auto simp: order_version_ok_def list_all_iff)
  moreover have "fiat_amount_ok (ov_fiat v)" using assms by (simp add: order_version_ok_def)
  ultimately show ?thesis
    by (cases "ov_fiat v")
      (simp_all add: into_version_def version_row_of_def plain_version_def sql_real_finite)
qed

lemma into_dispute_version_row: "into_dispute_version (dispute_row_of v) = Inr v"
  by (simp add: into_dispute_version_def dispute_row_of_def)

lemma into_stored_row: "into_stored (fee_row_of f) = Inr \<lparr>sf_fee = f, sf_is_duplicate = False\<rparr>"
  by (simp add: into_stored_def fee_row_of_def)

section \<open>The projections are current\<close>

lemma newer_asym: "newer clock ident a b \<Longrightarrow> \<not> newer clock ident b a"
  by (auto simp: newer_def)

lemma newer_neg_trans: "\<not> newer clock ident a b \<Longrightarrow> \<not> newer clock ident b c \<Longrightarrow> \<not> newer clock ident a c"
  by (auto simp: newer_def not_less)

lemma newest_first: "first_by (newer clock ident) rs = Some latest \<Longrightarrow> r \<in> set rs \<Longrightarrow> \<not> newer clock ident r latest"
  by (rule first_by_least) (auto dest: newer_asym newer_neg_trans)

lemma sql_span_None [simp]:
  "sql_min (map (\<lambda>r. Some (f r)) rs) = None \<longleftrightarrow> rs = []" "sql_max (map (\<lambda>r. Some (f r)) rs) = None \<longleftrightarrow> rs = []"
  by (cases rs; simp add: sql_min_eq sql_max_eq)+

lemma project_order_None: "project_order rs = None \<longleftrightarrow> rs = []"
  by (auto simp: project_order_def bind_eq_None_conv)

lemma project_dispute_None: "project_dispute rs = None \<longleftrightarrow> rs = []"
  by (auto simp: project_dispute_def bind_eq_None_conv)

interpretation order_projection: projection vr_order_id project_order
  by unfold_locales (rule project_order_None)

interpretation dispute_projection: projection dvr_dispute_id project_dispute
  by unfold_locales (rule project_dispute_None)

lemma refresh_order_eq: "refresh_order = order_projection.refresh"
  by (intro ext) (simp add: refresh_order_def order_projection.refresh_def)

lemma refresh_dispute_eq: "refresh_dispute = dispute_projection.refresh"
  by (intro ext) (simp add: refresh_dispute_def dispute_projection.refresh_def)

lemma Some_eq_then_some: "Some y = then_some b x \<longleftrightarrow> b \<and> y = x"
  by (cases b) auto

lemma sql_min_where:
  "sql_min (map (\<lambda>r. then_some (P r) (f r)) rs) =
    (if \<exists>r \<in> set rs. P r then Some (Min {f r | r. r \<in> set rs \<and> P r}) else None)"
proof -
  have "{y. Some y \<in> set (map (\<lambda>r. then_some (P r) (f r)) rs)} = {f r | r. r \<in> set rs \<and> P r}"
    by (auto simp: image_iff Some_eq_then_some)
  moreover have "set (map (\<lambda>r. then_some (P r) (f r)) rs) \<subseteq> {None} \<longleftrightarrow> \<not> (\<exists>r \<in> set rs. P r)"
    by (auto simp: then_some_def)
  ultimately show ?thesis unfolding sql_min_eq by simp
qed

lemma sql_max_newest:
  assumes "first_by (newer f ident) rs = Some latest"
  shows "sql_max (map (\<lambda>r. Some (f r)) rs) = Some (f latest)"
proof -
  have "latest \<in> set rs" using assms by (rule first_by_in)
  moreover have "f r \<le> f latest" if "r \<in> set rs" for r
    using newest_first [OF assms that] by (simp add: newer_def)
  moreover have "{y. Some y \<in> set (map (\<lambda>r. Some (f r)) rs)} = f ` set rs" by auto
  ultimately show ?thesis
    unfolding sql_max_eq all_null by (auto intro!: Max_eqI)
qed

definition row_of_history :: "version_row list \<Rightarrow> version_row \<Rightarrow> order_row \<Rightarrow> bool" where
  "row_of_history rs latest row \<longleftrightarrow>
     or_order_id row = vr_order_id latest \<and> or_pubkey row = vr_pubkey latest \<and>
     or_final_status row = vr_status latest \<and> or_kind row = vr_kind latest \<and>
     or_fiat_code row = vr_fiat_code latest \<and> or_amount_sats row = vr_amount_sats latest \<and>
     or_fiat_amount row = vr_fiat_amount latest \<and> or_premium row = vr_premium latest \<and>
     or_network row = vr_network latest \<and> or_payment_methods row = vr_payment_methods latest \<and>
     or_last_updated_at row = vr_created_at latest \<and> or_first_seen_at row = Min (vr_created_at ` set rs) \<and>
     or_success_at row = (if \<exists>r \<in> set rs. vr_status r = ''success''
       then Some (Min {vr_created_at r | r. r \<in> set rs \<and> vr_status r = ''success''}) else None) \<and>
     or_canceled_at row = (if \<exists>r \<in> set rs. vr_status r = ''canceled''
       then Some (Min {vr_created_at r | r. r \<in> set rs \<and> vr_status r = ''canceled''}) else None)"

lemma project_order_latest:
  assumes "first_by (newer vr_created_at vr_event_id) rs = Some latest"
  shows "\<exists>row. project_order rs = Some row \<and> row_of_history rs latest row"
proof -
  have "rs \<noteq> []" using assms by auto
  then have "\<exists>r. r \<in> set rs" by (meson hd_in_set)
  then have "sql_min (map (\<lambda>r. Some (vr_created_at r)) rs) = Some (Min (vr_created_at ` set rs))"
    using sql_min_where [of "\<lambda>_. True" vr_created_at rs] by (simp add: image_def) metis
  then show ?thesis
    unfolding project_order_def assms sql_max_newest [OF assms] row_of_history_def by (simp add: sql_min_where)
qed

section \<open>One fee per order counts\<close>

definition flag_all :: "(str, fee_row) btree \<Rightarrow> (str, fee_row) btree" where
  "flag_all t = map (\<lambda>(k, r). (k, r\<lparr>fr_is_duplicate :=
     (if Some (fr_event_id r) = canonical_fee t (fr_order_id r) then 0 else 1)\<rparr>)) t"

definition strip_flags :: "(str, fee_row) btree \<Rightarrow> (str, fee_row) btree" where
  "strip_flags t = map (\<lambda>(k, r). (k, r\<lparr>fr_is_duplicate := 0\<rparr>)) t"

definition fees_ok :: "(str, fee_row) btree \<Rightarrow> bool" where
  "fees_ok t \<longleftrightarrow> bt_ok t \<and> flag_all t = t \<and> (\<forall>(k, r) \<in> set t. fr_event_id r = k)"

lemma earlier_fee_asym: "earlier_fee a b \<Longrightarrow> \<not> earlier_fee b a"
  by (auto simp: earlier_fee_def)

lemma earlier_fee_neg_trans: "\<not> earlier_fee a b \<Longrightarrow> \<not> earlier_fee b c \<Longrightarrow> \<not> earlier_fee a c"
  by (auto simp: earlier_fee_def not_less)

text \<open>Which fee counts does not depend on the flags.\<close>

lemma canonical_fee_relabel:
  "canonical_fee (map (\<lambda>(k, r). (k, r\<lparr>fr_is_duplicate := g k r\<rparr>)) t) oid = canonical_fee t oid"
proof -
  have canonical: "canonical_fee u oid = map_option (\<lambda>p. fr_event_id (snd p))
      (first_by (\<lambda>a b. earlier_fee (snd a) (snd b)) (filter (\<lambda>p. fr_order_id (snd p) = oid) u))" for u
    unfolding canonical_fee_def subject_rows_def table_rows_def filter_map comp_def
    by (subst first_by_map [of _ _ "\<lambda>a b. earlier_fee (snd a) (snd b)"])
      (auto simp: map_option.compositionality comp_def case_prod_beta)
  show ?thesis
    unfolding canonical filter_map comp_def
    by (subst first_by_map [of _ _ "\<lambda>a b. earlier_fee (snd a) (snd b)"])
      (auto simp: map_option.compositionality comp_def case_prod_beta earlier_fee_def)
qed

lemma canonical_fee_flags [simp]:
  "canonical_fee (flag_all t) oid = canonical_fee t oid" "canonical_fee (strip_flags t) oid = canonical_fee t oid"
  "canonical_fee (refresh_duplicates o' t) oid = canonical_fee t oid"
proof -
  show "canonical_fee (flag_all t) oid = canonical_fee t oid" "canonical_fee (strip_flags t) oid = canonical_fee t oid"
    unfolding flag_all_def strip_flags_def by (rule canonical_fee_relabel)+
  have "refresh_duplicates o' t = map (\<lambda>(k, r). (k, r\<lparr>fr_is_duplicate := (if fr_order_id r = o'
      then if Some (fr_event_id r) = canonical_fee t o' then 0 else 1 else fr_is_duplicate r)\<rparr>)) t"
    by (auto simp: refresh_duplicates_def)
  then show "canonical_fee (refresh_duplicates o' t) oid = canonical_fee t oid"
    by (simp only: canonical_fee_relabel)
qed

lemma flag_strip [simp]: "flag_all (strip_flags t) = flag_all t" "strip_flags (flag_all t) = strip_flags t"
  "flag_all (flag_all t) = flag_all t"
  by (simp_all add: flag_all_def [of "strip_flags t"] flag_all_def [of "flag_all t"])
    (simp_all add: flag_all_def strip_flags_def comp_def case_prod_beta)

lemma keys_flag_all [simp]: "map fst (flag_all t) = map fst t" "map fst (strip_flags t) = map fst t"
  by (simp_all add: flag_all_def strip_flags_def comp_def case_prod_beta)

lemma bt_ok_flags [simp]: "bt_ok (flag_all t) = bt_ok t" "bt_ok (strip_flags t) = bt_ok t"
  by (simp_all add: bt_ok_def)

lemma strip_insert:
  "strip_flags (insert_ignore k r t) = insert_ignore k (r\<lparr>fr_is_duplicate := 0\<rparr>) (strip_flags t)"
  unfolding insert_ignore_def strip_flags_def by (induction t) auto

text \<open>Refreshing the order of the fee that arrived is refreshing them all.\<close>

lemma refresh_is_flag_all:
  assumes "flag_all t = t"
  shows "refresh_duplicates (fr_order_id r) (insert_ignore k r t) = flag_all (insert_ignore k r t)"
proof -
  let ?t = "insert_ignore k r t"
  have "b\<lparr>fr_is_duplicate := (if Some (fr_event_id b) = canonical_fee ?t (fr_order_id b) then 0 else 1)\<rparr> = b"
    if b: "(j, b) \<in> set ?t" "fr_order_id b \<noteq> fr_order_id r" for j b
  proof -
    have "(j, b) \<in> set (flag_all t)" using b set_insert_ignore assms by fastforce
    then obtain b' where "b = b'\<lparr>fr_is_duplicate :=
        (if Some (fr_event_id b') = canonical_fee t (fr_order_id b') then 0 else 1)\<rparr>"
      by (auto simp: flag_all_def)
    moreover have "canonical_fee ?t (fr_order_id b) = canonical_fee t (fr_order_id b)"
      unfolding canonical_fee_def subject_rows_def using b(2) by (subst filter_insert_ignore) auto
    ultimately show ?thesis by simp
  qed
  then show ?thesis unfolding refresh_duplicates_def flag_all_def by (intro map_cong) auto
qed

lemma insert_fee_eq:
  "fees_ok t \<Longrightarrow> insert_fee f t = flag_all (insert_ignore (fe_event_id f) (fee_row_of f) t)"
  using refresh_is_flag_all [of t "fee_row_of f"] by (simp add: insert_fee_def fees_ok_def fee_row_of_def)

lemma fees_ok_empty [simp]: "fees_ok []"
  by (simp add: fees_ok_def flag_all_def)

lemma fees_ok_insert:
  assumes "fees_ok t"
  shows "fees_ok (insert_fee f t)"
proof -
  let ?t = "insert_ignore (fe_event_id f) (fee_row_of f) t"
  have "\<forall>(k, r) \<in> set ?t. fr_event_id r = k"
    using assms set_insert_ignore by (fastforce simp: fees_ok_def fee_row_of_def)
  then have "\<forall>(k, r) \<in> set (flag_all ?t). fr_event_id r = k"
    by (auto simp: flag_all_def)
  then show ?thesis using assms by (simp add: insert_fee_eq fees_ok_def)
qed

lemma strip_insert_fee:
  "fees_ok t \<Longrightarrow> strip_flags (insert_fee f t) = insert_ignore (fe_event_id f) (fee_row_of f) (strip_flags t)"
  by (simp add: insert_fee_eq strip_insert) (simp add: fee_row_of_def)

lemma insert_fee_strip:
  "fees_ok t \<Longrightarrow> insert_fee f t = flag_all (insert_ignore (fe_event_id f) (fee_row_of f) (strip_flags t))"
  by (metis insert_fee_eq flag_strip(1) strip_insert_fee flag_strip(2))

definition same_fee :: "dev_fee \<Rightarrow> dev_fee \<Rightarrow> bool" where
  "same_fee f g \<longleftrightarrow> (fe_event_id f = fe_event_id g \<longrightarrow> f = g)"

interpretation fees: arrival fees_ok same_fee "\<lambda>t f. insert_fee f t"
proof
  fix t f g
  assume t: "fees_ok t"
  then show "fees_ok (insert_fee f t)" by (rule fees_ok_insert)
  have twice: "insert_fee b (insert_fee a t) = flag_all (insert_ignore (fe_event_id b) (fee_row_of b)
      (insert_ignore (fe_event_id a) (fee_row_of a) (strip_flags t)))" for a b
    using insert_fee_strip [OF fees_ok_insert [OF t]] strip_insert_fee [OF t] by simp
  have s: "bt_ok (strip_flags t)" using t by (simp add: fees_ok_def)
  show "insert_fee g (insert_fee f t) = insert_fee f (insert_fee g t)" if "same_fee f g"
    unfolding twice using that by (subst insert_ignore_commute [OF s]) (simp_all add: same_fee_def)
  show "insert_fee f (insert_fee f t) = insert_fee f t"
    unfolding twice insert_ignore_idem [OF s] by (rule insert_fee_strip [OF t, symmetric])
qed

lemma canonical_fee_earliest:
  assumes "fees_ok t" and "r \<in> set (subject_rows fr_order_id t oid)"
  obtains c where "c \<in> set (subject_rows fr_order_id t oid)" and "canonical_fee t oid = Some (fr_event_id c)"
    and "\<not> earlier_fee r c"
proof -
  obtain c where c: "first_by earlier_fee (subject_rows fr_order_id t oid) = Some c"
    using assms(2) first_by_None [of earlier_fee "subject_rows fr_order_id t oid"] by fastforce
  moreover have "\<not> earlier_fee r c"
    using c assms(2) by (rule first_by_least) (auto dest: earlier_fee_asym earlier_fee_neg_trans)
  ultimately show ?thesis using that first_by_in [OF c] by (simp add: canonical_fee_def)
qed

lemma fees_ok_flag:
  assumes "fees_ok t" and "r \<in> set (subject_rows fr_order_id t oid)"
  shows "fr_is_duplicate r = (if canonical_fee t oid = Some (fr_event_id r) then 0 else 1)"
proof -
  from assms(2) obtain k where "(k, r) \<in> set t" and oid: "fr_order_id r = oid"
    by (auto simp: subject_rows_def table_rows_def)
  then have "(k, r) \<in> set (flag_all t)" using assms(1) by (simp add: fees_ok_def)
  then obtain r' where "r = r'\<lparr>fr_is_duplicate :=
      (if Some (fr_event_id r') = canonical_fee t (fr_order_id r') then 0 else 1)\<rparr>"
    by (auto simp: flag_all_def)
  then show ?thesis using oid by auto
qed

lemma refresh_duplicates_same:
  assumes "fees_ok t"
  shows "refresh_duplicates oid t = t"
proof -
  have "r\<lparr>fr_is_duplicate := (if Some (fr_event_id r) = canonical_fee t oid then 0 else 1)\<rparr> = r"
    if "(k, r) \<in> set t" "fr_order_id r = oid" for k r
  proof -
    have "r \<in> set (subject_rows fr_order_id t oid)" using that by (force simp: subject_rows_def table_rows_def)
    from fees_ok_flag [OF assms this] have "fr_is_duplicate r = (if Some (fr_event_id r) = canonical_fee t oid then 0 else 1)"
      by auto
    then show ?thesis by (cases r) simp
  qed
  then show ?thesis unfolding refresh_duplicates_def by (intro map_idI) auto
qed

lemma fees_ok_id_unique:
  assumes "fees_ok t" and "a \<in> set (subject_rows fr_order_id t oid)" "b \<in> set (subject_rows fr_order_id t oid)"
    and "fr_event_id a = fr_event_id b"
  shows "a = b"
proof -
  obtain j k where ab: "(j, a) \<in> set t" "(k, b) \<in> set t"
    using assms(2,3) by (auto simp: subject_rows_def table_rows_def)
  have keys: "\<forall>p \<in> set t. fr_event_id (snd p) = fst p" using assms(1) by (auto simp: fees_ok_def)
  have "j = k" using bspec [OF keys ab(1)] bspec [OF keys ab(2)] assms(4) by simp
  then show ?thesis using ab assms(1) bt_get_iff [of t] by (metis fees_ok_def option.inject)
qed

lemma fees_ok_one:
  assumes "fees_ok t" and "subject_rows fr_order_id t oid \<noteq> []"
  shows "\<exists>c \<in> set (subject_rows fr_order_id t oid). \<forall>r \<in> set (subject_rows fr_order_id t oid).
    (fr_is_duplicate r = 0 \<longleftrightarrow> r = c) \<and> \<not> earlier_fee r c"
proof -
  let ?rs = "subject_rows fr_order_id t oid"
  obtain r where "r \<in> set ?rs" using assms(2) by (meson hd_in_set)
  with canonical_fee_earliest [OF assms(1)] obtain c
    where c: "c \<in> set ?rs" "canonical_fee t oid = Some (fr_event_id c)" by metis
  have "(fr_is_duplicate r = 0 \<longleftrightarrow> r = c) \<and> \<not> earlier_fee r c" if r: "r \<in> set ?rs" for r
  proof
    show "fr_is_duplicate r = 0 \<longleftrightarrow> r = c"
      using fees_ok_flag [OF assms(1) r] c fees_ok_id_unique [OF assms(1) r c(1)] by auto
    show "\<not> earlier_fee r c"
      using canonical_fee_earliest [OF assms(1) r] c fees_ok_id_unique [OF assms(1) c(1)] by (metis option.inject)
  qed
  with c(1) show ?thesis by blast
qed

lemma strip_fold:
  "fees_ok t \<Longrightarrow> strip_flags (foldl (\<lambda>t f. insert_fee f t) t fs) =
    foldl (\<lambda>t f. insert_ignore (fe_event_id f) (fee_row_of f) t) (strip_flags t) fs"
  by (induction fs arbitrary: t) (simp_all add: fees_ok_insert strip_insert_fee)

lemma get_fold_insert_ignore:
  "bt_ok m \<Longrightarrow> bt_get m k = Some v \<Longrightarrow> bt_get (foldl (\<lambda>m x. insert_ignore (key x) (row x) m) m xs) k = Some v"
proof (induction xs arbitrary: m)
  case (Cons x xs)
  then have "bt_get (insert_ignore (key x) (row x) m) k = Some v" by (auto simp: bt_get_insert_ignore)
  with Cons show ?case by simp
qed simp

definition stored_fees :: "dev_fee list \<Rightarrow> (str, fee_row) btree" where
  "stored_fees fs = foldl (\<lambda>t f. insert_fee f t) [] fs"

lemma stored_fees_ok: "fees_ok (stored_fees fs)"
  unfolding stored_fees_def by (rule fees.fold_ok) simp

lemma stored_fees_converge:
  "\<forall>f \<in> set fs. \<forall>g \<in> set fs. same_fee f g \<Longrightarrow> set gs = set fs \<Longrightarrow> stored_fees gs = stored_fees fs"
  unfolding stored_fees_def by (intro fees.converges) (simp_all add: fees.compatible_def)

lemma stored_fee_present:
  assumes "\<forall>f \<in> set fs. \<forall>g \<in> set fs. same_fee f g" and "f \<in> set fs"
  shows "\<exists>r \<in> set (subject_rows fr_order_id (stored_fees fs) (fe_order_id f)).
    r\<lparr>fr_is_duplicate := 0\<rparr> = fee_row_of f"
proof -
  have "stored_fees fs = stored_fees (f # fs)"
    using assms by (intro stored_fees_converge) (auto simp: same_fee_def)
  moreover have "bt_get (strip_flags (stored_fees (f # fs))) (fe_event_id f) = Some (fee_row_of f)"
    unfolding stored_fees_def strip_fold [OF fees_ok_empty]
    by (simp add: strip_flags_def)
      (intro get_fold_insert_ignore; simp add: bt_get_insert_ignore)
  ultimately have "(fe_event_id f, fee_row_of f) \<in> set (strip_flags (stored_fees fs))"
    by (simp add: bt_get_Some_in)
  then obtain k r where "(k, r) \<in> set (stored_fees fs)" and r: "r\<lparr>fr_is_duplicate := 0\<rparr> = fee_row_of f"
    by (auto simp: strip_flags_def)
  moreover have "fr_order_id r = fe_order_id f"
    using arg_cong [OF r, of fr_order_id] by (simp add: fee_row_of_def)
  ultimately show ?thesis by (force simp: subject_rows_def table_rows_def)
qed

text \<open>
  C22. However the fees of an order arrive, in any order and repeated, the table ends the
  same, every fee is in it, and exactly one fee of each order is not marked a duplicate: the earliest, and of
  two in the same second the one with the lower event id.
\<close>

theorem one_fee_counts:
  assumes "\<forall>f \<in> set fs. \<forall>g \<in> set fs. same_fee f g" and "set gs = set fs" and "f \<in> set fs"
  shows "stored_fees gs = stored_fees fs \<and>
    (\<exists>r \<in> set (subject_rows fr_order_id (stored_fees fs) (fe_order_id f)).
       r\<lparr>fr_is_duplicate := 0\<rparr> = fee_row_of f) \<and>
    (\<exists>c \<in> set (subject_rows fr_order_id (stored_fees fs) (fe_order_id f)).
       \<forall>r \<in> set (subject_rows fr_order_id (stored_fees fs) (fe_order_id f)).
         (fr_is_duplicate r = 0 \<longleftrightarrow> r = c) \<and> \<not> earlier_fee r c)"
proof -
  from assms(1,3) have present: "\<exists>r \<in> set (subject_rows fr_order_id (stored_fees fs) (fe_order_id f)).
    r\<lparr>fr_is_duplicate := 0\<rparr> = fee_row_of f" by (rule stored_fee_present)
  then have "subject_rows fr_order_id (stored_fees fs) (fe_order_id f) \<noteq> []" by auto
  with present show ?thesis
    using stored_fees_converge [OF assms(1,2)] fees_ok_one [OF stored_fees_ok] by blast
qed

definition example_fee :: "str \<Rightarrow> i64 \<Rightarrow> dev_fee" where
  "example_fee ident t = \<lparr>fe_event_id = ident, fe_pubkey = ''p1'', fe_order_id = ''o1'', fe_created_at = t,
     fe_amount_sats = 30, fe_payment_hash = ''h'', fe_destination = None, fe_network = Some Mainnet\<rparr>"

theorem one_fee_counts_witness:
  "stored_fees [example_fee ''b'' 20, example_fee ''a'' 20] =
    stored_fees [example_fee ''a'' 20, example_fee ''b'' 20, example_fee ''a'' 20]"
  using one_fee_counts [of "[example_fee ''a'' 20, example_fee ''b'' 20, example_fee ''a'' 20]"
      "[example_fee ''b'' 20, example_fee ''a'' 20]" "example_fee ''a'' 20"]
  by (simp add: same_fee_def example_fee_def insert_commute)

section \<open>Histories\<close>

lemma mset_insert_ignore:
  "bt_ok m \<Longrightarrow> bt_get m k = None \<Longrightarrow> mset (table_rows (insert_ignore k v m)) = add_mset v (mset (table_rows m))"
proof -
  assume "bt_get m k = None"
  then show ?thesis
    unfolding table_rows_def insert_ignore_def by (induction m) (auto simp: bt_get_def split: if_splits)
qed

lemma version_row_fields [simp]:
  "vr_order_id (version_row_of v) = ov_order_id v" "vr_created_at (version_row_of v) = ov_created_at v"
  "vr_event_id (version_row_of v) = ov_event_id v"
  by (simp_all add: version_row_of_def split: prod.splits)

definition stored_versions :: "order_version list \<Rightarrow> (str, version_row) btree" where
  "stored_versions vs = foldl (\<lambda>t v. insert_order_version v t) [] vs"

lemma stored_versions_rows:
  assumes "list_all order_version_ok vs" and "distinct (map ov_event_id vs)"
  shows "bt_ok (stored_versions vs) \<and> (\<forall>k. bt_get (stored_versions vs) k \<noteq> None \<longrightarrow> k \<in> ov_event_id ` set vs) \<and>
    mset (table_rows (stored_versions vs)) = mset (map version_row_of vs)"
  using assms
proof (induction vs rule: rev_induct)
  case Nil
  then show ?case by (simp add: stored_versions_def table_rows_def)
next
  case (snoc v vs)
  let ?t = "stored_versions vs"
  have IH: "bt_ok ?t" "\<forall>k. bt_get ?t k \<noteq> None \<longrightarrow> k \<in> ov_event_id ` set vs"
    "mset (table_rows ?t) = mset (map version_row_of vs)" using snoc by auto
  then have new: "bt_get ?t (ov_event_id v) = None" using snoc.prems(2) by fastforce
  have "\<not> f64_is_nan (ov_premium v)"
    using snoc.prems(1) by (cases "ov_premium v") (auto simp: order_version_ok_def)
  then have "stored_versions (vs @ [v]) = insert_ignore (ov_event_id v) (version_row_of v) ?t"
    by (simp add: stored_versions_def insert_order_version_def)
  then show ?case using IH new by (auto simp: mset_insert_ignore bt_get_insert_ignore)
qed

lemma sum_traverse_map: "(\<And>x. x \<in> set xs \<Longrightarrow> f x = Inr (g x)) \<Longrightarrow> sum_traverse f xs = Inr (map g xs)"
  by (induction xs) simp_all

text \<open>
  C21. A history of versions survives the database: what the query for one order reads back is
  every version of that order that was stored and no other, oldest first, with each field
  as it was parsed (a negative zero comes back as zero).
\<close>

theorem stored_history_reads_back:
  assumes "list_all order_version_ok vs" and "distinct (map ov_event_id vs)"
  shows "\<exists>ws. order_versions_for (stored_versions vs) oid = Inr ws \<and>
    mset ws = mset (map plain_version (filter (\<lambda>v. ov_order_id v = oid) vs)) \<and>
    sorted (map (\<lambda>w. (ov_created_at w, ov_event_id w)) ws)"
proof -
  let ?t = "stored_versions vs" and ?g = "\<lambda>r. projr (into_version r)" and ?key = "\<lambda>r. (vr_created_at r, vr_event_id r)"
  let ?rs = "sort_key ?key (subject_rows vr_order_id ?t oid)"
  have rows: "mset (table_rows ?t) = mset (map version_row_of vs)" using stored_versions_rows [OF assms] by blast
  have read: "into_version (version_row_of v) = Inr (plain_version v)" if "v \<in> set vs" for v
    using that assms(1) by (simp add: into_version_row list_all_iff)
  have "set ?rs \<subseteq> version_row_of ` set vs"
    using mset_eq_setD [OF rows] by (auto simp: subject_rows_def)
  then have each: "\<exists>v. r = version_row_of v \<and> into_version r = Inr (plain_version v)" if "r \<in> set ?rs" for r
    using that read by blast
  have "order_versions_for ?t oid = Inr (map ?g ?rs)"
    unfolding order_versions_for_def by (rule sum_traverse_map) (use each in fastforce)
  moreover have "mset (map ?g ?rs) = mset (map plain_version (filter (\<lambda>v. ov_order_id v = oid) vs))"
  proof -
    have "mset (map ?g ?rs) = image_mset ?g (filter_mset (\<lambda>r. vr_order_id r = oid) (mset (map version_row_of vs)))"
      by (simp add: subject_rows_def rows)
    also have "\<dots> = mset (map (\<lambda>v. ?g (version_row_of v)) (filter (\<lambda>v. vr_order_id (version_row_of v) = oid) vs))"
      by (simp add: filter_map comp_def flip: mset_filter mset_map)
    also have "\<dots> = mset (map plain_version (filter (\<lambda>v. ov_order_id v = oid) vs))"
      using read by (intro arg_cong [of _ _ mset] map_cong filter_cong) auto
    finally show ?thesis .
  qed
  moreover have "sorted (map (\<lambda>w. (ov_created_at w, ov_event_id w)) (map ?g ?rs))"
  proof -
    have "(ov_created_at (?g r), ov_event_id (?g r)) = ?key r" if "r \<in> set ?rs" for r
      using each [OF that] by (auto simp: plain_version_def)
    then have "map (\<lambda>w. (ov_created_at w, ov_event_id w)) (map ?g ?rs) = map ?key ?rs" by simp
    then show ?thesis by (simp only: sorted_sort_key)
  qed
  ultimately show ?thesis by blast
qed

lemma example_version_ok: "\<exists>v. parse_order example_lib example_event = Inr v \<and> order_version_ok v \<and> ov_order_id v = ''u1''"
  using example_parses parse_order_ok by blast

theorem stored_history_reads_back_witness:
  "\<exists>v ws. parse_order example_lib example_event = Inr v \<and> order_versions_for (stored_versions [v]) ''u1'' = Inr ws \<and>
    mset ws = {#plain_version v#}"
proof -
  obtain v where v: "parse_order example_lib example_event = Inr v" "order_version_ok v" "ov_order_id v = ''u1''"
    using example_version_ok by blast
  with stored_history_reads_back [of "[v]" "''u1''"] show ?thesis by auto
qed

text \<open>
  C19. The row of an order after a refresh is that order's history and nothing else: status,
  amounts and the rest are those of its newest version (of two in the same second, the lower
  event id), the first sighting is the earliest version, and success and cancellation are
  dated by the first version that reached them.
\<close>

theorem order_row_is_its_history:
  assumes "bt_ok orders" and "subject_rows vr_order_id versions oid = rs" and "rs \<noteq> []"
  shows "\<exists>latest \<in> set rs. \<exists>row. bt_get (refresh_order versions oid orders) oid = Some row \<and>
    (\<forall>r \<in> set rs. \<not> newer vr_created_at vr_event_id r latest) \<and> or_order_id row = oid \<and>
    row_of_history rs latest row"
proof -
  obtain latest where l: "first_by (newer vr_created_at vr_event_id) rs = Some latest"
    using assms(3) by (meson first_by_None not_None_eq)
  then have in_rs: "latest \<in> set rs" by (rule first_by_in)
  then have "vr_order_id latest = oid" using assms(2) by (auto simp: subject_rows_def)
  moreover have "bt_get (refresh_order versions oid orders) oid = project_order rs"
    unfolding refresh_order_eq using assms by (simp add: order_projection.get_refresh)
  moreover obtain row where "project_order rs = Some row" "row_of_history rs latest row"
    using project_order_latest [OF l] by blast
  ultimately show ?thesis using newest_first [OF l] in_rs by (intro bexI [of _ latest] exI [of _ row]) (simp_all add: row_of_history_def)
qed

definition example_version :: "str \<Rightarrow> i64 \<Rightarrow> str \<Rightarrow> version_row" where
  "example_version ident t status = \<lparr>vr_event_id = ident, vr_order_id = ''o1'', vr_pubkey = ''p1'', vr_created_at = t,
     vr_kind = ''sell'', vr_status = status, vr_fiat_code = ''ARS'', vr_amount_sats = 1000, vr_fiat_amount = None,
     vr_fiat_min = None, vr_fiat_max = None, vr_payment_methods = ''cash'', vr_premium = F64_Fin False 0,
     vr_network = None, vr_expires_at = 0, vr_order_created_at = None\<rparr>"

theorem order_row_is_its_history_witness:
  "\<exists>row. bt_get (refresh_order [(''a'', example_version ''a'' 30 ''success''), (''b'', example_version ''b'' 10 ''pending''),
       (''c'', example_version ''c'' 20 ''success'')] ''o1'' []) ''o1'' = Some row \<and> or_last_updated_at row = 30 \<and>
     or_first_seen_at row = 10 \<and> or_canceled_at row = None"
proof -
  let ?vs = "[(''a'', example_version ''a'' 30 ''success''), (''b'', example_version ''b'' 10 ''pending''),
    (''c'', example_version ''c'' 20 ''success'')]"
  have rows: "subject_rows vr_order_id ?vs ''o1'' = map snd ?vs"
    by (simp add: subject_rows_def table_rows_def example_version_def)
  obtain latest row where l: "latest \<in> set (map snd ?vs)" "\<forall>r \<in> set (map snd ?vs). \<not> newer vr_created_at vr_event_id r latest"
    and row: "bt_get (refresh_order ?vs ''o1'' []) ''o1'' = Some row" "row_of_history (map snd ?vs) latest row"
    using order_row_is_its_history [OF bt_ok_Nil rows] by auto
  have "vr_created_at latest = 30" using l by (auto simp: newer_def example_version_def)
  then show ?thesis using row by (auto simp: row_of_history_def example_version_def)
qed

end
