(* ===== verification/Repos.thy ===== *)
theory Repos
  imports Projection
begin

text \<open>
  The other repositories of \<open>src/db/repo\<close>: the archive of events and how far back it
  reaches, the heartbeat rule, the bestiary and its names, instance profiles, rate
  snapshots, relays, cursors and the kinds that were asked for. The database is one record
  with a field per table. Every write is an upsert, and the locale \<open>upserts\<close> is
  interpreted on each of them: that is where arrival order stops mattering, or where it does not.
  The libraries that sign and serialise are the fields of \<open>archive_lib\<close>.
\<close>

record archive_lib =
  al_wire :: wire_lib
  al_verify :: "nostr_event \<Rightarrow> bool"
  al_as_json :: "nostr_event \<Rightarrow> str"
  al_from_json :: "str \<Rightarrow> nostr_event option"
  al_rates_json :: "(str, f64) btree \<Rightarrow> str"
  al_rates_from :: "str \<Rightarrow> (str, f64) btree option"

record event_record =
  er_id :: str
  er_pubkey :: str
  er_kind :: i64
  er_created_at :: i64
  er_d_tag :: "str option"
  er_raw_json :: str
  er_relay_url :: str
  er_seen_at :: i64

record instance_row =
  ir_pubkey :: str
  ir_name :: "str option"
  ir_name_seen_at :: "i64 option"
  ir_first_seen_at :: i64
  ir_last_seen_at :: i64

record info_row =
  nr_event_id :: str
  nr_pubkey :: str
  nr_created_at :: i64
  nr_fee :: "f64 option"
  nr_max_order_amount :: "i64 option"
  nr_min_order_amount :: "i64 option"
  nr_fiat_currencies :: "str option"
  nr_mostro_version :: "str option"
  nr_protocol_version :: "str option"
  nr_ln_networks :: "str option"
  nr_bond_enabled :: "i64 option"

record rate_row =
  rt_event_id :: str
  rt_pubkey :: str
  rt_published_at :: i64
  rt_source :: "str option"
  rt_rates_json :: str

record relay_row =
  rw_url :: str
  rw_source :: str
  rw_first_seen_at :: i64

record cursor =
  cu_relay_url :: str
  cu_kind :: i64
  cu_last_created_at :: i64
  cu_updated_at :: i64

record indexed_kind =
  ik_indexed_from :: i64
  ik_updated_at :: i64

record database =
  tb_events :: "(str, event_record) btree"
  tb_instances :: "(str, instance_row) btree"
  tb_instance_names :: "(str \<times> str, i64) btree"
  tb_instance_info :: "(str, info_row) btree"
  tb_order_versions :: "(str, version_row) btree"
  tb_orders :: "(str, order_row) btree"
  tb_dev_fees :: "(str, fee_row) btree"
  tb_dispute_versions :: "(str, dispute_version_row) btree"
  tb_disputes :: "(str, dispute_row) btree"
  tb_rates :: "(str, rate_row) btree"
  tb_relays :: "(str, relay_row) btree"
  tb_sync_state :: "(str \<times> i64, cursor) btree"
  tb_indexed_kinds :: "(i64, indexed_kind) btree"

definition empty_database :: database where
  "empty_database = \<lparr>tb_events = [], tb_instances = [], tb_instance_names = [], tb_instance_info = [],
     tb_order_versions = [], tb_orders = [], tb_dev_fees = [], tb_dispute_versions = [], tb_disputes = [],
     tb_rates = [], tb_relays = [], tb_sync_state = [], tb_indexed_kinds = []\<rparr>"

section \<open>Kinds and scopes\<close>

definition INDEXED_KINDS :: "nat list" where
  "INDEXED_KINDS = [ORDER_KIND, DEV_FEE_KIND, DISPUTE_KIND, INFO_KIND, RATES_KIND, RELAY_LIST_KIND]"

definition SINGLE_COPY_KINDS :: "nat list" where
  "SINGLE_COPY_KINDS = [INFO_KIND, RATES_KIND, RELAY_LIST_KIND]"

record load_scope =
  ls_pubkey :: "str option"
  ls_networks :: "network list"

definition apply_instance :: "load_scope \<Rightarrow> str \<Rightarrow> bool" where
  "apply_instance scope pubkey = is_none_or (ls_pubkey scope) (\<lambda>p. pubkey = p)"

section \<open>Events\<close>

definition d_tag_of :: "nostr_event \<Rightarrow> str option" where
  "d_tag_of e =
     (case tag_values_of e ''d'' of Inr (Some (v # _)) \<Rightarrow> Some v | _ \<Rightarrow> None)"

definition event_record_of :: "archive_lib \<Rightarrow> nostr_event \<Rightarrow> str \<Rightarrow> i64 \<Rightarrow> event_record" where
  "event_record_of lib e relay_url seen_at =
     \<lparr>er_id = ne_id e, er_pubkey = ne_pubkey e, er_kind = int (ne_kind e), er_created_at = event_secs e,
      er_d_tag = d_tag_of e, er_raw_json = al_as_json lib e, er_relay_url = relay_url, er_seen_at = seen_at\<rparr>"

definition insert_if_new :: "event_record \<Rightarrow> database \<Rightarrow> bool \<times> database" where
  "insert_if_new record db =
     (bt_get (tb_events db) (er_id record) = None,
      db\<lparr>tb_events := insert_ignore (er_id record) record (tb_events db)\<rparr>)"

definition event_exists :: "database \<Rightarrow> str \<Rightarrow> bool" where
  "event_exists db i \<longleftrightarrow> bt_get (tb_events db) i \<noteq> None"

definition events_is_empty :: "database \<Rightarrow> bool" where
  "events_is_empty db \<longleftrightarrow> length (tb_events db) = 0"

definition events_count :: "database \<Rightarrow> u64" where
  "events_count db = length (tb_events db)"

definition scoped_min :: "database \<Rightarrow> nat option \<Rightarrow> load_scope \<Rightarrow> i64 option" where
  "scoped_min db kind scope =
     sql_min (map (\<lambda>r. Some (er_created_at r))
       (filter (\<lambda>r. is_none_or kind (\<lambda>k. er_kind r = int k) \<and> apply_instance scope (er_pubkey r))
         (table_rows (tb_events db))))"

definition latest_created_at :: "database \<Rightarrow> load_scope \<Rightarrow> i64 option" where
  "latest_created_at db scope =
     sql_max (map (\<lambda>r. Some (er_created_at r))
       (filter (\<lambda>r. apply_instance scope (er_pubkey r)) (table_rows (tb_events db))))"

definition indexed_from :: "database \<Rightarrow> nat \<Rightarrow> i64 option" where
  "indexed_from db kind = map_option ik_indexed_from (bt_get (tb_indexed_kinds db) (int kind))"

definition kind_floor :: "database \<Rightarrow> nat \<Rightarrow> load_scope \<Rightarrow> i64 option" where
  "kind_floor db kind scope =
     (if kind \<in> set SINGLE_COPY_KINDS then
        (case indexed_from db kind of
           Some t \<Rightarrow> Some t
         | None \<Rightarrow> scoped_min db (Some kind) scope)
      else
        (case scoped_min db (Some kind) scope of
           Some first \<Rightarrow> Some first
         | None \<Rightarrow> indexed_from db kind))"

fun kinds_floor :: "database \<Rightarrow> load_scope \<Rightarrow> nat list \<Rightarrow> i64 \<Rightarrow> i64 option" where
  "kinds_floor db scope [] floor_at = Some floor_at"
| "kinds_floor db scope (kind # kinds) floor_at =
     (case kind_floor db kind scope of
        None \<Rightarrow> None
      | Some known \<Rightarrow> kinds_floor db scope kinds (max floor_at known))"

definition earliest_created_at :: "database \<Rightarrow> nat list \<Rightarrow> load_scope \<Rightarrow> i64 option" where
  "earliest_created_at db kinds scope =
     (case scoped_min db None scope of
        None \<Rightarrow> None
      | Some archive \<Rightarrow> kinds_floor db scope kinds archive)"

text \<open>\<open>ORDER BY created_at, id\<close>.\<close>

definition events_all :: "database \<Rightarrow> event_record list" where
  "events_all db = sort_key (\<lambda>r. (er_created_at r, er_id r)) (table_rows (tb_events db))"

section \<open>Heartbeats\<close>

definition RATES_BUCKET_SECS :: i64 where
  "RATES_BUCKET_SECS = 3600"

datatype heartbeat = Beat_Announcement | Beat_Rates i64 | Beat_None

text \<open>The tags in a canonical order; \<open>Vec<Vec<String>>\<close> is ordered lexicographically.\<close>

definition same_tags :: "nostr_event \<Rightarrow> nostr_event \<Rightarrow> bool" where
  "same_tags a b \<longleftrightarrow> sort (ne_tags a) = sort (ne_tags b)"

definition rates_redundant :: "database \<Rightarrow> nostr_event \<Rightarrow> i64 \<Rightarrow> bool" where
  "rates_redundant db e published_at =
     (let bucket = i64_sub published_at (published_at mod RATES_BUCKET_SECS) in
      list_ex (\<lambda>r. rt_pubkey r = ne_pubkey e \<and> bucket \<le> rt_published_at r
          \<and> rt_published_at r < i64_add bucket RATES_BUCKET_SECS \<and> rt_event_id r \<noteq> ne_id e)
        (table_rows (tb_rates db)))"

definition previous_announcement :: "database \<Rightarrow> nostr_event \<Rightarrow> event_record option" where
  "previous_announcement db e =
     first_by (newer er_created_at er_id)
       (filter (\<lambda>r. er_pubkey r = ne_pubkey e \<and> er_kind r = int (ne_kind e) \<and> er_d_tag r = d_tag_of e
            \<and> er_created_at r \<le> event_secs e \<and> er_id r \<noteq> ne_id e)
         (table_rows (tb_events db)))"

definition announcement_redundant :: "archive_lib \<Rightarrow> database \<Rightarrow> nostr_event \<Rightarrow> bool" where
  "announcement_redundant lib db e =
     is_some_and (Option.bind (previous_announcement db e) (\<lambda>r. al_from_json lib (er_raw_json r)))
       (\<lambda>p. ne_content p = ne_content e \<and> same_tags p e)"

fun is_redundant :: "archive_lib \<Rightarrow> database \<Rightarrow> nostr_event \<Rightarrow> heartbeat \<Rightarrow> bool" where
  "is_redundant lib db e Beat_None = False"
| "is_redundant lib db e (Beat_Rates published_at) = rates_redundant db e published_at"
| "is_redundant lib db e Beat_Announcement = announcement_redundant lib db e"

section \<open>Instances\<close>

definition merge_instance :: "str \<Rightarrow> str option \<Rightarrow> i64 \<Rightarrow> instance_row option \<Rightarrow> instance_row" where
  "merge_instance pubkey name t old =
     (case old of
        None \<Rightarrow> \<lparr>ir_pubkey = pubkey, ir_name = name,
            ir_name_seen_at = (case name of None \<Rightarrow> None | Some _ \<Rightarrow> Some t),
            ir_first_seen_at = t, ir_last_seen_at = t\<rparr>
      | Some r \<Rightarrow>
          (let wins = (case (name, ir_name_seen_at r) of
                (None, _) \<Rightarrow> False
              | (Some _, None) \<Rightarrow> True
              | (Some _, Some seen) \<Rightarrow> t \<ge> seen) in
           r\<lparr>ir_name := (if wins then name else ir_name r),
             ir_name_seen_at := (if wins then Some t else ir_name_seen_at r),
             ir_first_seen_at := min (ir_first_seen_at r) t,
             ir_last_seen_at := max (ir_last_seen_at r) t\<rparr>))"

definition upsert_instance :: "str \<Rightarrow> str option \<Rightarrow> i64 \<Rightarrow> database \<Rightarrow> database" where
  "upsert_instance pubkey name t db =
     db\<lparr>tb_instances := bt_upd pubkey (merge_instance pubkey name t) (tb_instances db)\<rparr>"

definition merge_latest :: "i64 \<Rightarrow> i64 option \<Rightarrow> i64" where
  "merge_latest t old = (case old of None \<Rightarrow> t | Some u \<Rightarrow> max u t)"

definition record_name :: "str \<Rightarrow> str \<Rightarrow> i64 \<Rightarrow> database \<Rightarrow> database" where
  "record_name pubkey name t db =
     db\<lparr>tb_instance_names := bt_upd (pubkey, name) (merge_latest t) (tb_instance_names db)\<rparr>"

definition platform_pubkeys :: "database \<Rightarrow> str list" where
  "platform_pubkeys db = map vr_pubkey (table_rows (tb_order_versions db)) @ map fr_pubkey (table_rows (tb_dev_fees db))
     @ map dvr_pubkey (table_rows (tb_dispute_versions db)) @ map nr_pubkey (table_rows (tb_instance_info db))"

definition is_platform_proven :: "database \<Rightarrow> str \<Rightarrow> bool" where
  "is_platform_proven db pubkey \<longleftrightarrow> pubkey \<in> set (platform_pubkeys db)"

definition platform_proven :: "database \<Rightarrow> str list" where
  "platform_proven db = bt_set_of (platform_pubkeys db)"

definition find_instance :: "database \<Rightarrow> str \<Rightarrow> instance_row option" where
  "find_instance db pubkey = bt_get (tb_instances db) pubkey"

definition instances_all :: "database \<Rightarrow> instance_row list" where
  "instances_all db = sort_key (\<lambda>r. (ir_first_seen_at r, ir_pubkey r)) (table_rows (tb_instances db))"

definition instance_names :: "database \<Rightarrow> str \<Rightarrow> (str \<times> i64) list" where
  "instance_names db pubkey =
     sort_key (\<lambda>(name, t). (- t, name))
       (map (\<lambda>((_, name), t). (name, t)) (filter (\<lambda>((p, _), _). p = pubkey) (tb_instance_names db)))"

definition clear_instances :: "database \<Rightarrow> database" where
  "clear_instances db = db\<lparr>tb_instance_names := [], tb_instances := []\<rparr>"

section \<open>Instance profiles\<close>

definition info_row_of :: "instance_info \<Rightarrow> info_row" where
  "info_row_of i =
     \<lparr>nr_event_id = in_event_id i, nr_pubkey = in_pubkey i, nr_created_at = in_created_at i,
      nr_fee = Option.bind (in_fee i) sql_real, nr_max_order_amount = in_max_order_amount i,
      nr_min_order_amount = in_min_order_amount i, nr_fiat_currencies = in_fiat_currencies i,
      nr_mostro_version = in_mostro_version i, nr_protocol_version = in_protocol_version i,
      nr_ln_networks = in_ln_networks i, nr_bond_enabled = map_option (\<lambda>b. if b then 1 else 0) (in_bond_enabled i)\<rparr>"

definition insert_info :: "instance_info \<Rightarrow> database \<Rightarrow> database" where
  "insert_info i db = db\<lparr>tb_instance_info := insert_ignore (in_event_id i) (info_row_of i) (tb_instance_info db)\<rparr>"

definition fee_in_force :: "database \<Rightarrow> str \<Rightarrow> i64 \<Rightarrow> f64 option" where
  "fee_in_force db pubkey at_ts =
     Option.bind (first_by (newer nr_created_at nr_event_id)
       (filter (\<lambda>r. nr_pubkey r = pubkey \<and> nr_created_at r \<le> at_ts \<and> nr_fee r \<noteq> None)
         (table_rows (tb_instance_info db)))) nr_fee"

definition into_info :: "info_row \<Rightarrow> instance_info" where
  "into_info r =
     \<lparr>in_event_id = nr_event_id r, in_pubkey = nr_pubkey r, in_created_at = nr_created_at r, in_fee = nr_fee r,
      in_max_order_amount = nr_max_order_amount r, in_min_order_amount = nr_min_order_amount r,
      in_fiat_currencies = nr_fiat_currencies r, in_mostro_version = nr_mostro_version r,
      in_protocol_version = nr_protocol_version r, in_ln_networks = nr_ln_networks r,
      in_bond_enabled = map_option (\<lambda>stored. stored \<noteq> 0) (nr_bond_enabled r)\<rparr>"

definition info_versions :: "database \<Rightarrow> str \<Rightarrow> instance_info list" where
  "info_versions db pubkey =
     map into_info (sort_key (\<lambda>r. (nr_created_at r, nr_event_id r)) (subject_rows nr_pubkey (tb_instance_info db) pubkey))"

definition info_latest :: "database \<Rightarrow> str \<Rightarrow> instance_info option" where
  "info_latest db pubkey =
     map_option into_info (first_by (newer nr_created_at nr_event_id) (subject_rows nr_pubkey (tb_instance_info db) pubkey))"

section \<open>Rates\<close>

definition rate_row_of :: "archive_lib \<Rightarrow> rate_snapshot \<Rightarrow> rate_row" where
  "rate_row_of lib s =
     \<lparr>rt_event_id = rs_event_id s, rt_pubkey = rs_pubkey s, rt_published_at = rs_published_at s,
      rt_source = rs_source s, rt_rates_json = al_rates_json lib (rs_rates s)\<rparr>"

definition insert_rates :: "archive_lib \<Rightarrow> rate_snapshot \<Rightarrow> database \<Rightarrow> database" where
  "insert_rates lib s db = db\<lparr>tb_rates := insert_ignore (rs_event_id s) (rate_row_of lib s) (tb_rates db)\<rparr>"

definition into_snapshot :: "archive_lib \<Rightarrow> rate_row \<Rightarrow> row_error + rate_snapshot" where
  "into_snapshot lib r =
     and_then (ok_or (Column_Decode ''rates_json'') (al_rates_from lib (rt_rates_json r))) (\<lambda>rates.
     Inr \<lparr>rs_event_id = rt_event_id r, rs_pubkey = rt_pubkey r, rs_published_at = rt_published_at r,
          rs_source = rt_source r, rs_rates = rates\<rparr>)"

definition rates_all :: "archive_lib \<Rightarrow> database \<Rightarrow> row_error + rate_snapshot list" where
  "rates_all lib db =
     sum_traverse (into_snapshot lib) (sort_key (\<lambda>r. (rt_published_at r, rt_event_id r)) (table_rows (tb_rates db)))"

definition rates_between :: "archive_lib \<Rightarrow> database \<Rightarrow> i64 \<Rightarrow> i64 \<Rightarrow> row_error + rate_snapshot list" where
  "rates_between lib db lo hi =
     sum_traverse (into_snapshot lib)
       (sort_key (\<lambda>r. (rt_published_at r, rt_event_id r))
         (filter (\<lambda>r. lo \<le> rt_published_at r \<and> rt_published_at r < hi) (table_rows (tb_rates db))))"

text \<open>The rows of \<open>rates JOIN events\<close>: the clock of the event, and the snapshot.\<close>

definition rates_join :: "database \<Rightarrow> (i64 \<times> rate_row) list" where
  "rates_join db =
     filter_map (\<lambda>r. map_option (\<lambda>e. (er_created_at e, r)) (bt_get (tb_events db) (rt_event_id r))) (table_rows (tb_rates db))"

definition latest_rate :: "database \<Rightarrow> str \<Rightarrow> rate_row option" where
  "latest_rate db pubkey =
     map_option snd (first_by (newer fst (\<lambda>p. rt_event_id (snd p)))
       (filter (\<lambda>p. rt_pubkey (snd p) = pubkey) (rates_join db)))"

definition latest_per_instance :: "archive_lib \<Rightarrow> database \<Rightarrow> str option \<Rightarrow> row_error + rate_snapshot list" where
  "latest_per_instance lib db pubkey =
     sum_traverse (into_snapshot lib)
       (filter_map (latest_rate db)
         (bt_set_of (filter (\<lambda>p. is_none_or pubkey (\<lambda>q. p = q)) (map (\<lambda>p. rt_pubkey (snd p)) (rates_join db)))))"

section \<open>Relays, cursors and requests\<close>

datatype relay_source = Source_Config | Source_Nip65 str

fun source_as_stored :: "relay_source \<Rightarrow> str" where
  "source_as_stored Source_Config = ''config''"
| "source_as_stored (Source_Nip65 pubkey) = ''nip65:'' @ pubkey"

definition source_parse :: "str \<Rightarrow> relay_source" where
  "source_parse stored = (if starts_with ''nip65:'' stored then Source_Nip65 (drop 6 stored) else Source_Config)"

definition upsert_relay :: "str \<Rightarrow> relay_source \<Rightarrow> i64 \<Rightarrow> database \<Rightarrow> database" where
  "upsert_relay url source t db =
     db\<lparr>tb_relays := insert_ignore url \<lparr>rw_url = url, rw_source = source_as_stored source, rw_first_seen_at = t\<rparr> (tb_relays db)\<rparr>"

record relay_entry =
  re_url :: str
  re_source :: relay_source
  re_first_seen_at :: i64

definition relays_all :: "database \<Rightarrow> relay_entry list" where
  "relays_all db =
     map (\<lambda>r. \<lparr>re_url = rw_url r, re_source = source_parse (rw_source r), re_first_seen_at = rw_first_seen_at r\<rparr>)
       (sort_key (\<lambda>r. (rw_first_seen_at r, rw_url r)) (table_rows (tb_relays db)))"

definition relays_discovered :: "database \<Rightarrow> relay_entry list" where
  "relays_discovered db = filter (\<lambda>r. re_source r \<noteq> Source_Config) (relays_all db)"

definition merge_cursor :: "str \<Rightarrow> nat \<Rightarrow> i64 \<Rightarrow> i64 \<Rightarrow> cursor option \<Rightarrow> cursor" where
  "merge_cursor relay_url kind created_at now old =
     (case old of
        None \<Rightarrow> \<lparr>cu_relay_url = relay_url, cu_kind = int kind, cu_last_created_at = created_at, cu_updated_at = now\<rparr>
      | Some c \<Rightarrow> c\<lparr>cu_last_created_at := max (cu_last_created_at c) created_at,
          cu_updated_at := max (cu_updated_at c) now\<rparr>)"

definition advance_cursor :: "str \<Rightarrow> nat \<Rightarrow> i64 \<Rightarrow> i64 \<Rightarrow> database \<Rightarrow> database" where
  "advance_cursor relay_url kind created_at now db =
     db\<lparr>tb_sync_state := bt_upd (relay_url, int kind) (merge_cursor relay_url kind created_at now) (tb_sync_state db)\<rparr>"

definition get_cursor :: "database \<Rightarrow> str \<Rightarrow> nat \<Rightarrow> cursor option" where
  "get_cursor db relay_url kind = bt_get (tb_sync_state db) (relay_url, int kind)"

definition cursors_all :: "database \<Rightarrow> cursor list" where
  "cursors_all db = table_rows (tb_sync_state db)"

definition merge_indexed :: "i64 \<Rightarrow> i64 \<Rightarrow> indexed_kind option \<Rightarrow> indexed_kind" where
  "merge_indexed asked_from now old =
     (let lo = max asked_from 0 in
      case old of
        None \<Rightarrow> \<lparr>ik_indexed_from = lo, ik_updated_at = now\<rparr>
      | Some k \<Rightarrow> \<lparr>ik_indexed_from = min (ik_indexed_from k) lo, ik_updated_at = max (ik_updated_at k) now\<rparr>)"

definition record_indexed :: "nat \<Rightarrow> i64 \<Rightarrow> i64 \<Rightarrow> database \<Rightarrow> database" where
  "record_indexed kind asked_from now db =
     db\<lparr>tb_indexed_kinds := bt_upd (int kind) (merge_indexed asked_from now) (tb_indexed_kinds db)\<rparr>"

section \<open>The upserts converge\<close>

text \<open>One call of each upsert, as the arguments it is made with.\<close>

type_synonym sighting = "str \<times> str option \<times> i64"

definition same_second_name :: "sighting \<Rightarrow> sighting \<Rightarrow> bool" where
  "same_second_name a b =
     (case (a, b) of ((p, Some n, t), (q, Some m, u)) \<Rightarrow> p = q \<and> t = u \<longrightarrow> n = m | _ \<Rightarrow> True)"

interpretation instances: upserts fst "\<lambda>(p, n, t). merge_instance p n t" same_second_name
proof
  fix a b :: sighting and old
  obtain p n t q m u where a: "a = (p, n, t)" and b: "b = (q, m, u)" by (metis prod_cases3)
  show "fst a = fst b \<Longrightarrow> same_second_name a b \<Longrightarrow>
      (case b of (p, n, t) \<Rightarrow> merge_instance p n t) (Some ((case a of (p, n, t) \<Rightarrow> merge_instance p n t) old)) =
      (case a of (p, n, t) \<Rightarrow> merge_instance p n t) (Some ((case b of (p, n, t) \<Rightarrow> merge_instance p n t) old))"
    unfolding a b
    by (auto simp: merge_instance_def same_second_name_def Let_def min.assoc max.assoc min.commute max.commute
        split: option.splits)
  show "(case a of (p, n, t) \<Rightarrow> merge_instance p n t) (Some ((case a of (p, n, t) \<Rightarrow> merge_instance p n t) old)) =
      (case a of (p, n, t) \<Rightarrow> merge_instance p n t) old"
    unfolding a by (auto simp: merge_instance_def Let_def split: option.splits)
qed

interpretation names: upserts fst "\<lambda>(k, t). merge_latest t" "\<lambda>_ _. True"
  by unfold_locales (auto simp: merge_latest_def split: option.splits)

interpretation cursors: upserts "\<lambda>(url, kind, t, now). (url, int kind)"
    "\<lambda>(url, kind, t, now). merge_cursor url kind t now" "\<lambda>_ _. True"
  by unfold_locales (auto simp: merge_cursor_def split: option.splits)

interpretation requests: upserts "\<lambda>(kind, lo, now). int kind" "\<lambda>(kind, lo, now). merge_indexed lo now" "\<lambda>_ _. True"
  by unfold_locales (auto simp: merge_indexed_def Let_def split: option.splits)

interpretation relays: upserts rw_url keep_old "\<lambda>a b. rw_url a = rw_url b \<longrightarrow> a = b"
  by unfold_locales (auto simp: keep_old_def split: option.splits)

text \<open>
  The condition on names is needed: of two names an instance published in the same second
  the one that arrives last is kept, so the bestiary does depend on arrival there.
\<close>

lemma instance_name_depends_on_arrival:
  "upsert_instance ''p'' (Some ''A'') 5 (upsert_instance ''p'' (Some ''B'') 5 empty_database) \<noteq>
   upsert_instance ''p'' (Some ''B'') 5 (upsert_instance ''p'' (Some ''A'') 5 empty_database)"
  by (simp add: upsert_instance_def empty_database_def merge_instance_def)

end
