(* ===== verification/Pipeline.thy ===== *)
theory Pipeline
  imports Repos
begin

text \<open>
  The ingestion pipeline (\<open>src/ingest/pipeline.rs\<close>) and \<open>rebuild\<close>
  (\<open>src/commands/rebuild.rs\<close>). One event in, one outcome and the database after it: who is
  admitted, what is archived, what is derived. A transaction is one update of the
  database; an ingest that fails before its commit leaves it as it was, the rule
  \<open>interrupted\<close> of the history. The key of an event is lowercase hex, so
  \<open>to_lowercase\<close> is the ASCII one.
\<close>

section \<open>Admission\<close>

definition PLATFORM_TAGGED :: "nat list" where
  "PLATFORM_TAGGED = [ORDER_KIND, DEV_FEE_KIND, DISPUTE_KIND, INFO_KIND]"

definition UNTAGGED_KINDS :: "nat list" where
  "UNTAGGED_KINDS = [RATES_KIND, RELAY_LIST_KIND]"

definition NETWORK_TAGGED :: "nat list" where
  "NETWORK_TAGGED = [ORDER_KIND, DEV_FEE_KIND]"

lemmas kind_numbers = ORDER_KIND_def DEV_FEE_KIND_def DISPUTE_KIND_def INFO_KIND_def RATES_KIND_def RELAY_LIST_KIND_def

datatype rejection =
  Invalid_Signature
  | Unknown_Instance str
  | Unvouched_Publisher str nat
  | Other_Platform "str option"
  | Other_Network network
  | Unsupported_Kind nat
  | Malformed event_error

datatype ingest_outcome = Stored | Duplicate | Redundant | Rejected rejection

record policy =
  po_instances :: "str list"
  po_accept_unknown_instances :: bool
  po_networks :: "network list"

definition policy_new :: "str list \<Rightarrow> bool \<Rightarrow> network list \<Rightarrow> policy" where
  "policy_new instances accept nets =
     \<lparr>po_instances = map (\<lambda>p. map lower_char (trim p)) instances, po_accept_unknown_instances = accept,
      po_networks = nets\<rparr>"

definition lists_instance :: "policy \<Rightarrow> str \<Rightarrow> bool" where
  "lists_instance policy pubkey \<longleftrightarrow> map lower_char pubkey \<in> set (po_instances policy)"

definition accepts_instance :: "policy \<Rightarrow> str \<Rightarrow> bool" where
  "accepts_instance policy pubkey \<longleftrightarrow> po_accept_unknown_instances policy \<or> lists_instance policy pubkey"

definition accepts_network :: "policy \<Rightarrow> network \<Rightarrow> bool" where
  "accepts_network policy net \<longleftrightarrow> net \<in> set (po_networks policy)"

definition admit_event :: "archive_lib \<Rightarrow> policy \<Rightarrow> nostr_event \<Rightarrow> rejection option" where
  "admit_event lib policy e =
     (if \<not> al_verify lib e then Some Invalid_Signature
      else if \<not> accepts_instance policy (ne_pubkey e) then Some (Unknown_Instance (ne_pubkey e))
      else if ne_kind e \<in> set PLATFORM_TAGGED \<and> \<not> is_mostro e then Some (Other_Platform (platform e))
      else if ne_kind e \<in> set NETWORK_TAGGED then
        (case optional_network e of
           Inr (Some net) \<Rightarrow> if \<not> accepts_network policy net then Some (Other_Network net) else None
         | Inr None \<Rightarrow> None
         | Inl err \<Rightarrow> Some (Malformed err))
      else None)"

definition vouched_for :: "policy \<Rightarrow> database \<Rightarrow> nostr_event \<Rightarrow> rejection option" where
  "vouched_for policy db e =
     (if ne_kind e \<notin> set UNTAGGED_KINDS then None
      else if lists_instance policy (ne_pubkey e) \<or> is_platform_proven db (ne_pubkey e) then None
      else Some (Unvouched_Publisher (ne_pubkey e) (ne_kind e)))"

section \<open>Parsing and writing\<close>

datatype parsed =
  Parsed_Order order_version
  | Parsed_Dev_Fee dev_fee
  | Parsed_Dispute dispute_version
  | Parsed_Info instance_info
  | Parsed_Rates rate_snapshot
  | Parsed_Relay_List relay_list

definition parse_event :: "archive_lib \<Rightarrow> nostr_event \<Rightarrow> rejection + parsed" where
  "parse_event lib e =
     (if ne_kind e = ORDER_KIND then map_sum Malformed Parsed_Order (parse_order (al_wire lib) e)
      else if ne_kind e = DEV_FEE_KIND then map_sum Malformed Parsed_Dev_Fee (parse_dev_fee (al_wire lib) e)
      else if ne_kind e = DISPUTE_KIND then map_sum Malformed Parsed_Dispute (parse_dispute e)
      else if ne_kind e = INFO_KIND then map_sum Malformed Parsed_Info (parse_info e)
      else if ne_kind e = RATES_KIND then map_sum Malformed Parsed_Rates (parse_rates (al_wire lib) e)
      else if ne_kind e = RELAY_LIST_KIND then map_sum Malformed Parsed_Relay_List (parse_relay_list (al_wire lib) e)
      else Inl (Unsupported_Kind (ne_kind e)))"

fun parsed_heartbeat :: "parsed \<Rightarrow> heartbeat" where
  "parsed_heartbeat (Parsed_Rates s) = Beat_Rates (rs_published_at s)"
| "parsed_heartbeat (Parsed_Info _) = Beat_Announcement"
| "parsed_heartbeat (Parsed_Relay_List _) = Beat_Announcement"
| "parsed_heartbeat _ = Beat_None"

fun persist_parsed :: "archive_lib \<Rightarrow> parsed \<Rightarrow> database \<Rightarrow> database" where
  "persist_parsed lib (Parsed_Order v) db =
     (let versions = insert_order_version v (tb_order_versions db) in
      db\<lparr>tb_order_versions := versions, tb_orders := refresh_order versions (ov_order_id v) (tb_orders db)\<rparr>)"
| "persist_parsed lib (Parsed_Dev_Fee f) db = db\<lparr>tb_dev_fees := insert_fee f (tb_dev_fees db)\<rparr>"
| "persist_parsed lib (Parsed_Dispute v) db =
     (let versions = insert_dispute_version v (tb_dispute_versions db) in
      db\<lparr>tb_dispute_versions := versions,
        tb_disputes := refresh_dispute versions (dv_dispute_id v) (tb_disputes db)\<rparr>)"
| "persist_parsed lib (Parsed_Info i) db = insert_info i db"
| "persist_parsed lib (Parsed_Rates s) db = insert_rates lib s db"
| "persist_parsed lib (Parsed_Relay_List l) db =
     foldl (\<lambda>db url. upsert_relay url (Source_Nip65 (rl_pubkey l)) (rl_created_at l) db) db (rl_relays l)"

definition persist :: "archive_lib \<Rightarrow> nostr_event \<Rightarrow> parsed \<Rightarrow> database \<Rightarrow> database" where
  "persist lib e parsed db =
     (let name = instance_name e;
          seen = upsert_instance (ne_pubkey e) name (event_secs e) db;
          named = (case name of None \<Rightarrow> seen | Some n \<Rightarrow> record_name (ne_pubkey e) n (event_secs e) seen)
      in persist_parsed lib parsed named)"

definition advance :: "nostr_event \<Rightarrow> str \<Rightarrow> i64 \<Rightarrow> database \<Rightarrow> database" where
  "advance e relay_url now db = advance_cursor relay_url (ne_kind e) (event_secs e) now db"

section \<open>Ingest and replay\<close>

definition ingest ::
  "archive_lib \<Rightarrow> policy \<Rightarrow> nostr_event \<Rightarrow> str \<Rightarrow> i64 \<Rightarrow> database \<Rightarrow> ingest_outcome \<times> database" where
  "ingest lib policy e relay_url now db =
     (case admit_event lib policy e of
        Some rejection \<Rightarrow> (Rejected rejection, db)
      | None \<Rightarrow>
     case vouched_for policy db e of
        Some rejection \<Rightarrow> (Rejected rejection, db)
      | None \<Rightarrow>
     let record = event_record_of lib e relay_url now in
     case parse_event lib e of
        Inl rejection \<Rightarrow> (Rejected rejection, snd (insert_if_new record db))
      | Inr parsed \<Rightarrow>
          if is_redundant lib db e (parsed_heartbeat parsed) then
            (Redundant, advance e relay_url now (upsert_instance (ne_pubkey e) None (event_secs e) db))
          else
            (case insert_if_new record db of
               (False, tx) \<Rightarrow> (Duplicate, advance e relay_url now tx)
             | (True, tx) \<Rightarrow> (Stored, advance e relay_url now (persist lib e parsed tx))))"

definition replay :: "archive_lib \<Rightarrow> nostr_event \<Rightarrow> database \<Rightarrow> ingest_outcome \<times> database" where
  "replay lib e db =
     (case parse_event lib e of
        Inl rejection \<Rightarrow> (Rejected rejection, db)
      | Inr parsed \<Rightarrow> (Stored, persist lib e parsed db))"

record ingest_counts =
  co_stored :: u64
  co_duplicate :: u64
  co_redundant :: u64
  co_rejected :: u64

definition no_counts :: ingest_counts where
  "no_counts = \<lparr>co_stored = 0, co_duplicate = 0, co_redundant = 0, co_rejected = 0\<rparr>"

fun record_outcome :: "ingest_outcome \<Rightarrow> ingest_counts \<Rightarrow> ingest_counts" where
  "record_outcome Stored c = c\<lparr>co_stored := co_stored c + 1\<rparr>"
| "record_outcome Duplicate c = c\<lparr>co_duplicate := co_duplicate c + 1\<rparr>"
| "record_outcome Redundant c = c\<lparr>co_redundant := co_redundant c + 1\<rparr>"
| "record_outcome (Rejected _) c = c\<lparr>co_rejected := co_rejected c + 1\<rparr>"

definition counts_total :: "ingest_counts \<Rightarrow> u64" where
  "counts_total c = co_stored c + co_duplicate c + co_redundant c + co_rejected c"

definition counts_add :: "ingest_counts \<Rightarrow> ingest_counts \<Rightarrow> ingest_counts" where
  "counts_add a b = \<lparr>co_stored = co_stored a + co_stored b, co_duplicate = co_duplicate a + co_duplicate b,
     co_redundant = co_redundant a + co_redundant b, co_rejected = co_rejected a + co_rejected b\<rparr>"

section \<open>Rebuild\<close>

record rebuilt =
  rb_events :: u64
  rb_unreadable :: u64
  rb_orders :: u64
  rb_disputes :: u64

definition clear_version_tables :: "database \<Rightarrow> database" where
  "clear_version_tables db =
     db\<lparr>tb_order_versions := [], tb_dispute_versions := [], tb_dev_fees := [], tb_instance_info := [], tb_rates := []\<rparr>"

definition clear_projections :: "database \<Rightarrow> database" where
  "clear_projections db = clear_instances (db\<lparr>tb_orders := [], tb_disputes := []\<rparr>)"

definition rebuild_step :: "archive_lib \<Rightarrow> rebuilt \<times> database \<Rightarrow> event_record \<Rightarrow> rebuilt \<times> database" where
  "rebuild_step lib s r =
     (case s of (rb, db) \<Rightarrow>
      case al_from_json lib (er_raw_json r) of
        None \<Rightarrow> (rb\<lparr>rb_unreadable := rb_unreadable rb + 1\<rparr>, db)
      | Some e \<Rightarrow>
          (case replay lib e db of
             (Rejected _, tx) \<Rightarrow> (rb\<lparr>rb_unreadable := rb_unreadable rb + 1\<rparr>, tx)
           | (_, tx) \<Rightarrow> (rb\<lparr>rb_events := rb_events rb + 1\<rparr>, tx)))"

definition sweep_orders :: "database \<Rightarrow> database" where
  "sweep_orders db =
     db\<lparr>tb_orders := foldl (\<lambda>t i. refresh_order (tb_order_versions db) i t) (tb_orders db)
       (order_ids (tb_order_versions db))\<rparr>"

definition sweep_disputes :: "database \<Rightarrow> database" where
  "sweep_disputes db =
     db\<lparr>tb_disputes := foldl (\<lambda>t i. refresh_dispute (tb_dispute_versions db) i t) (tb_disputes db)
       (dispute_ids (tb_dispute_versions db))\<rparr>"

definition sweep_fees :: "database \<Rightarrow> database" where
  "sweep_fees db =
     db\<lparr>tb_dev_fees := foldl (\<lambda>t i. refresh_duplicates i t) (tb_dev_fees db) (fee_order_ids (tb_dev_fees db))\<rparr>"

definition rebuild :: "archive_lib \<Rightarrow> bool \<Rightarrow> database \<Rightarrow> rebuilt \<times> database" where
  "rebuild lib from_raw db =
     (let cleared = clear_projections (if from_raw then clear_version_tables db else db) in
      case foldl (rebuild_step lib)
             (\<lparr>rb_events = 0, rb_unreadable = 0, rb_orders = 0, rb_disputes = 0\<rparr>, cleared) (events_all cleared) of
        (rb, replayed) \<Rightarrow>
          (rb\<lparr>rb_orders := length (order_ids (tb_order_versions replayed)),
             rb_disputes := length (dispute_ids (tb_dispute_versions replayed))\<rparr>,
           sweep_fees (sweep_disputes (sweep_orders replayed))))"

section \<open>What is derived from the archive\<close>

text \<open>
  The tables that hold nothing but what the archive implies: the versions, the projections,
  the fees, the profiles, the rates and the names. The bestiary is apart, since a
  republication that is not archived still moves a last sighting, and so are relays, whose
  first namer is kept.
\<close>

definition derived_tables :: "database \<Rightarrow> database" where
  "derived_tables db = db\<lparr>tb_events := [], tb_instances := [], tb_relays := [], tb_sync_state := [], tb_indexed_kinds := []\<rparr>"

definition derive_step :: "archive_lib \<Rightarrow> database \<Rightarrow> nostr_event \<Rightarrow> database" where
  "derive_step lib s e = (case parse_event lib e of Inl _ \<Rightarrow> s | Inr p \<Rightarrow> derived_tables (persist lib e p s))"

definition derived_ok :: "database \<Rightarrow> bool" where
  "derived_ok s \<longleftrightarrow> derived_tables s = s \<and> bt_ok (tb_instance_names s) \<and> bt_ok (tb_instance_info s) \<and>
     bt_ok (tb_order_versions s) \<and> order_projection.current (tb_order_versions s) (tb_orders s) \<and>
     fees_ok (tb_dev_fees s) \<and> bt_ok (tb_dispute_versions s) \<and>
     dispute_projection.current (tb_dispute_versions s) (tb_disputes s) \<and> bt_ok (tb_rates s)"

definition same_event :: "nostr_event \<Rightarrow> nostr_event \<Rightarrow> bool" where
  "same_event a b \<longleftrightarrow> (ne_id a = ne_id b \<longrightarrow> a = b)"

lemma parsed_ids:
  "parse_order w e = Inr v \<Longrightarrow> ov_event_id v = ne_id e" "parse_dev_fee w e = Inr f \<Longrightarrow> fe_event_id f = ne_id e"
  "parse_dispute e = Inr d \<Longrightarrow> dv_event_id d = ne_id e" "parse_info e = Inr i \<Longrightarrow> in_event_id i = ne_id e"
  "parse_rates w e = Inr s \<Longrightarrow> rs_event_id s = ne_id e"
  by (auto simp: parse_order_def parse_dev_fee_def parse_dispute_def parse_info_def parse_rates_def
      elim!: and_then_InrE)

fun parsed_id_ok :: "nostr_event \<Rightarrow> parsed \<Rightarrow> bool" where
  "parsed_id_ok e (Parsed_Order v) = (ov_event_id v = ne_id e)"
| "parsed_id_ok e (Parsed_Dev_Fee f) = (fe_event_id f = ne_id e)"
| "parsed_id_ok e (Parsed_Dispute d) = (dv_event_id d = ne_id e)"
| "parsed_id_ok e (Parsed_Info i) = (in_event_id i = ne_id e)"
| "parsed_id_ok e (Parsed_Rates s) = (rs_event_id s = ne_id e)"
| "parsed_id_ok e (Parsed_Relay_List _) = True"

lemma parse_event_id: "parse_event lib e = Inr p \<Longrightarrow> parsed_id_ok e p"
  by (auto simp: parse_event_def map_sum_Inr parsed_ids split: if_splits)

section \<open>What each write touches\<close>

lemma upsert_relays_fields [simp]:
  "tb_events (foldl (\<lambda>db url. upsert_relay url src t0 db) db urls) = tb_events db"
  "tb_instances (foldl (\<lambda>db url. upsert_relay url src t0 db) db urls) = tb_instances db"
  "tb_instance_names (foldl (\<lambda>db url. upsert_relay url src t0 db) db urls) = tb_instance_names db"
  "tb_instance_info (foldl (\<lambda>db url. upsert_relay url src t0 db) db urls) = tb_instance_info db"
  "tb_order_versions (foldl (\<lambda>db url. upsert_relay url src t0 db) db urls) = tb_order_versions db"
  "tb_orders (foldl (\<lambda>db url. upsert_relay url src t0 db) db urls) = tb_orders db"
  "tb_dev_fees (foldl (\<lambda>db url. upsert_relay url src t0 db) db urls) = tb_dev_fees db"
  "tb_dispute_versions (foldl (\<lambda>db url. upsert_relay url src t0 db) db urls) = tb_dispute_versions db"
  "tb_disputes (foldl (\<lambda>db url. upsert_relay url src t0 db) db urls) = tb_disputes db"
  "tb_rates (foldl (\<lambda>db url. upsert_relay url src t0 db) db urls) = tb_rates db"
  "tb_sync_state (foldl (\<lambda>db url. upsert_relay url src t0 db) db urls) = tb_sync_state db"
  "tb_indexed_kinds (foldl (\<lambda>db url. upsert_relay url src t0 db) db urls) = tb_indexed_kinds db"
  by (induction urls arbitrary: db; simp add: upsert_relay_def)+

definition name_table :: "nostr_event \<Rightarrow> (str \<times> str, i64) btree \<Rightarrow> (str \<times> str, i64) btree" where
  "name_table e t =
     (case instance_name e of None \<Rightarrow> t | Some n \<Rightarrow> bt_upd (ne_pubkey e, n) (merge_latest (event_secs e)) t)"

fun order_tables :: "parsed \<Rightarrow> (str, version_row) btree \<times> (str, order_row) btree \<Rightarrow> (str, version_row) btree \<times> (str, order_row) btree" where
  "order_tables (Parsed_Order v) (vs, os) =
     (insert_order_version v vs, refresh_order (insert_order_version v vs) (ov_order_id v) os)"
| "order_tables _ t = t"

fun fee_table :: "parsed \<Rightarrow> (str, fee_row) btree \<Rightarrow> (str, fee_row) btree" where
  "fee_table (Parsed_Dev_Fee f) t = insert_fee f t"
| "fee_table _ t = t"

fun dispute_tables ::
  "parsed \<Rightarrow> (str, dispute_version_row) btree \<times> (str, dispute_row) btree \<Rightarrow> (str, dispute_version_row) btree \<times> (str, dispute_row) btree" where
  "dispute_tables (Parsed_Dispute v) (vs, ds) =
     (insert_dispute_version v vs, refresh_dispute (insert_dispute_version v vs) (dv_dispute_id v) ds)"
| "dispute_tables _ t = t"

fun info_table :: "parsed \<Rightarrow> (str, info_row) btree \<Rightarrow> (str, info_row) btree" where
  "info_table (Parsed_Info i) t = insert_ignore (in_event_id i) (info_row_of i) t"
| "info_table _ t = t"

fun rate_table :: "archive_lib \<Rightarrow> parsed \<Rightarrow> (str, rate_row) btree \<Rightarrow> (str, rate_row) btree" where
  "rate_table lib (Parsed_Rates s) t = insert_ignore (rs_event_id s) (rate_row_of lib s) t"
| "rate_table lib _ t = t"

lemma persist_tables:
  "tb_instance_names (persist lib e p db) = name_table e (tb_instance_names db)"
  "(tb_order_versions (persist lib e p db), tb_orders (persist lib e p db)) = order_tables p (tb_order_versions db, tb_orders db)"
  "tb_dev_fees (persist lib e p db) = fee_table p (tb_dev_fees db)"
  "(tb_dispute_versions (persist lib e p db), tb_disputes (persist lib e p db)) =
     dispute_tables p (tb_dispute_versions db, tb_disputes db)"
  "tb_instance_info (persist lib e p db) = info_table p (tb_instance_info db)"
  "tb_rates (persist lib e p db) = rate_table lib p (tb_rates db)"
  "tb_events (persist lib e p db) = tb_events db" "tb_sync_state (persist lib e p db) = tb_sync_state db"
  "tb_indexed_kinds (persist lib e p db) = tb_indexed_kinds db"
  "tb_instances (persist lib e p db) =
     bt_upd (ne_pubkey e) (merge_instance (ne_pubkey e) (instance_name e) (event_secs e)) (tb_instances db)"
  unfolding persist_def name_table_def
  by (cases p; cases "instance_name e"; simp add: Let_def upsert_instance_def record_name_def insert_info_def insert_rates_def)+

section \<open>Each table converges\<close>

lemma name_table_ok: "bt_ok t \<Longrightarrow> bt_ok (name_table e t)"
  by (simp add: name_table_def bt_ok_upd split: option.splits)

lemma name_table_commute: "bt_ok t \<Longrightarrow> name_table b (name_table a t) = name_table a (name_table b t)"
  by (auto simp: name_table_def merge_latest_def max.assoc max.commute split: option.splits intro!: bt_upd_commute)

lemma name_table_idem: "bt_ok t \<Longrightarrow> name_table a (name_table a t) = name_table a t"
  by (auto simp: name_table_def merge_latest_def split: option.splits intro!: bt_upd_idem)

definition orders_ok :: "(str, version_row) btree \<times> (str, order_row) btree \<Rightarrow> bool" where
  "orders_ok t \<longleftrightarrow> bt_ok (fst t) \<and> order_projection.current (fst t) (snd t)"

definition disputes_ok :: "(str, dispute_version_row) btree \<times> (str, dispute_row) btree \<Rightarrow> bool" where
  "disputes_ok t \<longleftrightarrow> bt_ok (fst t) \<and> dispute_projection.current (fst t) (snd t)"

lemma order_tables_ok: "orders_ok t \<Longrightarrow> orders_ok (order_tables p t)"
  unfolding refresh_order_eq
  by (cases p; cases t)
    (auto simp: orders_ok_def insert_order_version_def refresh_order_eq order_projection.refresh_current
      order_projection.refresh_same)

lemma dispute_tables_ok: "disputes_ok t \<Longrightarrow> disputes_ok (dispute_tables p t)"
  by (cases p; cases t)
    (auto simp: disputes_ok_def insert_dispute_version_def refresh_dispute_eq dispute_row_of_def
      dispute_projection.refresh_current)

lemma orders_ext: "orders_ok t \<Longrightarrow> orders_ok u \<Longrightarrow> fst t = fst u \<Longrightarrow> t = u"
  unfolding orders_ok_def by (cases t; cases u) (auto dest: order_projection.current_unique)

lemma disputes_ext: "disputes_ok t \<Longrightarrow> disputes_ok u \<Longrightarrow> fst t = fst u \<Longrightarrow> t = u"
  unfolding disputes_ok_def by (cases t; cases u) (auto dest: dispute_projection.current_unique)

lemma fst_order_tables:
  "fst (order_tables p t) = (case p of Parsed_Order v \<Rightarrow> insert_order_version v (fst t) | _ \<Rightarrow> fst t)"
  by (cases p; cases t) simp_all

lemma fst_dispute_tables:
  "fst (dispute_tables p t) = (case p of Parsed_Dispute v \<Rightarrow> insert_dispute_version v (fst t) | _ \<Rightarrow> fst t)"
  by (cases p; cases t) simp_all

text \<open>Two different events write different rows, so their writes commute; one event twice is one event.\<close>

lemma parsed_tables_commute:
  assumes ids: "parsed_id_ok a p" "parsed_id_ok b q" "ne_id a \<noteq> ne_id b"
  shows "orders_ok t \<Longrightarrow> order_tables q (order_tables p t) = order_tables p (order_tables q t)"
    and "disputes_ok u \<Longrightarrow> dispute_tables q (dispute_tables p u) = dispute_tables p (dispute_tables q u)"
    and "fees_ok f \<Longrightarrow> fee_table q (fee_table p f) = fee_table p (fee_table q f)"
    and "bt_ok i \<Longrightarrow> info_table q (info_table p i) = info_table p (info_table q i)"
    and "bt_ok r \<Longrightarrow> rate_table lib q (rate_table lib p r) = rate_table lib p (rate_table lib q r)"
proof -
  show "orders_ok t \<Longrightarrow> order_tables q (order_tables p t) = order_tables p (order_tables q t)"
    using ids by (intro orders_ext order_tables_ok)
      (auto simp: fst_order_tables insert_order_version_def insert_ignore_commute orders_ok_def split: parsed.splits)
  show "disputes_ok u \<Longrightarrow> dispute_tables q (dispute_tables p u) = dispute_tables p (dispute_tables q u)"
    using ids by (intro disputes_ext dispute_tables_ok)
      (auto simp: fst_dispute_tables insert_dispute_version_def insert_ignore_commute disputes_ok_def split: parsed.splits)
  show "fees_ok f \<Longrightarrow> fee_table q (fee_table p f) = fee_table p (fee_table q f)"
    using ids by (cases p; cases q) (auto intro: fees.step_commute simp: same_fee_def)
  show "bt_ok i \<Longrightarrow> info_table q (info_table p i) = info_table p (info_table q i)"
    using ids by (cases p; cases q) (auto simp: insert_ignore_commute)
  show "bt_ok r \<Longrightarrow> rate_table lib q (rate_table lib p r) = rate_table lib p (rate_table lib q r)"
    using ids by (cases p; cases q) (auto simp: insert_ignore_commute)
qed

lemma parsed_tables_idem:
  shows "orders_ok t \<Longrightarrow> order_tables p (order_tables p t) = order_tables p t"
    and "disputes_ok u \<Longrightarrow> dispute_tables p (dispute_tables p u) = dispute_tables p u"
    and "fees_ok f \<Longrightarrow> fee_table p (fee_table p f) = fee_table p f"
    and "bt_ok i \<Longrightarrow> info_table p (info_table p i) = info_table p i"
    and "bt_ok r \<Longrightarrow> rate_table lib p (rate_table lib p r) = rate_table lib p r"
proof -
  show "orders_ok t \<Longrightarrow> order_tables p (order_tables p t) = order_tables p t"
    by (intro orders_ext order_tables_ok)
      (auto simp: fst_order_tables insert_order_version_def insert_ignore_idem orders_ok_def split: parsed.splits)
  show "disputes_ok u \<Longrightarrow> dispute_tables p (dispute_tables p u) = dispute_tables p u"
    by (intro disputes_ext dispute_tables_ok)
      (auto simp: fst_dispute_tables insert_dispute_version_def insert_ignore_idem disputes_ok_def split: parsed.splits)
  show "fees_ok f \<Longrightarrow> fee_table p (fee_table p f) = fee_table p f"
    by (cases p) (auto intro: fees.step_idem)
  show "bt_ok i \<Longrightarrow> info_table p (info_table p i) = info_table p i"
    by (cases p) (auto simp: insert_ignore_idem)
  show "bt_ok r \<Longrightarrow> rate_table lib p (rate_table lib p r) = rate_table lib p r"
    by (cases p) (auto simp: insert_ignore_idem)
qed

lemma parsed_tables_ok:
  "fees_ok f \<Longrightarrow> fees_ok (fee_table p f)" "bt_ok i \<Longrightarrow> bt_ok (info_table p i)" "bt_ok r \<Longrightarrow> bt_ok (rate_table lib p r)"
  by (cases p; simp add: fees_ok_insert)+

section \<open>The derived tables converge\<close>

definition order_pair :: "database \<Rightarrow> (str, version_row) btree \<times> (str, order_row) btree" where
  "order_pair s = (tb_order_versions s, tb_orders s)"

definition dispute_pair :: "database \<Rightarrow> (str, dispute_version_row) btree \<times> (str, dispute_row) btree" where
  "dispute_pair s = (tb_dispute_versions s, tb_disputes s)"

lemma derived_ok_alt:
  "derived_ok s \<longleftrightarrow> derived_tables s = s \<and> bt_ok (tb_instance_names s) \<and> bt_ok (tb_instance_info s) \<and>
     orders_ok (order_pair s) \<and> fees_ok (tb_dev_fees s) \<and> disputes_ok (dispute_pair s) \<and> bt_ok (tb_rates s)"
  by (auto simp: derived_ok_def orders_ok_def disputes_ok_def order_pair_def dispute_pair_def)

lemma derived_tables_fields [simp]:
  "derived_tables (derived_tables s) = derived_tables s"
  "tb_instance_names (derived_tables s) = tb_instance_names s" "tb_instance_info (derived_tables s) = tb_instance_info s"
  "tb_order_versions (derived_tables s) = tb_order_versions s" "tb_orders (derived_tables s) = tb_orders s"
  "tb_dev_fees (derived_tables s) = tb_dev_fees s" "tb_dispute_versions (derived_tables s) = tb_dispute_versions s"
  "tb_disputes (derived_tables s) = tb_disputes s" "tb_rates (derived_tables s) = tb_rates s"
  by (simp_all add: derived_tables_def)

lemma derived_ext:
  assumes "derived_tables s = s" "derived_tables u = u"
    and "tb_instance_names s = tb_instance_names u" "tb_instance_info s = tb_instance_info u"
    and "order_pair s = order_pair u" "tb_dev_fees s = tb_dev_fees u" "dispute_pair s = dispute_pair u"
    and "tb_rates s = tb_rates u"
  shows "s = u"
proof -
  have "derived_tables s = derived_tables u"
    using assms(3-) by (cases s; cases u) (simp add: derived_tables_def order_pair_def dispute_pair_def)
  then show ?thesis using assms(1,2) by simp
qed

lemma derive_step_tables:
  assumes "parse_event lib e = Inr p"
  shows "derived_tables (derive_step lib s e) = derive_step lib s e"
    and "tb_instance_names (derive_step lib s e) = name_table e (tb_instance_names s)"
    and "order_pair (derive_step lib s e) = order_tables p (order_pair s)"
    and "tb_dev_fees (derive_step lib s e) = fee_table p (tb_dev_fees s)"
    and "dispute_pair (derive_step lib s e) = dispute_tables p (dispute_pair s)"
    and "tb_instance_info (derive_step lib s e) = info_table p (tb_instance_info s)"
    and "tb_rates (derive_step lib s e) = rate_table lib p (tb_rates s)"
  by (simp_all add: derive_step_def assms order_pair_def dispute_pair_def persist_tables)

interpretation derive: arrival derived_ok same_event "derive_step lib" for lib
proof
  fix s a b
  assume s: "derived_ok s"
  show ok: "derived_ok (derive_step lib s e)" for e
  proof (cases "parse_event lib e")
    case (Inr p)
    with s show ?thesis
      unfolding derived_ok_alt by (simp add: derive_step_tables order_tables_ok dispute_tables_ok parsed_tables_ok name_table_ok)
  qed (use s in \<open>simp add: derive_step_def\<close>)
  show "derive_step lib (derive_step lib s a) a = derive_step lib s a"
  proof (cases "parse_event lib a")
    case (Inr p)
    with s show ?thesis
      by - (rule derived_ext, simp_all add: derived_ok_alt derive_step_tables name_table_idem parsed_tables_idem)
  qed (simp add: derive_step_def)
  show "derive_step lib (derive_step lib s a) b = derive_step lib (derive_step lib s b) a" if "same_event a b"
  proof (cases "ne_id a = ne_id b")
    case True
    with that show ?thesis by (simp add: same_event_def)
  next
    case False
    show ?thesis
    proof (cases "parse_event lib a"; cases "parse_event lib b")
      fix p q
      assume p: "parse_event lib a = Inr p" and q: "parse_event lib b = Inr q"
      note ids = parsed_tables_commute [OF parse_event_id [OF p] parse_event_id [OF q] False]
      show ?thesis
        using s by - (rule derived_ext, simp_all add: derived_ok_alt derive_step_tables [OF p] derive_step_tables [OF q] name_table_commute ids)
    qed (simp_all add: derive_step_def)
  qed
qed

end
