(* ===== verification/Ingestion.thy ===== *)
theory Ingestion
  imports Pipeline
begin

text \<open>
  What the pipeline keeps over a whole history of the database: events delivered in any
  order by any relay, requests recorded, rebuilds. The derived tables are at every
  moment the replay of the archive, so arrival order, redelivery and an interrupted
  rebuild cost nothing; what is archived was admitted; cursors only move forward.
\<close>

section \<open>Histories\<close>

definition archived :: "archive_lib \<Rightarrow> database \<Rightarrow> nostr_event list" where
  "archived lib db = filter_map (\<lambda>r. al_from_json lib (er_raw_json r)) (table_rows (tb_events db))"

definition archive_ok :: "archive_lib \<Rightarrow> (str, event_record) btree \<Rightarrow> bool" where
  "archive_ok lib t \<longleftrightarrow> bt_ok t \<and>
     (\<forall>(k, r) \<in> set t. \<exists>e url now. al_from_json lib (er_raw_json r) = Some e \<and> ne_id e = k \<and>
        r = event_record_of lib e url now)"

text \<open>
  The last premise of \<open>delivered\<close> is what the archive asks of \<open>nostr_sdk\<close>: the JSON of an event
  reads back as that event.
\<close>

inductive archive_history :: "archive_lib \<Rightarrow> policy \<Rightarrow> database \<Rightarrow> bool" for lib policy where
  fresh: "archive_history lib policy empty_database"
| delivered: "archive_history lib policy db \<Longrightarrow> al_from_json lib (al_as_json lib e) = Some e \<Longrightarrow>
    archive_history lib policy (snd (ingest lib policy e relay_url now db))"
| requested: "archive_history lib policy db \<Longrightarrow> archive_history lib policy (record_indexed kind asked_from now db)"
| dialled: "archive_history lib policy db \<Longrightarrow> archive_history lib policy (upsert_relay url source now db)"
| rebuilt: "archive_history lib policy db \<Longrightarrow> archive_history lib policy (snd (rebuild lib from_raw db))"

definition replayed :: "archive_lib \<Rightarrow> nostr_event list \<Rightarrow> database" where
  "replayed lib es = foldl (derive_step lib) empty_database es"

section \<open>The archive\<close>

lemma archived_row:
  "e \<in> set (archived lib db) \<Longrightarrow> \<exists>k r. (k, r) \<in> set (tb_events db) \<and> al_from_json lib (er_raw_json r) = Some e"
  unfolding archived_def set_filter_map table_rows_def by auto blast

lemma archive_ok_id:
  assumes "archive_ok lib t" and "(k, r) \<in> set t" and "al_from_json lib (er_raw_json r) = Some e"
  shows "ne_id e = k"
  using assms(1) bspec [of "set t" _ "(k, r)"] assms(2,3) unfolding archive_ok_def by fastforce

lemma archive_ok_compatible:
  assumes "archive_ok lib (tb_events db)"
  shows "derive.compatible (set (archived lib db))"
proof -
  have "a = b" if ab: "a \<in> set (archived lib db)" "b \<in> set (archived lib db)" and ids: "ne_id a = ne_id b" for a b
  proof -
    obtain k r j q where kr: "(k, r) \<in> set (tb_events db)" "al_from_json lib (er_raw_json r) = Some a"
      and jq: "(j, q) \<in> set (tb_events db)" "al_from_json lib (er_raw_json q) = Some b"
      using archived_row [OF ab(1)] archived_row [OF ab(2)] by blast
    then have "k = j" using archive_ok_id [OF assms] ids by metis
    then have "r = q"
      using kr(1) jq(1) assms bt_get_iff [of "tb_events db"] by (metis archive_ok_def option.inject)
    then show ?thesis using kr jq by simp
  qed
  then show ?thesis unfolding derive.compatible_def same_event_def by blast
qed

lemma set_archived:
  assumes "archive_ok lib (tb_events db)"
  shows "e \<in> set (archived lib db) \<longleftrightarrow>
    (\<exists>r. bt_get (tb_events db) (ne_id e) = Some r \<and> al_from_json lib (er_raw_json r) = Some e)"
proof
  assume "e \<in> set (archived lib db)"
  then obtain k r where kr: "(k, r) \<in> set (tb_events db)" "al_from_json lib (er_raw_json r) = Some e"
    by (auto simp: archived_def set_filter_map table_rows_def)
  then have "ne_id e = k" using archive_ok_id [OF assms] by blast
  then show "\<exists>r. bt_get (tb_events db) (ne_id e) = Some r \<and> al_from_json lib (er_raw_json r) = Some e"
    using kr assms by (auto simp: bt_get_iff archive_ok_def)
next
  assume "\<exists>r. bt_get (tb_events db) (ne_id e) = Some r \<and> al_from_json lib (er_raw_json r) = Some e"
  then show "e \<in> set (archived lib db)"
    by (force simp: archived_def set_filter_map table_rows_def dest: bt_get_Some_in)
qed

lemma archive_ok_insert:
  assumes "archive_ok lib t" and "al_from_json lib (al_as_json lib e) = Some e"
  shows "archive_ok lib (insert_ignore (ne_id e) (event_record_of lib e url now) t)"
proof -
  let ?r = "event_record_of lib e url now"
  have "al_from_json lib (er_raw_json ?r) = Some e" using assms(2) by (simp add: event_record_of_def)
  then show ?thesis
    using assms(1) set_insert_ignore [of "ne_id e" ?r t] unfolding archive_ok_def by fastforce
qed

lemma archived_insert:
  assumes "archive_ok lib (tb_events db)" and "al_from_json lib (al_as_json lib e) = Some e"
    and "bt_get (tb_events db) (ne_id e) = None"
    and "tb_events db' = insert_ignore (ne_id e) (event_record_of lib e url now) (tb_events db)"
  shows "set (archived lib db') = insert e (set (archived lib db))"
proof -
  have ok: "archive_ok lib (tb_events db')" unfolding assms(4) using assms(1,2) by (rule archive_ok_insert)
  have "bt_ok (tb_events db)" using assms(1) by (simp add: archive_ok_def)
  then have get: "bt_get (tb_events db') k =
      (if k = ne_id e then Some (event_record_of lib e url now) else bt_get (tb_events db) k)" for k
    unfolding assms(4) by (simp add: bt_get_insert_ignore assms(3))
  show ?thesis
  proof (rule set_eqI)
    fix x
    show "x \<in> set (archived lib db') \<longleftrightarrow> x \<in> insert e (set (archived lib db))"
      unfolding set_archived [OF ok] insert_iff set_archived [OF assms(1)] get
      using assms(2,3) by (auto simp: event_record_of_def)
  qed
qed

section \<open>The derived tables are the replay of the archive\<close>

lemma derived_empty: "derived_tables empty_database = empty_database" "derived_ok empty_database"
  by (simp_all add: derived_ok_def derived_tables_def empty_database_def order_projection.current_empty
      dispute_projection.current_empty)

lemma derived_persist: "derived_tables (persist lib e p (derived_tables db)) = derived_tables (persist lib e p db)"
  by (rule derived_ext) (simp_all add: persist_tables order_pair_def dispute_pair_def)

lemma derive_step_persist:
  "parse_event lib e = Inr p \<Longrightarrow> derive_step lib (derived_tables db) e = derived_tables (persist lib e p db)"
  by (simp add: derive_step_def derived_persist)

lemma derived_advance [simp]:
  "derived_tables (advance e url now db) = derived_tables db" "tb_events (advance e url now db) = tb_events db"
  "derived_tables (upsert_instance p n t db) = derived_tables db" "tb_events (upsert_instance p n t db) = tb_events db"
  "derived_tables (db\<lparr>tb_events := es\<rparr>) = derived_tables db"
  by (simp_all add: advance_def advance_cursor_def upsert_instance_def derived_tables_def)

lemma replayed_ok: "derived_ok (replayed lib es)"
  unfolding replayed_def by (rule derive.fold_ok) (rule derived_empty)

lemma replayed_cong:
  "derive.compatible (set es) \<Longrightarrow> set es = set fs \<Longrightarrow> replayed lib es = replayed lib fs"
  unfolding replayed_def by (rule derive.converges) (simp_all add: derived_empty)

definition in_step :: "archive_lib \<Rightarrow> database \<Rightarrow> bool" where
  "in_step lib db \<longleftrightarrow> archive_ok lib (tb_events db) \<and> derived_tables db = replayed lib (archived lib db)"

text \<open>The three ways an ingest can leave the database, as far as the archive and its derivations go.\<close>

lemma ingest_cases:
  assumes "bt_ok (tb_events db)"
  obtains (same) "tb_events (snd (ingest lib policy e url now db)) = tb_events db"
      "derived_tables (snd (ingest lib policy e url now db)) = derived_tables db"
      "fst (ingest lib policy e url now db) \<noteq> Stored"
    | (unparsed) rejection where "parse_event lib e = Inl rejection" "bt_get (tb_events db) (ne_id e) = None"
      "admit_event lib policy e = None" "vouched_for policy db e = None"
      "ingest lib policy e url now db = (Rejected rejection, snd (insert_if_new (event_record_of lib e url now) db))"
    | (stored) p where "parse_event lib e = Inr p" "bt_get (tb_events db) (ne_id e) = None"
      "admit_event lib policy e = None" "vouched_for policy db e = None"
      "ingest lib policy e url now db =
        (Stored, advance e url now (persist lib e p (snd (insert_if_new (event_record_of lib e url now) db))))"
proof (cases "admit_event lib policy e = None \<and> vouched_for policy db e = None")
  case False
  then have "snd (ingest lib policy e url now db) = db \<and> fst (ingest lib policy e url now db) \<noteq> Stored"
    by (auto simp: ingest_def split: option.splits)
  then show ?thesis using same by simp
next
  case True
  let ?r = "event_record_of lib e url now"
  have id: "er_id ?r = ne_id e" by (simp add: event_record_of_def)
  show ?thesis
  proof (cases "bt_get (tb_events db) (ne_id e)")
    case None
    show ?thesis
    proof (cases "parse_event lib e")
      case (Inl rejection)
      then show ?thesis using unparsed [OF Inl None] True by (simp add: ingest_def Let_def)
    next
      case (Inr p)
      show ?thesis
      proof (cases "is_redundant lib db e (parsed_heartbeat p)")
        case True
        then show ?thesis
          using same \<open>admit_event lib policy e = None \<and> _\<close> Inr by (simp add: ingest_def Let_def)
      next
        case False
        then show ?thesis
          using stored [OF Inr None] True Inr None id by (simp add: ingest_def Let_def insert_if_new_def)
      qed
    qed
  next
    case (Some r)
    have keep: "insert_ignore (ne_id e) ?r (tb_events db) = tb_events db"
      using assms Some by (rule insert_ignore_old)
    show ?thesis
      using same True Some keep id
      by (cases "parse_event lib e") (simp_all add: ingest_def Let_def insert_if_new_def split: if_splits)
  qed
qed

lemma in_step_ingest:
  assumes "in_step lib db" and read: "al_from_json lib (al_as_json lib e) = Some e"
  shows "in_step lib (snd (ingest lib policy e url now db))"
proof -
  let ?db = "snd (ingest lib policy e url now db)" and ?r = "event_record_of lib e url now"
  have ok: "archive_ok lib (tb_events db)" and derived: "derived_tables db = replayed lib (archived lib db)"
    using assms(1) by (simp_all add: in_step_def)
  have "bt_ok (tb_events db)" using ok by (simp add: archive_ok_def)
  then show ?thesis
  proof (cases rule: ingest_cases [of db lib policy e url now])
    case same
    then show ?thesis using ok derived by (simp add: in_step_def archived_def)
  next
    case (unparsed rejection)
    then have events: "tb_events ?db = insert_ignore (ne_id e) ?r (tb_events db)"
      and "derived_tables ?db = derived_tables db"
      by (simp_all add: insert_if_new_def event_record_of_def)
    then have ok': "archive_ok lib (tb_events ?db)" using archive_ok_insert [OF ok read] by simp
    have "replayed lib (archived lib ?db) = replayed lib (archived lib db @ [e])"
      using archived_insert [OF ok read unparsed(2) events] archive_ok_compatible [OF ok']
      by (intro replayed_cong) simp_all
    also have "\<dots> = derived_tables db" using unparsed(1) derived by (simp add: replayed_def derive_step_def)
    finally show ?thesis using ok' \<open>derived_tables ?db = _\<close> by (simp add: in_step_def)
  next
    case (stored p)
    then have events: "tb_events ?db = insert_ignore (ne_id e) ?r (tb_events db)"
      and "derived_tables ?db = derived_tables (persist lib e p (snd (insert_if_new ?r db)))"
      by (simp_all add: insert_if_new_def event_record_of_def persist_tables)
    then have ok': "archive_ok lib (tb_events ?db)" using archive_ok_insert [OF ok read] by simp
    have "replayed lib (archived lib ?db) = replayed lib (archived lib db @ [e])"
      using archived_insert [OF ok read stored(2) events] archive_ok_compatible [OF ok']
      by (intro replayed_cong) simp_all
    also have "\<dots> = derive_step lib (derived_tables (snd (insert_if_new ?r db))) e"
      using derived by (simp add: replayed_def insert_if_new_def)
    finally show ?thesis using ok' \<open>derived_tables ?db = _\<close> stored(1) by (simp add: in_step_def derive_step_persist)
  qed
qed

section \<open>Rebuilding\<close>

definition stored_part :: "database \<Rightarrow> (str, version_row) btree \<times> (str, dispute_version_row) btree \<times> (str, fee_row) btree
    \<times> (str, info_row) btree \<times> (str, rate_row) btree" where
  "stored_part s = (tb_order_versions s, tb_dispute_versions s, tb_dev_fees s, tb_instance_info s, tb_rates s)"

lemma stored_part_step:
  "stored_part s = stored_part u \<Longrightarrow> stored_part (derive_step lib s e) = stored_part (derive_step lib u e)"
proof (cases "parse_event lib e")
  case (Inr p)
  have "stored_part (derive_step lib s e) =
      (case p of Parsed_Order v \<Rightarrow> insert_order_version v (tb_order_versions s) | _ \<Rightarrow> tb_order_versions s,
       case p of Parsed_Dispute v \<Rightarrow> insert_dispute_version v (tb_dispute_versions s) | _ \<Rightarrow> tb_dispute_versions s,
       fee_table p (tb_dev_fees s), info_table p (tb_instance_info s), rate_table lib p (tb_rates s))" for s
    using derive_step_tables [OF Inr, of s] unfolding stored_part_def order_pair_def dispute_pair_def
    by (cases p) simp_all
  then show "stored_part s = stored_part u \<Longrightarrow> ?thesis" by (simp add: stored_part_def split: parsed.splits)
qed (simp add: derive_step_def)

lemma stored_part_fold:
  "stored_part s = stored_part u \<Longrightarrow> stored_part (foldl (derive_step lib) s es) = stored_part (foldl (derive_step lib) u es)"
proof (induction es arbitrary: s u)
  case (Cons e es)
  show ?case using Cons.IH [OF stored_part_step [OF Cons.prems]] by simp
qed simp

lemma names_step:
  "tb_instance_names s = tb_instance_names u \<Longrightarrow>
    tb_instance_names (derive_step lib s e) = tb_instance_names (derive_step lib u e)"
  by (cases "parse_event lib e") (simp_all add: derive_step_tables, simp add: derive_step_def)

lemma names_fold:
  "tb_instance_names s = tb_instance_names u \<Longrightarrow>
    tb_instance_names (foldl (derive_step lib) s es) = tb_instance_names (foldl (derive_step lib) u es)"
proof (induction es arbitrary: s u)
  case (Cons e es)
  show ?case using Cons.IH [OF names_step [OF Cons.prems]] by simp
qed simp

lemma replay_derives:
  "derived_tables (snd (replay lib e db)) = derive_step lib (derived_tables db) e"
  "tb_events (snd (replay lib e db)) = tb_events db"
  by (cases "parse_event lib e"; simp add: replay_def derive_step_persist persist_tables; simp add: derive_step_def)+

lemma snd_rebuild_step:
  "snd (rebuild_step lib s r) =
    (case al_from_json lib (er_raw_json r) of None \<Rightarrow> snd s | Some e \<Rightarrow> snd (replay lib e (snd s)))"
  by (simp add: rebuild_step_def split: prod.splits option.splits ingest_outcome.splits)

lemma derived_rebuild_step:
  "derived_tables (snd (rebuild_step lib s r)) =
    foldl (derive_step lib) (derived_tables (snd s)) (filter_map (\<lambda>r. al_from_json lib (er_raw_json r)) [r])"
  "tb_events (snd (rebuild_step lib s r)) = tb_events (snd s)"
  unfolding snd_rebuild_step by (simp_all add: replay_derives split: option.splits)

lemma derived_rebuild_fold:
  "derived_tables (snd (foldl (rebuild_step lib) s rs)) =
    foldl (derive_step lib) (derived_tables (snd s)) (filter_map (\<lambda>r. al_from_json lib (er_raw_json r)) rs) \<and>
   tb_events (snd (foldl (rebuild_step lib) s rs)) = tb_events (snd s)"
proof (induction rs arbitrary: s)
  case (Cons r rs)
  have "filter_map (\<lambda>r. al_from_json lib (er_raw_json r)) (r # rs) =
      filter_map (\<lambda>r. al_from_json lib (er_raw_json r)) [r] @ filter_map (\<lambda>r. al_from_json lib (er_raw_json r)) rs"
    by (simp split: option.splits)
  with Cons [of "rebuild_step lib s r"] show ?case by (simp only: foldl_Cons foldl_append derived_rebuild_step)
qed simp

definition sweep :: "database \<Rightarrow> database" where
  "sweep db = sweep_fees (sweep_disputes (sweep_orders db))"

lemma derived_sweep: "derived_tables (sweep db) = sweep (derived_tables db)" "tb_events (sweep db) = tb_events db"
  by (simp_all add: sweep_def sweep_fees_def sweep_disputes_def sweep_orders_def derived_tables_def)

lemma derived_rebuild:
  "derived_tables (snd (rebuild lib from_raw db)) =
    sweep (foldl (derive_step lib) (derived_tables (clear_projections (if from_raw then clear_version_tables db else db)))
      (filter_map (\<lambda>r. al_from_json lib (er_raw_json r)) (events_all db)))"
  "tb_events (snd (rebuild lib from_raw db)) = tb_events db"
proof -
  let ?c = "clear_projections (if from_raw then clear_version_tables db else db)"
    and ?z = "\<lparr>rb_events = 0, rb_unreadable = 0, rb_orders = 0, rb_disputes = 0\<rparr>"
  have c: "tb_events ?c = tb_events db"
    by (simp add: clear_projections_def clear_instances_def clear_version_tables_def)
  have "snd (rebuild lib from_raw db) = sweep (snd (foldl (rebuild_step lib) (?z, ?c) (events_all ?c)))"
    by (simp add: rebuild_def Let_def sweep_def split: prod.splits)
  moreover have "events_all ?c = events_all db" using c by (simp add: events_all_def)
  ultimately show "derived_tables (snd (rebuild lib from_raw db)) =
      sweep (foldl (derive_step lib) (derived_tables ?c) (filter_map (\<lambda>r. al_from_json lib (er_raw_json r)) (events_all db)))"
    "tb_events (snd (rebuild lib from_raw db)) = tb_events db"
    using derived_rebuild_fold [of lib "(?z, ?c)" "events_all db"] c by (simp_all add: derived_sweep)
qed

lemma set_replayed_events:
  "set (filter_map (\<lambda>r. al_from_json lib (er_raw_json r)) (events_all db)) = set (archived lib db)"
  by (simp add: set_filter_map archived_def events_all_def)

lemma foldl_same: "(\<And>x. f s x = s) \<Longrightarrow> foldl f s xs = s"
  by (induction xs) simp_all

lemma sweep_same:
  assumes "derived_ok s"
  shows "sweep s = s"
proof -
  have "sweep_orders s = s"
    unfolding sweep_orders_def refresh_order_eq using assms
    by (simp add: derived_ok_def foldl_same order_projection.refresh_same)
  moreover have "sweep_disputes s = s"
    unfolding sweep_disputes_def refresh_dispute_eq using assms
    by (simp add: derived_ok_def foldl_same dispute_projection.refresh_same)
  moreover have "sweep_fees s = s"
    unfolding sweep_fees_def using assms by (simp add: derived_ok_def foldl_same refresh_duplicates_same)
  ultimately show ?thesis by (simp add: sweep_def)
qed

lemma rebuild_from_raw:
  assumes "archive_ok lib (tb_events db)"
  shows "derived_tables (snd (rebuild lib True db)) = replayed lib (archived lib db)"
proof -
  let ?es = "filter_map (\<lambda>r. al_from_json lib (er_raw_json r)) (events_all db)"
  have "derived_tables (clear_projections (clear_version_tables db)) = empty_database"
    by (simp add: clear_projections_def clear_instances_def clear_version_tables_def derived_tables_def empty_database_def)
  then have "derived_tables (snd (rebuild lib True db)) = sweep (replayed lib ?es)"
    by (simp add: derived_rebuild replayed_def)
  also have "\<dots> = replayed lib ?es" by (intro sweep_same replayed_ok)
  also have "\<dots> = replayed lib (archived lib db)"
    using archive_ok_compatible [OF assms] by (intro replayed_cong) (simp_all add: set_replayed_events)
  finally show ?thesis .
qed

text \<open>
  A plain rebuild starts from full version tables and empty projections: during the replay
  the versions stay as they are and a projection only ever holds rows the versions back.
\<close>

definition backed :: "database \<Rightarrow> bool" where
  "backed s \<longleftrightarrow> bt_ok (tb_orders s) \<and> bt_ok (tb_disputes s) \<and>
     (\<forall>t. bt_get (tb_orders s) t = None \<or> subject_rows vr_order_id (tb_order_versions s) t \<noteq> []) \<and>
     (\<forall>t. bt_get (tb_disputes s) t = None \<or> subject_rows dvr_dispute_id (tb_dispute_versions s) t \<noteq> [])"

lemma backed_step:
  assumes "backed s" and "stored_part (derive_step lib s e) = stored_part s"
  shows "backed (derive_step lib s e)"
proof (cases "parse_event lib e")
  case (Inr p)
  have versions: "tb_order_versions (derive_step lib s e) = tb_order_versions s"
    "tb_dispute_versions (derive_step lib s e) = tb_dispute_versions s"
    using assms(2) by (simp_all add: stored_part_def)
  have "tb_orders (derive_step lib s e) =
      (case p of Parsed_Order v \<Rightarrow> refresh_order (tb_order_versions s) (ov_order_id v) (tb_orders s) | _ \<Rightarrow> tb_orders s)"
    using derive_step_tables(3) [OF Inr, of s] versions(1) unfolding order_pair_def by (cases p) auto
  moreover have "tb_disputes (derive_step lib s e) =
      (case p of Parsed_Dispute v \<Rightarrow> refresh_dispute (tb_dispute_versions s) (dv_dispute_id v) (tb_disputes s)
       | _ \<Rightarrow> tb_disputes s)"
    using derive_step_tables(5) [OF Inr, of s] versions(2) unfolding dispute_pair_def by (cases p) auto
  ultimately show ?thesis
    using assms(1) unfolding backed_def versions refresh_order_eq refresh_dispute_eq
    by (cases p) (auto simp: order_projection.get_refresh order_projection.bt_ok_refresh
        dispute_projection.get_refresh dispute_projection.bt_ok_refresh)
qed (use assms in \<open>simp add: derive_step_def\<close>)

lemma backed_fold:
  assumes "backed s" and "\<And>e u. e \<in> set es \<Longrightarrow> stored_part u = stored_part s \<Longrightarrow> stored_part (derive_step lib u e) = stored_part s"
  shows "backed (foldl (derive_step lib) s es) \<and> stored_part (foldl (derive_step lib) s es) = stored_part s"
  using assms
proof (induction es rule: rev_induct)
  case (snoc e es)
  let ?u = "foldl (derive_step lib) s es"
  have u: "backed ?u" "stored_part ?u = stored_part s" using snoc by simp_all
  then have "stored_part (derive_step lib ?u e) = stored_part s" using snoc.prems(2) [of e ?u] by simp
  with u show ?case using backed_step [of ?u lib e] by simp
qed simp

lemma sweep_orders_current:
  assumes "backed s"
  shows "order_projection.current (tb_order_versions s) (tb_orders (sweep_orders s))"
    and "dispute_projection.current (tb_dispute_versions s) (tb_disputes (sweep_disputes s))"
proof -
  let ?vs = "tb_order_versions s" and ?ws = "tb_dispute_versions s"
  have "bt_get (tb_orders s) t = None \<or> t \<in> set (order_ids ?vs) \<and> subject_rows vr_order_id ?vs t \<noteq> []" for t
  proof (cases "subject_rows vr_order_id ?vs t = []")
    case False
    then show ?thesis by (auto simp: order_ids_def subject_rows_def filter_empty_conv)
  qed (use assms in \<open>auto simp: backed_def\<close>)
  then have "order_projection.current ?vs
      (foldl (\<lambda>ps i. order_projection.refresh ?vs i ps) (tb_orders s) (order_ids ?vs))"
    using assms by (intro order_projection.sweep_current) (simp_all add: backed_def order_ids_def)
  then show "order_projection.current ?vs (tb_orders (sweep_orders s))"
    by (simp add: sweep_orders_def refresh_order_eq)
  have "bt_get (tb_disputes s) t = None \<or> t \<in> set (dispute_ids ?ws) \<and> subject_rows dvr_dispute_id ?ws t \<noteq> []" for t
  proof (cases "subject_rows dvr_dispute_id ?ws t = []")
    case False
    then show ?thesis by (auto simp: dispute_ids_def subject_rows_def filter_empty_conv)
  qed (use assms in \<open>auto simp: backed_def\<close>)
  then have "dispute_projection.current ?ws
      (foldl (\<lambda>ps i. dispute_projection.refresh ?ws i ps) (tb_disputes s) (dispute_ids ?ws))"
    using assms by (intro dispute_projection.sweep_current) (simp_all add: backed_def dispute_ids_def)
  then show "dispute_projection.current ?ws (tb_disputes (sweep_disputes s))"
    by (simp add: sweep_disputes_def refresh_dispute_eq)
qed

lemma sweep_restores:
  assumes "backed s" and "derived_ok u" and "stored_part s = stored_part u"
    and "tb_instance_names s = tb_instance_names u" and "derived_tables s = s"
  shows "sweep s = u"
proof -
  have parts: "tb_order_versions s = tb_order_versions u" "tb_dispute_versions s = tb_dispute_versions u"
    "tb_dev_fees s = tb_dev_fees u" "tb_instance_info s = tb_instance_info u" "tb_rates s = tb_rates u"
    using assms(3) by (simp_all add: stored_part_def)
  have "tb_orders (sweep s) = tb_orders u"
    using sweep_orders_current(1) [OF assms(1)] assms(2) parts(1)
    by (auto simp: sweep_def sweep_fees_def sweep_disputes_def derived_ok_def dest: order_projection.current_unique)
  moreover have "tb_disputes (sweep s) = tb_disputes u"
    using sweep_orders_current(2) [OF assms(1)] assms(2) parts(2)
    by (auto simp: sweep_def sweep_fees_def sweep_disputes_def sweep_orders_def derived_ok_def
        dest: dispute_projection.current_unique)
  moreover have "tb_dev_fees (sweep s) = tb_dev_fees u"
    using assms(2) parts(3)
    by (simp add: sweep_def sweep_fees_def sweep_disputes_def sweep_orders_def derived_ok_def foldl_same refresh_duplicates_same)
  moreover have "derived_tables u = u" using assms(2) by (simp add: derived_ok_def)
  ultimately show ?thesis
    using parts assms(4,5) derived_sweep(1) [of s]
    by - (rule derived_ext, simp_all add: order_pair_def dispute_pair_def,
        simp_all add: sweep_def sweep_fees_def sweep_disputes_def sweep_orders_def)
qed

lemma rebuild_plain:
  assumes "in_step lib db"
  shows "derived_tables (snd (rebuild lib False db)) = derived_tables db"
proof -
  let ?es = "filter_map (\<lambda>r. al_from_json lib (er_raw_json r)) (events_all db)"
    and ?c = "derived_tables (clear_projections db)" and ?S = "replayed lib (archived lib db)"
  have ok: "archive_ok lib (tb_events db)" and S: "derived_tables db = ?S" using assms by (simp_all add: in_step_def)
  have stored: "stored_part ?c = stored_part ?S"
    unfolding S [symmetric]
    by (simp add: stored_part_def clear_projections_def clear_instances_def)
  have absorb: "derive_step lib ?S e = ?S" if "e \<in> set ?es" for e
    unfolding replayed_def using that archive_ok_compatible [OF ok] derived_empty(2)
    by (intro derive.fold_absorb) (simp_all add: set_replayed_events)
  have "backed ?c" by (simp add: backed_def clear_projections_def clear_instances_def derived_tables_def)
  moreover have "stored_part (derive_step lib u e) = stored_part ?c" if "e \<in> set ?es" "stored_part u = stored_part ?c" for e u
    using stored_part_step [of u ?S lib e] absorb [OF that(1)] that(2) stored by simp
  ultimately have *: "backed (foldl (derive_step lib) ?c ?es) \<and> stored_part (foldl (derive_step lib) ?c ?es) = stored_part ?c"
    by (rule backed_fold)
  have "tb_instance_names (foldl (derive_step lib) ?c ?es) = tb_instance_names (replayed lib ?es)"
    unfolding replayed_def
    by (rule names_fold) (simp add: clear_projections_def clear_instances_def empty_database_def)
  also have "replayed lib ?es = ?S"
    using archive_ok_compatible [OF ok] by (intro replayed_cong) (simp_all add: set_replayed_events)
  finally have names: "tb_instance_names (foldl (derive_step lib) ?c ?es) = tb_instance_names ?S" .
  have "derived_tables (foldl (derive_step lib) s es) = foldl (derive_step lib) s es" if "derived_tables s = s" for s es
    using that by (induction es rule: rev_induct) (auto simp: derive_step_def split: sum.splits)
  then have "sweep (foldl (derive_step lib) ?c ?es) = ?S"
    using * stored names replayed_ok by (intro sweep_restores) simp_all
  then show ?thesis unfolding S by (simp add: derived_rebuild)
qed

lemma in_step_rebuild:
  assumes "in_step lib db"
  shows "in_step lib (snd (rebuild lib from_raw db))"
proof -
  have "derived_tables (snd (rebuild lib from_raw db)) = replayed lib (archived lib db)"
    using assms rebuild_plain rebuild_from_raw by (cases from_raw) (auto simp: in_step_def)
  then show ?thesis using assms derived_rebuild(2) by (simp add: in_step_def archived_def)
qed

lemma in_step_history: "archive_history lib policy db \<Longrightarrow> in_step lib db"
proof (induction rule: archive_history.induct)
  case fresh
  show ?case by (simp add: in_step_def archive_ok_def archived_def table_rows_def replayed_def derived_empty)
      (simp add: empty_database_def)
next
  case (requested db kind asked_from now)
  then show ?case by (simp add: in_step_def record_indexed_def archived_def derived_tables_def)
next
  case (dialled db url source now)
  then show ?case by (simp add: in_step_def upsert_relay_def archived_def derived_tables_def)
qed (simp_all add: in_step_ingest in_step_rebuild)

section \<open>An example\<close>

definition example_archive_lib :: archive_lib where
  "example_archive_lib = \<lparr>al_wire = example_lib, al_verify = (\<lambda>_. True), al_as_json = ne_id,
     al_from_json = (\<lambda>s. if s = ''e1'' then Some example_event else None), al_rates_json = (\<lambda>_. []),
     al_rates_from = (\<lambda>_. None)\<rparr>"

definition example_policy :: policy where
  "example_policy = \<lparr>po_instances = [], po_accept_unknown_instances = True, po_networks = [Mainnet]\<rparr>"

lemma example_fields [simp]:
  "ne_id example_event = ''e1''" "ne_pubkey example_event = ''p1''" "ne_kind example_event = 38383"
  "ne_created_at example_event = 1772000000"
  by (simp_all add: example_event_def)

lemma example_readable: "al_from_json example_archive_lib (al_as_json example_archive_lib example_event) = Some example_event"
  by (simp add: example_archive_lib_def)

lemma example_admitted: "admit_event example_archive_lib example_policy example_event = None"
  by (simp add: admit_event_def accepts_instance_def example_policy_def is_mostro_def platform_def y_values_def example_values
      MOSTRO_def optional_network_def optional_def) (simp add: example_archive_lib_def)

lemma example_history:
  "archive_history example_archive_lib example_policy
    (snd (ingest example_archive_lib example_policy example_event url now empty_database))"
  by (intro archive_history.intros example_readable)

lemma example_archived:
  "event_exists (snd (ingest example_archive_lib example_policy example_event url now empty_database)) ''e1''"
proof -
  have "bt_ok (tb_events empty_database)" by (simp add: empty_database_def)
  then show ?thesis
  proof (cases rule: ingest_cases [of empty_database example_archive_lib example_policy example_event url now])
    case same
    obtain p where "parse_event example_archive_lib example_event = Inr (Parsed_Order p)"
      using example_parses by (auto simp: parse_event_def kind_numbers example_archive_lib_def)
    with same(3) show ?thesis
      by (simp add: ingest_def example_admitted vouched_for_def UNTAGGED_KINDS_def kind_numbers Let_def insert_if_new_def
          empty_database_def)
  qed (simp_all add: event_exists_def insert_if_new_def event_record_of_def empty_database_def persist_tables
      bt_get_insert_ignore)
qed

section \<open>Properties of every history\<close>



text \<open>
  C5. A rebuild from the raw events depends on the archive alone: whatever the derived tables
  held before, a half-finished rebuild included, they end as the replay of the archive, and
  the archive is untouched; and over a database with a history neither kind of rebuild changes
  a derived table.
\<close>

theorem rebuild_restores:
  assumes "archive_history lib policy db" and "tb_events damaged = tb_events db"
  shows "derived_tables (snd (rebuild lib True damaged)) = derived_tables db \<and>
    derived_tables (snd (rebuild lib from_raw db)) = derived_tables db \<and>
    tb_events (snd (rebuild lib from_raw damaged)) = tb_events db"
proof -
  have in_step: "in_step lib db" using assms(1) by (rule in_step_history)
  then have "derived_tables (snd (rebuild lib from_raw db)) = derived_tables db"
    using rebuild_plain rebuild_from_raw by (cases from_raw) (auto simp: in_step_def)
  moreover have "derived_tables (snd (rebuild lib True damaged)) = derived_tables db"
    using rebuild_from_raw [of lib damaged] in_step assms(2) by (simp add: in_step_def archived_def)
  ultimately show ?thesis using derived_rebuild(2) assms(2) by simp
qed

theorem rebuild_restores_witness:
  "\<exists>db. tb_events db \<noteq> [] \<and>
    derived_tables (snd (rebuild example_archive_lib True (empty_database\<lparr>tb_events := tb_events db\<rparr>))) = derived_tables db"
proof -
  let ?db = "snd (ingest example_archive_lib example_policy example_event ''wss://r'' 9 empty_database)"
  have "tb_events ?db \<noteq> []" using example_archived [of "''wss://r''" 9] by (auto simp: event_exists_def)
  moreover have "derived_tables (snd (rebuild example_archive_lib True (empty_database\<lparr>tb_events := tb_events ?db\<rparr>))) =
      derived_tables ?db"
    using rebuild_restores [OF example_history, of "empty_database\<lparr>tb_events := tb_events ?db\<rparr>"] by simp
  ultimately show ?thesis by blast
qed

section \<open>Cursors and the bestiary\<close>

lemma ingest_sync_state:
  "tb_sync_state (snd (ingest lib policy e url now db)) =
    (case fst (ingest lib policy e url now db) of
       Rejected _ \<Rightarrow> tb_sync_state db
     | _ \<Rightarrow> bt_upd (url, int (ne_kind e)) (merge_cursor url (ne_kind e) (event_secs e) now) (tb_sync_state db))"
  by (simp add: ingest_def Let_def insert_if_new_def advance_def advance_cursor_def upsert_instance_def persist_tables
      split: option.splits sum.splits bool.splits)

lemma rebuild_step_sync_state: "tb_sync_state (snd (rebuild_step lib s r)) = tb_sync_state (snd s)"
  by (simp add: snd_rebuild_step replay_def persist_tables split: option.splits sum.splits)

lemma rebuild_sync_state: "tb_sync_state (snd (rebuild lib from_raw db)) = tb_sync_state db"
proof -
  have "tb_sync_state (snd (foldl (rebuild_step lib) s rs)) = tb_sync_state (snd s)" for s rs
    by (induction rs arbitrary: s) (simp_all add: rebuild_step_sync_state)
  then show ?thesis
    by (simp add: rebuild_def Let_def sweep_fees_def sweep_disputes_def sweep_orders_def clear_projections_def
        clear_instances_def clear_version_tables_def case_prod_beta)
qed

lemma history_sync_state: "archive_history lib policy db \<Longrightarrow> bt_ok (tb_sync_state db)"
proof (induction rule: archive_history.induct)
  case (delivered db e relay_url now)
  then show ?case by (simp add: ingest_sync_state bt_ok_upd split: ingest_outcome.splits)
qed (simp_all add: empty_database_def record_indexed_def upsert_relay_def rebuild_sync_state)

text \<open>
  C34. A cursor never moves back, in either clock, whatever is delivered by whichever relay, and an event
  that was not turned away leaves the cursor of the relay that delivered it at that event or
  beyond.
\<close>

theorem cursors_only_advance:
  assumes "archive_history lib policy db" and "ingest lib policy e url now db = (outcome, db')"
  shows "(\<forall>relay kind c. get_cursor db relay kind = Some c \<longrightarrow>
      (\<exists>c'. get_cursor db' relay kind = Some c' \<and> cu_last_created_at c \<le> cu_last_created_at c' \<and>
        cu_updated_at c \<le> cu_updated_at c')) \<and>
    ((\<forall>rejection. outcome \<noteq> Rejected rejection) \<longrightarrow>
      (\<exists>c. get_cursor db' url (ne_kind e) = Some c \<and> event_secs e \<le> cu_last_created_at c \<and> now \<le> cu_updated_at c))"
proof -
  have ok: "bt_ok (tb_sync_state db)" using assms(1) by (rule history_sync_state)
  show ?thesis
  proof (cases "\<exists>rejection. outcome = Rejected rejection")
    case True
    then have "tb_sync_state db' = tb_sync_state db" using ingest_sync_state [of lib policy e url now db] assms(2) by auto
    with True show ?thesis by (auto simp: get_cursor_def)
  next
    case False
    then have "tb_sync_state db' =
        bt_upd (url, int (ne_kind e)) (merge_cursor url (ne_kind e) (event_secs e) now) (tb_sync_state db)"
      using ingest_sync_state [of lib policy e url now db] assms(2) by (cases outcome) auto
    then show ?thesis
      by (auto simp: get_cursor_def bt_get_upd [OF ok] merge_cursor_def split: option.splits)
  qed
qed

theorem cursors_only_advance_witness:
  "\<exists>db c. archive_history example_archive_lib example_policy db \<and> get_cursor db ''wss://r'' 38383 = Some c \<and>
    1772000000 \<le> cu_last_created_at c"
proof -
  obtain outcome db where db: "ingest example_archive_lib example_policy example_event ''wss://r'' 9 empty_database = (outcome, db)"
    by fastforce
  obtain p where "parse_event example_archive_lib example_event = Inr (Parsed_Order p)"
    using example_parses by (auto simp: parse_event_def kind_numbers example_archive_lib_def)
  with db have "outcome = Stored"
    by (simp add: ingest_def example_admitted vouched_for_def UNTAGGED_KINDS_def kind_numbers Let_def insert_if_new_def
        empty_database_def)
  with cursors_only_advance [OF archive_history.fresh db] obtain c
    where "get_cursor db ''wss://r'' 38383 = Some c" "event_secs example_event \<le> cu_last_created_at c" by auto
  moreover have "archive_history example_archive_lib example_policy db"
    using example_history [of "''wss://r''" 9] db by simp
  ultimately show ?thesis by (auto simp: event_secs_def wrap_i64_def)
qed

section \<open>Who is admitted\<close>

text \<open>
  C31. An event already archived is never counted again: delivered once more, by any relay,
  it is answered as a duplicate, a repeat or a rejection, and no table but the cursors and the
  bestiary moves.
\<close>

theorem redelivery_changes_nothing:
  assumes "archive_history lib policy db" and "event_exists db (ne_id e)"
    and "ingest lib policy e url now db = (outcome, db')"
  shows "outcome \<noteq> Stored \<and> db' = db\<lparr>tb_sync_state := tb_sync_state db', tb_instances := tb_instances db'\<rparr>"
proof -
  have "bt_ok (tb_events db)" using in_step_history [OF assms(1)] by (simp add: in_step_def archive_ok_def)
  moreover obtain r where "bt_get (tb_events db) (ne_id e) = Some r" using assms(2) by (auto simp: event_exists_def)
  ultimately have keep: "insert_ignore (ne_id e) x (tb_events db) = tb_events db" "bt_get (tb_events db) (ne_id e) \<noteq> None" for x
    using insert_ignore_old by auto
  then have gate: "insert_if_new (event_record_of lib e url now) db = (False, db)"
    by (simp add: insert_if_new_def event_record_of_def)
  show ?thesis
    using assms(3) by (auto simp: ingest_def Let_def gate advance_def advance_cursor_def upsert_instance_def
        split: option.splits sum.splits if_splits)
qed

theorem redelivery_changes_nothing_witness:
  "\<exists>db. tb_events db \<noteq> [] \<and>
    fst (ingest example_archive_lib example_policy example_event ''wss://other'' 10 db) \<noteq> Stored"
proof -
  let ?db = "snd (ingest example_archive_lib example_policy example_event ''wss://r'' 9 empty_database)"
  have e: "event_exists ?db (ne_id example_event)" using example_archived [of "''wss://r''" 9] by simp
  then have "tb_events ?db \<noteq> []" by (auto simp: event_exists_def)
  moreover have "fst (ingest example_archive_lib example_policy example_event ''wss://other'' 10 ?db) \<noteq> Stored"
    using redelivery_changes_nothing [OF example_history e] by (metis prod.collapse)
  ultimately show ?thesis by blast
qed

fun rejection_justified :: "archive_lib \<Rightarrow> policy \<Rightarrow> database \<Rightarrow> nostr_event \<Rightarrow> rejection \<Rightarrow> bool" where
  "rejection_justified lib policy db e Invalid_Signature = (\<not> al_verify lib e)"
| "rejection_justified lib policy db e (Unknown_Instance p) =
     (p = ne_pubkey e \<and> \<not> po_accept_unknown_instances policy \<and> \<not> lists_instance policy p)"
| "rejection_justified lib policy db e (Unvouched_Publisher p k) =
     (p = ne_pubkey e \<and> k = ne_kind e \<and> k \<in> set UNTAGGED_KINDS \<and> \<not> lists_instance policy p \<and> \<not> is_platform_proven db p)"
| "rejection_justified lib policy db e (Other_Platform q) =
     (q = platform e \<and> q \<noteq> Some MOSTRO \<and> ne_kind e \<in> set PLATFORM_TAGGED)"
| "rejection_justified lib policy db e (Other_Network n) =
     (optional_network e = Inr (Some n) \<and> n \<notin> set (po_networks policy) \<and> ne_kind e \<in> set NETWORK_TAGGED)"
| "rejection_justified lib policy db e (Unsupported_Kind k) = (k = ne_kind e \<and> k \<notin> set INDEXED_KINDS)"
| "rejection_justified lib policy db e (Malformed err) =
     (optional_network e = Inl err \<and> ne_kind e \<in> set NETWORK_TAGGED \<or> parse_event lib e = Inl (Malformed err))"

lemma admit_justified: "admit_event lib policy e = Some rejection \<Longrightarrow> rejection_justified lib policy db e rejection"
  by (auto simp: admit_event_def accepts_instance_def accepts_network_def is_mostro_def split: if_splits sum.splits option.splits)

lemma parse_event_justified: "parse_event lib e = Inl rejection \<Longrightarrow> rejection_justified lib policy db e rejection"
  by (cases rejection)
    (auto simp: parse_event_def INDEXED_KINDS_def map_sum_def split: if_splits sum.splits)

text \<open>
  C32. A rejection says why, and what it leaves behind is what its reason allows: nothing for an event
  turned away at the door, the raw event alone for one no parser could read.
\<close>

theorem rejection_explained:
  assumes "ingest lib policy e url now db = (Rejected rejection, db')"
  shows "rejection_justified lib policy db e rejection \<and>
    (db' = db \<or> parse_event lib e = Inl rejection \<and>
      db' = db\<lparr>tb_events := insert_ignore (ne_id e) (event_record_of lib e url now) (tb_events db)\<rparr>)"
proof (cases "admit_event lib policy e")
  case (Some r)
  then show ?thesis using assms admit_justified by (auto simp: ingest_def)
next
  case None
  show ?thesis
  proof (cases "vouched_for policy db e")
    case (Some r)
    then show ?thesis using assms None by (auto simp: ingest_def vouched_for_def split: if_splits)
  next
    case None
    then show ?thesis
      using assms \<open>admit_event lib policy e = None\<close> parse_event_justified
      by (auto simp: ingest_def Let_def insert_if_new_def event_record_of_def split: sum.splits if_splits bool.splits)
  qed
qed

theorem rejection_explained_witness:
  "rejection_justified example_archive_lib example_policy empty_database (example_event\<lparr>ne_kind := 1\<rparr>) (Unsupported_Kind 1)"
proof -
  have "admit_event example_archive_lib example_policy (example_event\<lparr>ne_kind := 1\<rparr>) = None"
    by (simp add: admit_event_def accepts_instance_def example_policy_def example_archive_lib_def PLATFORM_TAGGED_def
        NETWORK_TAGGED_def kind_numbers)
  then have "\<exists>db'. ingest example_archive_lib example_policy (example_event\<lparr>ne_kind := 1\<rparr>) ''wss://r'' 9 empty_database =
      (Rejected (Unsupported_Kind 1), db')"
    by (simp add: ingest_def vouched_for_def UNTAGGED_KINDS_def parse_event_def kind_numbers Let_def)
  then show ?thesis using rejection_explained by blast
qed

text \<open>Evidence accumulates: a publisher once proven stays proven.\<close>

lemma rows_insert_ignore:
  "bt_ok t \<Longrightarrow> set (table_rows t) \<subseteq> set (table_rows (insert_ignore k v t))"
  by (auto simp: table_rows_iff bt_get_insert_ignore) (metis keep_old_simps(2) option.inject)+

lemma pubkeys_insert_fee:
  assumes "fees_ok t"
  shows "fr_pubkey ` set (table_rows t) \<subseteq> fr_pubkey ` set (table_rows (insert_fee f t))"
proof -
  have "fr_pubkey ` set (table_rows (flag_all u)) = fr_pubkey ` set (table_rows u)" for u
    unfolding table_rows_def flag_all_def by (simp add: image_image case_prod_beta)
  moreover have "bt_ok t" using assms by (simp add: fees_ok_def)
  ultimately show ?thesis unfolding insert_fee_eq [OF assms] by (simp add: image_mono rows_insert_ignore)
qed

lemma proven_step:
  assumes "derived_ok s" and "is_platform_proven s pubkey"
  shows "is_platform_proven (derive_step lib s e) pubkey"
proof (cases "parse_event lib e")
  case (Inr p)
  have tables: "tb_order_versions (derive_step lib s e) = (case p of Parsed_Order v \<Rightarrow> insert_order_version v (tb_order_versions s) | _ \<Rightarrow> tb_order_versions s)"
    "tb_dispute_versions (derive_step lib s e) = (case p of Parsed_Dispute v \<Rightarrow> insert_dispute_version v (tb_dispute_versions s) | _ \<Rightarrow> tb_dispute_versions s)"
    using derive_step_tables(3,5) [OF Inr, of s] unfolding order_pair_def dispute_pair_def by (cases p; simp)+
  have "bt_ok (tb_order_versions s)" "bt_ok (tb_dispute_versions s)" "bt_ok (tb_instance_info s)" "fees_ok (tb_dev_fees s)"
    using assms(1) by (simp_all add: derived_ok_def)
  note grow = image_mono [OF rows_insert_ignore [OF this(1)]] image_mono [OF rows_insert_ignore [OF this(2)]]
    image_mono [OF rows_insert_ignore [OF this(3)]] pubkeys_insert_fee [OF this(4)]
  have "vr_pubkey ` set (table_rows (tb_order_versions s)) \<subseteq> vr_pubkey ` set (table_rows (tb_order_versions (derive_step lib s e)))"
    unfolding tables by (cases p) (simp_all add: insert_order_version_def grow)
  moreover have "dvr_pubkey ` set (table_rows (tb_dispute_versions s)) \<subseteq> dvr_pubkey ` set (table_rows (tb_dispute_versions (derive_step lib s e)))"
    unfolding tables by (cases p) (simp_all add: insert_dispute_version_def grow)
  moreover have "nr_pubkey ` set (table_rows (tb_instance_info s)) \<subseteq> nr_pubkey ` set (table_rows (tb_instance_info (derive_step lib s e)))"
    unfolding derive_step_tables(6) [OF Inr] by (cases p) (simp_all add: grow)
  moreover have "fr_pubkey ` set (table_rows (tb_dev_fees s)) \<subseteq> fr_pubkey ` set (table_rows (tb_dev_fees (derive_step lib s e)))"
    unfolding derive_step_tables(4) [OF Inr] by (cases p) (simp_all add: grow)
  ultimately have "set (platform_pubkeys s) \<subseteq> set (platform_pubkeys (derive_step lib s e))"
    unfolding platform_pubkeys_def set_append set_map by (intro Un_mono)
  then show ?thesis using assms(2) by (auto simp: is_platform_proven_def)
qed (use assms in \<open>simp add: derive_step_def\<close>)

lemma proven_derived: "is_platform_proven (derived_tables db) pubkey = is_platform_proven db pubkey"
  by (simp add: is_platform_proven_def platform_pubkeys_def)

lemma derived_ingest:
  assumes "in_step lib db"
  shows "derived_tables (snd (ingest lib policy e url now db)) = derived_tables db \<or>
    derived_tables (snd (ingest lib policy e url now db)) = derive_step lib (derived_tables db) e"
proof -
  have "bt_ok (tb_events db)" using assms by (simp add: in_step_def archive_ok_def)
  then show ?thesis
    by (cases rule: ingest_cases [of db lib policy e url now])
      (simp_all add: insert_if_new_def derive_step_persist [symmetric])
qed

definition vouched :: "archive_lib \<Rightarrow> policy \<Rightarrow> database \<Rightarrow> nostr_event \<Rightarrow> bool" where
  "vouched lib policy db e \<longleftrightarrow> admit_event lib policy e = None \<and>
     (ne_kind e \<in> set UNTAGGED_KINDS \<longrightarrow> lists_instance policy (ne_pubkey e) \<or> is_platform_proven db (ne_pubkey e))"

lemma archived_ingest:
  assumes "in_step lib db" and "al_from_json lib (al_as_json lib e) = Some e"
  shows "set (archived lib (snd (ingest lib policy e url now db))) = set (archived lib db) \<or>
    set (archived lib (snd (ingest lib policy e url now db))) = insert e (set (archived lib db)) \<and>
    admit_event lib policy e = None \<and> vouched_for policy db e = None"
proof -
  have ok: "archive_ok lib (tb_events db)" using assms(1) by (simp add: in_step_def)
  then have "bt_ok (tb_events db)" by (simp add: archive_ok_def)
  then show ?thesis
  proof (cases rule: ingest_cases [of db lib policy e url now])
    case same
    then show ?thesis by (simp add: archived_def)
  next
    case (unparsed r)
    then show ?thesis
      using archived_insert [OF ok assms(2) unparsed(2)] by (simp add: insert_if_new_def event_record_of_def)
  next
    case (stored p)
    then show ?thesis
      using archived_insert [OF ok assms(2) stored(2)]
      by (simp add: insert_if_new_def event_record_of_def persist_tables)
  qed
qed

lemma vouched_history:
  "archive_history lib policy db \<Longrightarrow> \<forall>e \<in> set (archived lib db). vouched lib policy db e"
proof (induction rule: archive_history.induct)
  case fresh
  show ?case by (simp add: archived_def empty_database_def table_rows_def)
next
  case (delivered db e url now)
  let ?db = "snd (ingest lib policy e url now db)"
  have in_step: "in_step lib db" using delivered(1) by (rule in_step_history)
  then have "derived_ok (derived_tables db)" using replayed_ok by (simp add: in_step_def)
  then have grow: "is_platform_proven db p \<Longrightarrow> is_platform_proven ?db p" for p
    using derived_ingest [OF in_step, of policy e url now] proven_step proven_derived by metis
  then have "vouched lib policy ?db x" if "vouched lib policy db x" for x
    using that by (auto simp: vouched_def)
  moreover have "vouched lib policy ?db e" if "admit_event lib policy e = None" "vouched_for policy db e = None"
    using that grow by (auto simp: vouched_def vouched_for_def split: if_splits)
  ultimately show ?case using archived_ingest [OF in_step delivered(2), of policy url now] delivered.IH by auto
next
  case (requested db kind asked_from now)
  then show ?case
    by (simp add: record_indexed_def archived_def vouched_def is_platform_proven_def platform_pubkeys_def)
next
  case (dialled db url source now)
  then show ?case
    by (simp add: upsert_relay_def archived_def vouched_def is_platform_proven_def platform_pubkeys_def)
next
  case (rebuilt db from_raw)
  have "derived_tables (snd (rebuild lib from_raw db)) = derived_tables db"
    using in_step_history [OF rebuilt(1)] rebuild_plain rebuild_from_raw by (cases from_raw) (auto simp: in_step_def)
  then have "is_platform_proven (snd (rebuild lib from_raw db)) p = is_platform_proven db p" for p
    by (metis proven_derived)
  then show ?case using rebuilt.IH by (simp add: vouched_def archived_def derived_rebuild(2))
qed

text \<open>
  C7. Nothing is in the archive that the policy did not admit: every archived event verified and came
  from an instance the policy accepts, one of a tagged kind named Mostro as its platform
  and no network that is not indexed, and a rate snapshot or a relay list came from a publisher who is listed by
  hand or whose own tagged events are in the version tables.
\<close>

theorem archive_holds_only_vouched:
  assumes "archive_history lib policy db" and "e \<in> set (archived lib db)"
  shows "al_verify lib e \<and> accepts_instance policy (ne_pubkey e) \<and>
    (ne_kind e \<in> set PLATFORM_TAGGED \<longrightarrow> is_mostro e) \<and>
    (ne_kind e \<in> set NETWORK_TAGGED \<longrightarrow>
      optional_network e = Inr None \<or> (\<exists>n \<in> set (po_networks policy). optional_network e = Inr (Some n))) \<and>
    (ne_kind e \<in> set UNTAGGED_KINDS \<longrightarrow> lists_instance policy (ne_pubkey e) \<or> is_platform_proven db (ne_pubkey e))"
proof -
  have "vouched lib policy db e" using vouched_history [OF assms(1)] assms(2) by blast
  then show ?thesis
    by (auto simp: vouched_def admit_event_def accepts_network_def split: if_splits sum.splits option.splits)
qed

theorem archive_holds_only_vouched_witness:
  "\<exists>db e. e \<in> set (archived example_archive_lib db) \<and> is_mostro e"
proof -
  let ?db = "snd (ingest example_archive_lib example_policy example_event ''wss://r'' 9 empty_database)"
  have ok: "archive_ok example_archive_lib (tb_events ?db)"
    using in_step_history [OF example_history] by (simp add: in_step_def)
  obtain r where r: "bt_get (tb_events ?db) ''e1'' = Some r"
    using example_archived [of "''wss://r''" 9] by (auto simp: event_exists_def)
  have "(''e1'', r) \<in> set (tb_events ?db)" using r by (rule bt_get_Some_in)
  then obtain e where "al_from_json example_archive_lib (er_raw_json r) = Some e"
    using ok unfolding archive_ok_def by fastforce
  then have "al_from_json example_archive_lib (er_raw_json r) = Some example_event"
    by (simp add: example_archive_lib_def split: if_splits)
  then have e: "example_event \<in> set (archived example_archive_lib ?db)" using r set_archived [OF ok] by simp
  moreover have "is_mostro example_event"
    using archive_holds_only_vouched [OF example_history e] by (simp add: PLATFORM_TAGGED_def kind_numbers)
  ultimately show ?thesis by blast
qed

end
