(* ===== verification/Delivery.thy ===== *)
theory Delivery
  imports Ingestion
begin

text \<open>
  Whole runs of deliveries, the way \<open>backfill\<close> and \<open>sync\<close> feed the pipeline: a list of
  events with the relay and the clock each came with. Orders, dev fees and disputes do not
  depend on the order of the list, and what is admitted is there to stay.
\<close>

type_synonym delivered_event = "nostr_event \<times> str \<times> i64"

definition deliver_all :: "archive_lib \<Rightarrow> policy \<Rightarrow> delivered_event list \<Rightarrow> database \<Rightarrow> database" where
  "deliver_all lib policy ds db = foldl (\<lambda>db (e, url, now). snd (ingest lib policy e url now db)) db ds"

definition readable :: "archive_lib \<Rightarrow> delivered_event list \<Rightarrow> bool" where
  "readable lib ds \<longleftrightarrow> (\<forall>(e, _) \<in> set ds. al_from_json lib (al_as_json lib e) = Some e)"

lemma deliver_simps [simp]:
  "deliver_all lib policy [] db = db"
  "deliver_all lib policy (ds @ [(e, url, now)]) db = snd (ingest lib policy e url now (deliver_all lib policy ds db))"
  "readable lib []"
  "readable lib (ds @ [(e, url, now)]) \<longleftrightarrow> readable lib ds \<and> al_from_json lib (al_as_json lib e) = Some e"
  by (auto simp: deliver_all_def readable_def)

lemma deliver_history:
  "archive_history lib policy db \<Longrightarrow> readable lib ds \<Longrightarrow> archive_history lib policy (deliver_all lib policy ds db)"
proof (induction ds rule: rev_induct)
  case (snoc d ds)
  obtain e url now where d: "d = (e, url, now)" by (metis prod_cases3)
  show ?case using snoc unfolding d by (auto intro: archive_history.delivered)
qed simp

section \<open>The events of trades\<close>

definition is_trade :: "nostr_event \<Rightarrow> bool" where
  "is_trade e \<longleftrightarrow> ne_kind e = ORDER_KIND \<or> ne_kind e = DEV_FEE_KIND \<or> ne_kind e = DISPUTE_KIND"

definition trade_tables :: "database \<Rightarrow>
    ((str, version_row) btree \<times> (str, order_row) btree) \<times> ((str, dispute_version_row) btree \<times> (str, dispute_row) btree)
    \<times> (str, fee_row) btree" where
  "trade_tables s = (order_pair s, dispute_pair s, tb_dev_fees s)"

lemma trade_beat: "is_trade e \<Longrightarrow> parse_event lib e = Inr p \<Longrightarrow> parsed_heartbeat p = Beat_None"
  by (auto simp: is_trade_def parse_event_def map_sum_Inr kind_numbers split: if_splits)

lemma other_parsed:
  assumes "\<not> is_trade e" and "parse_event lib e = Inr p"
  shows "order_tables p t = t" "dispute_tables p u = u" "fee_table p f = f"
  using assms by (auto simp: is_trade_def parse_event_def map_sum_Inr split: if_splits)

lemma trade_tables_step:
  assumes "parse_event lib e = Inr p"
  shows "trade_tables (derive_step lib s e) =
    (case trade_tables s of (o', d, f) \<Rightarrow> (order_tables p o', dispute_tables p d, fee_table p f))"
  using derive_step_tables [OF assms, of s] by (simp add: trade_tables_def)

lemma trade_tables_cong:
  "trade_tables s = trade_tables u \<Longrightarrow> trade_tables (derive_step lib s e) = trade_tables (derive_step lib u e)"
  by (cases "parse_event lib e") (simp add: derive_step_def, simp add: trade_tables_step)

lemma trade_tables_other: "\<not> is_trade e \<Longrightarrow> trade_tables (derive_step lib s e) = trade_tables s"
  by (cases "parse_event lib e") (simp add: derive_step_def, simp add: trade_tables_step other_parsed split: prod.splits)

lemma trade_tables_filter:
  "trade_tables (foldl (derive_step lib) s es) = trade_tables (foldl (derive_step lib) s (filter is_trade es))"
proof (induction es rule: rev_induct)
  case (snoc e es)
  then show ?case using trade_tables_cong [OF snoc, of lib e] by (simp add: trade_tables_other)
qed simp

lemma trade_tables_derived: "trade_tables (derived_tables db) = trade_tables db"
  by (simp add: trade_tables_def order_pair_def dispute_pair_def)

section \<open>What a run archives\<close>

text \<open>An admitted event of a trade is never a repeat and never unvouched: the archive has it afterwards.\<close>

lemma ingest_trade_events:
  assumes "is_trade e" and "admit_event lib policy e = None"
  shows "tb_events (snd (ingest lib policy e url now db)) =
    insert_ignore (ne_id e) (event_record_of lib e url now) (tb_events db)"
proof -
  have "vouched_for policy db e = None"
    using assms(1) by (auto simp: vouched_for_def UNTAGGED_KINDS_def is_trade_def kind_numbers)
  moreover have "er_id (event_record_of lib e url now) = ne_id e" by (simp add: event_record_of_def)
  ultimately show ?thesis
    using assms(2) trade_beat [OF assms(1), of lib]
    by (cases "parse_event lib e") (simp_all add: ingest_def Let_def insert_if_new_def persist_tables split: bool.splits)
qed

lemma ingest_unadmitted: "admit_event lib policy e \<noteq> None \<Longrightarrow> snd (ingest lib policy e url now db) = db"
  by (auto simp: ingest_def)

lemma trade_archived:
  assumes "in_step lib db" and "is_trade e" and "admit_event lib policy e = None"
    and "al_from_json lib (al_as_json lib e) = Some e" and "\<forall>a \<in> set (archived lib db). same_event a e"
  shows "e \<in> set (archived lib (snd (ingest lib policy e url now db)))"
proof -
  let ?db = "snd (ingest lib policy e url now db)"
  have ok: "archive_ok lib (tb_events db)" using assms(1) by (simp add: in_step_def)
  have ok': "archive_ok lib (tb_events ?db)" using in_step_ingest [OF assms(1,4)] by (simp add: in_step_def)
  have bt: "bt_ok (tb_events db)" using ok by (simp add: archive_ok_def)
  have events: "tb_events ?db = insert_ignore (ne_id e) (event_record_of lib e url now) (tb_events db)"
    using assms(2,3) by (rule ingest_trade_events)
  show ?thesis
  proof (cases "bt_get (tb_events db) (ne_id e)")
    case None
    then show ?thesis using archived_insert [OF ok assms(4) None events] by simp
  next
    case (Some r)
    then obtain a where a: "al_from_json lib (er_raw_json r) = Some a" "ne_id a = ne_id e"
      using ok bt_get_Some_in [OF Some] unfolding archive_ok_def by fastforce
    then have "a \<in> set (archived lib db)" using set_archived [OF ok, of a] Some by simp
    then have "a = e" using assms(5) a(2) by (auto simp: same_event_def)
    then show ?thesis
      using a Some set_archived [OF ok', of e] unfolding events by (simp add: bt_get_insert_ignore [OF bt])
  qed
qed

lemma trades_archived:
  assumes "readable lib ds" and "\<forall>a \<in> fst ` set ds. \<forall>b \<in> fst ` set ds. same_event a b"
  shows "set (archived lib (deliver_all lib policy ds empty_database)) \<subseteq> fst ` set ds \<and>
    {e \<in> set (archived lib (deliver_all lib policy ds empty_database)). is_trade e} =
    {e \<in> fst ` set ds. is_trade e \<and> admit_event lib policy e = None}"
  using assms
proof (induction ds rule: rev_induct)
  case Nil
  then show ?case by (simp add: archived_def empty_database_def table_rows_def)
next
  case (snoc d ds)
  obtain e url now where d: "d = (e, url, now)" by (metis prod_cases3)
  let ?db = "deliver_all lib policy ds empty_database" and ?db' = "deliver_all lib policy (ds @ [d]) empty_database"
  have r: "readable lib ds" "al_from_json lib (al_as_json lib e) = Some e" using snoc.prems(1) unfolding d by simp_all
  have IH: "set (archived lib ?db) \<subseteq> fst ` set ds"
    "{x \<in> set (archived lib ?db). is_trade x} = {x \<in> fst ` set ds. is_trade x \<and> admit_event lib policy x = None}"
    using snoc.IH r(1) snoc.prems(2) by auto
  have in_step: "in_step lib ?db" by (rule in_step_history [OF deliver_history [OF archive_history.fresh r(1)]])
  have "set (archived lib ?db') = set (archived lib ?db) \<or>
      set (archived lib ?db') = insert e (set (archived lib ?db)) \<and> admit_event lib policy e = None"
    using archived_ingest [OF in_step r(2), of policy url now] unfolding d by auto
  moreover have "e \<in> set (archived lib ?db')" if "is_trade e" "admit_event lib policy e = None"
  proof -
    have "\<forall>a \<in> set (archived lib ?db). same_event a e" using IH(1) snoc.prems(2) unfolding d by auto
    then show ?thesis using trade_archived [OF in_step that r(2)] unfolding d by simp
  qed
  moreover have "fst ` set (ds @ [d]) = insert e (fst ` set ds)" unfolding d by auto
  ultimately show ?case using IH by auto
qed

section \<open>Order of arrival\<close>

lemma deliver_trade_tables:
  assumes "readable lib ds"
  shows "trade_tables (deliver_all lib policy ds empty_database) =
    trade_tables (replayed lib (filter is_trade (archived lib (deliver_all lib policy ds empty_database))))"
proof -
  let ?db = "deliver_all lib policy ds empty_database"
  have "in_step lib ?db" by (rule in_step_history [OF deliver_history [OF archive_history.fresh assms]])
  then have "trade_tables ?db = trade_tables (replayed lib (archived lib ?db))"
    by (metis in_step_def trade_tables_derived)
  then show ?thesis unfolding replayed_def using trade_tables_filter by metis
qed

text \<open>
  C2. Arrival does not matter for what is traded: two runs that deliver the same orders, dev
  fees and disputes, in any order, any number of times, from any relays, at any clock, and with any heartbeats
  in between, leave the same versions, the same orders, the same disputes and the same fees with the same
  duplicates marked.
\<close>

theorem trades_ignore_arrival:
  assumes "readable lib ds" "readable lib ds'"
    and "\<forall>a \<in> fst ` set (ds @ ds'). \<forall>b \<in> fst ` set (ds @ ds'). same_event a b"
    and "{e \<in> fst ` set ds. is_trade e} = {e \<in> fst ` set ds'. is_trade e}"
  shows "trade_tables (deliver_all lib policy ds empty_database) = trade_tables (deliver_all lib policy ds' empty_database)"
proof -
  let ?A = "\<lambda>ds. filter is_trade (archived lib (deliver_all lib policy ds empty_database))"
  have A: "set (?A ds) = {e \<in> fst ` set ds. is_trade e \<and> admit_event lib policy e = None}"
    using trades_archived [OF assms(1), of policy] assms(3) by auto
  have "set (?A ds') = {e \<in> fst ` set ds'. is_trade e \<and> admit_event lib policy e = None}"
    using trades_archived [OF assms(2), of policy] assms(3) by auto
  then have "set (?A ds) = set (?A ds')" unfolding A using assms(4) by blast
  moreover have "derive.compatible (set (?A ds))"
    unfolding A derive.compatible_def using assms(3) by auto
  ultimately have "replayed lib (?A ds) = replayed lib (?A ds')" by (intro replayed_cong)
  then show ?thesis
    using deliver_trade_tables [OF assms(1), of policy] deliver_trade_tables [OF assms(2), of policy] by simp
qed

theorem trades_ignore_arrival_witness:
  "trade_tables (deliver_all example_archive_lib example_policy [(example_event, ''wss://a'', 1)] empty_database) =
   trade_tables (deliver_all example_archive_lib example_policy
     [(example_event, ''wss://b'', 7), (example_event, ''wss://a'', 5)] empty_database)"
  by (rule trades_ignore_arrival) (simp_all add: readable_def example_readable same_event_def)

section \<open>What is admitted is there to stay\<close>

lemma version_kept:
  assumes "bt_ok (tb_order_versions s)" and "bt_get (tb_order_versions s) k = Some r"
  shows "bt_get (tb_order_versions (foldl (derive_step lib) s es)) k = Some r"
  using assms
proof (induction es arbitrary: s)
  case (Cons e es)
  have "bt_ok (tb_order_versions (derive_step lib s e)) \<and> bt_get (tb_order_versions (derive_step lib s e)) k = Some r"
  proof (cases "parse_event lib e")
    case (Inr p)
    have "tb_order_versions (derive_step lib s e) =
        (case p of Parsed_Order v \<Rightarrow> insert_order_version v (tb_order_versions s) | _ \<Rightarrow> tb_order_versions s)"
      using derive_step_tables(3) [OF Inr, of s] unfolding order_pair_def by (cases p) simp_all
    then show ?thesis
      using Cons.prems by (cases p) (auto simp: insert_order_version_def bt_get_insert_ignore)
  qed (use Cons.prems in \<open>simp add: derive_step_def\<close>)
  then show ?case using Cons.IH by simp
qed simp

lemma replayed_version:
  assumes "derive.compatible (set es)" and "e \<in> set es" and "parse_event lib e = Inr (Parsed_Order v)"
  shows "bt_get (tb_order_versions (replayed lib es)) (ne_id e) = Some (version_row_of v)"
proof -
  have "replayed lib es = replayed lib (e # es)" using assms(1,2) by (intro replayed_cong) auto
  moreover have "parse_order (al_wire lib) e = Inr v"
    using assms(3) by (auto simp: parse_event_def map_sum_Inr split: if_splits)
  then have "ov_event_id v = ne_id e" "\<not> f64_is_nan (ov_premium v)"
    using parse_order_ok parsed_ids(1) by (cases "ov_premium v"; fastforce simp: order_version_ok_def)+
  then have "tb_order_versions (derive_step lib empty_database e) = [(ne_id e, version_row_of v)]"
    using derive_step_tables(3) [OF assms(3), of empty_database]
    by (simp add: order_pair_def insert_order_version_def insert_ignore_def empty_database_def)
  then have "bt_get (tb_order_versions (replayed lib (e # es))) (ne_id e) = Some (version_row_of v)"
    unfolding replayed_def foldl_Cons by (intro version_kept) (simp_all add: bt_ok_def bt_get_def)
  ultimately show ?thesis by simp
qed

lemma archived_grows:
  assumes "archive_history lib policy db" and "readable lib ds"
  shows "set (archived lib db) \<subseteq> set (archived lib (deliver_all lib policy ds db))"
  using assms(2)
proof (induction ds rule: rev_induct)
  case (snoc d ds)
  obtain e url now where d: "d = (e, url, now)" by (metis prod_cases3)
  have r: "readable lib ds" "al_from_json lib (al_as_json lib e) = Some e" using snoc.prems unfolding d by simp_all
  have "in_step lib (deliver_all lib policy ds db)" by (rule in_step_history [OF deliver_history [OF assms(1) r(1)]])
  from archived_ingest [OF this r(2), of policy url now] show ?case using snoc.IH r(1) unfolding d by auto
qed simp

lemma project_order_spans:
  assumes "r \<in> set rs"
  obtains row where "project_order rs = Some row" "or_first_seen_at row \<le> vr_created_at r"
    "vr_created_at r \<le> or_last_updated_at row"
proof -
  obtain latest where l: "first_by (newer vr_created_at vr_event_id) rs = Some latest"
    using assms by (metis first_by_None in_set_conv_nth length_greater_0_conv not_None_eq length_pos_if_in_set)
  obtain row where row: "project_order rs = Some row" "row_of_history rs latest row"
    using project_order_latest [OF l] by blast
  then have "or_first_seen_at row \<le> vr_created_at r" "vr_created_at r \<le> or_last_updated_at row"
    using assms newest_first [OF l assms] by (auto simp: row_of_history_def newer_def)
  with row(1) that show thesis by blast
qed

lemma parsed_order_clock:
  "parse_event lib e = Inr (Parsed_Order v) \<Longrightarrow> ov_created_at v = event_secs e \<and> ne_kind e = ORDER_KIND"
  by (auto simp: parse_event_def parse_order_def map_sum_Inr elim!: and_then_InrE split: if_splits)

lemma stored_version_projected:
  assumes "archive_history lib policy db" and "e \<in> set (archived lib db)" and "parse_event lib e = Inr (Parsed_Order v)"
  shows "bt_get (tb_order_versions db) (ne_id e) = Some (version_row_of v)"
    and "\<exists>row. bt_get (tb_orders db) (ov_order_id v) = Some row \<and> or_first_seen_at row \<le> event_secs e \<and>
      event_secs e \<le> or_last_updated_at row"
proof -
  have in_step: "archive_ok lib (tb_events db)" "derived_tables db = replayed lib (archived lib db)"
    using in_step_history [OF assms(1)] by (simp_all add: in_step_def)
  show get: "bt_get (tb_order_versions db) (ne_id e) = Some (version_row_of v)"
    using replayed_version [OF archive_ok_compatible [OF in_step(1)] assms(2,3)] unfolding in_step(2) [symmetric] by simp
  then have "version_row_of v \<in> set (subject_rows vr_order_id (tb_order_versions db) (ov_order_id v))"
    by (force simp: subject_rows_def table_rows_def dest: bt_get_Some_in)
  moreover have "bt_get (tb_orders db) (ov_order_id v) =
      project_order (subject_rows vr_order_id (tb_order_versions db) (ov_order_id v))"
  proof -
    have "derived_ok (derived_tables db)" unfolding in_step(2) by (rule replayed_ok)
    then show ?thesis by (simp add: derived_ok_def order_projection.current_def)
  qed
  ultimately show "\<exists>row. bt_get (tb_orders db) (ov_order_id v) = Some row \<and> or_first_seen_at row \<le> event_secs e \<and>
      event_secs e \<le> or_last_updated_at row"
    using parsed_order_clock [OF assms(3)] by (metis project_order_spans version_row_fields(2))
qed

text \<open>
  C20. An admitted order makes it into the books and stays: once it has been delivered, whatever is
  delivered afterwards, its version is stored as it was parsed and its order has a row dated no
  later than it was first seen.
\<close>

theorem admitted_order_is_projected:
  assumes "archive_history lib policy db" and "admit_event lib policy e = None"
    and "parse_event lib e = Inr (Parsed_Order v)" and "readable lib ((e, url, now) # ds)"
    and "\<forall>a \<in> set (archived lib db). same_event a e"
    and "db' = deliver_all lib policy ((e, url, now) # ds) db"
  shows "event_exists db' (ne_id e) \<and> bt_get (tb_order_versions db') (ne_id e) = Some (version_row_of v) \<and>
    (\<exists>row. bt_get (tb_orders db') (ov_order_id v) = Some row \<and> or_first_seen_at row \<le> event_secs e \<and>
      event_secs e \<le> or_last_updated_at row)"
proof -
  let ?db = "snd (ingest lib policy e url now db)"
  have r: "readable lib ds" "al_from_json lib (al_as_json lib e) = Some e" using assms(4) by (auto simp: readable_def)
  have db': "db' = deliver_all lib policy ds ?db" using assms(6) by (simp add: deliver_all_def)
  have hist: "archive_history lib policy ?db" using assms(1) r(2) by (rule archive_history.delivered)
  then have hist': "archive_history lib policy db'" unfolding db' using r(1) by (rule deliver_history)
  have "is_trade e" using parsed_order_clock [OF assms(3)] by (simp add: is_trade_def)
  then have "e \<in> set (archived lib ?db)"
    using trade_archived [OF in_step_history [OF assms(1)] _ assms(2) r(2) assms(5)] by simp
  then have e: "e \<in> set (archived lib db')" unfolding db' using archived_grows [OF hist r(1)] by blast
  have "archive_ok lib (tb_events db')" using in_step_history [OF hist'] by (simp add: in_step_def)
  then have "event_exists db' (ne_id e)" using e set_archived by (fastforce simp: event_exists_def)
  then show ?thesis using stored_version_projected [OF hist' e assms(3)] by blast
qed

theorem admitted_order_is_projected_witness:
  "\<exists>v row. parse_event example_archive_lib example_event = Inr (Parsed_Order v) \<and>
    bt_get (tb_orders (deliver_all example_archive_lib example_policy
      [(example_event, ''wss://a'', 1), (example_event, ''wss://b'', 2)] empty_database)) ''u1'' = Some row"
proof -
  obtain v where v: "parse_event example_archive_lib example_event = Inr (Parsed_Order v)" "ov_order_id v = ''u1''"
    using example_parses by (auto simp: parse_event_def kind_numbers example_archive_lib_def)
  have "readable example_archive_lib ((example_event, ''wss://a'', 1) # [(example_event, ''wss://b'', 2)])"
    by (simp add: readable_def example_readable)
  from admitted_order_is_projected [OF archive_history.fresh example_admitted v(1) this _ refl] v(2)
  show ?thesis using v(1) by (simp add: archived_def empty_database_def table_rows_def) blast
qed

end
