(* ===== verification/Requests.thy ===== *)
theory Requests
  imports Pipeline
begin

text \<open>
  What is asked of the relays and of the archive: the window and the instance of a report
  (\<open>src/commands/range.rs\<close>), the filters of a request (\<open>src/nostr/filters.rs\<close>), the relays
  a client holds (\<open>src/nostr/client.rs\<close>) and the set it dials (\<open>src/commands/relays.rs\<close>). Dialling a relay
  is a parameter, and so is \<open>RelayUrl::from_str\<close>. A filter is the record of the fields it
  sets, and a key is its hex form.
\<close>

section \<open>Windows\<close>

definition DEFAULT_WINDOW_DAYS :: i64 where
  "DEFAULT_WINDOW_DAYS = 30"

definition MAX_WINDOW_YEARS :: i64 where
  "MAX_WINDOW_YEARS = 100"

definition MAX_WINDOW_SECS :: i64 where
  "MAX_WINDOW_SECS = MAX_WINDOW_YEARS * 31557600"

record time_range =
  tr_from :: i64
  tr_until :: i64

datatype range_error = Range_Empty i64 i64 | Range_Too_Wide i64 i64

definition saturating_sub_i64 :: "i64 \<Rightarrow> i64 \<Rightarrow> i64" where
  "saturating_sub_i64 a b = max i64_min (min i64_max (a - b))"

definition range_resolve :: "i64 option \<Rightarrow> i64 option \<Rightarrow> i64 \<Rightarrow> range_error + time_range" where
  "range_resolve lo hi now =
     (let hi' = (case hi of Some t \<Rightarrow> t | None \<Rightarrow> now);
          lo' = (case lo of Some t \<Rightarrow> t | None \<Rightarrow> i64_sub hi' (DEFAULT_WINDOW_DAYS * 86400)) in
      if lo' \<ge> hi' then Inl (Range_Empty lo' hi')
      else if saturating_sub_i64 hi' lo' > MAX_WINDOW_SECS then Inl (Range_Too_Wide lo' hi')
      else Inr \<lparr>tr_from = lo', tr_until = hi'\<rparr>)"

definition range_onwards :: "i64 \<Rightarrow> time_range" where
  "range_onwards lo = \<lparr>tr_from = lo, tr_until = i64_max\<rparr>"

definition range_unbounded :: time_range where
  "range_unbounded = \<lparr>tr_from = 0, tr_until = i64_max\<rparr>"

definition range_contains :: "time_range \<Rightarrow> i64 \<Rightarrow> bool" where
  "range_contains r t \<longleftrightarrow> tr_from r \<le> t \<and> t < tr_until r"

definition range_previous :: "time_range \<Rightarrow> time_range" where
  "range_previous r =
     (let len = i64_sub (tr_until r) (tr_from r) in \<lparr>tr_from = i64_sub (tr_from r) len, tr_until = tr_from r\<rparr>)"

section \<open>The instance of a report\<close>

datatype instance_filter = All_Instances | One_Instance str

datatype instance_error = Not_Found str | Ambiguous str "str list"

definition eq_ignore_case :: "str \<Rightarrow> str \<Rightarrow> bool" where
  "eq_ignore_case a b \<longleftrightarrow> map lower_char a = map lower_char b"

definition names_exactly :: "str \<Rightarrow> str \<times> str option \<Rightarrow> bool" where
  "names_exactly needle = (\<lambda>(pubkey, name). eq_ignore_case pubkey needle \<or> is_some_and name (\<lambda>n. eq_ignore_case n needle))"

definition instance_matches :: "str \<Rightarrow> str \<times> str option \<Rightarrow> bool" where
  "instance_matches needle = (\<lambda>(pubkey, name).
     eq_ignore_case pubkey needle \<or> starts_with (map lower_char needle) (map lower_char pubkey)
     \<or> is_some_and name (\<lambda>n. eq_ignore_case n needle))"

definition instance_resolve :: "str option \<Rightarrow> (str \<times> str option) list \<Rightarrow> instance_error + instance_filter" where
  "instance_resolve wanted known =
     (case wanted of
        None \<Rightarrow> Inr All_Instances
      | Some text_of \<Rightarrow>
          (let needle = trim text_of in
           case map fst (filter (instance_matches needle) known) of
             [] \<Rightarrow> Inl (Not_Found needle)
           | [pubkey] \<Rightarrow> Inr (One_Instance pubkey)
           | several \<Rightarrow>
               (case List.find (names_exactly needle) known of
                  Some exact \<Rightarrow> Inr (One_Instance (fst exact))
                | None \<Rightarrow> Inl (Ambiguous needle several))))"

section \<open>Filters\<close>

record nostr_filter =
  fi_kind :: nat
  fi_identifier :: "str option"
  fi_authors :: "str list option"
  fi_since :: "u64 option"
  fi_until :: "u64 option"
  fi_limit :: "nat option"

definition filter_window :: "time_range \<Rightarrow> u64 option \<times> u64 option" where
  "filter_window r =
     (then_some (tr_from r > 0) (nat (tr_from r)),
      then_some (tr_until r < i64_max) (nat (max (tr_until r - 1) 0)))"

definition for_kind ::
  "nat \<Rightarrow> str list \<Rightarrow> str list \<Rightarrow> time_range option \<Rightarrow> nat option \<Rightarrow> nostr_filter option" where
  "for_kind kind authors vouched_keys window limit =
     (if kind \<in> set UNTAGGED_KINDS \<and> vouched_keys = [] then None
      else
        (let keys = (if kind \<in> set UNTAGGED_KINDS then vouched_keys else authors);
             bounds = (case window of None \<Rightarrow> (None, None) | Some r \<Rightarrow> filter_window r) in
         Some \<lparr>fi_kind = kind, fi_identifier = then_some (kind = RATES_KIND) RATES_IDENTIFIER,
               fi_authors = then_some (keys \<noteq> []) keys, fi_since = fst bounds, fi_until = snd bounds,
               fi_limit = limit\<rparr>))"

definition per_kind :: "str list \<Rightarrow> str list \<Rightarrow> time_range option \<Rightarrow> nat option \<Rightarrow> nostr_filter list" where
  "per_kind authors vouched_keys window limit =
     filter_map (\<lambda>kind. for_kind kind authors vouched_keys window limit) INDEXED_KINDS"

section \<open>The relays of a client\<close>

record relay_client =
  rc_configured :: "str list"
  rc_relays :: "str list"

datatype client_error = No_Relay_Reachable nat

definition connect_step :: "(str \<Rightarrow> str + str) \<Rightarrow> str list \<Rightarrow> str \<Rightarrow> str list" where
  "connect_step add linked url =
     (case add url of
        Inl _ \<Rightarrow> linked
      | Inr u \<Rightarrow> if u \<in> set linked then linked else linked @ [u])"

definition client_connect :: "(str \<Rightarrow> str + str) \<Rightarrow> str list \<Rightarrow> client_error + relay_client" where
  "client_connect add urls =
     (let linked = foldl (connect_step add) [] urls in
      if linked = [] then Inl (No_Relay_Reachable (length urls))
      else Inr \<lparr>rc_configured = urls, rc_relays = linked\<rparr>)"

definition reattach_step ::
  "wire_lib \<Rightarrow> (str \<Rightarrow> str + str) \<Rightarrow> str list \<Rightarrow> str list \<Rightarrow> str \<Rightarrow> str list" where
  "reattach_step lib add relays attached url =
     (case wl_relay_url lib url of
        None \<Rightarrow> attached
      | Some parsed \<Rightarrow>
          if parsed \<in> set attached then attached
          else if parsed \<in> set relays then attached @ [parsed]
          else (case add url of Inr u \<Rightarrow> attached @ [u] | Inl _ \<Rightarrow> attached))"

definition client_reattach :: "wire_lib \<Rightarrow> (str \<Rightarrow> str + str) \<Rightarrow> relay_client \<Rightarrow> relay_client" where
  "client_reattach lib add c = c\<lparr>rc_relays := foldl (reattach_step lib add (rc_relays c)) [] (rc_configured c)\<rparr>"

definition client_reconfigure :: "str list \<Rightarrow> relay_client \<Rightarrow> relay_client" where
  "client_reconfigure urls c = c\<lparr>rc_configured := urls\<rparr>"

definition client_unattached :: "wire_lib \<Rightarrow> relay_client \<Rightarrow> str list" where
  "client_unattached lib c =
     foldl (\<lambda>missing url.
       case wl_relay_url lib url of
         None \<Rightarrow> missing
       | Some parsed \<Rightarrow>
           if parsed \<notin> set (rc_relays c) \<and> parsed \<notin> set missing then missing @ [parsed] else missing)
       [] (rc_configured c)"

definition connection_set :: "str list \<Rightarrow> bool \<Rightarrow> i64 \<Rightarrow> database \<Rightarrow> str list \<times> database" where
  "connection_set configured discover now db =
     (let db' = foldl (\<lambda>db url. upsert_relay url Source_Config now db) db configured in
      (if discover
       then foldl (\<lambda>set_of r. if re_url r \<in> set set_of then set_of else set_of @ [re_url r]) configured (relays_discovered db')
       else configured, db'))"

section \<open>Facts\<close>

lemma range_resolve_ok:
  "range_resolve lo hi now = Inr r \<Longrightarrow>
    tr_from r < tr_until r \<and> (in_i64 (tr_from r) \<and> in_i64 (tr_until r) \<longrightarrow> tr_until r - tr_from r \<le> MAX_WINDOW_SECS)"
  by (auto simp: range_resolve_def Let_def saturating_sub_i64_def in_i64_def i64_bounds MAX_WINDOW_SECS_def
      MAX_WINDOW_YEARS_def split: if_splits)

lemma range_resolve_within:
  assumes "range_resolve lo hi now = Inr r" and "tr_from r < u" and "u \<le> tr_until r"
  shows "range_resolve (Some (tr_from r)) (Some u) now = Inr \<lparr>tr_from = tr_from r, tr_until = u\<rparr>"
  using assms by (auto simp: range_resolve_def Let_def saturating_sub_i64_def split: if_splits)

lemma for_kind_fields:
  assumes "for_kind kind authors vouched_keys (Some r) limit = Some f"
  shows "fi_kind f = kind" and "fi_since f = fst (filter_window r)" and "fi_until f = snd (filter_window r)"
    and "fi_limit f = limit"
  using assms by (auto simp: for_kind_def Let_def split: if_splits)

end
