(* ===== verification/Backfill.thy ===== *)
theory Backfill
  imports Delivery Requests
begin

text \<open>
  \<open>bestiario backfill\<close> (\<open>src/commands/backfill.rs\<close>): one relay and one kind walked from
  the top of a window down to its floor, page by page. The relay is the function
  \<open>fetch\<close>, which may answer differently every time: its first argument counts the requests made so
  far. The loop carries fuel; how much is enough is proved, under what a relay promises, and so is
  that the walk misses nothing the relay holds.
\<close>

section \<open>The walk\<close>

type_synonym fetch = "nat \<Rightarrow> str \<Rightarrow> nostr_filter \<Rightarrow> str + nostr_event list"

definition WINDOW_LIMIT :: nat where
  "WINDOW_LIMIT = 500"

definition MAX_DISCOVERY_ROUNDS :: nat where
  "MAX_DISCOVERY_ROUNDS = 3"

record backfill =
  bf_lib :: archive_lib
  bf_policy :: policy
  bf_key :: "str \<Rightarrow> str option"
  bf_authors :: "str list"
  bf_listed :: "str list"
  bf_window_limit :: nat

definition bf_vouched :: "backfill \<Rightarrow> database \<Rightarrow> str list" where
  "bf_vouched bf db =
     foldl (\<lambda>keys pubkey.
       case bf_key bf pubkey of
         None \<Rightarrow> keys
       | Some key \<Rightarrow> if key \<in> set keys then keys else keys @ [key]) (bf_listed bf) (platform_proven db)"

definition oldest :: "nostr_event list \<Rightarrow> i64" where
  "oldest events = (case map event_secs events of [] \<Rightarrow> 0 | t # ts \<Rightarrow> foldl min t ts)"

definition ingest_one :: "backfill \<Rightarrow> str \<Rightarrow> i64 \<Rightarrow> ingest_counts \<times> database \<Rightarrow> nostr_event \<Rightarrow> ingest_counts \<times> database" where
  "ingest_one bf relay now s e =
     (case ingest (bf_lib bf) (bf_policy bf) e relay now (snd s) of
        (outcome, db) \<Rightarrow> (record_outcome outcome (fst s), db))"

definition ingest_all :: "backfill \<Rightarrow> nostr_event list \<Rightarrow> str \<Rightarrow> i64 \<Rightarrow> database \<Rightarrow> ingest_counts \<times> database" where
  "ingest_all bf events relay now db = foldl (ingest_one bf relay now) (no_counts, db) (rev events)"

definition next_until :: "nostr_event list \<Rightarrow> i64 \<Rightarrow> i64" where
  "next_until events u =
     (let next_at = i64_add (oldest events) 1 in if next_at < u then next_at else oldest events)"

fun walk_pages ::
  "nat \<Rightarrow> backfill \<Rightarrow> fetch \<Rightarrow> str \<Rightarrow> nat \<Rightarrow> time_range \<Rightarrow> i64 \<Rightarrow> str list \<Rightarrow> i64 \<Rightarrow> nat \<Rightarrow> ingest_counts \<Rightarrow> database
    \<Rightarrow> (ingest_counts \<times> nat \<times> database) option" where
  "walk_pages 0 bf fetch relay kind r now keys u n c db = None"
| "walk_pages (Suc fuel) bf fetch relay kind r now keys u n c db =
     (if \<not> u > tr_from r then Some (c, n, db)
      else
        (case range_resolve (Some (tr_from r)) (Some u) now of
           Inl _ \<Rightarrow> Some (c, n, db)
         | Inr window \<Rightarrow>
        (case for_kind kind (bf_authors bf) keys (Some window) (Some (bf_window_limit bf)) of
           None \<Rightarrow> Some (c, n, db)
         | Some f \<Rightarrow>
        (case fetch n relay f of
           Inl _ \<Rightarrow> Some (c, n + 1, db)
         | Inr events \<Rightarrow>
             if events = [] then Some (c, n + 1, db)
             else
               (case ingest_all bf events relay now db of
                  (got, db') \<Rightarrow>
                    walk_pages fuel bf fetch relay kind r now keys (next_until events u) (n + 1)
                      (counts_add c got) db')))))"

definition walk ::
  "nat \<Rightarrow> backfill \<Rightarrow> fetch \<Rightarrow> str \<Rightarrow> nat \<Rightarrow> time_range \<Rightarrow> i64 \<Rightarrow> nat \<Rightarrow> database \<Rightarrow> (ingest_counts \<times> nat \<times> database) option" where
  "walk fuel bf fetch relay kind r now n db =
     walk_pages fuel bf fetch relay kind r now (bf_vouched bf db) (tr_until r) n no_counts db"

fun walk_kinds ::
  "nat \<Rightarrow> backfill \<Rightarrow> fetch \<Rightarrow> str \<Rightarrow> nat list \<Rightarrow> time_range \<Rightarrow> i64 \<Rightarrow> ingest_counts \<times> nat \<times> database
    \<Rightarrow> (ingest_counts \<times> nat \<times> database) option" where
  "walk_kinds fuel bf fetch relay [] r now s = Some s"
| "walk_kinds fuel bf fetch relay (kind # kinds) r now (c, n, db) =
     Option.bind (walk fuel bf fetch relay kind r now n db) (\<lambda>(got, n', db').
       walk_kinds fuel bf fetch relay kinds r now (counts_add c got, n', db'))"

fun walk_relays ::
  "nat \<Rightarrow> backfill \<Rightarrow> fetch \<Rightarrow> str list \<Rightarrow> nat list \<Rightarrow> time_range \<Rightarrow> i64 \<Rightarrow> ingest_counts \<times> nat \<times> database
    \<Rightarrow> (ingest_counts \<times> nat \<times> database) option" where
  "walk_relays fuel bf fetch [] kinds r now s = Some s"
| "walk_relays fuel bf fetch (relay # relays) kinds r now (c, n, db) =
     Option.bind (walk_kinds fuel bf fetch relay kinds r now (no_counts, n, db)) (\<lambda>(walked, n', db').
       walk_relays fuel bf fetch relays kinds r now (counts_add c walked, n', db'))"

definition requested_kinds :: "nat option \<Rightarrow> nat + nat list" where
  "requested_kinds kind =
     (case kind of
        None \<Rightarrow> Inr INDEXED_KINDS
      | Some k \<Rightarrow> if k \<in> set INDEXED_KINDS then Inr [k] else Inl k)"

definition listed_instances :: "(str \<Rightarrow> str option) \<Rightarrow> str list \<Rightarrow> str + str list" where
  "listed_instances key_of instances = sum_traverse (\<lambda>p. ok_or p (key_of p)) instances"

definition request_authors :: "(str \<Rightarrow> str option) \<Rightarrow> bool \<Rightarrow> str list \<Rightarrow> str + str list" where
  "request_authors key_of accept_unknown instances =
     (if accept_unknown then Inr [] else listed_instances key_of instances)"

definition record_requests :: "nat list \<Rightarrow> time_range \<Rightarrow> i64 \<Rightarrow> database \<Rightarrow> database" where
  "record_requests kinds r now db = foldl (\<lambda>db kind. record_indexed kind (tr_from r) now db) db kinds"

text \<open>
  The rounds of discovery: each re-reads the relays to dial, attaches what is new and walks
  only that.
\<close>

record backfill_run =
  br_client :: relay_client
  br_counts :: ingest_counts
  br_asked :: nat
  br_db :: database

fun discovery_rounds ::
  "nat \<Rightarrow> nat \<Rightarrow> backfill \<Rightarrow> fetch \<Rightarrow> (nat \<Rightarrow> str \<Rightarrow> str + str) \<Rightarrow> str list \<Rightarrow> nat list \<Rightarrow> time_range \<Rightarrow> i64
    \<Rightarrow> backfill_run \<Rightarrow> backfill_run option" where
  "discovery_rounds fuel 0 bf fetch add configured kinds r now s = Some s"
| "discovery_rounds fuel (Suc left) bf fetch add configured kinds r now s =
     (case connection_set configured True now (br_db s) of
        (set_of, db) \<Rightarrow>
          (let c = client_reconfigure set_of (br_client s) in
           if client_unattached (al_wire (bf_lib bf)) c = [] then Some (s\<lparr>br_client := c, br_db := db\<rparr>)
           else
             (let c' = client_reattach (al_wire (bf_lib bf)) (add left) c;
                  fresh_relays = filter (\<lambda>u. u \<notin> set (rc_relays c)) (rc_relays c') in
              if fresh_relays = [] then Some (s\<lparr>br_client := c', br_db := db\<rparr>)
              else
                Option.bind (walk_relays fuel bf fetch fresh_relays kinds r now (no_counts, br_asked s, db))
                  (\<lambda>(got, n, db').
                    discovery_rounds fuel left bf fetch add configured kinds r now
                      \<lparr>br_client = c', br_counts = counts_add (br_counts s) got, br_asked = n, br_db = db'\<rparr>))))"

definition walk_with_discovery ::
  "nat \<Rightarrow> backfill \<Rightarrow> fetch \<Rightarrow> (nat \<Rightarrow> str \<Rightarrow> str + str) \<Rightarrow> str list \<Rightarrow> bool \<Rightarrow> relay_client \<Rightarrow> nat list \<Rightarrow> time_range
    \<Rightarrow> i64 \<Rightarrow> database \<Rightarrow> backfill_run option" where
  "walk_with_discovery fuel bf fetch add configured discover client kinds r now db =
     Option.bind (walk_relays fuel bf fetch (rc_relays client) kinds r now (no_counts, 0, db)) (\<lambda>(c, n, db').
       let s = \<lparr>br_client = client, br_counts = c, br_asked = n, br_db = db'\<rparr> in
       if \<not> discover then Some s
       else discovery_rounds fuel MAX_DISCOVERY_ROUNDS bf fetch add configured kinds r now s)"

datatype backfill_error =
  Kind_Not_Indexed nat
  | Bad_Range range_error
  | Not_Connected client_error
  | Bad_Instance str

definition backfill_command ::
  "nat \<Rightarrow> backfill \<Rightarrow> fetch \<Rightarrow> (nat \<Rightarrow> str \<Rightarrow> str + str) \<Rightarrow> str list \<Rightarrow> bool \<Rightarrow> str list \<Rightarrow> i64 \<Rightarrow> i64 option \<Rightarrow> i64 option
    \<Rightarrow> nat option \<Rightarrow> i64 \<Rightarrow> database \<Rightarrow> backfill_error + (ingest_counts \<times> database) option" where
  "backfill_command fuel bf fetch add configured discover instances backfill_from cli_from cli_until kind now db =
     and_then (map_sum Kind_Not_Indexed (\<lambda>x. x) (requested_kinds kind)) (\<lambda>kinds.
     and_then (map_sum Bad_Range (\<lambda>x. x)
         (range_resolve (Some (case cli_from of Some t \<Rightarrow> t | None \<Rightarrow> backfill_from)) cli_until now)) (\<lambda>r.
     case connection_set configured discover now db of (set_of, db') \<Rightarrow>
     and_then (map_sum Not_Connected (\<lambda>x. x) (client_connect (add MAX_DISCOVERY_ROUNDS) set_of)) (\<lambda>client.
     and_then (map_sum Bad_Instance (\<lambda>x. x)
         (request_authors (bf_key bf) (po_accept_unknown_instances (bf_policy bf)) instances)) (\<lambda>authors.
     and_then (map_sum Bad_Instance (\<lambda>x. x) (listed_instances (bf_key bf) instances)) (\<lambda>listed.
     Inr (map_option (\<lambda>s. (br_counts s, record_requests kinds r now (br_db s)))
       (walk_with_discovery fuel (bf\<lparr>bf_authors := authors, bf_listed := listed\<rparr>) fetch add configured discover
         client kinds r now db')))))))"

section \<open>What a relay promises\<close>

text \<open>NIP-01: which events a filter asks for.\<close>

definition matches_filter :: "nostr_filter \<Rightarrow> nostr_event \<Rightarrow> bool" where
  "matches_filter f e \<longleftrightarrow> ne_kind e = fi_kind f \<and>
     is_none_or (fi_authors f) (\<lambda>keys. ne_pubkey e \<in> set keys) \<and>
     is_none_or (fi_identifier f) (\<lambda>i. \<exists>t \<in> set (ne_tags e). take 2 t = [''d'', i]) \<and>
     is_none_or (fi_since f) (\<lambda>t. t \<le> ne_created_at e) \<and> is_none_or (fi_until f) (\<lambda>t. ne_created_at e \<le> t)"

text \<open>
  A relay that holds \<open>H\<close> answers with events that match, with some if there are any, and with the
  newest first: what it leaves out is no newer than what it sends.
\<close>

definition honest_relay :: "fetch \<Rightarrow> str \<Rightarrow> nostr_event set \<Rightarrow> bool" where
  "honest_relay fetch relay H \<longleftrightarrow>
     (\<forall>n f. \<exists>es. fetch n relay f = Inr es \<and> set es \<subseteq> {e \<in> H. matches_filter f e} \<and>
        (es = [] \<longrightarrow> {e \<in> H. matches_filter f e} = {}) \<and>
        (\<forall>e \<in> H. \<forall>x \<in> set es. matches_filter f e \<and> e \<notin> set es \<longrightarrow> ne_created_at e \<le> ne_created_at x))"

text \<open>No second holds more events than a page: a page that lies in the last second of its window has all of it.\<close>

definition seconds_fit :: "fetch \<Rightarrow> str \<Rightarrow> nostr_event set \<Rightarrow> bool" where
  "seconds_fit fetch relay H \<longleftrightarrow>
     (\<forall>n f es t. fetch n relay f = Inr es \<and> fi_until f = Some t \<and> (\<forall>x \<in> set es. ne_created_at x = t) \<longrightarrow>
        {e \<in> H. matches_filter f e \<and> ne_created_at e = t} \<subseteq> set es)"

section \<open>Each page\<close>

lemma deliver_all_append: "deliver_all lib policy (a @ b) db = deliver_all lib policy b (deliver_all lib policy a db)"
  by (simp add: deliver_all_def)

lemma counts_total_record [simp]: "counts_total (record_outcome outcome c) = counts_total c + 1"
  by (cases outcome) (simp_all add: counts_total_def)

lemma counts_total_add [simp]: "counts_total (counts_add a b) = counts_total a + counts_total b"
  by (simp add: counts_total_def counts_add_def)

lemma counts_total_none [simp]: "counts_total no_counts = 0"
  by (simp add: counts_total_def no_counts_def)

definition page_deliveries :: "nostr_event list \<Rightarrow> str \<Rightarrow> i64 \<Rightarrow> delivered_event list" where
  "page_deliveries events relay now = map (\<lambda>e. (e, relay, now)) (rev events)"

lemma ingest_all_delivers:
  "snd (ingest_all bf events relay now db) =
    deliver_all (bf_lib bf) (bf_policy bf) (page_deliveries events relay now) db \<and>
   counts_total (fst (ingest_all bf events relay now db)) = length events"
proof -
  have "snd (foldl (ingest_one bf relay now) s es) =
      foldl (\<lambda>db (e, url, t). snd (ingest (bf_lib bf) (bf_policy bf) e url t db)) (snd s) (map (\<lambda>e. (e, relay, now)) es) \<and>
    counts_total (fst (foldl (ingest_one bf relay now) s es)) = counts_total (fst s) + length es" for s es
    by (induction es arbitrary: s) (simp_all add: ingest_one_def split: prod.splits)
  then show ?thesis by (simp add: ingest_all_def deliver_all_def page_deliveries_def)
qed

lemma oldest_least:
  assumes "events \<noteq> []"
  shows "\<exists>x \<in> set events. event_secs x = oldest events" and "\<forall>x \<in> set events. oldest events \<le> event_secs x"
proof -
  have "oldest events = Min (event_secs ` set events)"
    using assms by (cases events) (simp_all add: oldest_def foldl_min)
  moreover have "Min (event_secs ` set events) \<in> event_secs ` set events" using assms by (intro Min_in) auto
  ultimately show "\<exists>x \<in> set events. event_secs x = oldest events" "\<forall>x \<in> set events. oldest events \<le> event_secs x"
    by auto
qed

lemma is_none_or_then_some [simp]: "is_none_or (then_some b x) P \<longleftrightarrow> (b \<longrightarrow> P x)"
  by (cases b) simp_all

lemma window_matches:
  assumes f: "for_kind kind authors keys (Some \<lparr>tr_from = lo, tr_until = hi\<rparr>) limit = Some f"
    and g: "for_kind kind authors keys (Some \<lparr>tr_from = lo, tr_until = u\<rparr>) limit' = Some g"
    and "0 \<le> lo" "lo < u" "u \<le> hi" "hi < i64_max"
  shows "matches_filter g e \<longleftrightarrow> matches_filter f e \<and> int (ne_created_at e) < u"
  using assms
  by (auto simp: for_kind_def Let_def filter_window_def matches_filter_def split: if_splits)

lemma window_floor:
  assumes "for_kind kind authors keys (Some \<lparr>tr_from = lo, tr_until = hi\<rparr>) limit = Some f" and "matches_filter f e"
  shows "lo \<le> int (ne_created_at e)"
  using assms by (auto simp: for_kind_def Let_def filter_window_def matches_filter_def split: if_splits)

lemma window_ceiling:
  assumes "for_kind kind authors keys (Some \<lparr>tr_from = lo, tr_until = u\<rparr>) limit = Some f" and "matches_filter f e"
    and "0 \<le> lo" "lo < u" "u < i64_max"
  shows "int (ne_created_at e) < u" and "event_secs e = int (ne_created_at e)"
proof -
  show below: "int (ne_created_at e) < u"
    using assms by (auto simp: for_kind_def Let_def filter_window_def matches_filter_def split: if_splits)
  then show "event_secs e = int (ne_created_at e)"
    using assms(5) by (simp add: event_secs_def wrap_i64_id in_i64_def i64_bounds)
qed

section \<open>The walk returns and misses nothing\<close>

lemma page_progress:
  assumes "events \<noteq> []" and "\<forall>x \<in> set events. event_secs x = int (ne_created_at x) \<and> int (ne_created_at x) < u"
    and "u < i64_max"
  shows "next_until events u < u" and "0 \<le> next_until events u"
    and "next_until events u = oldest events + 1 \<or> next_until events u = oldest events \<and> oldest events = u - 1"
proof -
  obtain x where x: "x \<in> set events" "event_secs x = oldest events" using oldest_least(1) [OF assms(1)] by blast
  then have "0 \<le> oldest events" "oldest events < u" using assms(2) by force+
  moreover from this have "i64_add (oldest events) 1 = oldest events + 1"
    using assms(3) by (intro i64_add_exact) (simp add: in_i64_def i64_bounds)
  ultimately show "next_until events u < u" "0 \<le> next_until events u"
    "next_until events u = oldest events + 1 \<or> next_until events u = oldest events \<and> oldest events = u - 1"
    by (auto simp: next_until_def Let_def)
qed

lemma page_covers:
  assumes events: "events \<noteq> []" "set events \<subseteq> {e \<in> H. matches_filter g e}"
    and newest: "\<forall>e \<in> H. \<forall>x \<in> set events. matches_filter g e \<and> e \<notin> set events \<longrightarrow> ne_created_at e \<le> ne_created_at x"
    and fit: "\<forall>t. fi_until g = Some t \<and> (\<forall>x \<in> set events. ne_created_at x = t) \<longrightarrow>
      {e \<in> H. matches_filter g e \<and> ne_created_at e = t} \<subseteq> set events"
    and until: "fi_until g = Some (nat (u - 1))" "0 < u" "u < i64_max"
    and below: "\<And>e. matches_filter g e \<Longrightarrow> int (ne_created_at e) < u \<and> event_secs e = int (ne_created_at e)"
  shows "{e \<in> H. matches_filter g e} = set events \<union> {e \<in> H. matches_filter g e \<and> int (ne_created_at e) < next_until events u}"
proof -
  have secs: "\<forall>x \<in> set events. event_secs x = int (ne_created_at x) \<and> int (ne_created_at x) < u" using events(2) below by auto
  note next_at = page_progress(3) [OF events(1) secs until(3)]
  obtain x where x: "x \<in> set events" "event_secs x = oldest events" using oldest_least(1) [OF events(1)] by blast
  have "int (ne_created_at e) < next_until events u" if e: "e \<in> H" "matches_filter g e" "e \<notin> set events" for e
  proof (rule ccontr)
    assume late: "\<not> int (ne_created_at e) < next_until events u"
    have "int (ne_created_at e) \<le> oldest events" using newest e x secs by force
    with late next_at have last_second: "next_until events u = oldest events" "oldest events = u - 1"
      "int (ne_created_at e) = u - 1" by linarith+
    then have "ne_created_at y = nat (u - 1)" if "y \<in> set events" for y
      using secs oldest_least(2) [OF events(1)] that by force
    then have "e \<in> set events" using fit until(1) e last_second(3) by force
    with e(3) show False by simp
  qed
  then show ?thesis using events(2) by blast
qed

lemma walk_pages_complete:
  assumes relay: "honest_relay fetch relay H" "seconds_fit fetch relay H"
    and range: "range_resolve lo0 hi0 now = Inr r" "0 \<le> tr_from r" "tr_until r < i64_max"
    and f: "for_kind kind (bf_authors bf) keys (Some r) (Some (bf_window_limit bf)) = Some f"
  shows "u \<le> tr_until r \<Longrightarrow> nat (u - tr_from r) < fuel \<Longrightarrow>
    \<exists>c' n' ds. walk_pages fuel bf fetch relay kind r now keys u n c db =
        Some (c', n', deliver_all (bf_lib bf) (bf_policy bf) ds db) \<and>
      counts_total c' = counts_total c + length ds \<and>
      fst ` set ds = {e \<in> H. matches_filter f e \<and> int (ne_created_at e) < u}"
proof (induction fuel arbitrary: u n c db)
  case (Suc fuel)
  have f': "for_kind kind (bf_authors bf) keys (Some \<lparr>tr_from = tr_from r, tr_until = tr_until r\<rparr>)
      (Some (bf_window_limit bf)) = Some f" using f by (cases r) simp
  show ?case
  proof (cases "u > tr_from r")
    case False
    then have "{e \<in> H. matches_filter f e \<and> int (ne_created_at e) < u} = {}"
      using window_floor [OF f'] by fastforce
    with False show ?thesis by (intro exI [of _ c] exI [of _ n] exI [of _ "[]"]) simp
  next
    case True
    let ?w = "\<lparr>tr_from = tr_from r, tr_until = u\<rparr>"
    have w: "range_resolve (Some (tr_from r)) (Some u) now = Inr ?w"
      using range_resolve_within [OF range(1) True Suc.prems(1)] .
    obtain g where g: "for_kind kind (bf_authors bf) keys (Some ?w) (Some (bf_window_limit bf)) = Some g"
      using f by (auto simp: for_kind_def Let_def split: if_splits)
    have u: "u < i64_max" "0 < u" using Suc.prems(1) range(2,3) True by linarith+
    have matches: "matches_filter g e \<longleftrightarrow> matches_filter f e \<and> int (ne_created_at e) < u" for e
      using f' g range(2) True Suc.prems(1) range(3) by (rule window_matches)
    obtain es where es: "fetch n relay g = Inr es" "set es \<subseteq> {e \<in> H. matches_filter g e}"
      "es = [] \<longrightarrow> {e \<in> H. matches_filter g e} = {}"
      "\<forall>e \<in> H. \<forall>x \<in> set es. matches_filter g e \<and> e \<notin> set es \<longrightarrow> ne_created_at e \<le> ne_created_at x"
      using relay(1) [unfolded honest_relay_def, rule_format, of n g] by blast
    show ?thesis
    proof (cases "es = []")
      case True
      then have "walk_pages (Suc fuel) bf fetch relay kind r now keys u n c db = Some (c, n + 1, db)"
        using \<open>u > tr_from r\<close> w g es(1) by simp
      then show ?thesis using True es(3) matches
        by (intro exI [of _ c] exI [of _ "n + 1"] exI [of _ "[]"]) auto
    next
      case False
      let ?u = "next_until es u" and ?ds = "page_deliveries es relay now"
      obtain got db' where got: "ingest_all bf es relay now db = (got, db')" by fastforce
      with ingest_all_delivers [of bf es relay now db]
      have got': "db' = deliver_all (bf_lib bf) (bf_policy bf) ?ds db" "counts_total got = length es" by simp_all
      have below: "matches_filter g e \<Longrightarrow> int (ne_created_at e) < u \<and> event_secs e = int (ne_created_at e)" for e
        using window_ceiling [OF g _ range(2) \<open>u > tr_from r\<close> u(1)] by blast
      have secs: "\<forall>x \<in> set es. event_secs x = int (ne_created_at x) \<and> int (ne_created_at x) < u" using es(2) below by auto
      have next_at: "?u < u" "0 \<le> ?u" using page_progress(1,2) [OF False secs u(1)] by blast+
      have "fi_until g = Some (nat (u - 1))"
        using for_kind_fields(3) [OF g] u by (simp add: filter_window_def)
      moreover have "\<forall>t. fi_until g = Some t \<and> (\<forall>x \<in> set es. ne_created_at x = t) \<longrightarrow>
          {e \<in> H. matches_filter g e \<and> ne_created_at e = t} \<subseteq> set es"
        using relay(2) es(1) unfolding seconds_fit_def by blast
      ultimately have cover: "{e \<in> H. matches_filter g e} =
          set es \<union> {e \<in> H. matches_filter g e \<and> int (ne_created_at e) < ?u}"
        using page_covers [OF False es(2,4)] u below by blast
      obtain c' n' ds where IH: "walk_pages fuel bf fetch relay kind r now keys ?u (n + 1) (counts_add c got) db' =
          Some (c', n', deliver_all (bf_lib bf) (bf_policy bf) ds db')"
        "counts_total c' = counts_total (counts_add c got) + length ds"
        "fst ` set ds = {e \<in> H. matches_filter f e \<and> int (ne_created_at e) < ?u}"
        using Suc.IH [of ?u "n + 1" "counts_add c got" db'] next_at Suc.prems \<open>u > tr_from r\<close> by force
      have "walk_pages (Suc fuel) bf fetch relay kind r now keys u n c db =
          Some (c', n', deliver_all (bf_lib bf) (bf_policy bf) (?ds @ ds) db)"
        using \<open>u > tr_from r\<close> w g es(1) False got IH(1) got'(1) by (simp add: deliver_all_append)
      moreover have "fst ` set (?ds @ ds) = {e \<in> H. matches_filter f e \<and> int (ne_created_at e) < u}"
      proof -
        have "fst ` set (?ds @ ds) = set es \<union> {e \<in> H. matches_filter f e \<and> int (ne_created_at e) < ?u}"
          by (simp add: page_deliveries_def image_Un IH(3) image_image)
        also have "\<dots> = {e \<in> H. matches_filter g e}"
          unfolding cover using matches next_at(1) by fastforce
        finally show ?thesis by (simp add: matches)
      qed
      moreover have "counts_total c' = counts_total c + length (?ds @ ds)"
        using IH(2) got'(2) by (simp add: page_deliveries_def)
      ultimately show ?thesis by blast
    qed
  qed
qed simp

text \<open>
  C6. The backwards walk ends and misses nothing: against a relay that answers filters as NIP-01 says,
  newest first, and holds no more events in one second than it sends in a page, a walk with one step for every second of
  its window returns, and what it fed to the pipeline is exactly the events the relay holds
  of that kind in that window, counted one by one.
\<close>

theorem backfill_walk_complete:
  assumes "honest_relay fetch relay H" and "seconds_fit fetch relay H"
    and "range_resolve lo hi now = Inr r" and "0 \<le> tr_from r" and "tr_until r < i64_max"
    and "for_kind kind (bf_authors bf) (bf_vouched bf db) (Some r) (Some (bf_window_limit bf)) = Some f"
    and "nat (tr_until r - tr_from r) < fuel"
  shows "\<exists>c n' ds. walk fuel bf fetch relay kind r now n db =
      Some (c, n', deliver_all (bf_lib bf) (bf_policy bf) ds db) \<and>
    fst ` set ds = {e \<in> H. matches_filter f e} \<and> counts_total c = length ds"
proof -
  have f: "for_kind kind (bf_authors bf) (bf_vouched bf db) (Some \<lparr>tr_from = tr_from r, tr_until = tr_until r\<rparr>)
      (Some (bf_window_limit bf)) = Some f" using assms(6) by (cases r) simp
  have lt: "tr_from r < tr_until r" using range_resolve_ok [OF assms(3)] by simp
  have "int (ne_created_at e) < tr_until r" if "matches_filter f e" for e
    using f that assms(4) lt assms(5) by (rule window_ceiling(1))
  then have "{e \<in> H. matches_filter f e \<and> int (ne_created_at e) < tr_until r} = {e \<in> H. matches_filter f e}" by blast
  then show ?thesis
    using walk_pages_complete [OF assms(1-6), of "tr_until r" fuel n no_counts db] assms(7)
    by (simp add: walk_def) blast
qed

definition example_fetch :: fetch where
  "example_fetch n relay f = Inr (if matches_filter f example_event then [example_event] else [])"

definition example_backfill :: backfill where
  "example_backfill = \<lparr>bf_lib = example_archive_lib, bf_policy = example_policy, bf_key = Some, bf_authors = [],
     bf_listed = [], bf_window_limit = WINDOW_LIMIT\<rparr>"

theorem backfill_walk_complete_witness:
  "\<exists>c n' ds. walk 21 example_backfill example_fetch ''wss://r'' ORDER_KIND
      \<lparr>tr_from = 1771999990, tr_until = 1772000010\<rparr> 1772000010 0 empty_database =
      Some (c, n', deliver_all example_archive_lib example_policy ds empty_database) \<and>
    fst ` set ds = {example_event}"
proof -
  let ?r = "\<lparr>tr_from = 1771999990, tr_until = 1772000010\<rparr>"
  have relay: "honest_relay example_fetch ''wss://r'' {example_event}" "seconds_fit example_fetch ''wss://r'' {example_event}"
    by (auto simp: honest_relay_def seconds_fit_def example_fetch_def)
  have r: "range_resolve (Some 1771999990) (Some 1772000010) 1772000010 = Inr ?r"
    by (simp add: range_resolve_def saturating_sub_i64_def i64_bounds MAX_WINDOW_SECS_def MAX_WINDOW_YEARS_def)
  obtain f where f: "for_kind ORDER_KIND [] (bf_vouched example_backfill empty_database) (Some ?r) (Some WINDOW_LIMIT) = Some f"
    by (simp add: for_kind_def UNTAGGED_KINDS_def kind_numbers Let_def)
  then have "matches_filter f example_event"
    by (auto simp: for_kind_def UNTAGGED_KINDS_def kind_numbers Let_def matches_filter_def filter_window_def)
  then have "{e \<in> {example_event}. matches_filter f e} = {example_event}" by auto
  with backfill_walk_complete [OF relay r, of ORDER_KIND example_backfill empty_database f 21 0] f show ?thesis
    by (simp add: example_backfill_def i64_bounds) blast
qed

text \<open>
  The promise is needed: the code relies on a relay answering below the bound and does not
  check it. Against one that ignores \<open>until\<close> and repeats the same event, no number of steps ends the walk.
\<close>

lemma walk_needs_honesty:
  assumes "\<And>n f. fetch n relay f = Inr [e]" and "tr_from r < event_secs e" and "event_secs e \<le> u" and "u \<le> tr_until r"
    and "range_resolve lo hi now = Inr r" and "tr_until r < i64_max"
    and "kind \<notin> set UNTAGGED_KINDS"
  shows "walk_pages fuel bf fetch relay kind r now keys u n c db = None"
  using assms(3,4)
proof (induction fuel arbitrary: u n c db)
  case (Suc fuel)
  have u: "tr_from r < u" using Suc.prems assms(2) by linarith
  obtain f where f: "for_kind kind (bf_authors bf) keys (Some \<lparr>tr_from = tr_from r, tr_until = u\<rparr>)
      (Some (bf_window_limit bf)) = Some f"
    using assms(7) by (simp add: for_kind_def Let_def)
  have "in_i64 (event_secs e)" by (simp add: event_secs_def)
  then have "i64_add (event_secs e) 1 = event_secs e + 1"
    using Suc.prems assms(6) by (intro i64_add_exact) (auto simp: in_i64_def i64_bounds)
  then have "event_secs e \<le> next_until [e] u" "next_until [e] u \<le> u"
    using Suc.prems by (auto simp: next_until_def oldest_def Let_def)
  then have "walk_pages fuel bf fetch relay kind r now keys (next_until [e] u) n' c' db' = None" for n' c' db'
    using Suc by simp
  then show ?case
    using u f assms(1) range_resolve_within [OF assms(5) u Suc.prems(2)] by (simp split: prod.splits)
qed simp

end
