(* ===== verification/Sync.thy ===== *)
theory Sync
  imports Backfill
begin

text \<open>
  The live follower (\<open>src/commands/sync.rs\<close>) and the subscription it reads
  (\<open>src/nostr/client.rs\<close>). What one turn of the loop computes is a function; the loop itself, which
  reacts to whatever the relays, the clock and the operator do next, is a step relation whose
  rules are the arms of the code's \<open>select!\<close> and \<open>match\<close> blocks. A failing database ends the
  run with an error and is not modelled.
\<close>

section \<open>Subscriptions\<close>

datatype relay_message = Msg_Event str nostr_event | Msg_Eose str | Msg_Other

datatype notification = Note_Message str relay_message | Note_Other

datatype incoming = Incoming_Event str nostr_event | End_Of_Stored str

text \<open>The notifications still to come are a list; reading consumes it.\<close>

fun next_incoming :: "str \<Rightarrow> notification list \<Rightarrow> (incoming \<times> notification list) option" where
  "next_incoming sid [] = None"
| "next_incoming sid (Note_Other # rest) = next_incoming sid rest"
| "next_incoming sid (Note_Message relay (Msg_Event sub e) # rest) =
     (if sub \<noteq> sid then next_incoming sid rest else Some (Incoming_Event relay e, rest))"
| "next_incoming sid (Note_Message relay (Msg_Eose sub) # rest) =
     (if sub \<noteq> sid then next_incoming sid rest else Some (End_Of_Stored relay, rest))"
| "next_incoming sid (Note_Message relay Msg_Other # rest) = next_incoming sid rest"

lemma next_incoming_shorter: "next_incoming sid ns = Some (m, rest) \<Longrightarrow> length rest < length ns"
  by (induction sid ns rule: next_incoming.induct) (auto split: if_splits)

function next_event :: "str \<Rightarrow> notification list \<Rightarrow> ((str \<times> nostr_event) \<times> notification list) option" where
  "next_event sid ns =
     (case next_incoming sid ns of
        None \<Rightarrow> None
      | Some (Incoming_Event relay e, rest) \<Rightarrow> Some ((relay, e), rest)
      | Some (End_Of_Stored relay, rest) \<Rightarrow> next_event sid rest)"
  by pat_completeness auto

termination
  by (relation "measure (\<lambda>(sid, ns). length ns)") (auto dest: next_incoming_shorter)

declare next_event.simps [simp del]

section \<open>Settings and constants\<close>

definition BACKOFF_INITIAL :: nat where
  "BACKOFF_INITIAL = 1"

definition BACKOFF_MAX :: nat where
  "BACKOFF_MAX = 60"

fun tagged_kinds :: "nat list \<Rightarrow> nat list" where
  "tagged_kinds [] = []"
| "tagged_kinds (kind # kinds) =
     (if kind \<in> set UNTAGGED_KINDS then tagged_kinds kinds else kind # tagged_kinds kinds)"

definition TAGGED_KINDS :: "nat list" where
  "TAGGED_KINDS = tagged_kinds INDEXED_KINDS"

text \<open>
  The follower's own fields. \<open>sy_settings\<close> holds the configured relays when the run follows what it
  discovers, \<open>sy_key\<close> stands for \<open>PublicKey::parse\<close>.
\<close>

record follower =
  sy_lib :: archive_lib
  sy_policy :: policy
  sy_key :: "str \<Rightarrow> str option"
  sy_authors :: "str list"
  sy_listed :: "str list"
  sy_overlap :: i64
  sy_settings :: "str list option"

definition with_discovery :: "bool \<Rightarrow> str list \<Rightarrow> follower \<Rightarrow> follower" where
  "with_discovery discover_relays configured sy = sy\<lparr>sy_settings := then_some discover_relays configured\<rparr>"

definition resume_from :: "i64 option \<Rightarrow> i64 \<Rightarrow> i64 option" where
  "resume_from cursor overlap = map_option (\<lambda>c. max (i64_sub c overlap) 0) cursor"

definition backoff :: "nat \<Rightarrow> nat" where
  "backoff attempt =
     (let doublings = min (attempt - 1) 31 in min (BACKOFF_INITIAL * 2 ^ doublings) BACKOFF_MAX)"

section \<open>What is asked for\<close>

definition sync_vouched :: "follower \<Rightarrow> database \<Rightarrow> str list" where
  "sync_vouched sy db =
     foldl (\<lambda>keys pubkey.
       case sy_key sy pubkey of
         None \<Rightarrow> keys
       | Some key \<Rightarrow> if key \<in> set keys then keys else keys @ [key]) (sy_listed sy) (platform_proven db)"

definition sync_filter ::
  "follower \<Rightarrow> str \<Rightarrow> nat \<Rightarrow> str list \<Rightarrow> i64 \<Rightarrow> database \<Rightarrow> nostr_filter option \<times> database" where
  "sync_filter sy relay kind keys now db =
     (let cursor = map_option cu_last_created_at (get_cursor db relay kind);
          resume = resume_from cursor (sy_overlap sy)
      in case for_kind kind (sy_authors sy) keys (map_option range_onwards resume) None of
           None \<Rightarrow> (None, db)
         | Some f \<Rightarrow> (Some f, record_indexed kind (map_or 0 (\<lambda>t. t) resume) now db))"

fun relay_filters ::
  "follower \<Rightarrow> str \<Rightarrow> nat list \<Rightarrow> str list \<Rightarrow> i64 \<Rightarrow> database \<Rightarrow> nostr_filter list \<times> database" where
  "relay_filters sy relay [] keys now db = ([], db)"
| "relay_filters sy relay (kind # kinds) keys now db =
     (case sync_filter sy relay kind keys now db of (f, db') \<Rightarrow>
      case relay_filters sy relay kinds keys now db' of (fs, db'') \<Rightarrow>
        (case f of None \<Rightarrow> fs | Some x \<Rightarrow> x # fs, db''))"

fun targets_of ::
  "follower \<Rightarrow> str list \<Rightarrow> nat list \<Rightarrow> str list \<Rightarrow> i64 \<Rightarrow> database \<Rightarrow> (str \<times> nostr_filter list) list \<times> database" where
  "targets_of sy [] kinds keys now db = ([], db)"
| "targets_of sy (relay # relays) kinds keys now db =
     (case relay_filters sy relay kinds keys now db of (fs, db') \<Rightarrow>
      case targets_of sy relays kinds keys now db' of (ts, db'') \<Rightarrow>
        (if fs = [] then ts else (relay, fs) # ts, db''))"

definition sync_targets ::
  "follower \<Rightarrow> nat list \<Rightarrow> i64 \<Rightarrow> relay_client \<Rightarrow> database \<Rightarrow> (str \<times> nostr_filter list) list \<times> database" where
  "sync_targets sy kinds now client db = targets_of sy (rc_relays client) kinds (sync_vouched sy db) now db"

definition rediscover :: "follower \<Rightarrow> i64 \<Rightarrow> relay_client \<Rightarrow> database \<Rightarrow> bool \<times> relay_client \<times> database" where
  "rediscover sy now client db =
     (case sy_settings sy of
        None \<Rightarrow> (False, client, db)
      | Some configured \<Rightarrow>
          (case connection_set configured True now db of (set_of, db') \<Rightarrow>
             let c = client_reconfigure set_of client in
             (client_unattached (al_wire (sy_lib sy)) c \<noteq> [], c, db')))"

section \<open>The loop\<close>

text \<open>
  Where the follower is: at the top of its loop, reading the priming subscription until the
  relays it waits for have replayed, about to subscribe to everything, reading that
  subscription, waiting to reconnect, or stopped.
\<close>

datatype phase =
  Turning
  | Priming "(str \<times> nostr_filter list) list" "str list" bool
  | Primed
  | Following "(str \<times> nostr_filter list) list"
  | Waiting nat
  | Stopped

record sync_state =
  ss_db :: database
  ss_client :: relay_client
  ss_counts :: ingest_counts
  ss_attempt :: nat
  ss_phase :: phase

definition names_relays :: "ingest_outcome \<Rightarrow> nostr_event \<Rightarrow> bool" where
  "names_relays outcome e \<longleftrightarrow> outcome = Stored \<and> ne_kind e = RELAY_LIST_KIND"

text \<open>The attempts are a \<open>u32\<close>.\<close>

definition retry :: "sync_state \<Rightarrow> sync_state" where
  "retry s = (let n = (ss_attempt s + 1) mod 2 ^ 32 in s\<lparr>ss_attempt := n, ss_phase := Waiting (backoff n)\<rparr>)"

text \<open>How a turn begins: the relays are re-read and dialled, and the tagged kinds are asked for.\<close>

definition open_priming :: "follower \<Rightarrow> (str \<Rightarrow> str + str) \<Rightarrow> i64 \<Rightarrow> i64 \<Rightarrow> bool \<Rightarrow> sync_state \<Rightarrow> sync_state" where
  "open_priming sy add now later taken s =
     (case rediscover sy now (ss_client s) (ss_db s) of (_, c, db) \<Rightarrow>
      let c' = client_reattach (al_wire (sy_lib sy)) add c in
      case sync_targets sy TAGGED_KINDS later c' db of (ts, db') \<Rightarrow>
        s\<lparr>ss_client := c', ss_db := db',
          ss_phase := (if taken then Priming ts (bt_set_of (map fst ts)) False else Primed)\<rparr>)"

definition read_event :: "follower \<Rightarrow> str \<Rightarrow> nostr_event \<Rightarrow> i64 \<Rightarrow> sync_state \<Rightarrow> bool \<times> sync_state" where
  "read_event sy relay e now s =
     (case ingest (sy_lib sy) (sy_policy sy) e relay now (ss_db s) of (outcome, db) \<Rightarrow>
        (names_relays outcome e, s\<lparr>ss_db := db, ss_counts := record_outcome outcome (ss_counts s)\<rparr>))"

definition look_again :: "follower \<Rightarrow> i64 \<Rightarrow> phase \<Rightarrow> sync_state \<Rightarrow> sync_state" where
  "look_again sy now otherwise s =
     (case rediscover sy now (ss_client s) (ss_db s) of (widened, c, db) \<Rightarrow>
        s\<lparr>ss_client := c, ss_db := db, ss_phase := (if widened then Turning else otherwise)\<rparr>)"

definition close_priming :: "follower \<Rightarrow> i64 \<Rightarrow> bool \<Rightarrow> sync_state \<Rightarrow> sync_state" where
  "close_priming sy now named s = (if named then look_again sy now Primed s else s\<lparr>ss_phase := Primed\<rparr>)"

definition open_following :: "follower \<Rightarrow> i64 \<Rightarrow> bool \<Rightarrow> sync_state \<Rightarrow> sync_state" where
  "open_following sy now taken s =
     (case sync_targets sy INDEXED_KINDS now (ss_client s) (ss_db s) of (ts, db) \<Rightarrow>
        if taken then s\<lparr>ss_db := db, ss_attempt := 0, ss_phase := Following ts\<rparr>
        else retry (s\<lparr>ss_db := db\<rparr>))"

definition follow_event :: "follower \<Rightarrow> str \<Rightarrow> nostr_event \<Rightarrow> i64 \<Rightarrow> i64 \<Rightarrow> sync_state \<Rightarrow> sync_state" where
  "follow_event sy relay e now later s =
     (case read_event sy relay e now s of (named, s') \<Rightarrow>
        if named then look_again sy later (ss_phase s) s' else s')"

text \<open>
  \<open>E\<close> is what the relays can send. A deadline passes and a stream ends whenever they do, so the
  priming may be closed with relays still outstanding.
\<close>

inductive sync_step :: "follower \<Rightarrow> nostr_event set \<Rightarrow> sync_state \<Rightarrow> sync_state \<Rightarrow> bool" for sy E where
  begin_turn: "ss_phase s = Turning \<Longrightarrow> sync_step sy E s (open_priming sy add now later taken s)"
| prime_eose: "ss_phase s = Priming ts waiting named \<Longrightarrow> waiting \<noteq> [] \<Longrightarrow>
    sync_step sy E s (s\<lparr>ss_phase := Priming ts (removeAll relay waiting) named\<rparr>)"
| prime_event: "ss_phase s = Priming ts waiting named \<Longrightarrow> waiting \<noteq> [] \<Longrightarrow> e \<in> E \<Longrightarrow>
    read_event sy relay e now s = (listed, s') \<Longrightarrow>
    sync_step sy E s (s'\<lparr>ss_phase := Priming ts waiting (named \<or> listed)\<rparr>)"
| prime_closes: "ss_phase s = Priming ts waiting named \<Longrightarrow> sync_step sy E s (close_priming sy now named s)"
| prime_shutdown: "ss_phase s = Priming ts waiting named \<Longrightarrow> waiting \<noteq> [] \<Longrightarrow>
    sync_step sy E s (s\<lparr>ss_phase := Stopped\<rparr>)"
| begin_following: "ss_phase s = Primed \<Longrightarrow> sync_step sy E s (open_following sy now taken s)"
| follow_reads: "ss_phase s = Following ts \<Longrightarrow> e \<in> E \<Longrightarrow> sync_step sy E s (follow_event sy relay e now later s)"
| follow_ends: "ss_phase s = Following ts \<Longrightarrow> sync_step sy E s (retry s)"
| follow_shutdown: "ss_phase s = Following ts \<Longrightarrow> sync_step sy E s (s\<lparr>ss_phase := Stopped\<rparr>)"
| wait_over: "ss_phase s = Waiting w \<Longrightarrow> sync_step sy E s (s\<lparr>ss_phase := Turning\<rparr>)"
| wait_shutdown: "ss_phase s = Waiting w \<Longrightarrow> sync_step sy E s (s\<lparr>ss_phase := Stopped\<rparr>)"

inductive_cases sync_stepE: "sync_step sy E s s'"

definition follow_start :: "relay_client \<Rightarrow> database \<Rightarrow> sync_state" where
  "follow_start client db =
     \<lparr>ss_db = db, ss_client = client, ss_counts = no_counts, ss_attempt = 0, ss_phase = Turning\<rparr>"

definition following :: "follower \<Rightarrow> nostr_event set \<Rightarrow> relay_client \<Rightarrow> database \<Rightarrow> sync_state \<Rightarrow> bool" where
  "following sy E client db s \<longleftrightarrow> (sync_step sy E)\<^sup>*\<^sup>* (follow_start client db) s"

text \<open>\<open>bestiario sync\<close>, up to the first turn of its loop.\<close>

definition sync_command ::
  "archive_lib \<Rightarrow> policy \<Rightarrow> (str \<Rightarrow> str option) \<Rightarrow> (str \<Rightarrow> str + str) \<Rightarrow> str list \<Rightarrow> bool \<Rightarrow> str list \<Rightarrow> i64 \<Rightarrow> i64 \<Rightarrow> database
    \<Rightarrow> backfill_error + (follower \<times> sync_state)" where
  "sync_command lib policy key_of add configured discover instances overlap now db =
     (case connection_set configured discover now db of (set_of, db') \<Rightarrow>
      and_then (map_sum Not_Connected (\<lambda>x. x) (client_connect add set_of)) (\<lambda>client.
      and_then (map_sum Bad_Instance (\<lambda>x. x)
          (request_authors key_of (po_accept_unknown_instances policy) instances)) (\<lambda>authors.
      and_then (map_sum Bad_Instance (\<lambda>x. x) (listed_instances key_of instances)) (\<lambda>listed.
      Inr (with_discovery discover configured
             \<lparr>sy_lib = lib, sy_policy = policy, sy_key = key_of, sy_authors = authors, sy_listed = listed,
              sy_overlap = overlap, sy_settings = None\<rparr>,
           follow_start client db')))))"

section \<open>A subscription hands over its own events\<close>

fun sub_events :: "str \<Rightarrow> notification list \<Rightarrow> (str \<times> nostr_event) list" where
  "sub_events sid [] = []"
| "sub_events sid (Note_Message relay (Msg_Event sub e) # rest) =
     (if sub = sid then (relay, e) # sub_events sid rest else sub_events sid rest)"
| "sub_events sid (_ # rest) = sub_events sid rest"

lemma next_incoming_events:
  "(case next_incoming sid ns of
      None \<Rightarrow> sub_events sid ns = []
    | Some (Incoming_Event relay e, rest) \<Rightarrow> sub_events sid ns = (relay, e) # sub_events sid rest
    | Some (End_Of_Stored relay, rest) \<Rightarrow> sub_events sid ns = sub_events sid rest)"
  by (induction sid ns rule: next_incoming.induct) (auto split: option.splits prod.splits incoming.splits)

lemma next_event_reads:
  "next_event sid ns = None \<Longrightarrow> sub_events sid ns = []"
  "next_event sid ns = Some (x, rest) \<Longrightarrow> sub_events sid ns = x # sub_events sid rest"
proof (induction sid ns rule: next_event.induct)
  case (1 sid ns)
  {
    case 1
    then show ?case
      using "1.IH" next_incoming_events [of sid ns] by (simp add: next_event.simps [of sid ns] split: option.splits prod.splits incoming.splits)
  next
    case 2
    then show ?case
      using "1.IH" next_incoming_events [of sid ns] by (simp add: next_event.simps [of sid ns] split: option.splits prod.splits incoming.splits)
  }
qed

section \<open>Backing off\<close>

lemma backoff_bounds: "1 \<le> backoff n" "backoff n \<le> 60"
  by (simp_all add: backoff_def Let_def BACKOFF_INITIAL_def BACKOFF_MAX_def)

lemma backoff_doubles: "1 \<le> n \<Longrightarrow> backoff n = min (2 ^ (n - 1)) 60"
proof (cases "n - 1 \<le> 31")
  case False
  assume "1 \<le> n"
  have "(2::nat) ^ 31 \<le> 2 ^ (n - 1)" using False by (intro power_increasing) simp_all
  then show ?thesis using False by (simp add: backoff_def BACKOFF_INITIAL_def BACKOFF_MAX_def min_def)
qed (simp add: backoff_def BACKOFF_INITIAL_def BACKOFF_MAX_def)

section \<open>What is asked for\<close>

lemma tagged_kinds_filter: "tagged_kinds kinds = filter (\<lambda>k. k \<notin> set UNTAGGED_KINDS) kinds"
  by (induction kinds) simp_all

lemma sync_filter_fst:
  "fst (sync_filter sy relay kind keys now db) =
     for_kind kind (sy_authors sy) keys (map_option range_onwards
       (resume_from (map_option cu_last_created_at (get_cursor db relay kind)) (sy_overlap sy))) None"
  by (simp add: sync_filter_def Let_def split: option.splits)

lemma sync_filter_db:
  "\<exists>t. snd (sync_filter sy relay kind keys now db) = db\<lparr>tb_indexed_kinds := t\<rparr>"
  by (auto simp: sync_filter_def Let_def record_indexed_def split: option.splits) (metis database.surjective database.update_convs(13))

lemma sync_filter_same: "fst (sync_filter sy relay kind keys now (db\<lparr>tb_indexed_kinds := t\<rparr>)) = fst (sync_filter sy relay kind keys now db)"
  by (simp add: sync_filter_fst get_cursor_def)

lemma relay_filters_shape:
  "fst (relay_filters sy relay kinds keys now db) = filter_map (\<lambda>kind. fst (sync_filter sy relay kind keys now db)) kinds \<and>
   (\<exists>t. snd (relay_filters sy relay kinds keys now db) = db\<lparr>tb_indexed_kinds := t\<rparr>)"
proof (induction kinds arbitrary: db)
  case Nil
  show ?case by (auto intro: exI [of _ "tb_indexed_kinds db"])
next
  case (Cons kind kinds)
  obtain f db' where f: "sync_filter sy relay kind keys now db = (f, db')" by fastforce
  then obtain t where t: "db' = db\<lparr>tb_indexed_kinds := t\<rparr>" using sync_filter_db [of sy relay kind keys now db] by auto
  obtain fs db'' where fs: "relay_filters sy relay kinds keys now db' = (fs, db'')" by fastforce
  from Cons [of db'] show ?case
    unfolding relay_filters.simps f prod.case fs t sync_filter_same by (auto simp: f fs [unfolded t] split: option.splits)
qed

lemma targets_shape:
  "fst (targets_of sy relays kinds keys now db) =
     filter (\<lambda>(relay, fs). fs \<noteq> []) (map (\<lambda>relay. (relay, filter_map (\<lambda>kind. fst (sync_filter sy relay kind keys now db)) kinds)) relays) \<and>
   (\<exists>t. snd (targets_of sy relays kinds keys now db) = db\<lparr>tb_indexed_kinds := t\<rparr>)"
proof (induction relays arbitrary: db)
  case Nil
  show ?case by (auto intro: exI [of _ "tb_indexed_kinds db"])
next
  case (Cons relay relays)
  obtain fs db' where fs: "relay_filters sy relay kinds keys now db = (fs, db')" by fastforce
  then obtain t where t: "db' = db\<lparr>tb_indexed_kinds := t\<rparr>" "fs = filter_map (\<lambda>kind. fst (sync_filter sy relay kind keys now db)) kinds"
    using relay_filters_shape [of sy relay kinds keys now db] by auto
  obtain ts db'' where ts: "targets_of sy relays kinds keys now db' = (ts, db'')" by fastforce
  from Cons [of db'] show ?case
    unfolding targets_of.simps fs prod.case ts t(1) sync_filter_same by (auto simp: t(2) [symmetric] ts [unfolded t(1)])
qed

text \<open>
  C30. A subscription leaves nothing behind its cursor: whatever a relay has of a requested kind, by an
  author the run may ask about, from the cursor less the overlap onwards, is matched by a
  filter sent to that relay; and with no cursor yet, whatever it has.
\<close>

theorem sync_resumes_from_cursor:
  assumes "sync_targets sy kinds now client db = (ts, db')" and "relay \<in> set (rc_relays client)" and "ne_kind e \<in> set kinds"
    and "if ne_kind e \<in> set UNTAGGED_KINDS then ne_pubkey e \<in> set (sync_vouched sy db)
         else sy_authors sy = [] \<or> ne_pubkey e \<in> set (sy_authors sy)"
    and "ne_kind e = RATES_KIND \<longrightarrow> (\<exists>t \<in> set (ne_tags e). take 2 t = [''d'', RATES_IDENTIFIER])"
    and "is_none_or (get_cursor db relay (ne_kind e)) (\<lambda>c. in_i64 (cu_last_created_at c - sy_overlap sy) \<and>
      cu_last_created_at c - sy_overlap sy \<le> int (ne_created_at e))"
  shows "\<exists>fs f. (relay, fs) \<in> set ts \<and> f \<in> set fs \<and> matches_filter f e"
proof -
  let ?k = "ne_kind e" and ?keys = "sync_vouched sy db"
  let ?resume = "resume_from (map_option cu_last_created_at (get_cursor db relay ?k)) (sy_overlap sy)"
  obtain f where f: "for_kind ?k (sy_authors sy) ?keys (map_option range_onwards ?resume) None = Some f"
  proof (cases "for_kind ?k (sy_authors sy) ?keys (map_option range_onwards ?resume) None")
    case None
    then show ?thesis using assms(4) by (auto simp: for_kind_def Let_def split: if_splits)
  qed
  have since: "is_none_or (fi_since f) (\<lambda>t. t \<le> ne_created_at e)" "fi_until f = None"
    using f assms(6)
    by (cases "get_cursor db relay ?k"; auto simp: for_kind_def Let_def resume_from_def range_onwards_def filter_window_def
        i64_sub_exact nat_le_iff split: if_splits)+
  have m: "matches_filter f e"
    using f assms(4,5) since by (auto simp: for_kind_def Let_def matches_filter_def split: if_splits)
  let ?fs = "filter_map (\<lambda>kind. fst (sync_filter sy relay kind ?keys now db)) kinds"
  have in_fs: "f \<in> set ?fs"
    unfolding set_filter_map sync_filter_fst using f assms(3) by blast
  then have "(relay, ?fs) \<in> set (fst (targets_of sy (rc_relays client) kinds ?keys now db))"
    using assms(2) unfolding targets_shape [THEN conjunct1] by auto
  then show ?thesis using assms(1) m in_fs unfolding sync_targets_def by auto
qed

definition example_follower :: follower where
  "example_follower = \<lparr>sy_lib = example_archive_lib, sy_policy = example_policy, sy_key = Some, sy_authors = [],
     sy_listed = [], sy_overlap = 600, sy_settings = None\<rparr>"

definition example_seen :: database where
  "example_seen = advance_cursor ''wss://r'' 38383 1772000000 9 empty_database"

theorem sync_resumes_from_cursor_witness:
  "\<exists>fs f. (''wss://r'', fs) \<in> set (fst (sync_targets example_follower TAGGED_KINDS 10
      \<lparr>rc_configured = [''wss://r''], rc_relays = [''wss://r'']\<rparr> example_seen)) \<and>
    f \<in> set fs \<and> matches_filter f example_event"
proof -
  let ?c = "\<lparr>rc_configured = [''wss://r''], rc_relays = [''wss://r'']\<rparr>"
  obtain ts db' where ts: "sync_targets example_follower TAGGED_KINDS 10 ?c example_seen = (ts, db')" by fastforce
  have "get_cursor example_seen ''wss://r'' 38383 = Some (merge_cursor ''wss://r'' 38383 1772000000 9 None)"
    by (simp add: get_cursor_def example_seen_def advance_cursor_def bt_get_upd bt_get_def empty_database_def)
  then have cursor: "is_none_or (get_cursor example_seen ''wss://r'' (ne_kind example_event)) (\<lambda>c.
      in_i64 (cu_last_created_at c - sy_overlap example_follower) \<and>
      cu_last_created_at c - sy_overlap example_follower \<le> int (ne_created_at example_event))"
    by (simp add: merge_cursor_def example_follower_def in_i64_def i64_bounds)
  from sync_resumes_from_cursor [OF ts _ _ _ _ cursor] ts show ?thesis
    by (simp add: TAGGED_KINDS_def tagged_kinds_filter INDEXED_KINDS_def UNTAGGED_KINDS_def kind_numbers example_follower_def)
qed

section \<open>Every state of a run\<close>

text \<open>Who an untagged kind may be asked about: a listed instance, or one the archive has proven.\<close>

definition vouched_key :: "follower \<Rightarrow> database \<Rightarrow> str \<Rightarrow> bool" where
  "vouched_key sy db key \<longleftrightarrow>
     key \<in> set (sy_listed sy) \<or> (\<exists>p. is_platform_proven db p \<and> sy_key sy p = Some key)"

definition vouched_filter :: "follower \<Rightarrow> database \<Rightarrow> nostr_filter \<Rightarrow> bool" where
  "vouched_filter sy db f \<longleftrightarrow>
     fi_kind f \<notin> set UNTAGGED_KINDS \<or>
     is_some_and (fi_authors f) (\<lambda>keys. keys \<noteq> [] \<and> list_all (vouched_key sy db) keys)"

definition asks_vouched :: "follower \<Rightarrow> database \<Rightarrow> nat list \<Rightarrow> (str \<times> nostr_filter list) list \<Rightarrow> bool" where
  "asks_vouched sy db kinds ts \<longleftrightarrow>
     list_all (\<lambda>(relay, fs). fs \<noteq> [] \<and> list_all (\<lambda>f. fi_kind f \<in> set kinds \<and> vouched_filter sy db f) fs) ts"

fun phase_ok :: "follower \<Rightarrow> database \<Rightarrow> nat \<Rightarrow> phase \<Rightarrow> bool" where
  "phase_ok sy db n (Priming ts waiting named) = (asks_vouched sy db TAGGED_KINDS ts \<and> set waiting \<subseteq> fst ` set ts)"
| "phase_ok sy db n (Following ts) = (asks_vouched sy db INDEXED_KINDS ts \<and> n = 0)"
| "phase_ok sy db n (Waiting w) = (w = backoff n \<and> 1 \<le> w \<and> w \<le> 60)"
| "phase_ok sy db n _ = True"

definition sync_ok :: "follower \<Rightarrow> database \<Rightarrow> sync_state \<Rightarrow> bool" where
  "sync_ok sy db s \<longleftrightarrow> archive_history (sy_lib sy) (sy_policy sy) (ss_db s) \<and>
     set (archived (sy_lib sy) db) \<subseteq> set (archived (sy_lib sy) (ss_db s)) \<and>
     phase_ok sy (ss_db s) (ss_attempt s) (ss_phase s)"

lemma sync_vouched_keys: "key \<in> set (sync_vouched sy db) \<Longrightarrow> vouched_key sy db key"
proof -
  have "set (foldl (\<lambda>keys pubkey. case sy_key sy pubkey of None \<Rightarrow> keys
       | Some key \<Rightarrow> if key \<in> set keys then keys else keys @ [key]) keys ps) \<subseteq>
     set keys \<union> {k. \<exists>p \<in> set ps. sy_key sy p = Some k}" for keys ps
  proof (induction ps arbitrary: keys)
    case (Cons p ps)
    let ?keys = "case sy_key sy p of None \<Rightarrow> keys | Some key \<Rightarrow> if key \<in> set keys then keys else keys @ [key]"
    have "set ?keys \<subseteq> set keys \<union> {k. sy_key sy p = Some k}" by (auto split: option.splits)
    with Cons.IH [of ?keys] show ?case by auto
  qed simp
  then show "key \<in> set (sync_vouched sy db) \<Longrightarrow> vouched_key sy db key"
    by (fastforce simp: sync_vouched_def vouched_key_def platform_proven_def is_platform_proven_def)
qed

lemma asks_vouched_targets:
  assumes "sync_targets sy kinds now client db = (ts, db')"
  shows "asks_vouched sy db kinds ts" and "\<exists>t. db' = db\<lparr>tb_indexed_kinds := t\<rparr>"
proof -
  let ?keys = "sync_vouched sy db"
  have ts: "ts = fst (targets_of sy (rc_relays client) kinds ?keys now db)"
    "db' = snd (targets_of sy (rc_relays client) kinds ?keys now db)"
    using assms by (simp_all add: sync_targets_def)
  show "\<exists>t. db' = db\<lparr>tb_indexed_kinds := t\<rparr>" unfolding ts using targets_shape [of sy "rc_relays client"] by blast
  have kind: "fi_kind f = k \<and> (k \<in> set UNTAGGED_KINDS \<longrightarrow> ?keys \<noteq> [] \<and> fi_authors f = Some ?keys)"
    if "for_kind k (sy_authors sy) ?keys w l = Some f" for k w l f
    using that by (auto simp: for_kind_def Let_def split: if_splits)
  have keys: "list_all (vouched_key sy db) ?keys" using sync_vouched_keys [of _ sy db] by (simp add: list_all_iff)
  have "fi_kind f \<in> set kinds \<and> vouched_filter sy db f"
    if "f \<in> set (filter_map (\<lambda>kind. fst (sync_filter sy relay kind ?keys now db)) kinds)" for relay f
    using that kind keys unfolding set_filter_map sync_filter_fst vouched_filter_def by fastforce
  then show "asks_vouched sy db kinds ts"
    unfolding ts asks_vouched_def using targets_shape [of sy "rc_relays client" kinds ?keys now db]
    by (auto simp: list_all_iff)
qed

lemma asks_vouched_mono:
  assumes "asks_vouched sy db kinds ts" and "\<And>p. is_platform_proven db p \<Longrightarrow> is_platform_proven db' p"
  shows "asks_vouched sy db' kinds ts"
proof -
  have "vouched_key sy db' k" if "vouched_key sy db k" for k using that assms(2) by (auto simp: vouched_key_def)
  then have "vouched_filter sy db' f" if "vouched_filter sy db f" for f
    using that by (cases "fi_authors f") (auto simp: vouched_filter_def list_all_iff)
  then show ?thesis using assms(1) by (fastforce simp: asks_vouched_def list_all_iff)
qed

lemma indexed_irrelevant:
  "archived lib (db\<lparr>tb_indexed_kinds := t\<rparr>) = archived lib db"
  "is_platform_proven (db\<lparr>tb_indexed_kinds := t\<rparr>) p = is_platform_proven db p"
  by (simp_all add: archived_def is_platform_proven_def platform_pubkeys_def)

lemma filters_history:
  "archive_history lib policy db \<Longrightarrow> archive_history lib policy (snd (sync_filter sy relay kind keys now db))"
  by (auto simp: sync_filter_def Let_def split: option.splits intro: archive_history.requested)

lemma relay_filters_history:
  "archive_history lib policy db \<Longrightarrow> archive_history lib policy (snd (relay_filters sy relay kinds keys now db))"
proof (induction kinds arbitrary: db)
  case (Cons kind kinds)
  obtain f db' where f: "sync_filter sy relay kind keys now db = (f, db')" by fastforce
  then have "archive_history lib policy db'" using filters_history [OF Cons.prems, of sy relay kind keys now] by simp
  from Cons.IH [OF this] show ?case by (simp add: f case_prod_beta)
qed simp

lemma targets_history:
  "archive_history lib policy db \<Longrightarrow> archive_history lib policy (snd (targets_of sy relays kinds keys now db))"
proof (induction relays arbitrary: db)
  case (Cons relay relays)
  obtain f db' where f: "relay_filters sy relay kinds keys now db = (f, db')" by fastforce
  then have "archive_history lib policy db'" using relay_filters_history [OF Cons.prems, of sy relay kinds keys now] by simp
  from Cons.IH [OF this] show ?case by (simp add: f case_prod_beta)
qed simp

lemma dialled_all:
  "archive_history lib policy db \<Longrightarrow> archive_history lib policy (foldl (\<lambda>db url. upsert_relay url source now db) db urls)"
  by (induction urls arbitrary: db) (simp_all add: archive_history.dialled)

lemma rediscover_db:
  assumes "rediscover sy now client db = (b, c, db')"
  shows "archive_history lib policy db \<Longrightarrow> archive_history lib policy db'"
    and "archived lib db' = archived lib db" and "is_platform_proven db' p = is_platform_proven db p"
  using assms dialled_all [of lib policy db Source_Config now]
  by (auto simp: rediscover_def connection_set_def Let_def archived_def is_platform_proven_def platform_pubkeys_def
      split: option.splits)

lemma ingest_grows:
  assumes "archive_history lib policy db" and "al_from_json lib (al_as_json lib e) = Some e"
    and "ingest lib policy e url now db = (outcome, db')"
  shows "archive_history lib policy db'" and "set (archived lib db) \<subseteq> set (archived lib db')"
    and "is_platform_proven db p \<Longrightarrow> is_platform_proven db' p"
proof -
  have db': "db' = snd (ingest lib policy e url now db)" using assms(3) by simp
  show "archive_history lib policy db'" unfolding db' using assms(1,2) by (rule archive_history.delivered)
  have in_step: "in_step lib db" using assms(1) by (rule in_step_history)
  from archived_ingest [OF this assms(2)] show "set (archived lib db) \<subseteq> set (archived lib db')" unfolding db' by blast
  have "derived_ok (derived_tables db)" using in_step replayed_ok by (simp add: in_step_def)
  then show "is_platform_proven db p \<Longrightarrow> is_platform_proven db' p"
    unfolding db' using derived_ingest [OF in_step, of policy e url now] proven_step proven_derived by metis
qed

lemma sync_ok_rediscover:
  assumes "sync_ok sy db s" and "rediscover sy now (ss_client s) (ss_db s) = (b, c, db')"
    and "phase_ok sy (ss_db s) (ss_attempt s) phase"
  shows "sync_ok sy db (s\<lparr>ss_client := c, ss_db := db', ss_phase := phase\<rparr>)"
proof -
  have "phase_ok sy db' (ss_attempt s) phase"
    using assms(3) rediscover_db(3) [OF assms(2)] asks_vouched_mono by (cases phase) auto
  then show ?thesis
    using assms(1) rediscover_db(1,2) [OF assms(2)] by (simp add: sync_ok_def)
qed

lemma sync_ok_targets:
  assumes "sync_ok sy db s" and "sync_targets sy kinds now client (ss_db s) = (ts, db')"
    and "asks_vouched sy db' kinds ts \<Longrightarrow> phase_ok sy db' n phase"
  shows "sync_ok sy db (s\<lparr>ss_client := client', ss_db := db', ss_attempt := n, ss_phase := phase\<rparr>)"
proof -
  obtain t where t: "db' = (ss_db s)\<lparr>tb_indexed_kinds := t\<rparr>" using asks_vouched_targets(2) [OF assms(2)] by blast
  have "asks_vouched sy db' kinds ts"
    using asks_vouched_targets(1) [OF assms(2)] by (rule asks_vouched_mono) (simp add: t indexed_irrelevant)
  moreover have "archive_history (sy_lib sy) (sy_policy sy) db'"
    using targets_history [of "sy_lib sy" "sy_policy sy" "ss_db s" sy "rc_relays client" kinds "sync_vouched sy (ss_db s)" now]
      assms(1,2) by (simp add: sync_ok_def sync_targets_def)
  ultimately show ?thesis using assms(1,3) by (simp add: sync_ok_def t indexed_irrelevant)
qed

lemma sync_ok_read:
  assumes "sync_ok sy db s" and "al_from_json (sy_lib sy) (al_as_json (sy_lib sy) e) = Some e"
    and "read_event sy relay e now s = (named, s')"
  shows "sync_ok sy db s'" and "ss_phase s' = ss_phase s" and "ss_attempt s' = ss_attempt s"
    and "phase_ok sy (ss_db s) n ph \<Longrightarrow> phase_ok sy (ss_db s') n ph"
proof -
  obtain outcome db' where i: "ingest (sy_lib sy) (sy_policy sy) e relay now (ss_db s) = (outcome, db')" by fastforce
  then have s': "s' = s\<lparr>ss_db := db', ss_counts := record_outcome outcome (ss_counts s)\<rparr>"
    using assms(3) by (simp add: read_event_def)
  have hist: "archive_history (sy_lib sy) (sy_policy sy) (ss_db s)" using assms(1) by (simp add: sync_ok_def)
  note grow = ingest_grows [OF hist assms(2) i]
  show ph: "phase_ok sy (ss_db s) n ph \<Longrightarrow> phase_ok sy (ss_db s') n ph" for n ph
    using asks_vouched_mono grow(3) unfolding s' by (cases ph) auto
  show "ss_phase s' = ss_phase s" "ss_attempt s' = ss_attempt s" by (simp_all add: s')
  show "sync_ok sy db s'"
    using assms(1) grow(1,2) ph [of "ss_attempt s" "ss_phase s"] unfolding s' sync_ok_def by auto
qed

lemma sync_ok_phase: "sync_ok sy db s \<Longrightarrow> phase_ok sy (ss_db s) (ss_attempt s) ph \<Longrightarrow> sync_ok sy db (s\<lparr>ss_phase := ph\<rparr>)"
  by (simp add: sync_ok_def)

lemma sync_ok_retry: "sync_ok sy db s \<Longrightarrow> sync_ok sy db (retry s)"
  using backoff_bounds [of "(ss_attempt s + 1) mod 2 ^ 32"] by (simp add: sync_ok_def retry_def Let_def)

lemma sync_ok_look_again:
  "sync_ok sy db s \<Longrightarrow> phase_ok sy (ss_db s) (ss_attempt s) ph \<Longrightarrow> sync_ok sy db (look_again sy now ph s)"
  unfolding look_again_def by (auto split: prod.splits intro: sync_ok_rediscover)

lemma sync_step_ok:
  assumes "sync_step sy E s s'" and "sync_ok sy db s"
    and "\<forall>e \<in> E. al_from_json (sy_lib sy) (al_as_json (sy_lib sy) e) = Some e"
  shows "sync_ok sy db s'"
  using assms(1)
proof cases
  case (begin_turn add now later taken)
  obtain b c db1 where r: "rediscover sy now (ss_client s) (ss_db s) = (b, c, db1)" by (metis prod_cases3)
  have ok: "sync_ok sy db (s\<lparr>ss_client := c, ss_db := db1, ss_phase := Turning\<rparr>)"
    using assms(2) r by (rule sync_ok_rediscover) simp
  let ?c = "client_reattach (al_wire (sy_lib sy)) add c"
  obtain ts db2 where ts: "sync_targets sy TAGGED_KINDS later ?c db1 = (ts, db2)" by fastforce
  let ?ph = "if taken then Priming ts (bt_set_of (map fst ts)) False else Primed"
  have "s' = s\<lparr>ss_client := ?c, ss_db := db2, ss_phase := ?ph\<rparr>"
    using begin_turn(1) r ts by (simp add: open_priming_def Let_def)
  moreover have "sync_ok sy db ((s\<lparr>ss_client := c, ss_db := db1, ss_phase := Turning\<rparr>)
      \<lparr>ss_client := ?c, ss_db := db2, ss_attempt := ss_attempt s, ss_phase := ?ph\<rparr>)"
    by (rule sync_ok_targets [OF ok, of TAGGED_KINDS later ?c ts db2]) (use ts in auto)
  ultimately show ?thesis by simp
next
  case (prime_eose ts waiting named relay)
  then show ?thesis using assms(2) by (auto simp: sync_ok_def)
next
  case (prime_event ts waiting named e relay now listed s1)
  note r = sync_ok_read [OF assms(2) bspec [OF assms(3) prime_event(4)] prime_event(5)]
  have "phase_ok sy (ss_db s1) (ss_attempt s1) (Priming ts waiting (named \<or> listed))"
    using r(4) [of "ss_attempt s" "Priming ts waiting (named \<or> listed)"] assms(2) prime_event(2) by (simp add: sync_ok_def r(3))
  then show ?thesis unfolding prime_event(1) using r(1) by (simp add: sync_ok_phase)
next
  case (prime_closes ts waiting named now)
  then show ?thesis using assms(2) by (auto simp: close_priming_def intro: sync_ok_look_again sync_ok_phase)
next
  case (begin_following now taken)
  obtain ts db2 where ts: "sync_targets sy INDEXED_KINDS now (ss_client s) (ss_db s) = (ts, db2)" by fastforce
  have "sync_ok sy db (s\<lparr>ss_client := ss_client s, ss_db := db2, ss_attempt := 0, ss_phase := Following ts\<rparr>)"
    using assms(2) ts by (rule sync_ok_targets) simp
  moreover have "sync_ok sy db (s\<lparr>ss_client := ss_client s, ss_db := db2, ss_attempt := ss_attempt s, ss_phase := Primed\<rparr>)"
    using assms(2) ts by (rule sync_ok_targets) simp
  then have "sync_ok sy db (s\<lparr>ss_db := db2\<rparr>)" using begin_following(2) by (simp add: sync_ok_def)
  ultimately show ?thesis
    using begin_following(1) by (simp add: open_following_def ts sync_ok_retry)
next
  case (follow_reads ts e relay now later)
  obtain named s1 where s1: "read_event sy relay e now s = (named, s1)" by fastforce
  note r = sync_ok_read [OF assms(2) bspec [OF assms(3) follow_reads(3)] s1]
  have "phase_ok sy (ss_db s1) (ss_attempt s1) (ss_phase s)" using r(1,2) by (simp add: sync_ok_def)
  with r(1) have "sync_ok sy db (look_again sy later (ss_phase s) s1)" by (rule sync_ok_look_again)
  with r(1) show ?thesis unfolding follow_reads(1) by (simp add: follow_event_def s1)
qed (use assms(2) in \<open>auto simp: sync_ok_retry intro: sync_ok_phase\<close>)

text \<open>
  C8. Live following is safe from its first turn to its last, whatever the relays send and in
  whatever order they answer, fail or are discovered: the archive only grows and remains one the
  pipeline's guarantees hold of; the priming subscription asks for tagged kinds alone; an untagged kind
  is asked for only of publishers listed by hand or proven by then; and the wait before a
  reconnection is between a second and a minute.
\<close>

theorem sync_follows_safely:
  assumes "archive_history (sy_lib sy) (sy_policy sy) db"
    and "\<forall>e \<in> E. al_from_json (sy_lib sy) (al_as_json (sy_lib sy) e) = Some e"
    and "following sy E client db s"
  shows "archive_history (sy_lib sy) (sy_policy sy) (ss_db s) \<and>
    set (archived (sy_lib sy) db) \<subseteq> set (archived (sy_lib sy) (ss_db s)) \<and>
    (case ss_phase s of
       Priming ts waiting named \<Rightarrow> asks_vouched sy (ss_db s) TAGGED_KINDS ts \<and> set waiting \<subseteq> fst ` set ts
     | Following ts \<Rightarrow> asks_vouched sy (ss_db s) INDEXED_KINDS ts
     | Waiting w \<Rightarrow> w = backoff (ss_attempt s) \<and> 1 \<le> w \<and> w \<le> 60
     | _ \<Rightarrow> True)"
proof -
  have "sync_ok sy db s"
    using assms(3) unfolding following_def
  proof (induction rule: rtranclp_induct)
    case base
    show ?case using assms(1) by (simp add: sync_ok_def follow_start_def)
  next
    case (step s s')
    then show ?case using sync_step_ok assms(2) by blast
  qed
  then show ?thesis by (cases "ss_phase s") (simp_all add: sync_ok_def)
qed

theorem sync_follows_safely_witness:
  "\<exists>s ts. following example_follower {example_event} \<lparr>rc_configured = [''wss://r''], rc_relays = [''wss://r'']\<rparr>
      empty_database s \<and> ss_phase s = Following ts \<and> asks_vouched example_follower (ss_db s) INDEXED_KINDS ts"
proof -
  let ?c = "\<lparr>rc_configured = [''wss://r''], rc_relays = [''wss://r'']\<rparr>"
  let ?step = "sync_step example_follower {example_event}"
  let ?s0 = "follow_start ?c empty_database"
  let ?s1 = "open_priming example_follower (\<lambda>url. Inr url) 1 1 False ?s0"
  let ?s2 = "open_following example_follower 2 True ?s1"
  have "?step ?s0 ?s1" by (rule sync_step.begin_turn) (simp add: follow_start_def)
  moreover have primed: "ss_phase ?s1 = Primed" by (simp add: open_priming_def Let_def split: prod.splits)
  then have "?step ?s1 ?s2" by (rule sync_step.begin_following)
  ultimately have run: "following example_follower {example_event} ?c empty_database ?s2"
    unfolding following_def by (rule rtranclp.rtrancl_into_rtrancl [OF r_into_rtranclp])
  have "\<exists>ts. ss_phase ?s2 = Following ts" by (simp add: open_following_def case_prod_beta)
  then obtain ts where ts: "ss_phase ?s2 = Following ts" by blast
  have "archive_history (sy_lib example_follower) (sy_policy example_follower) empty_database"
    "\<forall>e \<in> {example_event}. al_from_json (sy_lib example_follower) (al_as_json (sy_lib example_follower) e) = Some e"
    by (simp_all add: archive_history.fresh example_follower_def example_readable)
  from sync_follows_safely [OF this run] ts have "asks_vouched example_follower (ss_db ?s2) INDEXED_KINDS ts" by simp
  with run ts show ?thesis by blast
qed

end
