(* ===== verification/Feeds.thy ===== *)
theory Feeds
  imports Rates Metrics
begin

text \<open>
  The rate feeds as they stand now (\<open>crates/stats/src/rates/feeds.rs\<close>): how fresh each
  instance's latest snapshot is, how many are in each state, and how far the live quotes
  for one currency disagree.
\<close>

section \<open>One feed\<close>

definition DEAD_AFTER_SECS :: i64 where
  "DEAD_AFTER_SECS = 600"

record feed =
  fd_instance :: str
  fd_published_at :: "i64 option"
  fd_rates :: "(str, f64) btree"

datatype freshness = Fresh | Stale | Dead | Silent | Skewed

fun freshness_as_str :: "freshness \<Rightarrow> str" where
  "freshness_as_str Fresh = ''fresh''"
| "freshness_as_str Stale = ''stale''"
| "freshness_as_str Dead = ''dead''"
| "freshness_as_str Silent = ''silent''"
| "freshness_as_str Skewed = ''skewed''"

definition feed_age :: "feed \<Rightarrow> i64 \<Rightarrow> i64 option" where
  "feed_age f now = Option.bind (opt_filter (\<lambda>p. p \<le> now) (fd_published_at f)) (checked_sub_i64 now)"

definition feed_freshness :: "feed \<Rightarrow> i64 \<Rightarrow> freshness" where
  "feed_freshness f now =
     (case fd_published_at f of
        None \<Rightarrow> Silent
      | Some published \<Rightarrow>
          if published > now then Skewed
          else let age = map_or i64_max (\<lambda>a. a) (checked_sub_i64 now published) in
            if age \<le> max_age_secs then Fresh else if age \<le> DEAD_AFTER_SECS then Stale else Dead)"

definition feed_rate :: "feed \<Rightarrow> str \<Rightarrow> f64 option" where
  "feed_rate f fiat =
     opt_filter (\<lambda>r. f64_is_finite r \<and> f64_lt (F64_Fin False 0) r) (bt_get (fd_rates f) fiat)"

definition live_rate :: "feed \<Rightarrow> str \<Rightarrow> i64 \<Rightarrow> f64 option" where
  "live_rate f fiat now = (if feed_freshness f now = Fresh then feed_rate f fiat else None)"

section \<open>All of them\<close>

record feeds_summary =
  fs_feeds :: u64
  fs_fresh :: u64
  fs_stale :: u64
  fs_dead :: u64
  fs_silent :: u64
  fs_skewed :: u64
  fs_currencies :: u64

definition feeds_default :: feeds_summary where
  "feeds_default = \<lparr>fs_feeds = 0, fs_fresh = 0, fs_stale = 0, fs_dead = 0, fs_silent = 0, fs_skewed = 0, fs_currencies = 0\<rparr>"

definition feeds_step :: "i64 \<Rightarrow> feeds_summary \<times> str list \<Rightarrow> feed \<Rightarrow> feeds_summary \<times> str list" where
  "feeds_step now acc f =
     (case acc of (s, codes) \<Rightarrow>
      let counted = (case feed_freshness f now of
             Fresh \<Rightarrow> s\<lparr>fs_fresh := fs_fresh s + 1\<rparr>
           | Stale \<Rightarrow> s\<lparr>fs_stale := fs_stale s + 1\<rparr>
           | Dead \<Rightarrow> s\<lparr>fs_dead := fs_dead s + 1\<rparr>
           | Skewed \<Rightarrow> s\<lparr>fs_skewed := fs_skewed s + 1\<rparr>
           | Silent \<Rightarrow> s\<lparr>fs_silent := fs_silent s + 1\<rparr>);
          heard = (if fd_published_at f \<noteq> None then counted\<lparr>fs_feeds := fs_feeds counted + 1\<rparr> else counted)
      in (heard, bt_set_of (codes @ bt_keys (fd_rates f))))"

definition feeds_summarise :: "feed list \<Rightarrow> i64 \<Rightarrow> feeds_summary" where
  "feeds_summarise fs now =
     (case foldl (feeds_step now) (feeds_default, []) fs of
        (s, codes) \<Rightarrow> s\<lparr>fs_currencies := length codes\<rparr>)"

record disparity =
  dy_quoted_by :: u64
  dy_comparable :: u64
  dy_low :: "f64 option"
  dy_high :: "f64 option"
  dy_ratio :: "f64 option"

fun reduce :: "('a \<Rightarrow> 'a \<Rightarrow> 'a) \<Rightarrow> 'a list \<Rightarrow> 'a option" where
  "reduce f [] = None"
| "reduce f (x # xs) = Some (foldl f x xs)"

definition disparity_of :: "feed list \<Rightarrow> str \<Rightarrow> i64 \<Rightarrow> disparity option" where
  "disparity_of fs fiat now =
     (let quoted_by = length (filter (\<lambda>f. feed_rate f fiat \<noteq> None) fs) in
      if quoted_by = 0 then None
      else let comparable = filter_map (\<lambda>f. live_rate f fiat now) fs;
               low = reduce f64_min comparable;
               high = reduce f64_max comparable
           in Some \<lparr>dy_quoted_by = quoted_by, dy_comparable = length comparable, dy_low = low, dy_high = high,
                dy_ratio = opt_filter f64_is_finite
                  (if length comparable > 1
                   then Option.bind high (\<lambda>h. map_option (\<lambda>l. f64_sub (f64_div h l) (f64_of_int 1)) low)
                   else None)\<rparr>)"

section \<open>The report\<close>

definition feeds_sorted :: "feed list \<Rightarrow> feed list" where
  "feeds_sorted fs = stable_sort (\<lambda>a b. fd_instance a \<le> fd_instance b) fs"

definition feeds_report :: "feed list \<Rightarrow> str option \<Rightarrow> i64 \<Rightarrow> metric list" where
  "feeds_report fs fiat now =
     (let obs = (\<lambda>name v. observed (''rates.'' @ name) v);
          cnt = (\<lambda>name n. obs name (V_Count (wrap_i64 (int n))));
          s = feeds_summarise fs now
      in [cnt ''feeds'' (fs_feeds s), cnt ''fresh'' (fs_fresh s), cnt ''stale'' (fs_stale s),
          cnt ''dead'' (fs_dead s), cnt ''silent'' (fs_silent s), cnt ''skewed'' (fs_skewed s),
          cnt ''currencies'' (fs_currencies s)]
       @ (case fiat of
            None \<Rightarrow> []
          | Some code \<Rightarrow>
              let quoted = disparity_of fs code now;
                  amount = (\<lambda>v. map_or V_Missing (\<lambda>a. value_fiat a code) v)
              in [cnt (code @ ''.quoted_by'') (map_or 0 dy_quoted_by quoted),
                  cnt (code @ ''.comparable'') (map_or 0 dy_comparable quoted),
                  obs (code @ ''.low'') (amount (Option.bind quoted dy_low)),
                  obs (code @ ''.high'') (amount (Option.bind quoted dy_high)),
                  obs (code @ ''.disparity'') (map_or V_Missing value_ratio (Option.bind quoted dy_ratio))]
               @ filter_map (\<lambda>f. map_option (\<lambda>r. obs (code @ ''.'' @ fd_instance f) (value_fiat r code))
                     (feed_rate f code)) (feeds_sorted fs))
       @ concat (map (\<lambda>f.
           [obs (fd_instance f @ ''.age'') (map_or V_Missing V_Seconds (feed_age f now)),
            obs (fd_instance f @ ''.status'') (V_Text (freshness_as_str (feed_freshness f now))),
            cnt (fd_instance f @ ''.currencies'') (length (fd_rates f))]) (feeds_sorted fs)))"

section \<open>The states partition the feeds\<close>

lemma fst_feeds_step:
  "fst (feeds_step now acc f) =
     (fst acc)\<lparr>fs_feeds := fs_feeds (fst acc) + (if fd_published_at f \<noteq> None then 1 else 0),
      fs_fresh := fs_fresh (fst acc) + (if feed_freshness f now = Fresh then 1 else 0),
      fs_stale := fs_stale (fst acc) + (if feed_freshness f now = Stale then 1 else 0),
      fs_dead := fs_dead (fst acc) + (if feed_freshness f now = Dead then 1 else 0),
      fs_silent := fs_silent (fst acc) + (if feed_freshness f now = Silent then 1 else 0),
      fs_skewed := fs_skewed (fst acc) + (if feed_freshness f now = Skewed then 1 else 0)\<rparr>"
  by (cases acc; cases "feed_freshness f now") (auto simp: feeds_step_def Let_def)

lemma feeds_fold:
  "fst (foldl (feeds_step now) acc fs) =
     (fst acc)\<lparr>fs_feeds := fs_feeds (fst acc) + count_where (\<lambda>f. fd_published_at f \<noteq> None) fs,
        fs_fresh := fs_fresh (fst acc) + count_where (\<lambda>f. feed_freshness f now = Fresh) fs,
        fs_stale := fs_stale (fst acc) + count_where (\<lambda>f. feed_freshness f now = Stale) fs,
        fs_dead := fs_dead (fst acc) + count_where (\<lambda>f. feed_freshness f now = Dead) fs,
        fs_silent := fs_silent (fst acc) + count_where (\<lambda>f. feed_freshness f now = Silent) fs,
        fs_skewed := fs_skewed (fst acc) + count_where (\<lambda>f. feed_freshness f now = Skewed) fs\<rparr>"
  by (induction fs arbitrary: acc) (simp_all add: fst_feeds_step)

lemma codes_fold: "snd (foldl (feeds_step now) (s, codes) fs) = (if fs = [] then codes
    else bt_set_of (codes @ concat (map (\<lambda>f. bt_keys (fd_rates f)) fs)))"
proof (induction fs arbitrary: s codes)
  case (Cons f fs)
  obtain s' where "feeds_step now (s, codes) f = (s', bt_set_of (codes @ bt_keys (fd_rates f)))"
    by (simp add: feeds_step_def Let_def)
  then show ?case using Cons.IH by (simp add: bt_set_of_def sorted_list_of_set_sort_remdups [symmetric] Un_assoc)
qed simp

lemma freshness_published: "feed_freshness f now = Silent \<longleftrightarrow> fd_published_at f = None"
  by (auto simp: feed_freshness_def Let_def split: option.splits)

lemma fresh_iff:
  assumes "in_i64 now" and "is_none_or (fd_published_at f) in_i64"
  shows "feed_freshness f now = Fresh \<longleftrightarrow> (\<exists>age. feed_age f now = Some age \<and> age \<le> max_age_secs)"
  using assms unfolding feed_freshness_def feed_age_def
  by (cases "fd_published_at f")
    (auto simp: opt_filter_def Let_def map_or_def max_age_secs_def i64_max_def split: option.splits if_splits)

section \<open>Live quotes\<close>

text \<open>The values of finite numbers order them, and \<open>min\<close> and \<open>max\<close> pick by that order.\<close>

definition price_ok :: "f64 \<Rightarrow> bool" where
  "price_ok r \<longleftrightarrow> f64_is_finite r \<and> 0 < f64_val r"

lemma feed_rate_price: "feed_rate f fiat = Some r \<Longrightarrow> price_ok r"
  by (cases r) (auto simp: feed_rate_def opt_filter_def price_ok_def split: option.splits if_splits)

lemma live_rate_price: "live_rate f fiat now = Some r \<Longrightarrow> price_ok r"
  by (auto simp: live_rate_def feed_rate_price split: if_splits)

lemma live_rate_quoted: "live_rate f fiat now = Some r \<Longrightarrow> feed_rate f fiat = Some r"
  by (simp add: live_rate_def split: if_splits)

lemma f64_min_pick:
  assumes "price_ok a" and "price_ok b"
  shows "f64_min a b = (if f64_val b < f64_val a then b else a)" "f64_max a b = (if f64_val a < f64_val b then b else a)"
  using assms by (cases a; cases b; simp add: price_ok_def f64_min_def f64_max_def)+

lemma reduce_extreme:
  assumes "\<And>x y. x \<in> A \<Longrightarrow> y \<in> A \<Longrightarrow> f x y = x \<or> f x y = y"
    and "\<And>x y. x \<in> A \<Longrightarrow> y \<in> A \<Longrightarrow> key (f x y) \<le> (key x :: rat) \<and> key (f x y) \<le> key y"
    and "set xs \<subseteq> A" and "xs \<noteq> []"
  shows "\<exists>m \<in> set xs. reduce f xs = Some m \<and> (\<forall>x \<in> set xs. key m \<le> key x)"
proof -
  have "foldl f y ys \<in> insert y (set ys) \<and> (\<forall>x \<in> insert y (set ys). key (foldl f y ys) \<le> key x)"
    if "y \<in> A" "set ys \<subseteq> A" for y ys
    using that
  proof (induction ys arbitrary: y)
    case (Cons z zs)
    have pick: "f y z = y \<or> f y z = z" and below: "key (f y z) \<le> key y" "key (f y z) \<le> key z"
      using assms(1,2) [of y z] Cons.prems by auto
    then have "f y z \<in> A" using Cons.prems by auto
    from Cons.IH [OF this] Cons.prems have
      "foldl f (f y z) zs \<in> insert (f y z) (set zs)" "\<forall>x \<in> insert (f y z) (set zs). key (foldl f (f y z) zs) \<le> key x"
      by simp_all
    then show ?case using pick below by (auto intro: order_trans)
  qed simp
  with assms(3,4) show ?thesis by (cases xs) auto
qed

lemma reduce_min_max:
  assumes "list_all price_ok xs" and "xs \<noteq> []"
  shows "\<exists>l \<in> set xs. reduce f64_min xs = Some l \<and> (\<forall>x \<in> set xs. f64_val l \<le> f64_val x)"
    and "\<exists>h \<in> set xs. reduce f64_max xs = Some h \<and> (\<forall>x \<in> set xs. f64_val x \<le> f64_val h)"
proof -
  have sub: "set xs \<subseteq> {r. price_ok r}" using assms(1) by (auto simp: list_all_iff)
  show "\<exists>l \<in> set xs. reduce f64_min xs = Some l \<and> (\<forall>x \<in> set xs. f64_val l \<le> f64_val x)"
    by (rule reduce_extreme [OF _ _ sub assms(2)]) (simp_all add: f64_min_pick)
  have "\<exists>h \<in> set xs. reduce f64_max xs = Some h \<and> (\<forall>x \<in> set xs. - f64_val h \<le> - f64_val x)"
    by (rule reduce_extreme [OF _ _ sub assms(2)]) (simp_all add: f64_min_pick)
  then show "\<exists>h \<in> set xs. reduce f64_max xs = Some h \<and> (\<forall>x \<in> set xs. f64_val x \<le> f64_val h)" by simp
qed

lemma spread_nonneg:
  assumes "price_ok l" and "price_ok h" and "f64_val l \<le> f64_val h"
    and "f64_is_finite (f64_sub (f64_div h l) (f64_of_int 1))"
  shows "0 \<le> f64_val (f64_sub (f64_div h l) (f64_of_int 1))"
proof -
  let ?q = "f64_val h / f64_val l"
  have q: "1 \<le> ?q" using assms(1,3) by (simp add: price_ok_def)
  have one: "f64_of_int 1 = F64_Fin False 1" by (simp add: f64_of_int_def f64_round_def)
  have "f64_div h l = (if 2 ^ 1024 \<le> round_mag ?q then F64_Inf False else F64_Fin False (round_mag ?q))"
  proof -
    have "f64_div h l = f64_round (f64_neg_bit h \<noteq> f64_neg_bit l) ?q"
      using assms(1,2) by (cases h; cases l) (auto simp: price_ok_def)
    moreover have "?q \<noteq> 0" using q by linarith
    ultimately show ?thesis using q by (simp only: f64_round_def Let_def) (simp add: abs_if del: divide_eq_0_iff)
  qed
  then have d: "f64_div h l = F64_Fin False (round_mag ?q)"
    using assms(4) by (auto simp: one f64_sub_def split: if_splits)
  have "1 \<le> round_mag ?q" using q by (rule round_mag_ge_1)
  then show ?thesis unfolding d one f64_sub_def by (simp add: f64_round_def Let_def)
qed

section \<open>What the figures say\<close>

definition spread_ok :: "feed list \<Rightarrow> str \<Rightarrow> i64 \<Rightarrow> disparity \<Rightarrow> bool" where
  "spread_ok fs fiat now d \<longleftrightarrow>
     0 < dy_quoted_by d \<and> dy_comparable d \<le> dy_quoted_by d \<and>
     (dy_low d = None \<longleftrightarrow> dy_comparable d = 0) \<and> (dy_high d = None \<longleftrightarrow> dy_comparable d = 0) \<and>
     (\<forall>l. dy_low d = Some l \<longrightarrow> (\<exists>f \<in> set fs. live_rate f fiat now = Some l) \<and>
        (\<forall>f \<in> set fs. is_none_or (live_rate f fiat now) (\<lambda>r. f64_val l \<le> f64_val r))) \<and>
     (\<forall>h. dy_high d = Some h \<longrightarrow> (\<exists>f \<in> set fs. live_rate f fiat now = Some h) \<and>
        (\<forall>f \<in> set fs. is_none_or (live_rate f fiat now) (\<lambda>r. f64_val r \<le> f64_val h))) \<and>
     (\<forall>r. dy_ratio d = Some r \<longrightarrow> 1 < dy_comparable d \<and> f64_is_finite r \<and> 0 \<le> f64_val r)"

lemma length_filter_map_le: "(\<And>x y. f x = Some y \<Longrightarrow> P x) \<Longrightarrow> length (filter_map f xs) \<le> length (filter P xs)"
  by (induction xs) (auto split: option.splits simp: le_Suc_eq)

lemma disparity_spread:
  assumes "disparity_of fs fiat now = Some d"
  shows "spread_ok fs fiat now d"
proof -
  let ?c = "filter_map (\<lambda>f. live_rate f fiat now) fs"
  have d: "d = \<lparr>dy_quoted_by = length (filter (\<lambda>f. feed_rate f fiat \<noteq> None) fs), dy_comparable = length ?c,
      dy_low = reduce f64_min ?c, dy_high = reduce f64_max ?c,
      dy_ratio = opt_filter f64_is_finite (if length ?c > 1
        then Option.bind (reduce f64_max ?c) (\<lambda>h. map_option (\<lambda>l. f64_sub (f64_div h l) (f64_of_int 1)) (reduce f64_min ?c))
        else None)\<rparr>" and some: "0 < length (filter (\<lambda>f. feed_rate f fiat \<noteq> None) fs)"
    using assms by (simp_all add: disparity_of_def Let_def split: if_splits)
  have prices: "list_all price_ok ?c" by (auto simp: list_all_iff set_filter_map live_rate_price)
  have le: "length ?c \<le> length (filter (\<lambda>f. feed_rate f fiat \<noteq> None) fs)"
    by (rule length_filter_map_le) (simp add: live_rate_quoted)
  show ?thesis
  proof (cases "?c = []")
    case True
    then show ?thesis using some unfolding d spread_ok_def by (simp add: opt_filter_def)
  next
    case False
    from reduce_min_max [OF prices False] obtain l h where
      l: "l \<in> set ?c" "reduce f64_min ?c = Some l" "\<forall>x \<in> set ?c. f64_val l \<le> f64_val x" and
      h: "h \<in> set ?c" "reduce f64_max ?c = Some h" "\<forall>x \<in> set ?c. f64_val x \<le> f64_val h" by blast
    have ok: "price_ok l" "price_ok h" "f64_val l \<le> f64_val h" using l h prices by (auto simp: list_all_iff)
    have mem: "x \<in> set ?c \<longleftrightarrow> (\<exists>f \<in> set fs. live_rate f fiat now = Some x)" for x by (auto simp: set_filter_map)
    have bounds: "is_none_or (live_rate f fiat now) (\<lambda>r. f64_val l \<le> f64_val r)"
      "is_none_or (live_rate f fiat now) (\<lambda>r. f64_val r \<le> f64_val h)" if "f \<in> set fs" for f
      using l(3) h(3) mem that by (cases "live_rate f fiat now"; auto simp: is_none_or_def)+
    have ratio: "1 < length ?c \<and> f64_is_finite r \<and> 0 \<le> f64_val r" if "dy_ratio d = Some r" for r
      using that spread_nonneg [OF ok] unfolding d
      by (auto simp: l(2) h(2) opt_filter_def split: if_splits)
    then show ?thesis
      using some le l(1) h(1) False bounds unfolding spread_ok_def mem by (simp add: d l(2) h(2))
  qed
qed

text \<open>
  The figures of the feeds add up: every feed that ever published is in exactly one of four
  states, the silent ones are the rest, a currency is counted once however many quote it, and the
  disparity of one currency is taken over the quotes still fresh and over nothing else.
\<close>

theorem feeds_accounted:
  "let s = feeds_summarise fs now in
   fs_fresh s + fs_stale s + fs_dead s + fs_skewed s = fs_feeds s \<and> fs_feeds s + fs_silent s = length fs \<and>
   fs_currencies s = card (\<Union>f \<in> set fs. set (bt_keys (fd_rates f))) \<and>
   (case disparity_of fs fiat now of
      None \<Rightarrow> \<not> (\<exists>f \<in> set fs. feed_rate f fiat \<noteq> None)
    | Some d \<Rightarrow> spread_ok fs fiat now d)"
proof -
  have split: "count_where (\<lambda>f. fd_published_at f \<noteq> None) fs =
      count_where (\<lambda>f. feed_freshness f now = Fresh) fs + count_where (\<lambda>f. feed_freshness f now = Stale) fs +
      count_where (\<lambda>f. feed_freshness f now = Dead) fs + count_where (\<lambda>f. feed_freshness f now = Skewed) fs"
    and rest: "count_where (\<lambda>f. fd_published_at f \<noteq> None) fs + count_where (\<lambda>f. feed_freshness f now = Silent) fs = length fs"
  proof (induction fs)
    case (Cons f fs)
    {
      case 1
      show ?case using Cons.IH(1) freshness_published [of f now]
        by (cases "feed_freshness f now") auto
    next
      case 2
      show ?case using Cons.IH(2) freshness_published [of f now] by auto
    }
  qed simp_all
  have "set (snd (foldl (feeds_step now) (feeds_default, []) fs)) = (\<Union>f \<in> set fs. set (bt_keys (fd_rates f)))"
    "distinct (snd (foldl (feeds_step now) (feeds_default, []) fs))"
    unfolding codes_fold by (auto simp: bt_set_of_def)
  then have codes: "length (snd (foldl (feeds_step now) (feeds_default, []) fs)) =
      card (\<Union>f \<in> set fs. set (bt_keys (fd_rates f)))"
    by (metis distinct_card)
  show ?thesis
  proof -
    have quoted: "case disparity_of fs fiat now of None \<Rightarrow> \<not> (\<exists>f \<in> set fs. feed_rate f fiat \<noteq> None) | Some d \<Rightarrow> spread_ok fs fiat now d"
    proof (cases "disparity_of fs fiat now")
      case None
      then show ?thesis by (auto simp: disparity_of_def Let_def filter_empty_conv split: if_splits)
    qed (simp add: disparity_spread)
    have "feeds_summarise fs now = (fst (foldl (feeds_step now) (feeds_default, []) fs))
        \<lparr>fs_currencies := card (\<Union>f \<in> set fs. set (bt_keys (fd_rates f)))\<rparr>"
      unfolding feeds_summarise_def codes [symmetric] by (simp add: case_prod_beta)
    then show ?thesis using split rest quoted by (simp add: feeds_fold feeds_default_def Let_def)
  qed
qed

end
