(* ===== verification/Loading.thy ===== *)
theory Loading
  imports Delivery Publishing Feeds
begin

text \<open>
  From the tables to the figures (\<open>src/db/load\<close>): the reads that join a projection with what it
  does not keep, one record of the aggregation crate per order, dispute, fee, settlement,
  instance and feed, and the reading a publication is computed from. An order is read in
  \<open>activity.rs\<close>, disputes and the orders they arise from in \<open>disputes.rs\<close>, and so on.
  The lemmas show that over any history of the archive every row decodes.
\<close>

section \<open>Scopes and labels\<close>

definition scope_apply :: "load_scope \<Rightarrow> str \<Rightarrow> str option \<Rightarrow> bool" where
  "scope_apply scope pubkey net \<longleftrightarrow>
     apply_instance scope pubkey \<and>
     (ls_networks scope = [] \<or> is_some_and net (\<lambda>n. n \<in> set (map network_as_str (ls_networks scope))))"

definition scope_default :: load_scope where
  "scope_default = \<lparr>ls_pubkey = None, ls_networks = []\<rparr>"

definition SHORT_PUBKEY_LEN :: nat where
  "SHORT_PUBKEY_LEN = 8"

text \<open>A pubkey is hexadecimal, so its first eight characters are its first eight bytes.\<close>

definition instance_label :: "str \<Rightarrow> str option \<Rightarrow> str" where
  "instance_label pubkey name =
     (case name of
        Some n \<Rightarrow> n @ '' ('' @ take SHORT_PUBKEY_LEN pubkey @ '')''
      | None \<Rightarrow> pubkey)"

text \<open>\<open>LEFT JOIN instances i ON i.pubkey = ...\<close>.\<close>

definition joined_name :: "database \<Rightarrow> str \<Rightarrow> str option" where
  "joined_name db pubkey = Option.bind (bt_get (tb_instances db) pubkey) ir_name"

text \<open>\<open>ORDER BY created_at ASC, event_id ASC\<close>, and nulls first where a column may hold one.\<close>

definition older :: "('r \<Rightarrow> i64) \<Rightarrow> ('r \<Rightarrow> str) \<Rightarrow> 'r \<Rightarrow> 'r \<Rightarrow> bool" where
  "older clock ident a b \<longleftrightarrow> clock a < clock b \<or> clock a = clock b \<and> ident a < ident b"

definition nulls_first :: "i64 option \<Rightarrow> bool \<times> i64" where
  "nulls_first t = (case t of None \<Rightarrow> (False, 0) | Some x \<Rightarrow> (True, x))"

section \<open>Orders\<close>

datatype order_filter = All_Orders | Completed_In i64 i64 | Touched_In i64 i64 i64

record activity_row =
  lr_order_id :: str
  lr_pubkey :: str
  lr_instance_name :: "str option"
  lr_created_at :: i64
  lr_status :: str
  lr_kind :: str
  lr_fiat_code :: str
  lr_payment_methods :: str
  lr_first_payment_methods :: "str option"
  lr_amount_sats :: i64
  lr_fiat_amount :: "f64 option"
  lr_premium :: f64
  lr_first_amount_sats :: "i64 option"
  lr_first_fiat_min :: "f64 option"
  lr_first_fiat_max :: "f64 option"
  lr_first_fiat_code :: "str option"
  lr_first_kind :: "str option"
  lr_pending_at :: "i64 option"
  lr_success_at :: "i64 option"
  lr_canceled_at :: "i64 option"
  lr_taken_at :: "i64 option"
  lr_expires_at :: "i64 option"

definition versions_of :: "database \<Rightarrow> str \<Rightarrow> version_row list" where
  "versions_of db order_id = subject_rows vr_order_id (tb_order_versions db) order_id"

text \<open>\<open>MIN(v.created_at) ... WHERE v.status = ...\<close>.\<close>

definition first_reached :: "str \<Rightarrow> version_row list \<Rightarrow> i64 option" where
  "first_reached status rs = sql_min (map (\<lambda>r. then_some (vr_status r = status) (vr_created_at r)) rs)"

definition latest_expiry :: "version_row list \<Rightarrow> i64 option" where
  "latest_expiry rs = map_option vr_expires_at (first_by (newer vr_created_at vr_event_id) rs)"

definition order_born :: "order_row \<Rightarrow> i64" where
  "order_born o_row = min (or_first_seen_at o_row) (map_or (or_first_seen_at o_row) (\<lambda>t. t) (or_order_created_at o_row))"

definition activity_row_of :: "database \<Rightarrow> order_row \<Rightarrow> activity_row" where
  "activity_row_of db o_row =
     (let rs = versions_of db (or_order_id o_row);
          first = first_by (older vr_created_at vr_event_id) rs
      in \<lparr>lr_order_id = or_order_id o_row, lr_pubkey = or_pubkey o_row,
          lr_instance_name = joined_name db (or_pubkey o_row), lr_created_at = order_born o_row,
          lr_status = or_final_status o_row, lr_kind = or_kind o_row, lr_fiat_code = or_fiat_code o_row,
          lr_payment_methods = or_payment_methods o_row,
          lr_first_payment_methods = map_option vr_payment_methods first,
          lr_amount_sats = or_amount_sats o_row, lr_fiat_amount = or_fiat_amount o_row, lr_premium = or_premium o_row,
          lr_first_amount_sats = map_option vr_amount_sats first,
          lr_first_fiat_min = Option.bind first vr_fiat_min, lr_first_fiat_max = Option.bind first vr_fiat_max,
          lr_first_fiat_code = map_option vr_fiat_code first, lr_first_kind = map_option vr_kind first,
          lr_pending_at = first_reached ''pending'' rs, lr_success_at = or_success_at o_row,
          lr_canceled_at = or_canceled_at o_row, lr_taken_at = first_reached ''in-progress'' rs,
          lr_expires_at = latest_expiry rs\<rparr>)"

fun order_selected :: "database \<Rightarrow> order_filter \<Rightarrow> order_row \<Rightarrow> bool" where
  "order_selected db All_Orders o_row = True"
| "order_selected db (Completed_In lo hi) o_row =
     (or_final_status o_row = ''success'' \<and> is_some_and (or_success_at o_row) (\<lambda>t. lo \<le> t \<and> t < hi))"
| "order_selected db (Touched_In lo hi now) o_row =
     (list_ex (\<lambda>r. lo \<le> vr_created_at r \<and> vr_created_at r < hi) (versions_of db (or_order_id o_row)) \<or>
      or_final_status o_row = ''pending'' \<and>
      is_some_and (latest_expiry (versions_of db (or_order_id o_row))) (\<lambda>t. now < t))"

fun stats_status :: "order_status \<Rightarrow> status" where
  "stats_status Order_Pending = Pending"
| "stats_status Order_In_Progress = InProgress"
| "stats_status Order_Success = Success"
| "stats_status Order_Canceled = Canceled"

fun stats_direction :: "order_side \<Rightarrow> direction" where
  "stats_direction Side_Buy = Buy"
| "stats_direction Side_Sell = Sell"

definition into_activity_order :: "activity_row \<Rightarrow> row_error + order" where
  "into_activity_order r =
     and_then (decode ''kind'' (order_side_parse (map_or (lr_kind r) (\<lambda>k. k) (lr_first_kind r)))) (\<lambda>origin_side.
     and_then (decode ''final_status'' (order_status_parse (lr_status r))) (\<lambda>st.
     and_then (decode ''kind'' (order_side_parse (lr_kind r))) (\<lambda>side.
     Inr \<lparr>o_order_id = lr_order_id r, o_pubkey = lr_pubkey r,
          o_instance = instance_label (lr_pubkey r) (lr_instance_name r), o_created_at = lr_created_at r,
          o_status = stats_status st, o_direction = stats_direction side, o_fiat_code = lr_fiat_code r,
          o_payment_methods = csv_split (lr_payment_methods r), o_amount_sats = lr_amount_sats r,
          o_fiat_amount = lr_fiat_amount r, o_premium = lr_premium r,
          o_is_market_price = (lr_first_amount_sats r = Some 0),
          o_fiat_range = opt_zip (lr_first_fiat_min r) (lr_first_fiat_max r), o_pending_at = lr_pending_at r,
          o_origin = \<lparr>og_fiat_code = map_or (lr_fiat_code r) (\<lambda>c. c) (lr_first_fiat_code r),
            og_payment_methods = csv_split (map_or (lr_payment_methods r) (\<lambda>m. m) (lr_first_payment_methods r)),
            og_direction = stats_direction origin_side\<rparr>,
          o_taken_at = lr_taken_at r, o_success_at = lr_success_at r, o_canceled_at = lr_canceled_at r,
          o_expires_at = lr_expires_at r\<rparr>)))"

definition fetch_orders :: "database \<Rightarrow> load_scope \<Rightarrow> order_filter \<Rightarrow> row_error + order list" where
  "fetch_orders db scope flt =
     sum_traverse into_activity_order
       (map (activity_row_of db)
         (sort_key (\<lambda>r. (order_born r, or_order_id r))
           (filter (\<lambda>r. scope_apply scope (or_pubkey r) (or_network r) \<and> order_selected db flt r)
             (table_rows (tb_orders db)))))"

definition load_orders :: "database \<Rightarrow> load_scope \<Rightarrow> row_error + order list" where
  "load_orders db scope = fetch_orders db scope All_Orders"

definition load_completed_in :: "database \<Rightarrow> load_scope \<Rightarrow> i64 \<Rightarrow> i64 \<Rightarrow> row_error + order list" where
  "load_completed_in db scope lo hi = fetch_orders db scope (Completed_In lo hi)"

definition load_lifecycle_in :: "database \<Rightarrow> load_scope \<Rightarrow> i64 \<Rightarrow> i64 \<Rightarrow> i64 \<Rightarrow> row_error + order list" where
  "load_lifecycle_in db scope lo hi now = fetch_orders db scope (Touched_In lo hi now)"

section \<open>Disputes\<close>

record loaded_dispute_row =
  ld_dispute_id :: str
  ld_pubkey :: str
  ld_instance_name :: "str option"
  ld_opened_at :: i64
  ld_status :: str
  ld_initiator :: "str option"
  ld_resolved_at :: "i64 option"
  ld_outcome :: "str option"

definition terminal_wire :: "str list" where
  "terminal_wire = [''seller-refunded'', ''settled'', ''released'', ''cooperatively-canceled'']"

definition dispute_history :: "database \<Rightarrow> str \<Rightarrow> dispute_version_row list" where
  "dispute_history db dispute_id = subject_rows dvr_dispute_id (tb_dispute_versions db) dispute_id"

text \<open>\<open>COALESCE(d.opened_at, (SELECT MIN(v.created_at) ...))\<close>.\<close>

definition dispute_opened :: "database \<Rightarrow> dispute_row \<Rightarrow> i64 option" where
  "dispute_opened db d =
     (case dr_opened_at d of
        Some t \<Rightarrow> Some t
      | None \<Rightarrow> sql_min (map (\<lambda>r. Some (dvr_created_at r)) (dispute_history db (dr_dispute_id d))))"

text \<open>\<open>opened_at\<close> is an \<open>i64\<close> of the row, which a null does not decode into.\<close>

definition loaded_dispute_row_of :: "database \<Rightarrow> dispute_row \<Rightarrow> row_error + loaded_dispute_row" where
  "loaded_dispute_row_of db d =
     (let ended = filter (\<lambda>r. dvr_status r \<in> set terminal_wire) (dispute_history db (dr_dispute_id d)) in
      and_then (ok_or (Column_Decode ''opened_at'') (dispute_opened db d)) (\<lambda>opened.
      Inr \<lparr>ld_dispute_id = dr_dispute_id d, ld_pubkey = dr_pubkey d, ld_instance_name = joined_name db (dr_pubkey d),
          ld_opened_at = opened, ld_status = dr_final_status d, ld_initiator = dr_initiator d,
          ld_resolved_at = sql_min (map (\<lambda>r. Some (dvr_created_at r)) ended),
          ld_outcome = map_option dvr_status (first_by (older dvr_created_at dvr_event_id) ended)\<rparr>))"

fun stats_dispute_status :: "dispute_state \<Rightarrow> dispute_status" where
  "stats_dispute_status Dispute_Initiated = DS_Initiated"
| "stats_dispute_status Dispute_In_Progress = DS_InProgress"
| "stats_dispute_status Dispute_Seller_Refunded = DS_SellerRefunded"
| "stats_dispute_status Dispute_Settled = DS_Settled"
| "stats_dispute_status Dispute_Released = DS_Released"
| "stats_dispute_status Dispute_Cooperatively_Canceled = DS_CooperativelyCanceled"

fun stats_initiator :: "dispute_side \<Rightarrow> initiator" where
  "stats_initiator By_Buyer = Initiator_Buyer"
| "stats_initiator By_Seller = Initiator_Seller"

definition into_loaded_dispute :: "loaded_dispute_row \<Rightarrow> row_error + dispute" where
  "into_loaded_dispute r =
     and_then (stored_initiator (ld_initiator r)) (\<lambda>side.
     and_then (case ld_outcome r of
         None \<Rightarrow> Inr None
       | Some w \<Rightarrow> map_sum (\<lambda>x. x) Some (decode ''outcome'' (dispute_state_parse w))) (\<lambda>outcome.
     and_then (decode ''final_status'' (dispute_state_parse (ld_status r))) (\<lambda>st.
     Inr \<lparr>dp_dispute_id = ld_dispute_id r, dp_instance = instance_label (ld_pubkey r) (ld_instance_name r),
          dp_opened_at = ld_opened_at r, dp_status = stats_dispute_status st,
          dp_initiator = map_option stats_initiator side, dp_resolved_at = ld_resolved_at r,
          dp_outcome = map_option stats_dispute_status outcome\<rparr>)))"

text \<open>\<open>fetch_all\<close> decodes every row before the first is converted.\<close>

definition load_disputes :: "database \<Rightarrow> load_scope \<Rightarrow> row_error + dispute list" where
  "load_disputes db scope =
     and_then (sum_traverse (loaded_dispute_row_of db)
       (sort_key (\<lambda>d. (nulls_first (dispute_opened db d), dr_dispute_id d))
         (filter (\<lambda>d. apply_instance scope (dr_pubkey d)) (table_rows (tb_disputes db)))))
       (sum_traverse into_loaded_dispute)"

record taken_row =
  tr_order_id :: str
  tr_pubkey :: str
  tr_instance_name :: "str option"
  tr_left_pending_at :: "i64 option"

definition taken_row_of :: "database \<Rightarrow> order_row \<Rightarrow> taken_row" where
  "taken_row_of db o_row =
     \<lparr>tr_order_id = or_order_id o_row, tr_pubkey = or_pubkey o_row, tr_instance_name = joined_name db (or_pubkey o_row),
      tr_left_pending_at = (case first_reached ''in-progress'' (versions_of db (or_order_id o_row)) of
        Some t \<Rightarrow> Some t | None \<Rightarrow> or_success_at o_row)\<rparr>"

definition into_taken :: "taken_row \<Rightarrow> taken option" where
  "into_taken r =
     map_option (\<lambda>t. \<lparr>tk_order_id = tr_order_id r,
       tk_instance = instance_label (tr_pubkey r) (tr_instance_name r), tk_left_pending_at = t\<rparr>) (tr_left_pending_at r)"

definition load_taken :: "database \<Rightarrow> load_scope \<Rightarrow> taken list" where
  "load_taken db scope =
     filter_map into_taken
       (sort_key (\<lambda>r. (nulls_first (tr_left_pending_at r), tr_order_id r))
         (map (taken_row_of db) (filter (\<lambda>r. apply_instance scope (or_pubkey r)) (table_rows (tb_orders db)))))"

definition load_dispute_data :: "database \<Rightarrow> load_scope \<Rightarrow> row_error + dispute_data" where
  "load_dispute_data db scope =
     and_then (load_disputes db scope) (\<lambda>ds. Inr \<lparr>dd_disputes = ds, dd_taken = load_taken db scope\<rparr>)"

section \<open>Dev fees\<close>

definition order_settled_at :: "order_row option \<Rightarrow> i64 option" where
  "order_settled_at joined =
     Option.bind joined (\<lambda>r. if or_final_status r = ''success'' then or_success_at r else None)"

definition loaded_fee :: "database \<Rightarrow> fee_row \<Rightarrow> fee" where
  "loaded_fee db r =
     (let joined = bt_get (tb_orders db) (fr_order_id r);
          settled = order_settled_at joined
      in \<lparr>f_event_id = fr_event_id r, f_order_id = fr_order_id r, f_pubkey = fr_pubkey r,
          f_instance = instance_label (fr_pubkey r) (joined_name db (fr_pubkey r)), f_created_at = fr_created_at r,
          f_amount_sats = fr_amount_sats r, f_is_duplicate = (fr_is_duplicate r \<noteq> 0),
          f_order_known = (joined \<noteq> None), f_settled_at = settled,
          f_fee_in_force = fee_in_force db (fr_pubkey r) (map_or (fr_created_at r) (\<lambda>t. t) settled),
          f_settled_amount_sats =
            Option.bind joined (\<lambda>x. then_some (or_final_status x = ''success'') (or_amount_sats x))\<rparr>)"

definition load_fees :: "database \<Rightarrow> load_scope \<Rightarrow> fee list" where
  "load_fees db scope =
     map (loaded_fee db)
       (sort_key (\<lambda>r. (fr_created_at r, fr_event_id r))
         (filter (\<lambda>r. scope_apply scope (fr_pubkey r) (fr_network r)) (table_rows (tb_dev_fees db))))"

definition loaded_settlement :: "database \<Rightarrow> order_row \<Rightarrow> settlement option" where
  "loaded_settlement db r =
     (if or_final_status r \<noteq> ''success'' then None
      else map_option (\<lambda>t.
        \<lparr>st_order_id = or_order_id r, st_instance = instance_label (or_pubkey r) (joined_name db (or_pubkey r)),
         st_success_at = t, st_has_fee = list_ex (\<lambda>f. fr_order_id f = or_order_id r) (table_rows (tb_dev_fees db)),
         st_charges_fee = map_option (f64_lt (F64_Fin False 0)) (fee_in_force db (or_pubkey r) t)\<rparr>) (or_success_at r))"

definition load_settlements :: "database \<Rightarrow> load_scope \<Rightarrow> settlement list" where
  "load_settlements db scope =
     sort_key (\<lambda>s. (st_success_at s, st_order_id s))
       (filter_map (loaded_settlement db)
         (filter (\<lambda>r. scope_apply scope (or_pubkey r) (or_network r)) (table_rows (tb_orders db))))"

definition load_dev_fee_data :: "database \<Rightarrow> load_scope \<Rightarrow> dev_fee_data" where
  "load_dev_fee_data db scope = \<lparr>df_fees = load_fees db scope, df_settlements = load_settlements db scope\<rparr>"

section \<open>Instances\<close>

definition latest_published :: "database \<Rightarrow> str \<Rightarrow> (info_row \<Rightarrow> 'a option) \<Rightarrow> 'a option" where
  "latest_published db pubkey column =
     Option.bind (first_by (newer nr_created_at nr_event_id)
       (filter (\<lambda>r. column r \<noteq> None) (subject_rows nr_pubkey (tb_instance_info db) pubkey))) column"

definition into_profile :: "database \<Rightarrow> instance_row \<Rightarrow> profile" where
  "into_profile db i =
     (let latest = (\<lambda>column. latest_published db (ir_pubkey i) column);
          split = (\<lambda>csv_text. map_or [] csv_split csv_text)
      in \<lparr>pf_pubkey = ir_pubkey i, pf_name = ir_name i, pf_label = instance_label (ir_pubkey i) (ir_name i),
          pf_mostro_version = latest nr_mostro_version, pf_protocol_version = latest nr_protocol_version,
          pf_fee = latest_published db (ir_pubkey i) nr_fee,
          pf_min_order_sats = latest_published db (ir_pubkey i) nr_min_order_amount,
          pf_max_order_sats = latest_published db (ir_pubkey i) nr_max_order_amount,
          pf_fiat_currencies = split (latest nr_fiat_currencies), pf_ln_networks = split (latest nr_ln_networks),
          pf_bond_enabled = map_option (\<lambda>stored. stored \<noteq> 0) (latest_published db (ir_pubkey i) nr_bond_enabled),
          pf_first_seen_at = ir_first_seen_at i, pf_last_seen_at = ir_last_seen_at i\<rparr>)"

definition load_profiles :: "database \<Rightarrow> load_scope \<Rightarrow> profile list" where
  "load_profiles db scope =
     map (into_profile db)
       (sort_key (\<lambda>i. (ir_first_seen_at i, ir_pubkey i))
         (filter (\<lambda>i. apply_instance scope (ir_pubkey i)) (table_rows (tb_instances db))))"

section \<open>Rates\<close>

definition stats_snapshot :: "rate_snapshot \<Rightarrow> snapshot" where
  "stats_snapshot s = \<lparr>sn_pubkey = rs_pubkey s, sn_published_at = rs_published_at s, sn_rates = rs_rates s\<rparr>"

definition load_book :: "archive_lib \<Rightarrow> database \<Rightarrow> i64 \<Rightarrow> i64 \<Rightarrow> row_error + rate_book" where
  "load_book lib db lo hi =
     and_then (rates_between lib db (i64_sub lo max_age_secs) hi) (\<lambda>ss. Inr (rate_book_new (map stats_snapshot ss)))"

datatype feeds_error = Feeds_Row row_error | Feeds_Orphans "str list"

definition load_feeds :: "archive_lib \<Rightarrow> database \<Rightarrow> str option \<Rightarrow> feeds_error + feed list" where
  "load_feeds lib db pubkey =
     (case latest_per_instance lib db pubkey of
        Inl err \<Rightarrow> Inl (Feeds_Row err)
      | Inr snaps \<Rightarrow>
          let latest = foldl (\<lambda>m s. bt_insert (rs_pubkey s) (rs_published_at s, rs_rates s) m) [] snaps;
              known = instances_all db;
              bestiary = map ir_pubkey known;
              orphans = filter (\<lambda>quoting. quoting \<notin> set bestiary) (bt_keys latest)
          in if orphans \<noteq> [] then Inl (Feeds_Orphans orphans)
             else Inr (map (\<lambda>i.
               \<lparr>fd_instance = instance_label (ir_pubkey i) (ir_name i),
                fd_published_at = map_option fst (bt_get latest (ir_pubkey i)),
                fd_rates = map_or [] snd (bt_get latest (ir_pubkey i))\<rparr>)
               (filter (\<lambda>i. is_none_or pubkey (\<lambda>wanted. ir_pubkey i = wanted)) known)))"

section \<open>The reading of a publication\<close>

text \<open>
  The reads of \<open>compute\<close> and \<open>load\<close> in \<open>commands/publish.rs\<close>, in their order. The book is read for the
  one span the publication asks it about.
\<close>

definition archive_reading :: "archive_lib \<Rightarrow> database \<Rightarrow> i64 \<Rightarrow> row_error + reading" where
  "archive_reading lib db now =
     (let earliest = earliest_created_at db INDEXED_KINDS scope_default;
          latest = latest_created_at db scope_default;
          since = map_or now (\<lambda>t. t) (cov_earliest (coverage_from_extent earliest latest))
      in
      and_then (load_orders db scope_default) (\<lambda>orders.
      and_then (load_dispute_data db scope_default) (\<lambda>disputes.
      and_then (load_book lib db since now) (\<lambda>book.
      Inr \<lparr>rd_earliest = earliest, rd_latest = latest, rd_events = events_count db, rd_orders = orders,
           rd_fees = load_dev_fee_data db scope_default, rd_disputes = disputes,
           rd_profiles = load_profiles db scope_default, rd_book = (\<lambda>_ _. book)\<rparr>))))"

end
