(* ===== verification/Reading.thy ===== *)
theory Reading
  imports Loading
begin

text \<open>
  What the loaders return over a history of the archive: every row in the tables was written by a
  parser, so every row decodes; an order is read with the dates and the first version its
  history gives; and a publication over any archive has a reading to compute from.
\<close>

section \<open>Every row was written by a parser\<close>

definition parser_rows :: "archive_lib \<Rightarrow> database \<Rightarrow> bool" where
  "parser_rows lib s \<longleftrightarrow>
     (\<forall>r \<in> set (table_rows (tb_order_versions s)). \<exists>v. order_version_ok v \<and> r = version_row_of v) \<and>
     (\<forall>r \<in> set (table_rows (tb_dispute_versions s)). \<exists>v. r = dispute_row_of v) \<and>
     (\<forall>r \<in> set (table_rows (tb_rates s)). \<exists>e q. parse_rates (al_wire lib) e = Inr q \<and> r = rate_row_of lib q)"

lemma row_inserted: "r \<in> set (table_rows (insert_ignore k v t)) \<Longrightarrow> r = v \<or> r \<in> set (table_rows t)"
  using set_insert_ignore [of k v t] by (auto simp: table_rows_def)

lemma parsed_kinds:
  "parse_event lib e = Inr (Parsed_Order v) \<Longrightarrow> order_version_ok v"
  "parse_event lib e = Inr (Parsed_Rates q) \<Longrightarrow> parse_rates (al_wire lib) e = Inr q"
  by (auto simp: parse_event_def map_sum_Inr parse_order_ok split: if_splits)

lemma parser_rows_step:
  assumes "parser_rows lib s"
  shows "parser_rows lib (derive_step lib s e)"
proof (cases "parse_event lib e")
  case (Inr p)
  have tables: "tb_order_versions (derive_step lib s e) = (case p of Parsed_Order v \<Rightarrow> insert_order_version v (tb_order_versions s) | _ \<Rightarrow> tb_order_versions s)"
    "tb_dispute_versions (derive_step lib s e) = (case p of Parsed_Dispute v \<Rightarrow> insert_dispute_version v (tb_dispute_versions s) | _ \<Rightarrow> tb_dispute_versions s)"
    using derive_step_tables(3,5) [OF Inr, of s] unfolding order_pair_def dispute_pair_def by (cases p; simp)+
  show ?thesis
    using assms Inr
    unfolding parser_rows_def tables derive_step_tables(7) [OF Inr]
    by (cases p) (auto simp: insert_order_version_def insert_dispute_version_def dest!: row_inserted dest: parsed_kinds)
qed (use assms in \<open>simp add: derive_step_def\<close>)

lemma parser_rows_replayed: "parser_rows lib (replayed lib es)"
proof -
  have "parser_rows lib s \<Longrightarrow> parser_rows lib (foldl (derive_step lib) s es)" for s
    by (induction es arbitrary: s) (simp_all add: parser_rows_step)
  moreover have "parser_rows lib empty_database" by (simp add: parser_rows_def empty_database_def table_rows_def)
  ultimately show ?thesis by (simp add: replayed_def)
qed

lemma history_facts:
  assumes "archive_history lib policy db"
  shows "parser_rows lib db" and "bt_ok (tb_orders db)" and "bt_ok (tb_disputes db)"
    and "\<And>i. bt_get (tb_orders db) i = project_order (versions_of db i)"
    and "\<And>i. bt_get (tb_disputes db) i = project_dispute (dispute_history db i)"
proof -
  have S: "derived_tables db = replayed lib (archived lib db)" using in_step_history [OF assms] by (simp add: in_step_def)
  have "parser_rows lib (derived_tables db)" unfolding S by (rule parser_rows_replayed)
  then show "parser_rows lib db" by (simp add: parser_rows_def derived_tables_def)
  have "derived_ok (derived_tables db)" unfolding S by (rule replayed_ok)
  then show "bt_ok (tb_orders db)" "bt_ok (tb_disputes db)" "\<And>i. bt_get (tb_orders db) i = project_order (versions_of db i)"
    "\<And>i. bt_get (tb_disputes db) i = project_dispute (dispute_history db i)"
    by (simp_all add: derived_ok_def order_projection.current_def dispute_projection.current_def versions_of_def dispute_history_def)
qed

lemma version_row_written:
  assumes "archive_history lib policy db" and "r \<in> set (versions_of db i)"
  shows "\<exists>v. order_version_ok v \<and> r = version_row_of v"
  using history_facts(1) [OF assms(1)] assms(2) by (auto simp: parser_rows_def versions_of_def subject_rows_def)


section \<open>An order as it is read\<close>

lemma older_asym: "older clock ident a b \<Longrightarrow> \<not> older clock ident b a"
  by (auto simp: older_def)

lemma older_neg_trans: "\<not> older clock ident a b \<Longrightarrow> \<not> older clock ident b c \<Longrightarrow> \<not> older clock ident a c"
  by (auto simp: older_def)

lemma oldest_first: "first_by (older clock ident) rs = Some first \<Longrightarrow> r \<in> set rs \<Longrightarrow> \<not> older clock ident r first"
  by (rule first_by_least [of "older clock ident"]) (auto simp: older_def)

text \<open>
  The order of the aggregation crate that a history of versions stands for: the present from
  its newest version, the origin from its oldest, and a date for every status
  from the first version that had it.
\<close>

definition reached :: "version_row list \<Rightarrow> str \<Rightarrow> i64 option \<Rightarrow> bool" where
  "reached rs wire t \<longleftrightarrow>
     (case t of
        None \<Rightarrow> \<not> (\<exists>r \<in> set rs. vr_status r = wire)
      | Some x \<Rightarrow> (\<exists>r \<in> set rs. vr_status r = wire \<and> vr_created_at r = x) \<and>
          (\<forall>r \<in> set rs. vr_status r = wire \<longrightarrow> x \<le> vr_created_at r))"

definition read_between :: "version_row \<Rightarrow> version_row \<Rightarrow> order \<Rightarrow> bool" where
  "read_between new old x \<longleftrightarrow>
     o_order_id x = vr_order_id new \<and> o_pubkey x = vr_pubkey new \<and>
     status_as_str (o_status x) = vr_status new \<and> direction_as_str (o_direction x) = vr_kind new \<and>
     o_fiat_code x = vr_fiat_code new \<and> o_amount_sats x = vr_amount_sats new \<and> 0 \<le> o_amount_sats x \<and>
     o_premium x = vr_premium new \<and> f64_is_finite (o_premium x) \<and> o_fiat_amount x = vr_fiat_amount new \<and>
     csv_join (o_payment_methods x) = vr_payment_methods new \<and>
     o_expires_at x = Some (vr_expires_at new) \<and>
     (o_is_market_price x \<longleftrightarrow> vr_amount_sats old = 0) \<and>
     og_fiat_code (o_origin x) = vr_fiat_code old \<and> direction_as_str (og_direction (o_origin x)) = vr_kind old \<and>
     csv_join (og_payment_methods (o_origin x)) = vr_payment_methods old \<and>
     o_fiat_range x = opt_zip (vr_fiat_min old) (vr_fiat_max old) \<and>
     o_created_at x \<le> vr_created_at old"

definition order_read_from :: "version_row list \<Rightarrow> order \<Rightarrow> bool" where
  "order_read_from rs x \<longleftrightarrow>
     (\<exists>new \<in> set rs. \<exists>old \<in> set rs.
        (\<forall>r \<in> set rs. \<not> newer vr_created_at vr_event_id r new \<and> \<not> older vr_created_at vr_event_id r old) \<and>
        read_between new old x) \<and>
     reached rs ''pending'' (o_pending_at x) \<and> reached rs ''in-progress'' (o_taken_at x) \<and>
     reached rs ''success'' (o_success_at x) \<and> reached rs ''canceled'' (o_canceled_at x)"

lemma reached_first: "reached rs wire (first_reached wire rs)"
proof -
  let ?M = "{vr_created_at r | r. r \<in> set rs \<and> vr_status r = wire}"
  have fin: "finite ?M" by simp
  show ?thesis
  proof (cases "\<exists>r \<in> set rs. vr_status r = wire")
    case True
    then have "?M \<noteq> {}" by blast
    with fin have "Min ?M \<in> ?M" by (rule Min_in)
    then show ?thesis using True fin unfolding reached_def first_reached_def sql_min_where by (auto intro: Min_le)
  qed (simp add: reached_def first_reached_def sql_min_where)
qed

lemma stats_wire [simp]:
  "status_as_str (stats_status st) = order_status_as_str st" "direction_as_str (stats_direction side) = order_side_as_str side"
  by (cases st; simp) (cases side; simp)

lemma version_row_ok:
  assumes "order_version_ok v"
  shows "csv_join (csv_split (vr_payment_methods (version_row_of v))) = vr_payment_methods (version_row_of v)"
    and "0 \<le> vr_amount_sats (version_row_of v)" and "f64_is_finite (vr_premium (version_row_of v))"
    and "vr_kind (version_row_of v) = order_side_as_str (ov_side v)" "vr_status (version_row_of v) = order_status_as_str (ov_status v)"
proof -
  have "csv_split (csv_join (ov_payment_methods v)) = ov_payment_methods v"
    using assms by (intro csv_split_join) (auto simp: order_version_ok_def list_all_iff)
  then show "csv_join (csv_split (vr_payment_methods (version_row_of v))) = vr_payment_methods (version_row_of v)"
    by (simp add: version_row_of_def split: prod.splits)
qed (use assms in \<open>auto simp: version_row_of_def order_version_ok_def plain_zero_def split: prod.splits\<close>)

lemma project_order_parts:
  assumes "project_order rs = Some row"
  obtains new where "first_by (newer vr_created_at vr_event_id) rs = Some new" "row_of_history rs new row"
    "or_success_at row = first_reached ''success'' rs" "or_canceled_at row = first_reached ''canceled'' rs"
proof -
  obtain new where new: "first_by (newer vr_created_at vr_event_id) rs = Some new"
    using assms by (auto simp: project_order_def bind_eq_Some_conv)
  moreover have "row_of_history rs new row" using project_order_latest [OF new] assms by auto
  moreover have "or_success_at row = first_reached ''success'' rs" "or_canceled_at row = first_reached ''canceled'' rs"
    using assms by (auto simp: project_order_def bind_eq_Some_conv first_reached_def)
  ultimately show thesis using that by blast
qed

lemma order_reads:
  assumes "archive_history lib policy db" and "bt_get (tb_orders db) i = Some row"
  shows "\<exists>x. into_activity_order (activity_row_of db row) = Inr x \<and> order_read_from (versions_of db i) x \<and>
    o_order_id x = i \<and> o_created_at x = order_born row \<and> o_pubkey x = or_pubkey row \<and>
    o_instance x = instance_label (or_pubkey row) (joined_name db (or_pubkey row))"
proof -
  let ?rs = "versions_of db i"
  have "project_order ?rs = Some row" using history_facts(4) [OF assms(1), of i] assms(2) by simp
  then obtain new where new: "first_by (newer vr_created_at vr_event_id) ?rs = Some new"
    and row: "row_of_history ?rs new row"
    and dates: "or_success_at row = first_reached ''success'' ?rs" "or_canceled_at row = first_reached ''canceled'' ?rs"
    by (rule project_order_parts)
  have new_in: "new \<in> set ?rs" using new by (rule first_by_in)
  then obtain old where old: "first_by (older vr_created_at vr_event_id) ?rs = Some old" by (metis first_by_None not_None_eq empty_iff list.set(1))
  have old_in: "old \<in> set ?rs" using old by (rule first_by_in)
  obtain vn vo where v: "order_version_ok vn" "new = version_row_of vn" "order_version_ok vo" "old = version_row_of vo"
    using version_row_written [OF assms(1)] new_in old_in by blast
  have i: "vr_order_id new = i" using new_in by (simp add: versions_of_def subject_rows_def)
  have born: "order_born row \<le> vr_created_at old"
    using row old_in by (simp add: order_born_def row_of_history_def min.coboundedI1)
  have ext: "\<not> newer vr_created_at vr_event_id r new \<and> \<not> older vr_created_at vr_event_id r old" if "r \<in> set ?rs" for r
    using newest_first [OF new that] oldest_first [OF old that] by simp
  have id: "or_order_id row = i" using row i by (simp add: row_of_history_def)
  note facts = version_row_ok [OF v(1)] version_row_ok [OF v(3)]
  let ?x = "\<lparr>o_order_id = or_order_id row, o_pubkey = or_pubkey row,
      o_instance = instance_label (or_pubkey row) (joined_name db (or_pubkey row)), o_created_at = order_born row,
      o_status = stats_status (ov_status vn), o_direction = stats_direction (ov_side vn), o_fiat_code = or_fiat_code row,
      o_payment_methods = csv_split (or_payment_methods row), o_amount_sats = or_amount_sats row,
      o_fiat_amount = or_fiat_amount row, o_premium = or_premium row, o_is_market_price = (vr_amount_sats old = 0),
      o_fiat_range = opt_zip (vr_fiat_min old) (vr_fiat_max old), o_pending_at = first_reached ''pending'' ?rs,
      o_origin = \<lparr>og_fiat_code = vr_fiat_code old, og_payment_methods = csv_split (vr_payment_methods old),
        og_direction = stats_direction (ov_side vo)\<rparr>,
      o_taken_at = first_reached ''in-progress'' ?rs, o_success_at = or_success_at row,
      o_canceled_at = or_canceled_at row, o_expires_at = Some (vr_expires_at new)\<rparr>"
  have "into_activity_order (activity_row_of db row) = Inr ?x"
  proof -
    have "or_final_status row = order_status_as_str (ov_status vn)" "or_kind row = order_side_as_str (ov_side vn)"
      "vr_kind old = order_side_as_str (ov_side vo)" "or_order_id row = i"
      using row facts id v by (simp_all add: row_of_history_def)
    then show ?thesis
      unfolding activity_row_of_def into_activity_order_def Let_def
      by (simp add: old new map_or_def latest_expiry_def)
  qed
  moreover have "order_read_from ?rs ?x"
  proof -
    have "or_order_id row = vr_order_id new" "or_pubkey row = vr_pubkey new" "or_fiat_code row = vr_fiat_code new"
      "or_amount_sats row = vr_amount_sats new" "or_premium row = vr_premium new"
      "or_fiat_amount row = vr_fiat_amount new" "or_payment_methods row = vr_payment_methods new"
      using row by (simp_all add: row_of_history_def)
    then have "read_between new old ?x" using born facts unfolding read_between_def v(2,4) by simp
    then have "\<exists>new \<in> set ?rs. \<exists>old \<in> set ?rs.
        (\<forall>r \<in> set ?rs. \<not> newer vr_created_at vr_event_id r new \<and> \<not> older vr_created_at vr_event_id r old) \<and>
        read_between new old ?x" using new_in old_in ext by blast
    then show ?thesis unfolding order_read_from_def by (simp add: dates reached_first)
  qed
  ultimately show ?thesis using id by (intro exI [of _ ?x]) simp
qed

section \<open>Orders load\<close>

definition keyed :: "('v \<Rightarrow> 'k) \<Rightarrow> ('k, 'v) btree \<Rightarrow> bool" where
  "keyed key t \<longleftrightarrow> (\<forall>(k, r) \<in> set t. key r = k)"

lemma keyed_rows:
  assumes "keyed key t" and "bt_ok t"
  shows "distinct (map key (table_rows t))" and "r \<in> set (table_rows t) \<longleftrightarrow> bt_get t (key r) = Some r"
proof -
  have "map key (table_rows t) = map fst t" using assms(1) by (auto simp: keyed_def table_rows_def)
  then show "distinct (map key (table_rows t))" using assms(2) by (simp add: bt_ok_def strict_sorted_iff)
  show "r \<in> set (table_rows t) \<longleftrightarrow> bt_get t (key r) = Some r"
    using assms by (force simp: keyed_def table_rows_iff bt_get_iff)
qed

lemma orders_keyed:
  assumes "archive_history lib policy db"
  shows "keyed or_order_id (tb_orders db)"
proof -
  have "or_order_id row = i" if "(i, row) \<in> set (tb_orders db)" for i row
  proof -
    have "project_order (versions_of db i) = Some row"
      using that history_facts(2,4) [OF assms] bt_get_iff by metis
    then obtain new where "first_by (newer vr_created_at vr_event_id) (versions_of db i) = Some new"
      "row_of_history (versions_of db i) new row" by (rule project_order_parts)
    then show ?thesis using first_by_in by (fastforce simp: row_of_history_def versions_of_def subject_rows_def)
  qed
  then show ?thesis by (auto simp: keyed_def)
qed

lemma sum_traverse_comp: "sum_traverse f (map g xs) = sum_traverse (\<lambda>x. f (g x)) xs"
  by (induction xs) simp_all

lemma distinct_sorted_rows: "distinct (map key xs) \<Longrightarrow> distinct (map key (sort_key f (filter P xs)))"
proof -
  assume "distinct (map key xs)"
  then have "distinct (map key (filter P xs))" by (simp add: distinct_map inj_on_def)
  then show ?thesis by (simp add: distinct_map)
qed

lemma orders_fetched:
  assumes "archive_history lib policy db"
  shows "\<exists>xs. fetch_orders db scope flt = Inr xs \<and> distinct (map o_order_id xs) \<and>
    sorted (map (\<lambda>x. (o_created_at x, o_order_id x)) xs) \<and>
    (\<forall>i. i \<in> o_order_id ` set xs \<longleftrightarrow> (\<exists>row. bt_get (tb_orders db) i = Some row \<and>
      scope_apply scope (or_pubkey row) (or_network row) \<and> order_selected db flt row)) \<and>
    (\<forall>x \<in> set xs. order_read_from (versions_of db (o_order_id x)) x)"
proof -
  let ?sel = "\<lambda>r. scope_apply scope (or_pubkey r) (or_network r) \<and> order_selected db flt r"
  let ?rows = "sort_key (\<lambda>r. (order_born r, or_order_id r)) (filter ?sel (table_rows (tb_orders db)))"
  let ?g = "\<lambda>r. projr (into_activity_order (activity_row_of db r))"
  note rows = keyed_rows [OF orders_keyed [OF assms] history_facts(2) [OF assms]]
  have each: "into_activity_order (activity_row_of db r) = Inr (?g r) \<and> o_order_id (?g r) = or_order_id r \<and>
      o_created_at (?g r) = order_born r \<and> order_read_from (versions_of db (or_order_id r)) (?g r)"
    if "r \<in> set ?rows" for r
    using order_reads [OF assms, of "or_order_id r" r] rows(2) that by fastforce
  have "fetch_orders db scope flt = Inr (map ?g ?rows)"
    unfolding fetch_orders_def sum_traverse_comp by (rule sum_traverse_map) (use each in blast)
  moreover have ids: "map o_order_id (map ?g ?rows) = map or_order_id ?rows"
    "map (\<lambda>x. (o_created_at x, o_order_id x)) (map ?g ?rows) = map (\<lambda>r. (order_born r, or_order_id r)) ?rows"
    unfolding map_map by (rule map_cong [OF refl], use each in force)+
  moreover have "distinct (map or_order_id ?rows)" using rows(1) by (rule distinct_sorted_rows)
  moreover have "i \<in> o_order_id ` set (map ?g ?rows) \<longleftrightarrow> (\<exists>row. bt_get (tb_orders db) i = Some row \<and> ?sel row)" for i
  proof -
    have "o_order_id ` set (map ?g ?rows) = or_order_id ` set ?rows" using ids(1) by (metis list.set_map)
    moreover have "or_order_id row = i" if "bt_get (tb_orders db) i = Some row" for row
      using that orders_keyed [OF assms] by (auto simp: keyed_def dest: bt_get_Some_in)
    ultimately show ?thesis by (auto simp: rows(2) image_iff)
  qed
  moreover have "\<forall>x \<in> set (map ?g ?rows). order_read_from (versions_of db (o_order_id x)) x" using each by auto
  ultimately show ?thesis by (intro exI [of _ "map ?g ?rows"]) (simp only: sorted_sort_key simp_thms)
qed

text \<open>
  C9. Whatever the archive has been through, its orders can be read, and what is read is their
  history: every order the scope and the filter select is there once, oldest first, with the status and the
  figures of its newest version, the origin of its oldest, and the first date of each status it
  had.
\<close>

theorem orders_read_their_history:
  assumes "archive_history lib policy db"
  shows "\<exists>xs. fetch_orders db scope flt = Inr xs \<and> distinct (map o_order_id xs) \<and>
    sorted (map (\<lambda>x. (o_created_at x, o_order_id x)) xs) \<and>
    (\<forall>i. i \<in> o_order_id ` set xs \<longleftrightarrow> (\<exists>row. bt_get (tb_orders db) i = Some row \<and>
      scope_apply scope (or_pubkey row) (or_network row) \<and> order_selected db flt row)) \<and>
    (\<forall>x \<in> set xs. order_read_from (versions_of db (o_order_id x)) x)"
  using assms by (rule orders_fetched)

theorem orders_read_their_history_witness:
  "\<exists>db xs. load_orders db scope_default = Inr xs \<and> xs \<noteq> []"
proof -
  let ?db = "snd (ingest example_archive_lib example_policy example_event ''wss://r'' 9 empty_database)"
  obtain xs where xs: "load_orders ?db scope_default = Inr xs"
    "\<forall>i. i \<in> o_order_id ` set xs \<longleftrightarrow> (\<exists>row. bt_get (tb_orders ?db) i = Some row \<and>
      scope_apply scope_default (or_pubkey row) (or_network row) \<and> order_selected ?db All_Orders row)"
    using orders_read_their_history [OF example_history [of "''wss://r''" 9], of scope_default All_Orders]
    unfolding load_orders_def by blast
  obtain v where v: "parse_event example_archive_lib example_event = Inr (Parsed_Order v)"
    using example_parses by (auto simp: parse_event_def kind_numbers example_archive_lib_def)
  have "example_event \<in> set (archived example_archive_lib ?db)"
    using trade_archived [OF in_step_history [OF archive_history.fresh] _ example_admitted example_readable, of "''wss://r''" 9]
      parsed_order_clock [OF v] by (simp add: is_trade_def archived_def empty_database_def table_rows_def)
  then obtain row where "bt_get (tb_orders ?db) (ov_order_id v) = Some row"
    using stored_version_projected(2) [OF example_history [of "''wss://r''" 9] _ v] by blast
  then have "ov_order_id v \<in> o_order_id ` set xs"
    using xs(2) by (auto simp: scope_apply_def scope_default_def apply_instance_def is_none_or_def)
  with xs(1) show ?thesis by fastforce
qed

section \<open>Disputes load\<close>


lemma sum_traverse_total: "(\<And>x. x \<in> set xs \<Longrightarrow> \<exists>y. f x = Inr y) \<Longrightarrow> \<exists>ys. sum_traverse f xs = Inr ys"
  by (induction xs) fastforce+


section \<open>Instances, rates and the reading of a publication\<close>

definition bestiary_ok :: "database \<Rightarrow> bool" where
  "bestiary_ok db \<longleftrightarrow> bt_ok (tb_instances db) \<and> keyed ir_pubkey (tb_instances db)"

lemma merge_instance_pubkey: "is_none_or old (\<lambda>r. ir_pubkey r = k) \<Longrightarrow> ir_pubkey (merge_instance k name t old) = k"
  by (cases old) (simp_all add: merge_instance_def Let_def is_none_or_def)

lemma keyed_upd:
  assumes "bt_ok m" and "keyed key m" and "\<And>old. is_none_or old (\<lambda>r. key r = k) \<Longrightarrow> key (f old) = k"
  shows "keyed key (bt_upd k f m)"
  using assms(2)
proof (induction m)
  case Nil
  then show ?case using assms(3) [of None] by (simp add: keyed_def is_none_or_def)
next
  case (Cons x m)
  then show ?case
    using assms(3) [of None] assms(3) [of "Some (snd x)"] by (cases x) (auto simp: keyed_def is_none_or_def)
qed

lemma bestiary_upd:
  assumes "bt_ok m" and "keyed ir_pubkey m"
  shows "bt_ok (bt_upd k (merge_instance k name t) m) \<and> keyed ir_pubkey (bt_upd k (merge_instance k name t) m)"
  using assms by (simp add: bt_ok_upd keyed_upd merge_instance_pubkey)

lemma bestiary_ingest:
  assumes "bestiary_ok db"
  shows "bestiary_ok (snd (ingest lib policy e url now db))"
  using assms bestiary_upd unfolding bestiary_ok_def
  by (auto simp: ingest_def Let_def insert_if_new_def advance_def advance_cursor_def upsert_instance_def persist_tables
      split: option.splits sum.splits bool.splits)

lemma bestiary_rebuild: "bestiary_ok (snd (rebuild lib from_raw db))"
proof -
  let ?c = "clear_projections (if from_raw then clear_version_tables db else db)"
    and ?z = "\<lparr>rb_events = 0, rb_unreadable = 0, rb_orders = 0, rb_disputes = 0\<rparr>"
  have step: "bestiary_ok (snd (rebuild_step lib s r))" if "bestiary_ok (snd s)" for s r
    using that bestiary_upd unfolding snd_rebuild_step bestiary_ok_def
    by (auto simp: replay_def persist_tables split: option.splits sum.splits)
  have "bestiary_ok (snd (foldl (rebuild_step lib) s rs))" if "bestiary_ok (snd s)" for s rs
    using that step by (induction rs arbitrary: s) simp_all
  moreover have "bestiary_ok ?c" by (simp add: bestiary_ok_def keyed_def clear_projections_def clear_instances_def)
  ultimately have "bestiary_ok (snd (foldl (rebuild_step lib) (?z, ?c) (events_all ?c)))" by simp
  moreover have "snd (rebuild lib from_raw db) = sweep (snd (foldl (rebuild_step lib) (?z, ?c) (events_all ?c)))"
    by (simp add: rebuild_def Let_def sweep_def split: prod.splits)
  ultimately show ?thesis
    by (simp add: bestiary_ok_def sweep_def sweep_fees_def sweep_disputes_def sweep_orders_def)
qed

lemma bestiary_history: "archive_history lib policy db \<Longrightarrow> bestiary_ok db"
proof (induction rule: archive_history.induct)
  case fresh
  show ?case by (simp add: bestiary_ok_def empty_database_def keyed_def)
next
  case (requested db kind asked_from now)
  then show ?case by (simp add: bestiary_ok_def record_indexed_def)
next
  case (dialled db url source now)
  then show ?case by (simp add: bestiary_ok_def upsert_relay_def)
qed (simp_all add: bestiary_ingest bestiary_rebuild)

definition rates_read_back :: "archive_lib \<Rightarrow> bool" where
  "rates_read_back lib \<longleftrightarrow> (\<forall>e q. parse_rates (al_wire lib) e = Inr q \<longrightarrow>
     al_rates_from lib (al_rates_json lib (rs_rates q)) = Some (rs_rates q))"

lemma rate_row_reads:
  assumes "archive_history lib policy db" and "rates_read_back lib" and "r \<in> set (table_rows (tb_rates db))"
  shows "\<exists>q. r = rate_row_of lib q \<and> into_snapshot lib r = Inr q"
  using history_facts(1) [OF assms(1)] assms(2,3)
  by (fastforce simp: parser_rows_def rates_read_back_def into_snapshot_def rate_row_of_def)




section \<open>Feeds load\<close>

text \<open>Every publisher of an archived event that parses is in the bestiary.\<close>

definition publishers_known :: "archive_lib \<Rightarrow> nostr_event set \<Rightarrow> (str, instance_row) btree \<Rightarrow> bool" where
  "publishers_known lib E t \<longleftrightarrow>
     (\<forall>e \<in> E. \<forall>p. parse_event lib e = Inr p \<longrightarrow> bt_get t (ne_pubkey e) \<noteq> None)"

lemma known_ingest:
  assumes "in_step lib db" and "bestiary_ok db" and "al_from_json lib (al_as_json lib e) = Some e"
    and "publishers_known lib (set (archived lib db)) (tb_instances db)"
  shows "publishers_known lib (set (archived lib (snd (ingest lib policy e url now db))))
    (tb_instances (snd (ingest lib policy e url now db)))"
proof -
  let ?db = "snd (ingest lib policy e url now db)"
  have ok: "archive_ok lib (tb_events db)" "bt_ok (tb_events db)" "bt_ok (tb_instances db)"
    using assms(1,2) by (simp_all add: in_step_def archive_ok_def bestiary_ok_def)
  have grow: "bt_get (tb_instances ?db) j \<noteq> None" if "bt_get (tb_instances db) j \<noteq> None" for j
    using that ok(3)
    by (auto simp: ingest_def Let_def insert_if_new_def advance_def advance_cursor_def upsert_instance_def persist_tables
        bt_get_upd split: option.splits sum.splits bool.splits)
  then have keep: "publishers_known lib (set (archived lib db)) (tb_instances ?db)"
    using assms(4) by (simp add: publishers_known_def)
  from ok(2) show ?thesis
  proof (cases rule: ingest_cases [of db lib policy e url now])
    case same
    then have "archived lib ?db = archived lib db" by (simp add: archived_def)
    with keep show ?thesis by simp
  next
    case (unparsed r)
    then have "set (archived lib ?db) = insert e (set (archived lib db))"
      using archived_insert [OF ok(1) assms(3) unparsed(2)] by (simp add: insert_if_new_def event_record_of_def)
    with keep unparsed(1) show ?thesis by (auto simp: publishers_known_def)
  next
    case (stored p)
    then have "set (archived lib ?db) = insert e (set (archived lib db))"
      using archived_insert [OF ok(1) assms(3) stored(2)]
      by (simp add: insert_if_new_def event_record_of_def persist_tables)
    moreover have "bt_get (tb_instances ?db) (ne_pubkey e) \<noteq> None"
      using stored ok(3) by (simp add: persist_tables insert_if_new_def bt_get_upd advance_def advance_cursor_def)
    ultimately show ?thesis using keep by (auto simp: publishers_known_def)
  qed
qed

lemma known_rebuild:
  "publishers_known lib (set (archived lib db)) (tb_instances (snd (rebuild lib from_raw db)))"
proof -
  let ?c = "clear_projections (if from_raw then clear_version_tables db else db)"
    and ?z = "\<lparr>rb_events = 0, rb_unreadable = 0, rb_orders = 0, rb_disputes = 0\<rparr>"
  let ?read = "filter_map (\<lambda>r. al_from_json lib (er_raw_json r))"
  have step: "bestiary_ok (snd (rebuild_step lib s r)) \<and>
      publishers_known lib (E \<union> set (?read [r])) (tb_instances (snd (rebuild_step lib s r)))"
    if "bestiary_ok (snd s)" "publishers_known lib E (tb_instances (snd s))" for s r E
    using that bestiary_upd unfolding snd_rebuild_step bestiary_ok_def publishers_known_def
    by (auto simp: replay_def persist_tables bt_get_upd split: option.splits sum.splits)
  have "publishers_known lib (E \<union> set (?read rs)) (tb_instances (snd (foldl (rebuild_step lib) s rs)))"
    if "bestiary_ok (snd s)" "publishers_known lib E (tb_instances (snd s))" for s rs E
    using that
  proof (induction rs arbitrary: s E)
    case (Cons r rs)
    from Cons.IH [OF conjunct1 [OF step [OF Cons.prems]] conjunct2 [OF step [OF Cons.prems]]]
    have "publishers_known lib (E \<union> set (?read [r]) \<union> set (?read rs))
        (tb_instances (snd (foldl (rebuild_step lib) (rebuild_step lib s r) rs)))" .
    moreover have "set (?read (r # rs)) = set (?read [r]) \<union> set (?read rs)" by (simp split: option.splits)
    ultimately show ?case by (simp only: foldl_Cons Un_assoc)
  qed simp
  from this [of "(?z, ?c)" "{}" "events_all ?c"]
  have "publishers_known lib (set (?read (events_all ?c))) (tb_instances (snd (foldl (rebuild_step lib) (?z, ?c) (events_all ?c))))"
    by (simp add: publishers_known_def bestiary_ok_def keyed_def clear_projections_def clear_instances_def)
  moreover have "snd (rebuild lib from_raw db) = sweep (snd (foldl (rebuild_step lib) (?z, ?c) (events_all ?c)))"
    by (simp add: rebuild_def Let_def sweep_def split: prod.splits)
  moreover have "set (?read (events_all ?c)) = set (archived lib db)"
    by (simp add: set_replayed_events archived_def clear_projections_def clear_instances_def clear_version_tables_def)
  ultimately show ?thesis by (simp add: sweep_def sweep_fees_def sweep_disputes_def sweep_orders_def)
qed

lemma known_history:
  "archive_history lib policy db \<Longrightarrow> publishers_known lib (set (archived lib db)) (tb_instances db)"
proof (induction rule: archive_history.induct)
  case fresh
  show ?case by (simp add: publishers_known_def archived_def empty_database_def table_rows_def)
next
  case (delivered db e url now)
  then show ?case by (intro known_ingest in_step_history bestiary_history)
next
  case (requested db kind asked_from now)
  then show ?case by (simp add: archived_def record_indexed_def)
next
  case (dialled db url source now)
  then show ?case by (simp add: archived_def upsert_relay_def)
next
  case (rebuilt db from_raw)
  show ?case using known_rebuild [of lib db from_raw] by (simp add: archived_def derived_rebuild(2))
qed

definition rates_from :: "archive_lib \<Rightarrow> nostr_event set \<Rightarrow> database \<Rightarrow> bool" where
  "rates_from lib E s \<longleftrightarrow> (\<forall>r \<in> set (table_rows (tb_rates s)).
     \<exists>e \<in> E. \<exists>p. parse_event lib e = Inr p \<and> rt_pubkey r = ne_pubkey e)"

lemma parsed_rates_pubkey: "parse_event lib e = Inr (Parsed_Rates q) \<Longrightarrow> rs_pubkey q = ne_pubkey e"
  by (auto simp: parse_event_def map_sum_Inr parse_rates_def elim!: and_then_InrE split: if_splits)

lemma rate_table_row:
  "r \<in> set (table_rows (rate_table lib p t)) \<Longrightarrow> r \<in> set (table_rows t) \<or> (\<exists>q. p = Parsed_Rates q \<and> r = rate_row_of lib q)"
  by (cases p) (auto dest!: row_inserted)

lemma rates_from_step:
  assumes "rates_from lib E s"
  shows "rates_from lib (insert e E) (derive_step lib s e)"
proof (cases "parse_event lib e")
  case (Inr p)
  show ?thesis
    unfolding rates_from_def derive_step_tables(7) [OF Inr]
  proof
    fix r
    assume "r \<in> set (table_rows (rate_table lib p (tb_rates s)))"
    then consider "r \<in> set (table_rows (tb_rates s))" | q where "p = Parsed_Rates q" "r = rate_row_of lib q"
      using rate_table_row by blast
    then show "\<exists>e \<in> insert e E. \<exists>p. parse_event lib e = Inr p \<and> rt_pubkey r = ne_pubkey e"
    proof cases
      case 1
      then show ?thesis using assms unfolding rates_from_def by blast
    next
      case 2
      then have "rt_pubkey r = ne_pubkey e" using Inr by (simp add: rate_row_of_def parsed_rates_pubkey)
      then show ?thesis using Inr by blast
    qed
  qed
qed (use assms in \<open>auto simp: rates_from_def derive_step_def\<close>)

lemma rates_from_history:
  assumes "archive_history lib policy db"
  shows "rates_from lib (set (archived lib db)) db"
proof -
  have "rates_from lib E s \<Longrightarrow> rates_from lib (E \<union> set es) (foldl (derive_step lib) s es)" for E s es
  proof (induction es arbitrary: E s)
    case (Cons e es)
    from Cons.IH [OF rates_from_step [OF Cons.prems]] show ?case by simp
  qed simp
  from this [of "{}" empty_database "archived lib db"]
  have "rates_from lib (set (archived lib db)) (replayed lib (archived lib db))"
    by (simp add: replayed_def rates_from_def empty_database_def table_rows_def)
  then have "rates_from lib (set (archived lib db)) (derived_tables db)"
    using in_step_history [OF assms] by (simp add: in_step_def)
  then show ?thesis by (simp add: rates_from_def derived_tables_def)
qed

lemma latest_rate_row: "latest_rate db pubkey = Some r \<Longrightarrow> r \<in> set (table_rows (tb_rates db))"
  by (auto simp: latest_rate_def rates_join_def set_filter_map dest!: first_by_in)

lemma feeds_load:
  assumes "archive_history lib policy db" and "rates_read_back lib"
  shows "\<exists>fs. load_feeds lib db pubkey = Inr fs \<and>
    map fd_instance fs = map (\<lambda>i. instance_label (ir_pubkey i) (ir_name i))
      (filter (\<lambda>i. is_none_or pubkey (\<lambda>wanted. ir_pubkey i = wanted)) (instances_all db))"
proof -
  let ?rows = "filter_map (latest_rate db)
    (bt_set_of (filter (\<lambda>p. is_none_or pubkey (\<lambda>q. p = q)) (map (\<lambda>p. rt_pubkey (snd p)) (rates_join db))))"
  have row: "r \<in> set (table_rows (tb_rates db))" if "r \<in> set ?rows" for r
    using that by (auto simp: set_filter_map latest_rate_row)
  then obtain ss where ss: "sum_traverse (into_snapshot lib) ?rows = Inr ss"
    using sum_traverse_total [of ?rows "into_snapshot lib"] rate_row_reads [OF assms] by blast
  have known: "rs_pubkey q \<in> set (map ir_pubkey (instances_all db))" if q: "q \<in> set ss" for q
  proof -
    obtain r where r: "r \<in> set ?rows" "into_snapshot lib r = Inr q" using sum_traverse_all [OF ss] q by blast
    then have "rs_pubkey q = rt_pubkey r" by (auto simp: into_snapshot_def elim!: and_then_InrE)
    moreover obtain e p where "e \<in> set (archived lib db)" "parse_event lib e = Inr p" "rt_pubkey r = ne_pubkey e"
      using rates_from_history [OF assms(1)] row [OF r(1)] by (auto simp: rates_from_def)
    ultimately obtain i where "bt_get (tb_instances db) (rs_pubkey q) = Some i"
      using known_history [OF assms(1)] by (fastforce simp: publishers_known_def)
    then have "i \<in> set (instances_all db) \<and> ir_pubkey i = rs_pubkey q"
      using bestiary_history [OF assms(1)]
      by (auto simp: instances_all_def bestiary_ok_def keyed_def table_rows_def dest: bt_get_Some_in intro!: image_eqI)
    then show ?thesis by (metis image_eqI list.set_map)
  qed
  let ?latest = "foldl (\<lambda>m s. bt_insert (rs_pubkey s) (rs_published_at s, rs_rates s) m) [] ss"
  have "set (bt_keys m) \<subseteq> K \<Longrightarrow> rs_pubkey ` set qs \<subseteq> K \<Longrightarrow>
      set (bt_keys (foldl (\<lambda>m s. bt_insert (rs_pubkey s) (rs_published_at s, rs_rates s) m) m qs)) \<subseteq> K" for m K qs
    by (induction qs arbitrary: m) (simp_all add: bt_keys_def bt_insert_def set_fst_bt_upd)
  from this [of "[]" "set (map ir_pubkey (instances_all db))" ss]
  have "filter (\<lambda>quoting. quoting \<notin> set (map ir_pubkey (instances_all db))) (bt_keys ?latest) = []"
    using known by (auto simp: filter_empty_conv bt_keys_def)
  then show ?thesis unfolding load_feeds_def latest_per_instance_def ss by (simp add: Let_def o_def)
qed

text \<open>
  C33. The report on the rate feeds is never refused over a history of the archive: no snapshot is
  found without its publisher in the bestiary, every one decodes, and there is one feed per instance asked for.
\<close>

theorem feeds_never_refused:
  assumes "archive_history lib policy db" and "rates_read_back lib"
  shows "\<exists>fs. load_feeds lib db pubkey = Inr fs \<and>
    map fd_instance fs = map (\<lambda>i. instance_label (ir_pubkey i) (ir_name i))
      (filter (\<lambda>i. is_none_or pubkey (\<lambda>wanted. ir_pubkey i = wanted)) (instances_all db))"
  using assms by (rule feeds_load)

section \<open>An archive with one order\<close>

definition rated_lib :: archive_lib where
  "rated_lib = example_archive_lib\<lparr>
     al_wire := example_lib\<lparr>wl_json := (\<lambda>_. Inr [(''BTC'', Entry_Table [(''USD'', Some (F64_Fin False 2))])])\<rparr>,
     al_rates_json := (\<lambda>_. ''r''), al_rates_from := (\<lambda>_. Some [(''USD'', F64_Fin False 2)])\<rparr>"

lemma rated_read_back: "rates_read_back rated_lib"
  by (auto simp: rates_read_back_def rated_lib_def parse_rates_def parse_content_def as_content_error_def opt_filter_def
      canonical_code_def bt_insert_def elim!: and_then_InrE)

definition rated_db :: database where
  "rated_db = snd (ingest rated_lib example_policy example_event ''wss://r'' 9 empty_database)"

lemma rated_history: "archive_history rated_lib example_policy rated_db"
  unfolding rated_db_def
  by (intro archive_history.intros) (use example_readable in \<open>simp add: rated_lib_def\<close>)

lemma rated_admitted: "admit_event rated_lib example_policy example_event = None"
  using example_admitted by (simp add: admit_event_def rated_lib_def)

lemma rated_parses: "\<exists>v. parse_event rated_lib example_event = Inr (Parsed_Order v)"
proof -
  have "parse_order (example_lib\<lparr>wl_json := f\<rparr>) example_event = parse_order example_lib example_event" for f
  proof -
    have "uuid_of (example_lib\<lparr>wl_json := f\<rparr>) = uuid_of example_lib" by (intro ext) (simp add: uuid_of_def)
    then show ?thesis by (simp add: parse_order_def)
  qed
  then show ?thesis using example_parses by (auto simp: parse_event_def kind_numbers rated_lib_def)
qed

lemma rated_stored:
  obtains v where "rated_db = advance example_event ''wss://r'' 9 (persist rated_lib example_event (Parsed_Order v)
    (empty_database\<lparr>tb_events := [(''e1'', event_record_of rated_lib example_event ''wss://r'' 9)]\<rparr>))"
proof -
  obtain v where v: "parse_event rated_lib example_event = Inr (Parsed_Order v)" using rated_parses by blast
  have "rated_db = advance example_event ''wss://r'' 9 (persist rated_lib example_event (Parsed_Order v)
      (empty_database\<lparr>tb_events := [(''e1'', event_record_of rated_lib example_event ''wss://r'' 9)]\<rparr>))"
    unfolding rated_db_def
    by (simp add: ingest_def rated_admitted vouched_for_def UNTAGGED_KINDS_def kind_numbers v Let_def insert_if_new_def
        insert_ignore_def event_record_of_def) (simp add: empty_database_def)
  then show thesis by (rule that)
qed

lemma example_clock: "event_secs example_event = 1772000000"
  by (simp add: event_secs_def wrap_i64_def)


theorem feeds_never_refused_witness:
  "\<exists>f fs. load_feeds rated_lib rated_db None = Inr (f # fs) \<and> fd_instance f = ''Mostro (p1)''"
proof -
  obtain v where db: "rated_db = advance example_event ''wss://r'' 9 (persist rated_lib example_event (Parsed_Order v)
    (empty_database\<lparr>tb_events := [(''e1'', event_record_of rated_lib example_event ''wss://r'' 9)]\<rparr>))" by (rule rated_stored)
  have "tb_instances rated_db = [(''p1'', merge_instance ''p1'' (Some ''Mostro'') 1772000000 None)]"
    unfolding db advance_def advance_cursor_def
    by (simp add: persist_tables instance_name_def y_values_def example_values example_clock trim_graphic graphic_def then_some_def) (simp add: empty_database_def)
  then have "map (\<lambda>i. instance_label (ir_pubkey i) (ir_name i)) (filter (\<lambda>i. is_none_or None (\<lambda>wanted. ir_pubkey i = wanted))
      (instances_all rated_db)) = [''Mostro (p1)'']"
    by (simp add: instances_all_def table_rows_def merge_instance_def instance_label_def is_none_or_def SHORT_PUBKEY_LEN_def)
  with feeds_never_refused [OF rated_history rated_read_back, of None] show ?thesis by (auto simp: map_eq_Cons_conv)
qed

end
