(* ===== verification/Settings.thy ===== *)
theory Settings
  imports Publishing Pipeline
begin

text \<open>
  The configuration (\<open>src/config/mod.rs\<close>, \<open>src/config/secret.rs\<close>): the sections with their defaults, the
  folding of every value to its canonical form, the rules a file is refused by, and what a command
  reads of the result, with the limits its relays advertise (\<open>src/nostr/nip11.rs\<close>). The \<open>config\<close> crate, which layers a file and the environment, is a parameter, and
  so is \<open>PublicKey::from_bech32\<close>, as the hex form of the key it decodes. Case is folded on the
  ASCII letters. The lemmas show that what is accepted is usable and is a fixed point of loading.
\<close>

section \<open>The sections\<close>

record nostr_settings =
  ns_relays :: "str list"
  ns_discover_relays :: bool
  ns_resume_overlap_secs :: u64

record indexer_settings =
  nx_instances :: "str list"
  nx_accept_unknown_instances :: bool
  nx_networks :: "network list"
  nx_backfill_from :: i64

record assumption_settings =
  am_dev_fee_percentage_default :: f64
  am_dev_fee_percentage :: "(str, f64) btree"

record database_settings =
  dx_url :: str

record report_settings =
  rx_reference_currency :: str

record publish_section =
  px_relays :: "str list"
  px_max_content_bytes :: nat
  px_nsec :: "str option"

record settings =
  st_nostr :: nostr_settings
  st_indexer :: indexer_settings
  st_assumptions :: assumption_settings
  st_database :: database_settings
  st_report :: report_settings
  st_publish :: publish_section

datatype validation_error =
  No_Relays
  | Relay_Not_Websocket str
  | Pubkey_Length str nat
  | Pubkey_Not_Hex str str
  | Pubkey_Not_Npub str str
  | Duplicate_Dev_Fee_Override str "str list"
  | Nothing_To_Index
  | No_Networks
  | Negative_Backfill_From i64
  | Dev_Fee_Percentage_Out_Of_Range str f64
  | Database_Not_Sqlite str
  | Reference_Currency_Not_Iso str
  | Publish_Relay_Not_Websocket str
  | Publish_Ceiling_Is_Zero

datatype config_error = Config_Load str | Config_Invalid validation_error

section \<open>Defaults\<close>

definition default_max_content_bytes :: nat where
  "default_max_content_bytes = DEFAULT_MAX_CONTENT_BYTES"

definition default_resume_overlap_secs :: u64 where
  "default_resume_overlap_secs = 3600"

definition default_database_url :: str where
  "default_database_url = ''sqlite://bestiario.db''"

definition default_networks :: "network list" where
  "default_networks = [Mainnet]"

definition default_dev_fee_percentage :: f64 where
  "default_dev_fee_percentage = f64_round False (3 / 10)"

definition default_reference_currency :: str where
  "default_reference_currency = ''USD''"

definition publish_default :: publish_section where
  "publish_default = \<lparr>px_relays = [], px_max_content_bytes = default_max_content_bytes, px_nsec = None\<rparr>"

definition nostr_default :: nostr_settings where
  "nostr_default =
     \<lparr>ns_relays = [], ns_discover_relays = False, ns_resume_overlap_secs = default_resume_overlap_secs\<rparr>"

definition indexer_default :: indexer_settings where
  "indexer_default =
     \<lparr>nx_instances = [], nx_accept_unknown_instances = False, nx_networks = default_networks, nx_backfill_from = 0\<rparr>"

definition database_default :: database_settings where
  "database_default = \<lparr>dx_url = default_database_url\<rparr>"

definition assumptions_default :: assumption_settings where
  "assumptions_default =
     \<lparr>am_dev_fee_percentage_default = default_dev_fee_percentage, am_dev_fee_percentage = []\<rparr>"

definition report_default :: report_settings where
  "report_default = \<lparr>rx_reference_currency = default_reference_currency\<rparr>"

section \<open>References to the environment\<close>

text \<open>\<open>EnvRef\<close> is the name it holds; the error is \<open>serde\<close>'s, as a value.\<close>

definition ENV_REFERENCE :: str where
  "ENV_REFERENCE = ''env:''"

datatype env_ref_error = Not_A_Reference | Names_No_Variable

definition env_ref_deserialize :: "str \<Rightarrow> env_ref_error + str" where
  "env_ref_deserialize raw =
     and_then (ok_or Not_A_Reference (strip_prefix ENV_REFERENCE raw)) (\<lambda>name.
       if trim name = [] then Inl Names_No_Variable else Inr (trim name))"

definition env_ref_read :: "str \<Rightarrow> (str \<Rightarrow> str option) \<Rightarrow> str option" where
  "env_ref_read name env = env name"

section \<open>Canonical values\<close>

definition is_ascii_lowercase :: "char \<Rightarrow> bool" where
  "is_ascii_lowercase c \<longleftrightarrow> 97 \<le> (of_char c :: nat) \<and> (of_char c :: nat) \<le> 122"

definition is_ascii_alphabetic :: "char \<Rightarrow> bool" where
  "is_ascii_alphabetic c \<longleftrightarrow> is_ascii_lowercase c \<or> is_ascii_uppercase c"

definition is_ascii_hexdigit :: "char \<Rightarrow> bool" where
  "is_ascii_hexdigit c \<longleftrightarrow> is_ascii_digit c
     \<or> 97 \<le> (of_char c :: nat) \<and> (of_char c :: nat) \<le> 102 \<or> 65 \<le> (of_char c :: nat) \<and> (of_char c :: nat) \<le> 70"

definition upper_char :: "char \<Rightarrow> char" where
  "upper_char c = (let n = of_char c :: nat in if 97 \<le> n \<and> n \<le> 122 then char_of (n - 32) else c)"

definition BECH32_SEPARATOR :: char where
  "BECH32_SEPARATOR = CHR ''1''"

definition looks_like_bech32 :: "str \<Rightarrow> bool" where
  "looks_like_bech32 value =
     is_some_and (split_once BECH32_SEPARATOR value) (\<lambda>(hrp, _).
       hrp \<noteq> [] \<and> list_all is_ascii_lowercase hrp \<and> \<not> list_all is_ascii_hexdigit hrp)"

definition canonical_pubkey :: "(str \<Rightarrow> str + str) \<Rightarrow> str \<Rightarrow> validation_error + str" where
  "canonical_pubkey npub_hex raw =
     (let value = map lower_char (trim raw) in
      if \<not> looks_like_bech32 value then Inr value
      else map_sum (\<lambda>reason. Pubkey_Not_Npub value reason) (\<lambda>hex. hex) (npub_hex value))"

fun fold_overrides ::
  "(str \<Rightarrow> str + str) \<Rightarrow> (str \<times> f64) list \<Rightarrow> (str, str list) btree \<Rightarrow> (str, f64) btree \<Rightarrow>
   validation_error + (str, str list) btree \<times> (str, f64) btree" where
  "fold_overrides npub_hex [] spellings folded = Inr (spellings, folded)"
| "fold_overrides npub_hex ((key, value) # rest) spellings folded =
     and_then (canonical_pubkey npub_hex key) (\<lambda>pubkey.
       fold_overrides npub_hex rest (group_push pubkey (trim key) spellings) (bt_insert pubkey value folded))"

definition canonical_dev_fee_overrides ::
  "(str \<Rightarrow> str + str) \<Rightarrow> (str, f64) btree \<Rightarrow> validation_error + (str, f64) btree" where
  "canonical_dev_fee_overrides npub_hex raw =
     and_then (fold_overrides npub_hex raw [] []) (\<lambda>(spellings, folded).
       case List.find (\<lambda>(_, s). length s > 1) spellings of
         Some (pubkey, s) \<Rightarrow> Inl (Duplicate_Dev_Fee_Override pubkey s)
       | None \<Rightarrow> Inr folded)"

definition normalized :: "(str \<Rightarrow> str + str) \<Rightarrow> settings \<Rightarrow> validation_error + settings" where
  "normalized npub_hex s =
     and_then (sum_traverse (canonical_pubkey npub_hex) (nx_instances (st_indexer s))) (\<lambda>instances.
     and_then (canonical_dev_fee_overrides npub_hex (am_dev_fee_percentage (st_assumptions s))) (\<lambda>overrides.
     Inr (s\<lparr>st_indexer := (st_indexer s)\<lparr>nx_instances := instances\<rparr>,
            st_assumptions := (st_assumptions s)\<lparr>am_dev_fee_percentage := overrides\<rparr>,
            st_report := \<lparr>rx_reference_currency = map upper_char (trim (rx_reference_currency (st_report s)))\<rparr>,
            st_publish := (st_publish s)\<lparr>px_relays :=
              (if px_relays (st_publish s) = [] then ns_relays (st_nostr s) else px_relays (st_publish s))\<rparr>\<rparr>)))"

section \<open>Validation\<close>

text \<open>A rule is the error of the values that break it; a loop of rules stops at the first error.\<close>

definition refuse_unless :: "bool \<Rightarrow> 'e \<Rightarrow> 'e + unit" where
  "refuse_unless ok err = (if ok then Inr () else Inl err)"

definition check_each :: "('a \<Rightarrow> 'e + unit) \<Rightarrow> 'a list \<Rightarrow> 'e + unit" where
  "check_each rule xs = map_sum (\<lambda>e. e) (\<lambda>_. ()) (sum_traverse rule xs)"

definition websocket_url :: "str \<Rightarrow> bool" where
  "websocket_url url \<longleftrightarrow> starts_with ''wss://'' url \<or> starts_with ''ws://'' url"

text \<open>\<open>found\<close> is the first character that is not hexadecimal, all of its bytes.\<close>

definition validate_pubkey :: "str \<Rightarrow> validation_error + unit" where
  "validate_pubkey pubkey =
     (if length pubkey \<noteq> 64 then Inl (Pubkey_Length pubkey (length pubkey))
      else case dropWhile is_ascii_hexdigit pubkey of
          [] \<Rightarrow> Inr ()
        | rest \<Rightarrow> Inl (Pubkey_Not_Hex pubkey (chars_take 1 rest)))"

definition validate_fraction :: "str \<Rightarrow> f64 \<Rightarrow> validation_error + unit" where
  "validate_fraction setting value =
     (if \<not> (f64_lt (F64_Fin False 0) value \<and> f64_le value (F64_Fin False 1))
      then Inl (Dev_Fee_Percentage_Out_Of_Range setting value) else Inr ())"

definition validate_publish :: "settings \<Rightarrow> validation_error + unit" where
  "validate_publish s =
     and_then (check_each (\<lambda>url. refuse_unless (websocket_url url) (Publish_Relay_Not_Websocket url)) (px_relays (st_publish s))) (\<lambda>_.
       refuse_unless (px_max_content_bytes (st_publish s) \<noteq> 0) Publish_Ceiling_Is_Zero)"

definition validate_relays :: "settings \<Rightarrow> validation_error + unit" where
  "validate_relays s =
     and_then (refuse_unless (ns_relays (st_nostr s) \<noteq> []) No_Relays) (\<lambda>_.
       check_each (\<lambda>url. refuse_unless (websocket_url url) (Relay_Not_Websocket url)) (ns_relays (st_nostr s)))"

definition validate_indexer :: "settings \<Rightarrow> validation_error + unit" where
  "validate_indexer s =
     (let x = st_indexer s in
      and_then (check_each validate_pubkey (nx_instances x)) (\<lambda>_.
      and_then (refuse_unless (\<not> (nx_instances x = [] \<and> \<not> nx_accept_unknown_instances x)) Nothing_To_Index) (\<lambda>_.
      and_then (refuse_unless (nx_networks x \<noteq> []) No_Networks) (\<lambda>_.
      refuse_unless (\<not> nx_backfill_from x < 0) (Negative_Backfill_From (nx_backfill_from x))))))"

definition validate_assumptions :: "settings \<Rightarrow> validation_error + unit" where
  "validate_assumptions s =
     (let a = st_assumptions s in
      and_then (validate_fraction ''[assumptions].dev_fee_percentage_default'' (am_dev_fee_percentage_default a)) (\<lambda>_.
        check_each (\<lambda>(pubkey, value).
          and_then (validate_pubkey pubkey) (\<lambda>_.
            validate_fraction (''[assumptions.dev_fee_percentage].'' @ [CHR 0x22] @ pubkey @ [CHR 0x22]) value))
          (am_dev_fee_percentage a)))"

definition validate_database :: "settings \<Rightarrow> validation_error + unit" where
  "validate_database s =
     refuse_unless (starts_with ''sqlite:'' (dx_url (st_database s))) (Database_Not_Sqlite (dx_url (st_database s)))"

definition validate_report :: "settings \<Rightarrow> validation_error + unit" where
  "validate_report s =
     (let code = rx_reference_currency (st_report s) in
      refuse_unless (\<not> (length code \<noteq> 3 \<or> \<not> list_all is_ascii_alphabetic code)) (Reference_Currency_Not_Iso code))"

definition validate :: "settings \<Rightarrow> validation_error + unit" where
  "validate s =
     and_then (validate_relays s) (\<lambda>_.
     and_then (validate_indexer s) (\<lambda>_.
     and_then (validate_assumptions s) (\<lambda>_.
     and_then (validate_database s) (\<lambda>_.
     and_then (validate_report s) (\<lambda>_.
     validate_publish s)))))"

definition validated :: "settings \<Rightarrow> validation_error + settings" where
  "validated s = and_then (validate s) (\<lambda>_. Inr s)"

section \<open>Loading\<close>

text \<open>
  Both ways in end the same: what the \<open>config\<close> crate read is normalized and validated. A source is what
  the crate makes of the file and the environment, told whether the file has to be there.
\<close>

definition settings_from :: "(str \<Rightarrow> str + str) \<Rightarrow> str + settings \<Rightarrow> config_error + settings" where
  "settings_from npub_hex source =
     (case source of
        Inl err \<Rightarrow> Inl (Config_Load err)
      | Inr raw \<Rightarrow> map_sum Config_Invalid (\<lambda>s. s) (and_then (normalized npub_hex raw) validated))"

definition load_with :: "(str \<Rightarrow> str + str) \<Rightarrow> (bool \<Rightarrow> str + settings) \<Rightarrow> bool \<Rightarrow> config_error + settings" where
  "load_with npub_hex sources file_required = settings_from npub_hex (sources file_required)"

definition settings_load :: "(str \<Rightarrow> str + str) \<Rightarrow> (bool \<Rightarrow> str + settings) \<Rightarrow> config_error + settings" where
  "settings_load npub_hex sources = load_with npub_hex sources True"

definition settings_load_optional :: "(str \<Rightarrow> str + str) \<Rightarrow> (bool \<Rightarrow> str + settings) \<Rightarrow> config_error + settings" where
  "settings_load_optional npub_hex sources = load_with npub_hex sources False"

section \<open>What a relay advertises\<close>

text \<open>
  \<open>src/nostr/nip11.rs\<close>: the text a relay serves over HTTP is a parameter, none when there is no client or no
  answer, and so is the \<open>max_content_length\<close> \<open>nostr_sdk\<close> reads in it.
\<close>

fun split_once_str :: "str \<Rightarrow> str \<Rightarrow> (str \<times> str) option" where
  "split_once_str pat [] = (if pat = [] then Some ([], []) else None)"
| "split_once_str pat (c # s) =
     (if starts_with pat (c # s) then Some ([], drop (length pat) (c # s))
      else map_option (\<lambda>(a, b). (c # a, b)) (split_once_str pat s))"

definition http_url :: "str \<Rightarrow> str" where
  "http_url relay =
     (case split_once_str ''://'' relay of
        None \<Rightarrow> relay
      | Some (scheme, rest) \<Rightarrow>
          if scheme = ''wss'' then ''https://'' @ rest
          else if scheme = ''ws'' then ''http://'' @ rest
          else relay)"

definition limit_of :: "(str \<Rightarrow> str option) \<Rightarrow> (str \<Rightarrow> int option) \<Rightarrow> str \<Rightarrow> nat option" where
  "limit_of get max_content_length relay =
     Option.bind (get (http_url relay)) (\<lambda>json.
     Option.bind (max_content_length json) (\<lambda>limit. then_some (0 \<le> limit) (nat limit)))"

definition relay_limits ::
  "(str \<Rightarrow> str option) option \<Rightarrow> (str \<Rightarrow> int option) \<Rightarrow> str list \<Rightarrow> advertised list" where
  "relay_limits client max_content_length relays =
     map (\<lambda>relay. \<lparr>adv_relay = relay, adv_limit =
       Option.bind client (\<lambda>get. limit_of get max_content_length relay)\<rparr>) relays"

section \<open>What the commands read of it\<close>

definition dev_fee_percentage_for :: "assumption_settings \<Rightarrow> str \<Rightarrow> f64" where
  "dev_fee_percentage_for a pubkey =
     (case bt_get (am_dev_fee_percentage a) (map lower_char pubkey) of
        Some v \<Rightarrow> v
      | None \<Rightarrow> am_dev_fee_percentage_default a)"

definition settings_policy :: "settings \<Rightarrow> policy" where
  "settings_policy s =
     policy_new (nx_instances (st_indexer s)) (nx_accept_unknown_instances (st_indexer s)) (nx_networks (st_indexer s))"

definition settings_assumption :: "assumption_settings \<Rightarrow> assumption" where
  "settings_assumption a =
     \<lparr>as_per_instance = am_dev_fee_percentage a, as_default = am_dev_fee_percentage_default a\<rparr>"

definition settings_publish :: "settings \<Rightarrow> publish_settings" where
  "settings_publish s =
     \<lparr>ps_nsec = px_nsec (st_publish s), ps_relays = px_relays (st_publish s),
      ps_max_content_bytes = px_max_content_bytes (st_publish s),
      ps_assumption = settings_assumption (st_assumptions s),
      ps_reference_currency = rx_reference_currency (st_report s)\<rparr>"

section \<open>What is accepted\<close>

definition lower_hex :: "str \<Rightarrow> bool" where
  "lower_hex p \<longleftrightarrow> length p = 64 \<and> list_all (\<lambda>c. is_ascii_hexdigit c \<and> lower_char c = c) p"

definition fraction_ok :: "f64 \<Rightarrow> bool" where
  "fraction_ok v \<longleftrightarrow> f64_is_finite v \<and> 0 < f64_val v \<and> f64_val v \<le> 1"

definition currency_code :: "str \<Rightarrow> bool" where
  "currency_code code \<longleftrightarrow> length code = 3 \<and> list_all is_ascii_uppercase code"

text \<open>The configuration every command relies on.\<close>

definition settings_usable :: "settings \<Rightarrow> bool" where
  "settings_usable s \<longleftrightarrow>
     ns_relays (st_nostr s) \<noteq> [] \<and> list_all websocket_url (ns_relays (st_nostr s)) \<and>
     list_all lower_hex (nx_instances (st_indexer s)) \<and>
     (nx_instances (st_indexer s) \<noteq> [] \<or> nx_accept_unknown_instances (st_indexer s)) \<and>
     nx_networks (st_indexer s) \<noteq> [] \<and> 0 \<le> nx_backfill_from (st_indexer s) \<and>
     fraction_ok (am_dev_fee_percentage_default (st_assumptions s)) \<and>
     bt_ok (am_dev_fee_percentage (st_assumptions s)) \<and>
     list_all (\<lambda>(p, v). lower_hex p \<and> fraction_ok v) (am_dev_fee_percentage (st_assumptions s)) \<and>
     starts_with ''sqlite:'' (dx_url (st_database s)) \<and>
     currency_code (rx_reference_currency (st_report s)) \<and>
     px_relays (st_publish s) \<noteq> [] \<and> list_all websocket_url (px_relays (st_publish s)) \<and>
     0 < px_max_content_bytes (st_publish s)"

text \<open>What \<open>to_hex\<close> documents: sixty-four lower-case hexadecimal digits.\<close>

definition decodes_to_hex :: "(str \<Rightarrow> str + str) \<Rightarrow> bool" where
  "decodes_to_hex npub_hex \<longleftrightarrow> (\<forall>s h. npub_hex s = Inr h \<longrightarrow> lower_hex h)"

lemma refuse_unless_Inr [simp]: "refuse_unless ok err = Inr u \<longleftrightarrow> ok"
  by (simp add: refuse_unless_def)

lemma check_each_Inr [simp]: "check_each rule xs = Inr u \<longleftrightarrow> (\<forall>x \<in> set xs. rule x = Inr ())"
  by (induction xs) (auto simp: check_each_def map_sum_Inr elim!: and_then_InrE)

lemma lower_char_idem [simp]: "lower_char (lower_char c) = lower_char c"
proof -
  have "(of_char (char_of (of_char c + 32 :: nat) :: char) :: nat) = of_char c + 32" if "(of_char c :: nat) \<le> 90"
    using that by (simp add: of_char_of)
  then show ?thesis by (auto simp: lower_char_def Let_def)
qed

lemma upper_lower_char [simp]: "is_ascii_uppercase c \<Longrightarrow> upper_char c = c"
  by (simp add: is_ascii_uppercase_def less_eq_char_def upper_char_def Let_def)

lemma upper_alphabetic: "is_ascii_alphabetic (upper_char c) \<longleftrightarrow> is_ascii_uppercase (upper_char c)"
proof -
  have "(of_char (char_of (of_char c - 32 :: nat) :: char) :: nat) = of_char c - 32" if "(of_char c :: nat) \<le> 122"
    using that by (simp add: of_char_of)
  then show ?thesis
    by (auto simp: is_ascii_alphabetic_def is_ascii_lowercase_def is_ascii_uppercase_def less_eq_char_def upper_char_def Let_def)
qed

lemma fraction_Inr [simp]: "validate_fraction setting v = Inr u \<longleftrightarrow> fraction_ok v"
  by (cases v) (auto simp: validate_fraction_def fraction_ok_def f64_le_def f64_eq_def)

lemma pubkey_Inr [simp]:
  "validate_pubkey p = Inr u \<longleftrightarrow> length p = 64 \<and> list_all is_ascii_hexdigit p"
proof -
  have "dropWhile is_ascii_hexdigit p = [] \<longleftrightarrow> list_all is_ascii_hexdigit p"
    by (simp add: dropWhile_eq_Nil_conv list_all_iff)
  then show ?thesis by (simp add: validate_pubkey_def list.case_eq_if)
qed

lemma canonical_lower:
  assumes "decodes_to_hex npub_hex" and "canonical_pubkey npub_hex raw = Inr p"
  shows "map lower_char p = p"
  using assms
  by (auto simp: canonical_pubkey_def Let_def map_sum_Inr decodes_to_hex_def lower_hex_def list_all_iff map_idI split: if_splits)

lemma hex_graphic: "is_ascii_hexdigit c \<Longrightarrow> graphic c"
  by (auto simp: is_ascii_hexdigit_def is_ascii_digit_def graphic_def less_eq_char_def)

lemma split_once_set: "split_once c s = Some (a, b) \<Longrightarrow> set a \<subseteq> set s"
  by (induction s arbitrary: a) (auto split: if_splits option.splits)

lemma canonical_hex:
  assumes "lower_hex p"
  shows "canonical_pubkey npub_hex p = Inr p" and "trim p = p" and "map lower_char p = p"
proof -
  have ne: "p \<noteq> []" and hex: "\<And>c. c \<in> set p \<Longrightarrow> is_ascii_hexdigit c" using assms by (auto simp: lower_hex_def list_all_iff)
  show t: "trim p = p" using trim_graphic [OF ne] hex_graphic [OF hex] ne by simp
  show l: "map lower_char p = p" using assms by (simp add: lower_hex_def list_all_iff map_idI)
  have "\<not> looks_like_bech32 p"
    using hex split_once_set [of BECH32_SEPARATOR p]
    by (auto simp: looks_like_bech32_def is_some_and_def list_all_iff split: option.splits)
  then show "canonical_pubkey npub_hex p = Inr p" by (simp add: canonical_pubkey_def t l)
qed

text \<open>The overrides, seen through their canonical keys.\<close>

abbreviation canonical_key :: "(str \<Rightarrow> str + str) \<Rightarrow> str \<times> f64 \<Rightarrow> str" where
  "canonical_key npub_hex x \<equiv> projr (canonical_pubkey npub_hex (fst x))"

definition all_canonical :: "(str \<Rightarrow> str + str) \<Rightarrow> (str \<times> f64) list \<Rightarrow> bool" where
  "all_canonical npub_hex raw \<longleftrightarrow> (\<forall>x \<in> set raw. canonical_pubkey npub_hex (fst x) = Inr (canonical_key npub_hex x))"

lemma fold_overrides_Inr:
  "fold_overrides npub_hex raw sp fo = Inr (sp', fo') \<longleftrightarrow> all_canonical npub_hex raw \<and>
     sp' = foldl (\<lambda>m x. group_push (canonical_key npub_hex x) (trim (fst x)) m) sp raw \<and>
     fo' = foldl (\<lambda>m x. bt_insert (canonical_key npub_hex x) (snd x) m) fo raw"
proof (induction raw arbitrary: sp fo)
  case (Cons x raw)
  show ?case
    using Cons.IH by (cases x; cases "canonical_pubkey npub_hex (fst x)") (auto simp: all_canonical_def)
qed (auto simp: all_canonical_def)

lemma get_spellings:
  "bt_get (foldl (\<lambda>m x. group_push (key x) (f x) m) [] xs) k =
     (if filter (\<lambda>x. key x = k) xs = [] then None else Some (map f (filter (\<lambda>x. key x = k) xs)))"
proof -
  have "bt_ok (foldl (\<lambda>m x. group_push (key x) (f x) m) [] xs)" for xs
    unfolding group_push_def by (rule bt_ok_foldl_upd) simp
  note ok = this [unfolded group_push_def]
  show ?thesis unfolding group_push_def by (induction xs rule: rev_induct) (auto simp: bt_get_upd [OF ok])
qed

lemma get_folded:
  "bt_ok (foldl (\<lambda>m x. bt_insert (key x) (f x) m) [] xs) \<and>
   bt_get (foldl (\<lambda>m x. bt_insert (key x) (f x) m) [] xs) k =
     (if filter (\<lambda>x. key x = k) xs = [] then None else Some (f (List.last (filter (\<lambda>x. key x = k) xs))))"
  by (induction xs rule: rev_induct) (simp_all add: bt_get_insert)

lemma spellings_single:
  "List.find (\<lambda>(_, s). length s > 1) (foldl (\<lambda>m x. group_push (key x) (f x) m) [] xs) = None \<longleftrightarrow>
     (\<forall>k. length (filter (\<lambda>x. key x = k) xs) \<le> 1)" (is "List.find _ ?m = None \<longleftrightarrow> _")
proof -
  have ok: "bt_ok ?m" unfolding group_push_def by (rule bt_ok_foldl_upd) simp
  have "List.find (\<lambda>(_, s). length s > 1) ?m = None \<longleftrightarrow> (\<forall>k s. bt_get ?m k = Some s \<longrightarrow> length s \<le> 1)"
    by (auto simp: find_None_iff bt_get_iff [OF ok] not_less)
  also have "\<dots> \<longleftrightarrow> (\<forall>k. length (filter (\<lambda>x. key x = k) xs) \<le> 1)"
    unfolding get_spellings by (metis le0 length_map list.size(3) option.distinct(1) option.inject)
  finally show ?thesis .
qed

lemma canonical_overrides_Inr:
  "canonical_dev_fee_overrides npub_hex raw = Inr fo \<longleftrightarrow> all_canonical npub_hex raw \<and>
     (\<forall>k. length (filter (\<lambda>x. canonical_key npub_hex x = k) raw) \<le> 1) \<and>
     fo = foldl (\<lambda>m x. bt_insert (canonical_key npub_hex x) (snd x) m) [] raw"
proof (cases "fold_overrides npub_hex raw [] []")
  case (Inl e)
  have "\<not> all_canonical npub_hex raw" using Inl fold_overrides_Inr [of npub_hex raw "[]" "[]"] by fastforce
  then show ?thesis by (simp add: canonical_dev_fee_overrides_def Inl)
next
  case (Inr r)
  obtain sp fs where r: "r = (sp, fs)" by (cases r)
  note facts = Inr [unfolded r fold_overrides_Inr]
  show ?thesis
    unfolding spellings_single [of _ "\<lambda>x. trim (fst x)", symmetric] canonical_dev_fee_overrides_def Inr
    using facts by (auto simp: r split: option.splits)
qed

lemma only_member: "x \<in> set xs \<Longrightarrow> length xs \<le> 1 \<Longrightarrow> xs = [x]"
  by (cases xs) auto

lemma overrides_from_raw:
  assumes "canonical_dev_fee_overrides npub_hex raw = Inr fo"
  shows "bt_ok fo"
    and "(p, v) \<in> set fo \<Longrightarrow> \<exists>k. (k, v) \<in> set raw \<and> canonical_pubkey npub_hex k = Inr p"
    and "(k, v) \<in> set raw \<Longrightarrow> \<exists>p. canonical_pubkey npub_hex k = Inr p \<and> bt_get fo p = Some v"
proof -
  note facts = assms [unfolded canonical_overrides_Inr all_canonical_def]
  let ?of = "\<lambda>p. filter (\<lambda>x. canonical_key npub_hex x = p) raw"
  have fo: "bt_ok fo" "bt_get fo p = (if ?of p = [] then None else Some (snd (List.last (?of p))))" for p
    using facts get_folded [of "canonical_key npub_hex" snd raw p] by auto
  show "bt_ok fo" by (rule fo)
  {
    assume "(p, v) \<in> set fo"
    then have "?of p \<noteq> []" and v: "v = snd (List.last (?of p))" using fo bt_get_iff [OF fo(1), of p v] by (auto split: if_splits)
    then have "List.last (?of p) \<in> set (?of p)" by (intro last_in_set)
    with facts v show "\<exists>k. (k, v) \<in> set raw \<and> canonical_pubkey npub_hex k = Inr p"
      by (intro exI [of _ "fst (List.last (?of p))"]) auto
  next
    assume kv: "(k, v) \<in> set raw"
    let ?p = "canonical_key npub_hex (k, v)"
    have mem: "(k, v) \<in> set (?of ?p)" using kv by simp
    have "length (?of ?p) \<le> 1" using facts by blast
    with mem have "?of ?p = [(k, v)]" by (rule only_member)
    with fo(2) [of ?p] have "bt_get fo ?p = Some v" by simp
    moreover have "canonical_pubkey npub_hex k = Inr ?p" using facts kv by (metis fst_conv)
    ultimately show "\<exists>p. canonical_pubkey npub_hex k = Inr p \<and> bt_get fo p = Some v" by blast
  }
qed

lemma overrides_fixed:
  assumes "bt_ok fo" and "list_all (\<lambda>(p, v). lower_hex p) fo"
  shows "canonical_dev_fee_overrides npub_hex fo = Inr fo"
proof -
  have key: "canonical_pubkey npub_hex (fst x) = Inr (fst x)" if "x \<in> set fo" for x
    using assms(2) that canonical_hex(1) by (auto simp: list_all_iff)
  have dist: "distinct (map fst fo)" using assms(1) by (simp add: bt_ok_def strict_sorted_iff)
  have of_key: "filter (\<lambda>x. canonical_key npub_hex x = k) fo = filter (\<lambda>x. fst x = k) fo" for k
    by (rule filter_cong) (simp_all add: key)
  have one: "length (filter (\<lambda>x. fst x = k) fo) \<le> 1" for k
    using dist by (induction fo) (force simp: filter_empty_conv)+
  have "foldl (\<lambda>m x. bt_insert (canonical_key npub_hex x) (snd x) m) [] fo = fo"
  proof (rule bt_ext)
    show "bt_ok (foldl (\<lambda>m x. bt_insert (canonical_key npub_hex x) (snd x) m) [] fo)" using get_folded [of "canonical_key npub_hex" snd fo] by blast
    show "bt_ok fo" by (rule assms)
    fix k
    show "bt_get (foldl (\<lambda>m x. bt_insert (canonical_key npub_hex x) (snd x) m) [] fo) k = bt_get fo k"
    proof (cases "filter (\<lambda>x. fst x = k) fo")
      case Nil
      then have "bt_get fo k = None" by (auto simp: bt_get_def filter_empty_conv map_of_eq_None_iff)
      then show ?thesis using get_folded [of "canonical_key npub_hex" snd fo k] by (simp add: of_key Nil)
    next
      case (Cons x xs)
      then have "x \<in> set fo" "fst x = k" "xs = []" using one [of k] by (auto simp: filter_eq_Cons_iff)
      moreover from this have "bt_get fo k = Some (snd x)" using bt_get_iff [OF assms(1), of k "snd x"] by (cases x) auto
      ultimately show ?thesis using get_folded [of "canonical_key npub_hex" snd fo k] by (simp add: of_key Cons)
    qed
  qed
  with key one show ?thesis by (simp add: canonical_overrides_Inr all_canonical_def of_key)
qed

lemma normalized_Inr:
  "normalized npub_hex raw = Inr s \<longleftrightarrow> (\<exists>instances overrides.
     sum_traverse (canonical_pubkey npub_hex) (nx_instances (st_indexer raw)) = Inr instances \<and>
     canonical_dev_fee_overrides npub_hex (am_dev_fee_percentage (st_assumptions raw)) = Inr overrides \<and>
     s = raw\<lparr>st_indexer := (st_indexer raw)\<lparr>nx_instances := instances\<rparr>,
            st_assumptions := (st_assumptions raw)\<lparr>am_dev_fee_percentage := overrides\<rparr>,
            st_report := \<lparr>rx_reference_currency = map upper_char (trim (rx_reference_currency (st_report raw)))\<rparr>,
            st_publish := (st_publish raw)\<lparr>px_relays :=
              (if px_relays (st_publish raw) = [] then ns_relays (st_nostr raw) else px_relays (st_publish raw))\<rparr>\<rparr>)"
  unfolding normalized_def by (auto elim!: and_then_InrE)

lemma usable_iff_valid:
  assumes "decodes_to_hex npub_hex" and "normalized npub_hex raw = Inr s"
  shows "validate s = Inr () \<longleftrightarrow> settings_usable s"
proof -
  obtain ins ov where
    ins: "sum_traverse (canonical_pubkey npub_hex) (nx_instances (st_indexer raw)) = Inr ins"
    and ov: "canonical_dev_fee_overrides npub_hex (am_dev_fee_percentage (st_assumptions raw)) = Inr ov"
    and s: "nx_instances (st_indexer s) = ins" "am_dev_fee_percentage (st_assumptions s) = ov"
      "rx_reference_currency (st_report s) = map upper_char (trim (rx_reference_currency (st_report raw)))"
      "st_nostr s = st_nostr raw" "ns_relays (st_nostr s) \<noteq> [] \<Longrightarrow> px_relays (st_publish s) \<noteq> []"
    using assms(2) by (auto simp: normalized_Inr)
  have "map lower_char p = p" if "p \<in> set ins" for p
    using sum_traverse_all [OF ins] that canonical_lower [OF assms(1)] by blast
  then have pub: "validate_pubkey p = Inr () \<longleftrightarrow> lower_hex p" if "p \<in> set ins" for p
    using that by (auto simp: lower_hex_def list_all_iff map_eq_conv [of _ _ "\<lambda>c. c", simplified])
  have "map lower_char p = p" if "(p, v) \<in> set ov" for p v
    using overrides_from_raw(2) [OF ov that] canonical_lower [OF assms(1)] by blast
  then have key: "validate_pubkey p = Inr () \<longleftrightarrow> lower_hex p" if "(p, v) \<in> set ov" for p v
    using that by (auto simp: lower_hex_def list_all_iff map_eq_conv [of _ _ "\<lambda>c. c", simplified])
  have indexer: "validate_indexer s = Inr () \<longleftrightarrow> list_all lower_hex ins \<and>
      (ins \<noteq> [] \<or> nx_accept_unknown_instances (st_indexer s)) \<and> nx_networks (st_indexer s) \<noteq> [] \<and> 0 \<le> nx_backfill_from (st_indexer s)"
    using pub by (auto simp: validate_indexer_def Let_def and_then_Inr s list_all_iff simp del: pubkey_Inr)
  have assumptions: "validate_assumptions s = Inr () \<longleftrightarrow> fraction_ok (am_dev_fee_percentage_default (st_assumptions s)) \<and>
      list_all (\<lambda>(p, v). lower_hex p \<and> fraction_ok v) ov"
    using key by (fastforce simp: validate_assumptions_def Let_def and_then_Inr s list_all_iff simp del: pubkey_Inr)
  have report: "validate_report s = Inr () \<longleftrightarrow> currency_code (rx_reference_currency (st_report s))"
    by (auto simp: validate_report_def Let_def s currency_code_def list_all_iff upper_alphabetic)
  have relays: "validate_relays s = Inr () \<longleftrightarrow> ns_relays (st_nostr s) \<noteq> [] \<and> list_all websocket_url (ns_relays (st_nostr s))"
    by (auto simp: validate_relays_def and_then_Inr list_all_iff)
  have publish: "validate_publish s = Inr () \<longleftrightarrow>
      list_all websocket_url (px_relays (st_publish s)) \<and> 0 < px_max_content_bytes (st_publish s)"
    by (auto simp: validate_publish_def and_then_Inr list_all_iff)
  show ?thesis
    using s(5) overrides_from_raw(1) [OF ov]
    by (auto simp: validate_def validate_database_def and_then_Inr indexer assumptions report relays publish settings_usable_def s(1,2))
qed

lemma usable_fixed:
  assumes "settings_usable s"
  shows "normalized npub_hex s = Inr s"
proof -
  have "sum_traverse (canonical_pubkey npub_hex) ps = Inr ps" if "list_all lower_hex ps" for ps
    using that by (induction ps) (simp_all add: canonical_hex)
  then have "sum_traverse (canonical_pubkey npub_hex) (nx_instances (st_indexer s)) = Inr (nx_instances (st_indexer s))"
    using assms by (simp add: settings_usable_def)
  moreover have "canonical_dev_fee_overrides npub_hex (am_dev_fee_percentage (st_assumptions s)) = Inr (am_dev_fee_percentage (st_assumptions s))"
    using assms by (intro overrides_fixed) (auto simp: settings_usable_def list_all_iff)
  moreover have "map upper_char (trim code) = code" if "currency_code code" for code
  proof -
    have ne: "code \<noteq> []" and up: "\<And>c. c \<in> set code \<Longrightarrow> is_ascii_uppercase c" using that by (auto simp: currency_code_def list_all_iff)
    then have "graphic c" if "c \<in> set code" for c using that by (force simp: graphic_def is_ascii_uppercase_def less_eq_char_def)
    with ne up show ?thesis by (simp add: trim_graphic map_idI)
  qed
  then have "map upper_char (trim (rx_reference_currency (st_report s))) = rx_reference_currency (st_report s)"
    using assms by (simp add: settings_usable_def)
  ultimately show ?thesis using assms by (simp add: normalized_Inr settings_usable_def)
qed

lemma settings_from_Inr:
  assumes "decodes_to_hex npub_hex"
  shows "settings_from npub_hex (Inr raw) = Inr s \<longleftrightarrow> normalized npub_hex raw = Inr s \<and> settings_usable s"
  using usable_iff_valid [OF assms, of raw s]
  by (auto simp: settings_from_def validated_def map_sum_Inr and_then_Inr)

lemma accepted_overrides:
  assumes "settings_usable s" and "normalized npub_hex raw = Inr s"
    and "(key, v) \<in> set (am_dev_fee_percentage (st_assumptions raw))"
  shows "\<exists>p. canonical_pubkey npub_hex key = Inr p \<and> dev_fee_percentage_for (st_assumptions s) p = v"
proof -
  have "canonical_dev_fee_overrides npub_hex (am_dev_fee_percentage (st_assumptions raw)) = Inr (am_dev_fee_percentage (st_assumptions s))"
    using assms(2) by (auto simp: normalized_Inr)
  from overrides_from_raw(3) [OF this assms(3)] obtain p where
    p: "canonical_pubkey npub_hex key = Inr p" "bt_get (am_dev_fee_percentage (st_assumptions s)) p = Some v" by blast
  have "lower_hex p" using bt_get_Some_in [OF p(2)] assms(1) by (auto simp: settings_usable_def list_all_iff)
  with p show ?thesis by (auto simp: dev_fee_percentage_for_def canonical_hex)
qed

lemma accepted_share:
  assumes "settings_usable s"
  shows "fraction_ok (dev_fee_percentage_for (st_assumptions s) pubkey)"
  using assms by (auto simp: dev_fee_percentage_for_def settings_usable_def list_all_iff dest!: bt_get_Some_in split: option.splits)

lemma accepted_policy:
  assumes "settings_usable s"
  shows "po_instances (settings_policy s) = nx_instances (st_indexer s)"
  using assms by (auto simp: settings_policy_def policy_new_def settings_usable_def list_all_iff canonical_hex intro!: map_idI)

text \<open>Every relay of an accepted configuration is asked over HTTP at its own host and path.\<close>

lemma websocket_asked:
  "websocket_url url \<Longrightarrow> http_url url = (if starts_with ''wss://'' url then ''https://'' @ drop 6 url else ''http://'' @ drop 5 url)"
  by (auto simp: websocket_url_def starts_with_def prefix_def http_url_def)

text \<open>
  C14. Loading a configuration succeeds exactly when what the file and the environment say can be folded to its
  canonical form and that form is usable: there are relays and each is a websocket, every instance is a
  lower-case hex key, something is indexed, every assumed share is a fraction, and so on for
  each rule. What is accepted is a fixed point of loading, an override counts for its instance
  however the file spelled the key, every instance is assumed to forward a share above zero and at most one, and
  the pipeline admits the instances the file lists.
\<close>

theorem settings_accepted_exactly:
  assumes "decodes_to_hex npub_hex"
  shows "(settings_load npub_hex sources = Inr s \<longleftrightarrow>
      (\<exists>raw. sources True = Inr raw \<and> normalized npub_hex raw = Inr s \<and> settings_usable s)) \<and>
    (settings_load npub_hex sources = Inr s \<longrightarrow>
      settings_from npub_hex (Inr s) = Inr s \<and>
      po_instances (settings_policy s) = nx_instances (st_indexer s) \<and>
      (\<forall>pubkey. fraction_ok (dev_fee_percentage_for (st_assumptions s) pubkey)) \<and>
      (\<forall>raw key v. sources True = Inr raw \<and> (key, v) \<in> set (am_dev_fee_percentage (st_assumptions raw)) \<longrightarrow>
        (\<exists>p. canonical_pubkey npub_hex key = Inr p \<and> dev_fee_percentage_for (st_assumptions s) p = v)))"
proof -
  have "settings_load npub_hex sources = Inr s \<longleftrightarrow>
      (\<exists>raw. sources True = Inr raw \<and> normalized npub_hex raw = Inr s \<and> settings_usable s)"
    using settings_from_Inr [OF assms]
    by (cases "sources True") (auto simp: settings_load_def load_with_def settings_from_def)
  then show ?thesis
    using settings_from_Inr [OF assms, of s s] usable_fixed accepted_policy accepted_share accepted_overrides by auto
qed

definition example_raw :: settings where
  "example_raw =
     \<lparr>st_nostr = nostr_default\<lparr>ns_relays := [''wss://relay'']\<rparr>,
      st_indexer = indexer_default\<lparr>nx_instances := [replicate 64 (CHR ''a'')]\<rparr>,
      st_assumptions = \<lparr>am_dev_fee_percentage_default = F64_Fin False (1 / 4),
        am_dev_fee_percentage = [(replicate 64 (CHR ''a''), F64_Fin False (1 / 2))]\<rparr>,
      st_database = database_default, st_report = \<lparr>rx_reference_currency = ''usd''\<rparr>, st_publish = publish_default\<rparr>"

theorem settings_accepted_exactly_witness:
  "\<exists>s. settings_load (\<lambda>_. Inl ''no'') (\<lambda>_. Inr example_raw) = Inr s \<and> px_relays (st_publish s) = [''wss://relay''] \<and>
     dev_fee_percentage_for (st_assumptions s) (replicate 64 (CHR ''a'')) = F64_Fin False (1 / 2)"
proof -
  let ?key = "replicate 64 (CHR ''a'')"
  let ?s = "example_raw\<lparr>st_report := \<lparr>rx_reference_currency = ''USD''\<rparr>, st_publish := publish_default\<lparr>px_relays := [''wss://relay'']\<rparr>\<rparr>"
  have hex: "lower_hex ?key"
    by (simp add: lower_hex_def list_all_iff is_ascii_hexdigit_def lower_char_def)
  have usable: "settings_usable ?s"
    using hex by (simp add: settings_usable_def example_raw_def nostr_default_def indexer_default_def publish_default_def
        database_default_def default_networks_def default_database_url_def websocket_url_def starts_with_def fraction_ok_def
        bt_ok_def currency_code_def is_ascii_uppercase_def less_eq_char_def default_max_content_bytes_def DEFAULT_MAX_CONTENT_BYTES_def)
  have "trim ''usd'' = ''usd''" by (rule trim_graphic) (simp_all add: graphic_def)
  moreover have "map upper_char ''usd'' = ''USD''" by code_simp
  ultimately have "normalized (\<lambda>_. Inl ''no'') example_raw = Inr ?s"
    using usable_fixed [OF usable, of "\<lambda>_. Inl ''no''"]
    by (auto simp: normalized_def example_raw_def nostr_default_def publish_default_def Let_def and_then_Inr)
  moreover have "lower_char (CHR ''a'') = CHR ''a''" by code_simp
  ultimately show ?thesis
    using usable settings_accepted_exactly [of "\<lambda>_. Inl ''no''" "\<lambda>_. Inr example_raw" ?s]
    by (intro exI [of _ ?s]) (auto simp: decodes_to_hex_def publish_default_def canonical_hex [OF hex] example_raw_def
        dev_fee_percentage_for_def bt_get_def)
qed

end
