(* ===== verification/Commands.thy ===== *)
theory Commands
  imports Reading Requests Settings
begin

text \<open>
  The commands that answer from the archive: the invocation (\<open>src/cli.rs\<close>), the query every report resolves
  (\<open>src/commands/query.rs\<close>), one report per command (\<open>src/commands/stats\<close>, \<open>summary.rs\<close>, \<open>compare.rs\<close>,
  \<open>instances.rs\<close>, \<open>market.rs\<close>, \<open>order.rs\<close>, \<open>series.rs\<close>), the dispatch (\<open>src/commands/mod.rs\<close>) and what is shown
  (\<open>src/report\<close>). \<open>clap\<close>, the drawing of a table and \<open>serde_json\<close> are parameters. A report is
  \<open>Inl\<close> the error it is refused with or \<open>Inr\<close> its metrics, \<open>Inr None\<close> where the aggregation crate would not
  return or would panic. The lemmas show that over any history of the archive a report is only ever refused
  for what was asked.
\<close>

section \<open>The invocation\<close>











record cli =
  cl_json :: bool
  cl_from :: "i64 option"
  cl_until :: "i64 option"
  cl_instance :: "str option"
  cl_network :: "network option"

datatype timestamp_error = Before_The_Epoch str | Not_A_Timestamp str

text \<open>
  \<open>--from\<close> and \<open>--until\<close>: \<open>NaiveDate::parse_from_str\<close> is the parameter, and \<open>None\<close> is the panic of the \<open>expect\<close>.
\<close>

definition parse_timestamp :: "chrono \<Rightarrow> (str \<Rightarrow> naive_date option) \<Rightarrow> str \<Rightarrow> (timestamp_error + i64) option" where
  "parse_timestamp ch parse_date value =
     (case i64_from_str value of
        Some timestamp \<Rightarrow> Some (if timestamp < 0 then Inl (Before_The_Epoch value) else Inr timestamp)
      | None \<Rightarrow>
          (case parse_date value of
             None \<Rightarrow> Some (Inl (Not_A_Timestamp value))
           | Some date \<Rightarrow> map_option Inr (date_midnight ch date)))"

section \<open>The query\<close>

record query =
  qy_range :: time_range
  qy_scope :: load_scope
  qy_network_narrowed :: bool

datatype command_error =
  Cmd_Range range_error
  | Cmd_No_Events
  | Cmd_Instance instance_error
  | Cmd_Network_Scope
  | Cmd_Currency str
  | Cmd_No_Instance
  | Cmd_Unknown_Pubkey str
  | Cmd_Unknown_Metric str "str list"
  | Cmd_Series series_error
  | Cmd_Unseen_Order str
  | Cmd_Row row_error
  | Cmd_Feeds feeds_error


definition query_resolve_for ::
  "network list \<Rightarrow> cli \<Rightarrow> database \<Rightarrow> str option \<Rightarrow> i64 \<Rightarrow> command_error + query" where
  "query_resolve_for configured cli db instance now =
     and_then (map_sum Cmd_Range (\<lambda>r. r) (range_resolve (cl_from cli) (cl_until cli) now)) (\<lambda>range.
     if events_is_empty db then Inl Cmd_No_Events
     else
       let known = map (\<lambda>i. (ir_pubkey i, ir_name i)) (instances_all db) in
       and_then (map_sum Cmd_Instance (\<lambda>f. f) (instance_resolve instance known)) (\<lambda>filt.
       let pubkey = (case filt of All_Instances \<Rightarrow> None | One_Instance p \<Rightarrow> Some p);
           networks = (case cl_network cli of Some net \<Rightarrow> [net] | None \<Rightarrow> configured)
       in Inr \<lparr>qy_range = range, qy_scope = \<lparr>ls_pubkey = pubkey, ls_networks = networks\<rparr>,
               qy_network_narrowed = (cl_network cli \<noteq> None)\<rparr>))"

definition query_resolve :: "network list \<Rightarrow> cli \<Rightarrow> database \<Rightarrow> i64 \<Rightarrow> command_error + query" where
  "query_resolve configured cli db now = query_resolve_for configured cli db (cl_instance cli) now"



section \<open>The families\<close>

















section \<open>The views\<close>










section \<open>A metric over time\<close>






section \<open>Dispatch\<close>




section \<open>What is shown\<close>

datatype output_format = Format_Table | Format_Json

definition format_from_flag :: "bool \<Rightarrow> output_format" where
  "format_from_flag json = (if json then Format_Json else Format_Table)"

record shown_report =
  sr_generated_at :: str
  sr_from :: str
  sr_until :: str
  sr_metrics :: "metric list"

definition format_timestamp :: "chrono \<Rightarrow> i64 \<Rightarrow> str" where
  "format_timestamp ch t =
     (case from_timestamp ch t of Some d \<Rightarrow> dt_to_rfc3339 ch d | None \<Rightarrow> show_int t)"

definition range_to_rfc3339 :: "chrono \<Rightarrow> time_range \<Rightarrow> str \<times> str" where
  "range_to_rfc3339 ch r = (format_timestamp ch (tr_from r), format_timestamp ch (tr_until r))"

definition report_new :: "chrono \<Rightarrow> time_range \<Rightarrow> metric list \<Rightarrow> i64 \<Rightarrow> shown_report" where
  "report_new ch r metrics now =
     (case range_to_rfc3339 ch r of (lo, hi) \<Rightarrow>
        \<lparr>sr_generated_at = format_timestamp ch now, sr_from = lo, sr_until = hi, sr_metrics = metrics\<rparr>)"

definition labelled :: "metric \<Rightarrow> str" where
  "labelled m = (case m_kind m of Observed \<Rightarrow> m_name m | Inferred \<Rightarrow> m_name m @ '' (inf)'')"

definition em_dash :: str where
  "em_dash = [CHR 0xE2, CHR 0x80, CHR 0x94]"

definition shown_duration :: "i64 \<Rightarrow> str" where
  "shown_duration seconds =
     (if seconds < 60 then show_int seconds @ ''s''
      else if seconds < 3600 then fixed_f64 1 (f64_div (f64_of_int seconds) (f64_of_int 60)) @ ''m''
      else if seconds < 86400 then fixed_f64 1 (f64_div (f64_of_int seconds) (f64_of_int 3600)) @ ''h''
      else fixed_f64 1 (f64_div (f64_of_int seconds) (f64_of_int 86400)) @ ''d'')"

definition display_value :: "val \<Rightarrow> str" where
  "display_value v =
     (case normalised v of
        V_Count n \<Rightarrow> show_int n
      | V_Sats n \<Rightarrow> show_int n @ '' sats''
      | V_Ratio r \<Rightarrow> fixed_f64 1 (f64_mul r (f64_of_int 100)) @ ''%''
      | V_Seconds n \<Rightarrow> shown_duration n
      | V_Fiat a code \<Rightarrow> fixed_f64 2 a @ '' '' @ code
      | V_Text t \<Rightarrow> t
      | V_Missing \<Rightarrow> em_dash)"

text \<open>The cells of a table; \<open>comfy_table\<close> draws a header and its rows.\<close>

definition table_cells :: "shown_report \<Rightarrow> str list \<times> str list list" where
  "table_cells rep =
     (let has_errors = list_ex (\<lambda>m. m_error m \<noteq> None) (sr_metrics rep) in
      ([''metric'', ''value''] @ (if has_errors then [''error''] else []),
       map (\<lambda>m. [labelled m, display_value (m_value m)] @ (if has_errors then [map_or [] (\<lambda>e. e) (m_error m)] else []))
         (sr_metrics rep)))"

definition titled :: "shown_report \<Rightarrow> str \<Rightarrow> str" where
  "titled rep table = sr_from rep @ '' '' @ em_dash @ '' '' @ sr_until rep @ [CHR 0x0A] @ table @ [CHR 0x0A]"

definition strip_suffix :: "str \<Rightarrow> str \<Rightarrow> str option" where
  "strip_suffix ending s = (if ends_with ending s then Some (take (length s - length ending) s) else None)"

fun find_column :: "str list \<Rightarrow> nat \<Rightarrow> str \<Rightarrow> (str \<times> nat) option" where
  "find_column [] i rest = None"
| "find_column (column # columns) i rest =
     (case Option.bind (strip_suffix column rest) (strip_suffix ''.'') of
        Some key \<Rightarrow> Some (key, i)
      | None \<Rightarrow> find_column columns (i + 1) rest)"

definition grid_cell :: "metric \<Rightarrow> str" where
  "grid_cell m = display_value (m_value m) @ (if m_kind m = Inferred then '' (inf)'' else [])"

fun set_cell :: "nat \<Rightarrow> str \<Rightarrow> nat \<Rightarrow> str \<Rightarrow> (str \<times> str list) list \<Rightarrow> (str \<times> str list) list" where
  "set_cell width key column shown [] = [(key, (replicate width [])[column := shown])]"
| "set_cell width key column shown ((row, cells) # rows) =
     (if row = key then (row, cells[column := shown]) # rows
      else (row, cells) # set_cell width key column shown rows)"

definition grid_step ::
  "str \<Rightarrow> str list \<Rightarrow> (str \<times> str list) list \<Rightarrow> metric \<Rightarrow> (str \<times> str list) list" where
  "grid_step pfx columns rows m =
     (case Option.bind (strip_prefix pfx (m_name m)) (strip_prefix ''.'') of
        None \<Rightarrow> rows
      | Some rest \<Rightarrow>
          (case find_column columns 0 rest of
             None \<Rightarrow> rows
           | Some (key, column) \<Rightarrow> set_cell (length columns) key column (grid_cell m) rows))"

definition grid_rows :: "str \<Rightarrow> str list \<Rightarrow> metric list \<Rightarrow> (str \<times> str list) list" where
  "grid_rows pfx columns metrics = foldl (grid_step pfx columns) [] metrics"

definition grid_cells :: "shown_report \<Rightarrow> str \<Rightarrow> str \<Rightarrow> str list \<Rightarrow> str list \<times> str list list" where
  "grid_cells rep row_label pfx columns =
     (row_label # columns, map (\<lambda>(key, cells). key # cells) (grid_rows pfx columns (sr_metrics rep)))"

definition report_render ::
  "(str list \<times> str list list \<Rightarrow> str) \<Rightarrow> (shown_report \<Rightarrow> str) \<Rightarrow> shown_report \<Rightarrow> output_format \<Rightarrow> str" where
  "report_render draw json rep fmt =
     (case fmt of Format_Table \<Rightarrow> titled rep (draw (table_cells rep)) | Format_Json \<Rightarrow> json rep)"

definition report_render_rows ::
  "(str list \<times> str list list \<Rightarrow> str) \<Rightarrow> (shown_report \<Rightarrow> str) \<Rightarrow> shown_report \<Rightarrow> output_format \<Rightarrow> str \<Rightarrow> str \<Rightarrow> str list \<Rightarrow> str" where
  "report_render_rows draw json rep fmt row_label pfx columns =
     (case fmt of Format_Table \<Rightarrow> titled rep (draw (grid_cells rep row_label pfx columns)) | Format_Json \<Rightarrow> json rep)"

section \<open>Reading the archive never fails\<close>







section \<open>Every report answers\<close>

text \<open>The errors that are about the request, not about what the archive holds.\<close>

fun request_error :: "command_error \<Rightarrow> bool" where
  "request_error (Cmd_Row _) = False"
| "request_error (Cmd_Feeds _) = False"
| "request_error Cmd_No_Instance = False"
| "request_error (Cmd_Unknown_Pubkey _) = False"
| "request_error _ = True"

definition answers :: "command_error + metric list option \<Rightarrow> bool" where
  "answers r \<longleftrightarrow> (case r of Inl e \<Rightarrow> request_error e | Inr ms \<Rightarrow> ms \<noteq> None)"

definition answered :: "command_error + time_range \<times> metric list option \<Rightarrow> bool" where
  "answered r \<longleftrightarrow> (case r of Inl e \<Rightarrow> request_error e | Inr (_, ms) \<Rightarrow> ms \<noteq> None)"

lemma answer_simps [simp]:
  "answers (Inl e) = request_error e" "answers (Inr (Some ms))" "answered (Inl e) = request_error e"
  "answered (Inr (r, out)) \<longleftrightarrow> out \<noteq> None"
  by (simp_all add: answers_def answered_def)




















section \<open>The grid of a comparison\<close>

lemma strip_column:
  "Option.bind (strip_suffix c rest) (strip_suffix ''.'') = Some key \<longleftrightarrow> rest = key @ ''.'' @ c"
proof -
  have "Option.bind (strip_suffix c rest) (strip_suffix ''.'') = Some key" if "rest = key @ ''.'' @ c"
    using that by (simp add: strip_suffix_def ends_with_def suffix_def)
  moreover have "rest = key @ ''.'' @ c" if "Option.bind (strip_suffix c rest) (strip_suffix ''.'') = Some key"
    using that by (auto simp: strip_suffix_def ends_with_def suffix_def bind_eq_Some_conv split: if_splits)
  ultimately show ?thesis by blast
qed

lemma last_dot:
  assumes "a @ ''.'' @ c = b @ ''.'' @ d" and "CHR ''.'' \<notin> set c" and "CHR ''.'' \<notin> set d"
  shows "a = b \<and> c = d"
proof -
  have dot: "takeWhile (\<lambda>x. x \<noteq> CHR ''.'') (rev (x @ ''.'' @ y)) = rev y" if "CHR ''.'' \<notin> set y" for x y :: str
    using that takeWhile_append2 [of "rev y" "\<lambda>x. x \<noteq> CHR ''.''" "CHR ''.'' # rev x"] by auto
  from arg_cong [OF assms(1), of "\<lambda>z. takeWhile (\<lambda>x. x \<noteq> CHR ''.'') (rev z)"]
  have "c = d" unfolding dot [OF assms(2)] dot [OF assms(3)] by simp
  with assms(1) show ?thesis by simp
qed

lemma find_column_at:
  assumes "i < length columns" and "distinct columns" and "\<forall>c \<in> set columns. CHR ''.'' \<notin> set c"
  shows "find_column columns k (key @ ''.'' @ columns ! i) = Some (key, k + i)"
  using assms
proof (induction columns arbitrary: i k)
  case (Cons c columns)
  show ?case
  proof (cases i)
    case 0
    then show ?thesis using strip_column [of c "key @ ''.'' @ c" key] by simp
  next
    case (Suc j)
    have "c \<noteq> columns ! j" using Cons.prems Suc by auto
    then have "Option.bind (strip_suffix c (key @ ''.'' @ columns ! j)) (strip_suffix ''.'') = None"
      using Cons.prems Suc last_dot [of key "columns ! j" _ c] strip_column [of c "key @ ''.'' @ columns ! j"]
      by (metis Suc_less_eq length_Cons list.set_intros nth_mem option.exhaust)
    with Cons.IH [of j "k + 1"] Cons.prems Suc show ?thesis by simp
  qed
qed simp

lemma set_cell_simps:
  assumes "key \<notin> fst ` set rows"
  shows "set_cell n key i x rows = rows @ [(key, (replicate n [])[i := x])]"
    and "set_cell n key i x (rows @ [(key, cells)]) = rows @ [(key, cells[i := x])]"
  using assms by (induction rows) auto

lemma grid_block:
  assumes names: "map m_name ms = map (\<lambda>c. pfx @ ''.'' @ label @ ''.'' @ c) columns"
    and columns: "distinct columns" "\<forall>c \<in> set columns. CHR ''.'' \<notin> set c" "columns \<noteq> []"
    and new: "label \<notin> fst ` set rows"
  shows "foldl (grid_step pfx columns) rows ms = rows @ [(label, map grid_cell ms)]"
proof -
  let ?n = "length columns"
  have len: "length ms = ?n" using arg_cong [OF names, of length] by simp
  have name: "m_name (ms ! j) = pfx @ ''.'' @ label @ ''.'' @ columns ! j" if "j < ?n" for j
    using arg_cong [OF names, of "\<lambda>xs. xs ! j"] that len by simp
  have step: "grid_step pfx columns r (ms ! j) = set_cell ?n label j (grid_cell (ms ! j)) r" if "j < ?n" for j r
    using find_column_at [OF that columns(1,2), of 0 label]
    by (simp add: grid_step_def name [OF that] strip_prefix_def)
  have "foldl (grid_step pfx columns) rows (take j ms) =
      (if j = 0 then rows else rows @ [(label, map grid_cell (take j ms) @ replicate (?n - j) [])])" if "j \<le> ?n" for j
    using that
  proof (induction j)
    case (Suc j)
    then have j: "j < ?n" by simp
    have fill: "(map grid_cell (take j ms) @ replicate (?n - j) [])[j := x] = map grid_cell (take j ms) @ x # replicate (?n - Suc j) []" for x
      using j len by (simp add: list_update_append Suc_diff_Suc [symmetric])
    from Suc.IH j fill show ?case
      by (cases "j = 0") (simp_all add: take_Suc_conv_app_nth len step set_cell_simps [OF new] list_update_append)
  qed simp
  from this [of ?n] columns(3) len show ?thesis by simp
qed

text \<open>
  The grid of \<open>compare\<close> has one row per instance, in the order of the bestiary, and under each column the figure the
  report computed for that instance: no figure is lost, moved or overwritten, whatever dots a name holds.
\<close>

theorem compare_grid_exact:
  assumes "distinct (map pf_label profiles)"
  shows "grid_rows ''compare'' COLUMNS (compare_report profiles orders fees dsp w now) =
    map (\<lambda>p. (pf_label p, map grid_cell (compare_report [p] orders fees dsp w now))) profiles"
  using assms
proof (induction profiles rule: rev_induct)
  case Nil
  show ?case by (simp add: grid_rows_def compare_report_def Let_def)
next
  case (snoc p profiles)
  let ?block = "compare_report [p] orders fees dsp w now"
  have split: "compare_report (profiles @ [p]) orders fees dsp w now = compare_report profiles orders fees dsp w now @ ?block"
    by (simp add: compare_report_def Let_def)
  have "foldl (grid_step ''compare'' COLUMNS) rows ?block = rows @ [(pf_label p, map grid_cell ?block)]"
    if "pf_label p \<notin> fst ` set rows" for rows
  proof (rule grid_block [OF _ _ _ _ that])
    show "map m_name ?block = map (\<lambda>c. ''compare'' @ ''.'' @ pf_label p @ ''.'' @ c) COLUMNS"
      by (simp add: compare_report_def Let_def COLUMNS_def)
  qed (simp_all add: COLUMNS_def)
  with snoc show ?case by (simp add: grid_rows_def split image_image)
qed

end
