(* ===== verification/Spec2Isabelle.thy ===== *)
theory Spec2Isabelle
  imports Converted Publishing Sync Commands
begin

text \<open>
  \<^bold>\<open>Bestiario\<close>, an indexer of the Mostro peer-to-peer exchange over Nostr: it reads the events the instances
  publish, keeps them in an archive with projections derived from it, reports statistics over
  windows of time, and publishes a snapshot of those statistics as signed events of its own. The
  program is two crates: the aggregation crate \<open>crates/stats\<close>, which is pure, and the binary under
  \<open>src\<close>, which holds the archive, talks to the relays and prints. Paths below are relative to the repository.

  \<^bold>\<open>How the parts interact.\<close> \<open>backfill\<close> and \<open>sync\<close> ask the relays for the indexed kinds and hand every event to the
  ingest pipeline. The pipeline admits it, parses it and, in one transaction, stores the raw event, the version
  it carries and the projection of its order, dispute or instance; \<open>rebuild\<close> derives the same tables again from
  the raw events. The loaders read the tables into the records of the aggregation crate, whose reports the commands print,
  and whose snapshot \<open>publish\<close> restates against what was published before, signs, sends and records.

  \<^bold>\<open>Conventions.\<close> A \<open>String\<close> is its UTF-8 bytes; \<open>i64\<close> is \<^typ>\<open>int\<close> with the wrapping of release arithmetic written out
  (\<open>i64_add\<close>, \<open>wrap_i64\<close>, the saturating and checked variants where the source uses them), \<open>usize\<close> and \<open>u64\<close> are
  \<^typ>\<open>nat\<close>, cast where the source casts; \<open>f64\<close> is the binary64 of \<open>F64\<close>, with rounding, infinities and NaN. A
  \<open>BTreeMap\<close> is a sorted association list, a table a map under its primary key, a struct a record, an enum
  a datatype, a \<open>Result\<close> a sum with the error on the left. \<open>None\<close> as the result of a loop or of a calendar
  operation is not returning or a panic, and the theorems show it does not occur.

  \<^bold>\<open>The theories\<close>, in the order they build on each other.

  \<^item> \<open>Prelude\<close>, \<open>Texts\<close>, \<open>F64\<close>, \<open>BTree\<close>: machine integers, options, printed numbers, splitting and joining,
    wire vocabularies, floating point, maps and grouping.
  \<^item> \<open>Calendar\<close>, \<open>Windows\<close>: what is relied on of \<open>chrono\<close>, with a Gregorian calendar that satisfies it, and
    \<open>window.rs\<close>: half-open windows and the bounded walk over calendar buckets.
  \<^item> \<open>Address\<close>: \<open>publish/address.rs\<close>, the grammar of the \<open>d\<close> tags.
  \<^item> \<open>Metrics\<close>, \<open>Coverage\<close>, \<open>Activity\<close>, \<open>Volume\<close>, \<open>Rates\<close>, \<open>Converted\<close>, \<open>Disputes\<close>, \<open>DevFees\<close>, \<open>Timing\<close>, \<open>Market\<close>, \<open>Views\<close>,
    \<open>TimeSeries\<close>, \<open>Feeds\<close>: one theory per family of the aggregation crate (\<open>metric.rs\<close> and \<open>percentile.rs\<close>,
    \<open>bucket.rs\<close>, \<open>activity.rs\<close>, \<open>volume.rs\<close>, \<open>rates.rs\<close>, \<open>volume/converted.rs\<close>, \<open>disputes.rs\<close>, \<open>dev_fees.rs\<close>, \<open>timing.rs\<close>, \<open>market.rs\<close>,
    then \<open>instances.rs\<close>, \<open>summary.rs\<close>, \<open>compare.rs\<close> and \<open>lifecycle.rs\<close>, \<open>series.rs\<close>, \<open>rates/feeds.rs\<close>).
  \<^item> \<open>Document\<close>, \<open>Restatement\<close>, \<open>Snapshot\<close>, \<open>Index\<close>, \<open>Computed\<close>: \<open>publish/document.rs\<close>, \<open>restatement.rs\<close>, \<open>snapshot.rs\<close>,
    \<open>index.rs\<close> and \<open>size.rs\<close>; the last theory holds what \<open>Snapshot::compute\<close> publishes as a whole.
  \<^item> \<open>Sending\<close>, \<open>Published\<close>, \<open>Publishing\<close>: \<open>nostr/signer.rs\<close> and the concurrent sending as a step relation, the
    publication tables of \<open>db/repo/published.rs\<close>, and the command \<open>commands/publish.rs\<close>.
  \<^item> \<open>Tables\<close>, \<open>Csv\<close>, \<open>Parsing\<close>, \<open>Projection\<close>, \<open>Repos\<close>: the laws of upserts and projections, the list columns, the
    parsers of \<open>ingest/parse\<close>, and the repositories of \<open>db/repo\<close>.
  \<^item> \<open>Pipeline\<close>, \<open>Ingestion\<close>, \<open>Delivery\<close>: \<open>ingest/pipeline.rs\<close> and \<open>commands/rebuild.rs\<close>, the archives they can leave behind,
    and what does not depend on the order of arrival.
  \<^item> \<open>Requests\<close>, \<open>Backfill\<close>, \<open>Sync\<close>: \<open>commands/range.rs\<close>, \<open>commands/relays.rs\<close>, \<open>nostr/filters.rs\<close>, \<open>nostr/client.rs\<close>,
    \<open>commands/backfill.rs\<close> and \<open>commands/sync.rs\<close>.
  \<^item> \<open>Loading\<close>, \<open>Reading\<close>: \<open>db/load\<close>, and that an archive reads back.
  \<^item> \<open>Settings\<close>, \<open>Commands\<close>: \<open>config\<close>, \<open>nostr/nip11.rs\<close>, \<open>cli.rs\<close>, the reporting commands and \<open>report\<close>.

  \<^bold>\<open>Interfaces.\<close> \<open>entry_map\<close> (a map with entries), \<open>wire_enum\<close> (an enum and its wire form), \<open>sample_order\<close> (what sorting relies on),
  \<open>stepping\<close> (a walk that moves forward), \<open>chrono_laws\<close> (the calendar; each of its four periods is a \<open>stepping\<close>), \<open>windowed\<close>
  (figures that add up over adjacent windows), \<open>arrival\<close> (an operation whose order does not matter), \<open>upserts\<close> (a merge under a
  key, which gives an \<open>arrival\<close>) and \<open>projection\<close> (a row that is a function of its versions) are locales; each is
  interpreted on the model's own operations, and the properties rest on those interpretations.

  \<^bold>\<open>State and histories.\<close> \<open>database\<close> is the record of all tables. \<open>archive_history\<close> holds of every database the
  commands can leave behind: from the empty one, by deliveries in any order and with any repetition, requests, dialled
  relays and rebuilds. \<open>publish_history\<close> does the same for the publication tables, \<open>send_step\<close> is the
  sending of one snapshot with answers in any order, and \<open>sync_step\<close> the live loop under anything relays, clock and
  operator may do.

  \<^bold>\<open>What is shown.\<close>

  \<^item> The archive: the projections equal those of a replay of the stored events, the trades do not depend on the order or
    repetition of deliveries, \<open>rebuild\<close> restores, redelivery changes nothing, what is refused is explained, only
    vouched publishers are stored, one dev fee counts per order, cursors only advance.
  \<^item> Fetching: the backward walk ends and, of a relay that answers honestly, stores all there is in the
    window; \<open>sync\<close> resumes from its cursors and in every state it reaches only asks what it may, keeps
    the archive a history and backs off within bounds.
  \<^item> Reading: every stored order reads back as its history says, every loader succeeds, every reporting command answers, and
    any archive can be published.
  \<^item> Figures: buckets tile a window, withheld and answered partitions are exact, percentiles are nearest ranks, counts
    and volumes add up over slices and windows, every order is accounted for by a conversion and every fee by the implied volume.
  \<^item> Publication: \<open>Snapshot::compute\<close> returns and its addresses are exactly those documented, addresses parse exactly as they
    print, a document is sent exactly when it is new, changed, forced or restated, revisions count changes, the
    concurrent sending refines the sequential one, and the tables record only what was accepted.
  \<^item> Configuration: what is accepted is exactly what is usable once folded to its canonical form.

  \<^bold>\<open>Bounds and fuel.\<close> The calendar walks, the partitions of months and the weeks of an archive are \<open>partial_function (option)\<close>;
  that they return is proved from the calendar laws. A series stops at \<open>MAX_BUCKETS = 800\<close>, an order of refusal the
  theorems keep. A page walk of \<open>backfill\<close> has one unit of fuel per second of its window and one more: every page moves the
  upper bound down by at least a second, which is what the theorem uses. Discovery makes at most three rounds, sixteen events are in
  flight, and the back-off stays between one second and sixty. Revisions saturate at the largest \<open>u32\<close>.

  \<^bold>\<open>Parameters and hypotheses.\<close> What is not in the repository is an argument: \<open>chrono\<close>, \<open>serde_json\<close> and
  \<open>sha2\<close> (the wire form and hash of a payload), \<open>nostr_sdk\<close> (signatures, keys, URLs, the answers of relays), \<open>uuid\<close>,
  \<open>config\<close>, \<open>clap\<close> and \<open>comfy_table\<close>. The hypotheses on them are the documented ones: the laws of the calendar, that an
  honest relay returns the newest events matching a filter, that the JSON of an event and of a rate table reads
  back, that a decoded key prints as hexadecimal. Seconds are assumed to fit \<open>i64\<close> where an event is stored.

  \<^bold>\<open>Not modelled.\<close> Failures of SQLite and of the file system, the migrations and the connection (\<open>db/mod.rs\<close>),
  sockets and HTTP, the log (\<open>logging.rs\<close>), the drawing of tables, \<open>clap\<close>'s declarations beyond the values they produce, and
  the entry points: they do I/O or only declare. \<open>to_lowercase\<close> and \<open>to_uppercase\<close> act on the ASCII letters. A debug build, which
  panics where arithmetic wraps, is not modelled.
\<close>

end
